(* ===== verification/Quorums.thy ===== *)
theory Quorums
  imports Main
begin

text \<open>
  Quorums by counting. \<open>quorum_system\<close> is the contract a client of a quorum relies on (any two
  quorums meet); \<open>threshold\<close> is how the program provides it: a quorum is any set of at least
  \<open>k\<close> of the processes, where more than half of them are needed.
\<close>

locale quorum_system =
  fixes quorum :: "'p set \<Rightarrow> bool"
  assumes meet: "quorum Q \<Longrightarrow> quorum R \<Longrightarrow> Q \<inter> R \<noteq> {}"
begin

lemma quorum_nonempty: "quorum Q \<Longrightarrow> Q \<noteq> {}"
  using meet by blast

lemma quorum_agree:
  assumes "quorum Q" "quorum R" "\<And>p. p \<in> Q \<Longrightarrow> f p = a" "\<And>p. p \<in> R \<Longrightarrow> f p = b"
  shows "a = b"
  using meet [OF assms(1,2)] assms(3,4) by blast

end

locale threshold =
  fixes procs :: "'p set" and k :: nat
  assumes fin: "finite procs" and half: "card procs < 2 * k"
begin

definition is_quorum :: "'p set \<Rightarrow> bool" where
  "is_quorum Q \<longleftrightarrow> Q \<subseteq> procs \<and> k \<le> card Q"

lemma two_thresholds_meet: "is_quorum Q \<Longrightarrow> is_quorum R \<Longrightarrow> Q \<inter> R \<noteq> {}"
proof
  assume Q: "is_quorum Q" and R: "is_quorum R" and "Q \<inter> R = {}"
  then have "card Q + card R = card (Q \<union> R)"
    using fin by (metis card_Un_disjoint finite_subset is_quorum_def)
  also have "\<dots> \<le> card procs"
    using Q R fin by (intro card_mono) (auto simp: is_quorum_def)
  finally show False
    using Q R half by (simp add: is_quorum_def)
qed

end

sublocale threshold \<subseteq> quorum_system is_quorum
  by unfold_locales (rule two_thresholds_meet)

lemma majority_half: "n < 2 * (n div 2 + 1)" for n :: nat
  by simp

end
