(* ===== verification/Rust_Prelude.thy ===== *)
theory Rust_Prelude
  imports Main "HOL-Library.Word" "HOL-Library.Monad_Syntax"
begin

text \<open>
  Shared ground of the development: names for Rust's machine integers, the failure value of
  code that panics, and the generic facts on lists, words and options that the components use.
  A Rust \<^emph>\<open>panic\<close> (an \<open>unwrap\<close> on \<open>None\<close>, an index out of range, \<open>panic!\<close>, a failed
  \<open>assert\<close>) is the value \<open>Inl p\<close> of a result \<open>panic + 'a\<close>, so that every early exit of the
  source is a branch of the model.
\<close>

type_synonym u8 = "8 word"
type_synonym u32 = "32 word"
type_synonym u64 = "64 word"
type_synonym bytes = "u8 list"

named_theorems codec_simps \<open>unfolding rules of serialisers, deserialisers and byte getters\<close>
named_theorems panic_simps \<open>rules that push the result type through binds\<close>

datatype panic =
    UnwrapNone
  | IndexOutOfRange
  | AssertFailed
  | PanicCall
  | Overflow
  | NoReturn   \<comment> \<open>not a panic: the call does not return\<close>

type_synonym 'a rust = "panic + 'a"

definition rbind :: "'e + 'a \<Rightarrow> ('a \<Rightarrow> 'e + 'b) \<Rightarrow> 'e + 'b" where
  "rbind m f = (case m of Inl e \<Rightarrow> Inl e | Inr x \<Rightarrow> f x)"

lemma rbind_Inl [simp]: "rbind (Inl e) f = Inl e"
  by (simp add: rbind_def)

lemma rbind_Inr [simp]: "rbind (Inr x) f = f x"
  by (simp add: rbind_def)

lemma rbind_eq_Inr [panic_simps]: "rbind m f = Inr y \<longleftrightarrow> (\<exists>x. m = Inr x \<and> f x = Inr y)"
  by (cases m) auto

definition runwrap :: "'a option \<Rightarrow> 'a rust" where
  "runwrap x = (case x of None \<Rightarrow> Inl UnwrapNone | Some v \<Rightarrow> Inr v)"

lemma runwrap_simps [simp]: "runwrap None = Inl UnwrapNone" "runwrap (Some v) = Inr v"
  by (simp_all add: runwrap_def)

definition rget :: "'a list \<Rightarrow> nat \<Rightarrow> 'a rust" where
  "rget xs i = (if i < length xs then Inr (xs ! i) else Inl IndexOutOfRange)"

definition rassert :: "bool \<Rightarrow> unit rust" where
  "rassert b = (if b then Inr () else Inl AssertFailed)"

subsection \<open>Words\<close>

lemma unat_of_nat_u32 [simp]: "n < 2 ^ 32 \<Longrightarrow> unat (word_of_nat n :: u32) = n"
  by (simp add: unat_of_nat take_bit_eq_mod)

lemma unat_of_nat_u64 [simp]: "n < 2 ^ 64 \<Longrightarrow> unat (word_of_nat n :: u64) = n"
  by (simp add: unat_of_nat take_bit_eq_mod)

lemma unat_u8_less [simp]: "unat (b :: u8) < 256"
  using unsigned_less [of b] by simp

lemma unat_u32_less [simp]: "unat (b :: u32) < 4294967296"
  using unsigned_less [of b] by simp

lemma unat_u64_less [simp]: "unat (b :: u64) < 18446744073709551616"
  using unsigned_less [of b] by simp

lemma word_Suc_greater:
  fixes w :: "'a::len word"
  assumes "w \<noteq> -1"
  shows "w < w + 1"
proof -
  have "unat w + 1 \<noteq> 2 ^ LENGTH('a)"
  proof
    assume "unat w + 1 = 2 ^ LENGTH('a)"
    then have "unat (w + 1) = 0"
      by (simp add: unat_word_ariths)
    then show False
      using assms by (simp add: unat_eq_zero eq_neg_iff_add_eq_0)
  qed
  moreover have "unat w < 2 ^ LENGTH('a)"
    by (rule unsigned_less)
  ultimately have "unat w + 1 < 2 ^ LENGTH('a)"
    by linarith
  then show ?thesis
    by (simp add: word_less_nat_alt unat_word_ariths)
qed

lemma unat_Suc_u64: "Suc (unat (w :: u64)) < 2 ^ 64 \<Longrightarrow> unat (w + 1) = Suc (unat w)"
  by (simp add: unat_word_ariths)

lemma unat_add_u64: "unat (a :: u64) + unat b < 2 ^ 64 \<Longrightarrow> unat (a + b) = unat a + unat b"
  by (simp add: unat_word_ariths)

lemma unat_mult_u64: "unat (a :: u64) * unat b < 2 ^ 64 \<Longrightarrow> unat (a * b) = unat a * unat b"
  by (simp add: unat_word_ariths)

subsection \<open>Handlers: a new state and the outputs, or a panic\<close>

type_synonym ('s, 'o) handled = "('s \<times> 'o list) rust"

definition step_then :: "('s, 'o) handled \<Rightarrow> ('s \<Rightarrow> ('t, 'o) handled) \<Rightarrow> ('t, 'o) handled" where
  "step_then m f = rbind m (\<lambda>(s, out). rbind (f s) (\<lambda>(s', out'). Inr (s', out @ out')))"

primrec for_each :: "('a \<Rightarrow> 's \<Rightarrow> ('s, 'o) handled) \<Rightarrow> 'a list \<Rightarrow> 's \<Rightarrow> ('s, 'o) handled" where
  "for_each f [] s = Inr (s, [])"
| "for_each f (x # xs) s = step_then (f x s) (for_each f xs)"

lemma step_then_Inr [simp]:
  "step_then (Inr (s, out)) f = rbind (f s) (\<lambda>(s', out'). Inr (s', out @ out'))"
  by (simp add: step_then_def)

lemma step_then_Inl [simp]: "step_then (Inl e) f = Inl e"
  by (simp add: step_then_def)

lemma step_then_eq_Inr [panic_simps]:
  "step_then m f = Inr (t, out) \<longleftrightarrow>
    (\<exists>s o1 o2. m = Inr (s, o1) \<and> f s = Inr (t, o2) \<and> out = o1 @ o2)"
  by (auto simp: step_then_def rbind_eq_Inr)

lemma step_then_assoc: "step_then (step_then m f) g = step_then m (\<lambda>s. step_then (f s) g)"
  by (auto simp: step_then_def rbind_def split: sum.splits prod.splits)

lemma for_each_append:
  "for_each f (xs @ ys) s = step_then (for_each f xs s) (for_each f ys)"
proof (induction xs arbitrary: s)
  case Nil
  then show ?case by (cases "for_each f ys s") auto
next
  case (Cons x xs)
  then have "for_each f (xs @ ys) = (\<lambda>s. step_then (for_each f xs s) (for_each f ys))"
    by (intro ext)
  then show ?case by (simp add: step_then_assoc)
qed

lemma for_each_invariant:
  assumes "\<And>h x s s' out. x \<in> set xs \<Longrightarrow> P h s \<Longrightarrow> f x s = Inr (s', out) \<Longrightarrow> P (h @ out) s'"
    and "P h s" "for_each f xs s = Inr (s', out)"
  shows "P (h @ out) s'"
  using assms
proof (induction xs arbitrary: h s out)
  case (Cons x xs)
  obtain s1 o1 o2 where 1: "f x s = Inr (s1, o1)" "for_each f xs s1 = Inr (s', o2)" "out = o1 @ o2"
    using Cons.prems(3) by (auto simp: panic_simps)
  have "P (h @ o1) s1"
    using Cons.prems(1) [of x h s s1 o1] Cons.prems(2) 1(1) by simp
  moreover have "P (h @ out) s'" if "x \<in> set xs" "P h s" "f x s = Inr (s', out)" for h x s s' out
    using Cons.prems(1) [of x h s s' out] that by simp
  ultimately have "P ((h @ o1) @ o2) s'"
    using Cons.IH 1(2) by blast
  then show ?case
    using 1(3) by simp
qed simp

lemma for_each_cong_inv:
  assumes "\<And>x s. I s \<Longrightarrow> f x s = g x s" "\<And>x s s' out. I s \<Longrightarrow> f x s = Inr (s', out) \<Longrightarrow> I s'" "I s"
  shows "for_each f xs s = for_each g xs s"
  using assms(3)
proof (induction xs arbitrary: s)
  case (Cons x xs)
  have "step_then (f x s) (for_each f xs) = step_then (f x s) (for_each g xs)"
    using Cons.IH assms(2) [OF Cons.prems, of x] by (cases "f x s") (auto simp: step_then_def)
  then show ?case
    using assms(1) [OF Cons.prems] by simp
qed simp

subsection \<open>Selecting outputs\<close>

lemma map_filter_map_None: "(\<And>x. x \<in> set xs \<Longrightarrow> f (g x) = None) \<Longrightarrow> List.map_filter f (map g xs) = []"
  by (induction xs) (auto simp: map_filter_simps)

lemma map_filter_append: "List.map_filter f (xs @ ys) = List.map_filter f xs @ List.map_filter f ys"
  by (simp add: List.map_filter_def)

lemma map_filter_snoc: "List.map_filter f (xs @ [x]) = List.map_filter f xs @ (case f x of None \<Rightarrow> [] | Some y \<Rightarrow> [y])"
  by (simp add: List.map_filter_def split: option.split)

subsection \<open>\<open>Iterator::max\<close>\<close>

fun iter_max :: "'a::linorder list \<Rightarrow> 'a option" where
  "iter_max [] = None"
| "iter_max (x # xs) = Some (fold max xs x)"

lemma iter_max_Max: "xs \<noteq> [] \<Longrightarrow> iter_max xs = Some (Max (set xs))"
  by (cases xs) (simp_all add: Max.set_eq_fold [symmetric] del: list.set)

end
