(* ===== verification/Stop_Protocol.thy ===== *)
theory Stop_Protocol
  imports Rust_Prelude
begin

text \<open>
  The stop protocol shared by the leader election and the replicas: a component is asked to stop, announces it to
  its peers and answers the ask when all peers have announced theirs. The locale \<open>stop_effects\<close> states what one
  step does to the fields involved if it returns, \<open>stop_protocol\<close> also that it returns; the run lemmas are proved once for
  all components that interpret them.
\<close>

locale stop_fields =
  fixes npeers :: "'s \<Rightarrow> nat"
    and stopped_peers :: "'s \<Rightarrow> u64 set"
    and stopped :: "'s \<Rightarrow> bool"
    and pending :: "'s \<Rightarrow> 'a option"
    and ok :: "'s \<Rightarrow> bool"
    and ask_of :: "'i \<Rightarrow> 'a option"
    and peer_of :: "'i \<Rightarrow> u64 option"
    and reply_of :: "'o \<Rightarrow> 'a option"
begin

definition asks :: "'i list \<Rightarrow> 'a list" where
  "asks is = List.map_filter ask_of is"

definition announced :: "'i list \<Rightarrow> u64 list" where
  "announced is = List.map_filter peer_of is"

text \<open>The fields of the protocol as a function of the inputs so far.\<close>

definition stop_state :: "nat \<Rightarrow> 'i list \<Rightarrow> 's \<Rightarrow> 'o list \<Rightarrow> bool" where
  "stop_state n is s out \<longleftrightarrow> ok s \<and> npeers s = n \<and> stopped_peers s = set (announced is) \<and>
     stopped s = (asks is \<noteq> []) \<and>
     pending s = (case asks is of a # _ \<Rightarrow> if length (announced is) < n then Some a else None | [] \<Rightarrow> None) \<and>
     List.map_filter reply_of out = (if length (announced is) = n then asks is else [])"

lemma prefix_inputs:
  assumes "distinct (announced (is @ [i]))" "length (announced (is @ [i])) \<le> n" "length (asks (is @ [i])) \<le> 1"
  shows "distinct (announced is)" "length (announced is) \<le> n" "length (asks is) \<le> 1"
  using assms by (auto simp: announced_def asks_def map_filter_snoc split: option.splits)

end

locale stop_effects =
  stop_fields npeers stopped_peers stopped pending ok ask_of peer_of reply_of
  for step :: "'i \<Rightarrow> 's \<Rightarrow> ('s, 'o) handled"
    and npeers :: "'s \<Rightarrow> nat"
    and stopped_peers :: "'s \<Rightarrow> u64 set"
    and stopped :: "'s \<Rightarrow> bool"
    and pending :: "'s \<Rightarrow> 'a option"
    and ok :: "'s \<Rightarrow> bool"
    and ask_of :: "'i \<Rightarrow> 'a option"
    and peer_of :: "'i \<Rightarrow> u64 option"
    and reply_of :: "'o \<Rightarrow> 'a option" +
  assumes disjoint: "ask_of i = Some a \<Longrightarrow> peer_of i = None"
    and ask_effect: "ask_of i = Some a \<Longrightarrow> ok s \<Longrightarrow> step i s = Inr (s', out) \<Longrightarrow>
      ok s' \<and> npeers s' = npeers s \<and> stopped_peers s' = stopped_peers s \<and> stopped s' \<and>
      pending s' = (if card (stopped_peers s) = npeers s then pending s else Some a) \<and>
      List.map_filter reply_of out = (if card (stopped_peers s) = npeers s then [a] else [])"
    and peer_effect: "peer_of i = Some p \<Longrightarrow> ok s \<Longrightarrow> p \<notin> stopped_peers s \<Longrightarrow>
      (stopped s \<and> card (insert p (stopped_peers s)) = npeers s \<Longrightarrow> pending s \<noteq> None) \<Longrightarrow>
      step i s = Inr (s', out) \<Longrightarrow>
      ok s' \<and> npeers s' = npeers s \<and> stopped s' = stopped s \<and> stopped_peers s' = insert p (stopped_peers s) \<and>
      (if stopped s \<and> card (insert p (stopped_peers s)) = npeers s
       then pending s' = None \<and> List.map_filter reply_of out = [the (pending s)]
       else pending s' = pending s \<and> List.map_filter reply_of out = [])"
    and other_effect: "ask_of i = None \<Longrightarrow> peer_of i = None \<Longrightarrow> ok s \<Longrightarrow> step i s = Inr (s', out) \<Longrightarrow>
      ok s' \<and> npeers s' = npeers s \<and> stopped s' = stopped s \<and>
      stopped_peers s' = stopped_peers s \<and> pending s' = pending s \<and> List.map_filter reply_of out = []"
begin

lemma peer_pending:
  assumes st: "stop_state n is s out" and p: "peer_of i = Some p" and d: "distinct (announced (is @ [i]))"
    and l: "length (announced (is @ [i])) \<le> n" and a: "length (asks (is @ [i])) \<le> 1"
  shows "p \<notin> stopped_peers s" "stopped s \<and> card (insert p (stopped_peers s)) = npeers s \<Longrightarrow> pending s \<noteq> None"
    "card (insert p (set (announced is))) = Suc (length (announced is))" "length (announced is) < n"
    "asks is = [] \<or> (\<exists>b. asks is = [b])" "asks (is @ [i]) = asks is"
proof -
  have new: "p \<notin> set (announced is)" "distinct (announced is)" "length (announced is) < n"
    using d l p by (auto simp: announced_def map_filter_snoc)
  then show "p \<notin> stopped_peers s" "length (announced is) < n"
    using st by (simp_all add: stop_state_def)
  show "card (insert p (set (announced is))) = Suc (length (announced is))"
    using new by (simp add: distinct_card)
  have none: "ask_of i = None"
    using disjoint [of i] p by (cases "ask_of i") auto
  then show same: "asks (is @ [i]) = asks is"
    by (simp add: asks_def map_filter_snoc)
  then show "asks is = [] \<or> (\<exists>b. asks is = [b])"
    using a by (cases "asks is") auto
  then show "pending s \<noteq> None" if "stopped s \<and> card (insert p (stopped_peers s)) = npeers s"
    using that st new(3) by (auto simp: stop_state_def)
qed

lemma stop_state_step:
  assumes st: "stop_state n is s out" and d: "distinct (announced (is @ [i]))"
    and l: "length (announced (is @ [i])) \<le> n" and a: "length (asks (is @ [i])) \<le> 1"
    and run: "step i s = Inr (s', out')"
  shows "stop_state n (is @ [i]) s' (out @ out')"
proof (cases "ask_of i")
  case (Some b)
  then have none: "asks is = []" "peer_of i = None"
    using a disjoint by (auto simp: asks_def map_filter_snoc)
  have card: "card (set (announced is)) = length (announced is)"
    using d none by (simp add: announced_def map_filter_snoc distinct_card)
  show ?thesis
    using ask_effect [OF Some _ run] st none Some card l
    by (auto simp: stop_state_def asks_def announced_def map_filter_snoc map_filter_append split: list.splits)
next
  case ask: None
  show ?thesis
  proof (cases "peer_of i")
    case (Some p)
    note pp = peer_pending [OF st Some d l a]
    then show ?thesis
      using peer_effect [OF Some _ pp(1,2) run] st Some
      by (elim disjE exE)
        (auto simp: stop_state_def asks_def announced_def map_filter_snoc map_filter_append split: if_splits)
  next
    case None
    then have same: "announced (is @ [i]) = announced is" "asks (is @ [i]) = asks is"
      using ask by (simp_all add: announced_def asks_def map_filter_snoc)
    show ?thesis
      using other_effect [OF ask None _ run] st unfolding stop_state_def same by (auto simp: map_filter_append)
  qed
qed

lemma stop_run_effect:
  assumes "stop_state n [] s []" "distinct (announced is)" "length (announced is) \<le> n" "length (asks is) \<le> 1"
    "for_each step is s = Inr (s', out)"
  shows "stop_state n is s' out"
  using assms(2-5)
proof (induction "is" arbitrary: s' out rule: rev_induct)
  case Nil
  then show ?case
    using assms(1) by simp
next
  case (snoc i "is")
  obtain s1 o1 o2 where 1: "for_each step is s = Inr (s1, o1)" "step i s1 = Inr (s', o2)" "out = o1 @ o2"
    using snoc.prems(4) by (auto simp: for_each_append panic_simps)
  show ?case
    using stop_state_step [OF snoc.IH [OF prefix_inputs [OF snoc.prems(1-3)] 1(1)] snoc.prems(1-3) 1(2)] 1(3) by simp
qed

end

locale stop_protocol =
  stop_fields npeers stopped_peers stopped pending ok ask_of peer_of reply_of
  for step :: "'i \<Rightarrow> 's \<Rightarrow> ('s, 'o) handled"
    and npeers :: "'s \<Rightarrow> nat"
    and stopped_peers :: "'s \<Rightarrow> u64 set"
    and stopped :: "'s \<Rightarrow> bool"
    and pending :: "'s \<Rightarrow> 'a option"
    and ok :: "'s \<Rightarrow> bool"
    and ask_of :: "'i \<Rightarrow> 'a option"
    and peer_of :: "'i \<Rightarrow> u64 option"
    and reply_of :: "'o \<Rightarrow> 'a option" +
  assumes ask_no_peer: "ask_of i = Some a \<Longrightarrow> peer_of i = None"
    and step_ask: "ask_of i = Some a \<Longrightarrow> ok s \<Longrightarrow>
      \<exists>s' out. step i s = Inr (s', out) \<and> ok s' \<and> npeers s' = npeers s \<and>
        stopped_peers s' = stopped_peers s \<and> stopped s' \<and>
        pending s' = (if card (stopped_peers s) = npeers s then pending s else Some a) \<and>
        List.map_filter reply_of out = (if card (stopped_peers s) = npeers s then [a] else [])"
    and step_peer: "peer_of i = Some p \<Longrightarrow> ok s \<Longrightarrow> p \<notin> stopped_peers s \<Longrightarrow>
      (stopped s \<and> card (insert p (stopped_peers s)) = npeers s \<Longrightarrow> pending s \<noteq> None) \<Longrightarrow>
      \<exists>s' out. step i s = Inr (s', out) \<and> ok s' \<and> npeers s' = npeers s \<and> stopped s' = stopped s \<and>
        stopped_peers s' = insert p (stopped_peers s) \<and>
        (if stopped s \<and> card (insert p (stopped_peers s)) = npeers s
         then pending s' = None \<and> List.map_filter reply_of out = [the (pending s)]
         else pending s' = pending s \<and> List.map_filter reply_of out = [])"
    and step_other: "ask_of i = None \<Longrightarrow> peer_of i = None \<Longrightarrow> ok s \<Longrightarrow>
      \<exists>s' out. step i s = Inr (s', out) \<and> ok s' \<and> npeers s' = npeers s \<and> stopped s' = stopped s \<and>
        stopped_peers s' = stopped_peers s \<and> pending s' = pending s \<and> List.map_filter reply_of out = []"

sublocale stop_protocol \<subseteq> stop_effects
proof
  show "ok s' \<and> npeers s' = npeers s \<and> stopped_peers s' = stopped_peers s \<and> stopped s' \<and>
      pending s' = (if card (stopped_peers s) = npeers s then pending s else Some a) \<and>
      List.map_filter reply_of out = (if card (stopped_peers s) = npeers s then [a] else [])"
    if "ask_of i = Some a" "ok s" "step i s = Inr (s', out)" for i a s s' out
    using step_ask [OF that(1,2)] that(3) by auto
  show "ok s' \<and> npeers s' = npeers s \<and> stopped s' = stopped s \<and> stopped_peers s' = insert p (stopped_peers s) \<and>
      (if stopped s \<and> card (insert p (stopped_peers s)) = npeers s
       then pending s' = None \<and> List.map_filter reply_of out = [the (pending s)]
       else pending s' = pending s \<and> List.map_filter reply_of out = [])"
    if "peer_of i = Some p" "ok s" "p \<notin> stopped_peers s"
      "stopped s \<and> card (insert p (stopped_peers s)) = npeers s \<Longrightarrow> pending s \<noteq> None" "step i s = Inr (s', out)"
    for i p s s' out
    using step_peer [OF that(1-4)] that(5) by auto
  show "ok s' \<and> npeers s' = npeers s \<and> stopped s' = stopped s \<and>
      stopped_peers s' = stopped_peers s \<and> pending s' = pending s \<and> List.map_filter reply_of out = []"
    if "ask_of i = None" "peer_of i = None" "ok s" "step i s = Inr (s', out)" for i s s' out
    using step_other [OF that(1-3)] that(4) by auto
qed (rule ask_no_peer)

context stop_protocol
begin

lemma step_returns:
  assumes st: "stop_state n is s out" and d: "distinct (announced (is @ [i]))"
    and l: "length (announced (is @ [i])) \<le> n" and a: "length (asks (is @ [i])) \<le> 1"
  shows "\<exists>s' out'. step i s = Inr (s', out')"
proof (cases "ask_of i")
  case (Some b)
  then show ?thesis
    using step_ask [OF Some, of s] st by (auto simp: stop_state_def)
next
  case None
  then show ?thesis
    using step_other [OF None, of s] step_peer [of i _ s] peer_pending [OF st _ d l a] st
    by (cases "peer_of i") (auto simp: stop_state_def)
qed

lemma stop_run:
  assumes "stop_state n [] s []" "distinct (announced is)" "length (announced is) \<le> n" "length (asks is) \<le> 1"
  shows "\<exists>s' out. for_each step is s = Inr (s', out) \<and> stop_state n is s' out"
proof -
  have "\<exists>s' out. for_each step is s = Inr (s', out)"
    using assms(2-4)
  proof (induction "is" rule: rev_induct)
    case (snoc i "is")
    obtain s1 o1 where 1: "for_each step is s = Inr (s1, o1)"
      using snoc.IH [OF prefix_inputs [OF snoc.prems]] by blast
    from step_returns [OF stop_run_effect [OF assms(1) prefix_inputs [OF snoc.prems] 1] snoc.prems]
    show ?case
      using 1 by (auto simp: for_each_append)
  qed simp
  then show ?thesis
    using stop_run_effect [OF assms] by blast
qed

end

end
