(* ===== verification/Byte_Buffer.thy ===== *)
theory Byte_Buffer
  imports Rust_Prelude
begin

text \<open>
  The byte buffers of the serialisers: \<open>BufMut::put_u8/u32/u64/put_slice\<close> append big-endian
  bytes, \<open>Buf::get_*\<close> and \<open>copy_to_slice\<close> consume them and panic when fewer bytes remain.
  A deserialiser is a function from the remaining bytes to a failure or to a value and the
  bytes left. The locales \<open>codec\<close> and \<open>exact_codec\<close> are the contract of every pair
  of \<open>Serialisable\<close>/\<open>Deserialiser\<close> implementations of the program; each message
  theory interprets them on its own functions.
\<close>

datatype de_error =
    Underflow      \<comment> \<open>\<open>Buf::get_*\<close> panics: not enough bytes remain\<close>
  | UnexpectedId   \<comment> \<open>a \<open>panic!\<close> in a deserialiser\<close>
  | InvalidType    \<comment> \<open>\<open>Err(SerError::InvalidType(_))\<close>\<close>
  | Unknown        \<comment> \<open>\<open>Err(SerError::Unknown(_))\<close>, \<open>Err(SerError::InvalidData(_))\<close>\<close>

type_synonym 'a getter = "bytes \<Rightarrow> de_error + 'a \<times> bytes"

definition gret :: "'a \<Rightarrow> 'a getter" where
  "gret x bs = Inr (x, bs)"

definition gfail :: "de_error \<Rightarrow> 'a getter" where
  "gfail e bs = Inl e"

definition gbind :: "'a getter \<Rightarrow> ('a \<Rightarrow> 'b getter) \<Rightarrow> 'b getter" where
  "gbind g f bs = (case g bs of Inl e \<Rightarrow> Inl e | Inr (x, rest) \<Rightarrow> f x rest)"

subsection \<open>Big-endian integers\<close>

primrec be_bytes :: "nat \<Rightarrow> nat \<Rightarrow> bytes" where
  "be_bytes 0 n = []"
| "be_bytes (Suc k) n = be_bytes k (n div 256) @ [word_of_nat (n mod 256)]"

definition be_nat :: "bytes \<Rightarrow> nat" where
  "be_nat bs = foldl (\<lambda>acc b. acc * 256 + unat b) 0 bs"

definition put_u8 :: "u8 \<Rightarrow> bytes" where
  "put_u8 w = [w]"

definition put_u32 :: "u32 \<Rightarrow> bytes" where
  "put_u32 w = be_bytes 4 (unat w)"

definition put_u64 :: "u64 \<Rightarrow> bytes" where
  "put_u64 w = be_bytes 8 (unat w)"

definition put_len :: "'a list \<Rightarrow> bytes" where
  "put_len xs = put_u32 (word_of_nat (length xs))"

definition get_slice :: "nat \<Rightarrow> bytes getter" where
  "get_slice k bs = (if k \<le> length bs then Inr (take k bs, drop k bs) else Inl Underflow)"

definition get_u8 :: "u8 getter" where
  "get_u8 bs = (case bs of [] \<Rightarrow> Inl Underflow | b # rest \<Rightarrow> Inr (b, rest))"

definition get_u32 :: "u32 getter" where
  "get_u32 = gbind (get_slice 4) (\<lambda>s. gret (word_of_nat (be_nat s)))"

definition get_u64 :: "u64 getter" where
  "get_u64 = gbind (get_slice 8) (\<lambda>s. gret (word_of_nat (be_nat s)))"

text \<open>A \<open>for _ in 0..n\<close> loop that pushes decoded elements on a vector.\<close>

primrec get_times :: "nat \<Rightarrow> 'a getter \<Rightarrow> 'a list getter" where
  "get_times 0 g = gret []"
| "get_times (Suc n) g = gbind g (\<lambda>x. gbind (get_times n g) (\<lambda>xs. gret (x # xs)))"

lemma gret_apply [simp]: "gret x bs = Inr (x, bs)"
  by (simp add: gret_def)

lemma gfail_apply [simp]: "gfail e bs = Inl e"
  by (simp add: gfail_def)

lemma gbind_Inr [simp]: "g bs = Inr (x, rest) \<Longrightarrow> gbind g f bs = f x rest"
  by (simp add: gbind_def)

lemma gbind_Inl [simp]: "g bs = Inl e \<Longrightarrow> gbind g f bs = Inl e"
  by (simp add: gbind_def)

lemma gbind_eq_Inr:
  "gbind g f bs = Inr (y, r) \<longleftrightarrow> (\<exists>x rest. g bs = Inr (x, rest) \<and> f x rest = Inr (y, r))"
  by (auto simp: gbind_def split: sum.splits)

lemma length_be_bytes [simp]: "length (be_bytes k n) = k"
  by (induction k arbitrary: n) auto

lemma be_nat_snoc: "be_nat (bs @ [b]) = be_nat bs * 256 + unat b"
  by (simp add: be_nat_def)

lemma be_nat_be_bytes: "be_nat (be_bytes k n) = n mod 256 ^ k"
proof (induction k arbitrary: n)
  case 0
  then show ?case by (simp add: be_nat_def)
next
  case (Suc k)
  have "be_nat (be_bytes (Suc k) n) = (n div 256 mod 256 ^ k) * 256 + n mod 256"
    by (simp add: be_nat_snoc Suc unat_of_nat take_bit_eq_mod)
  also have "\<dots> = n mod (256 * 256 ^ k)"
    by (simp add: mod_mult2_eq)
  finally show ?case by simp
qed

lemma be_nat_less: "be_nat bs < 256 ^ length bs"
proof (induction bs rule: rev_induct)
  case Nil
  then show ?case by (simp add: be_nat_def)
next
  case (snoc b bs)
  have "be_nat bs * 256 + unat b < (be_nat bs + 1) * 256"
    by simp
  also have "\<dots> \<le> 256 ^ length bs * 256"
    using snoc by (intro mult_le_mono) auto
  finally show ?case
    by (simp add: be_nat_snoc)
qed

lemma be_bytes_be_nat: "be_bytes (length bs) (be_nat bs) = bs"
  by (induction bs rule: rev_induct) (auto simp: be_nat_snoc)

lemma length_put [simp]:
  "length (put_u8 w) = 1" "length (put_u32 v) = 4" "length (put_u64 u) = 8"
  "length (put_len xs) = 4"
  by (simp_all add: put_u8_def put_u32_def put_u64_def put_len_def)

lemma get_slice_append [codec_simps]: "length xs = k \<Longrightarrow> get_slice k (xs @ rest) = Inr (xs, rest)"
  by (simp add: get_slice_def)

lemma get_put_u8 [codec_simps]: "get_u8 (put_u8 w @ rest) = Inr (w, rest)"
  by (simp add: get_u8_def put_u8_def)

lemma get_put_u32 [codec_simps]: "get_u32 (put_u32 w @ rest) = Inr (w, rest)"
  by (simp add: get_u32_def put_u32_def get_slice_append be_nat_be_bytes)

lemma get_put_u64 [codec_simps]: "get_u64 (put_u64 w @ rest) = Inr (w, rest)"
  by (simp add: get_u64_def put_u64_def get_slice_append be_nat_be_bytes)

lemma get_put_len:
  "length xs < 2 ^ 32 \<Longrightarrow> get_u32 (put_len xs @ rest) = Inr (word_of_nat (length xs), rest)"
  by (simp add: put_len_def get_put_u32)

lemma get_times_concat:
  assumes "\<And>x rest. x \<in> set xs \<Longrightarrow> g (p x @ rest) = Inr (x, rest)" and "n = length xs"
  shows "get_times n g (concat (map p xs) @ rest) = Inr (xs, rest)"
  using assms by (induction xs arbitrary: n) auto

lemma get_times_u64 [codec_simps]:
  "n = length xs \<Longrightarrow> get_times n get_u64 (concat (map put_u64 xs) @ rest) = Inr (xs, rest)"
  by (rule get_times_concat) (auto simp: codec_simps)

lemma get_times_length: "get_times n g bs = Inr (xs, rest) \<Longrightarrow> length xs = n"
  by (induction n arbitrary: bs xs) (auto simp: gbind_eq_Inr)

lemma get_times_all:
  assumes "get_times n g bs = Inr (xs, rest)"
    and "\<And>bs x rest. g bs = Inr (x, rest) \<Longrightarrow> P x"
  shows "\<forall>x\<in>set xs. P x"
  using assms(1) by (induction n arbitrary: bs xs) (auto simp: gbind_eq_Inr dest: assms(2))

subsection \<open>What a deserialiser may consume\<close>

text \<open>A getter is \<^emph>\<open>frugal\<close> when it only drops a prefix of the buffer; every deserialiser built
  from the primitive ones is.\<close>

definition frugal :: "'a getter \<Rightarrow> bool" where
  "frugal g \<longleftrightarrow> (\<forall>bs x rest. g bs = Inr (x, rest) \<longrightarrow> (\<exists>used. bs = used @ rest))"

named_theorems frugal_intros \<open>getters that only consume a prefix\<close>

lemma frugalD: "frugal g \<Longrightarrow> g bs = Inr (x, rest) \<Longrightarrow> \<exists>used. bs = used @ rest"
  by (simp add: frugal_def)

lemma frugal_gret [frugal_intros]: "frugal (gret x)"
  by (simp add: frugal_def)

lemma frugal_gfail [frugal_intros]: "frugal (gfail e)"
  by (simp add: frugal_def)

lemma frugal_gbind [frugal_intros]: "frugal g \<Longrightarrow> (\<And>x. frugal (f x)) \<Longrightarrow> frugal (gbind g f)"
  unfolding frugal_def gbind_eq_Inr by (metis append.assoc)

lemma frugal_get_slice [frugal_intros]: "frugal (get_slice k)"
  unfolding frugal_def get_slice_def by (metis Inl_Inr_False Inr_inject append_take_drop_id prod.inject)

lemma frugal_get_u8 [frugal_intros]: "frugal get_u8"
  by (auto simp: frugal_def get_u8_def split: list.splits)

lemma frugal_get_u32 [frugal_intros]: "frugal get_u32"
  by (simp add: get_u32_def frugal_intros)

lemma frugal_get_u64 [frugal_intros]: "frugal get_u64"
  by (simp add: get_u64_def frugal_intros)

lemma frugal_get_times [frugal_intros]: "frugal g \<Longrightarrow> frugal (get_times n g)"
  by (induction n) (simp_all add: frugal_intros)

lemma frugal_if [frugal_intros]: "frugal f \<Longrightarrow> frugal g \<Longrightarrow> frugal (if b then f else g)"
  by simp

subsection \<open>The contract of a serialiser and its deserialiser\<close>

locale codec =
  fixes put :: "'a \<Rightarrow> bytes"
    and get :: "'a getter"
    and wf :: "'a \<Rightarrow> bool"
  assumes get_put: "wf x \<Longrightarrow> get (put x @ rest) = Inr (x, rest)"
    and get_wf: "get bs = Inr (x, rest) \<Longrightarrow> wf x"
    and get_frugal: "frugal get"
begin

lemma put_inj: "wf x \<Longrightarrow> wf y \<Longrightarrow> put x @ r = put y @ s \<Longrightarrow> x = y \<and> r = s"
  by (metis get_put Inr_inject prod.inject)

lemma prefix_free: "wf x \<Longrightarrow> wf y \<Longrightarrow> put x = put y @ s \<Longrightarrow> x = y \<and> s = []"
  using put_inj [of x y "[]" s] by simp

lemma reencode: "get bs = Inr (x, rest) \<Longrightarrow> get (put x @ rest') = Inr (x, rest')"
  by (simp add: get_put get_wf)

lemma get_stream:
  "\<forall>x\<in>set xs. wf x \<Longrightarrow> get_times (length xs) get (concat (map put xs) @ rest) = Inr (xs, rest)"
  by (rule get_times_concat) (simp_all add: get_put)

lemma get_stream_wf: "get_times n get bs = Inr (xs, rest) \<Longrightarrow> \<forall>x\<in>set xs. wf x"
  by (erule get_times_all) (rule get_wf)

lemma get_range: "(\<exists>bs rest. get bs = Inr (x, rest)) \<longleftrightarrow> wf x"
  using get_put get_wf by blast

end

text \<open>Codecs whose deserialiser accepts nothing but what the serialiser writes.\<close>

locale exact_codec = codec +
  assumes get_exact: "get bs = Inr (x, rest) \<Longrightarrow> bs = put x @ rest"
begin

lemma get_iff: "get bs = Inr (x, rest) \<longleftrightarrow> wf x \<and> bs = put x @ rest"
  using get_exact get_wf get_put by blast

end

lemma get_u32_exact: "get_u32 bs = Inr (w, rest) \<Longrightarrow> bs = put_u32 w @ rest"
proof -
  assume "get_u32 bs = Inr (w, rest)"
  then have l: "length (take 4 bs) = 4" and w: "w = word_of_nat (be_nat (take 4 bs))"
    and r: "rest = drop 4 bs"
    by (auto simp: get_u32_def gbind_eq_Inr get_slice_def split: if_splits)
  have "unat w = be_nat (take 4 bs)"
    using be_nat_less [of "take 4 bs"] l w by simp
  then show ?thesis
    using be_bytes_be_nat [of "take 4 bs"] l r by (simp add: put_u32_def)
qed

lemma get_u64_exact: "get_u64 bs = Inr (w, rest) \<Longrightarrow> bs = put_u64 w @ rest"
proof -
  assume "get_u64 bs = Inr (w, rest)"
  then have l: "length (take 8 bs) = 8" and w: "w = word_of_nat (be_nat (take 8 bs))"
    and r: "rest = drop 8 bs"
    by (auto simp: get_u64_def gbind_eq_Inr get_slice_def split: if_splits)
  have "unat w = be_nat (take 8 bs)"
    using be_nat_less [of "take 8 bs"] l w by simp
  then show ?thesis
    using be_bytes_be_nat [of "take 8 bs"] l r by (simp add: put_u64_def)
qed

lemma get_u8_exact: "get_u8 bs = Inr (w, rest) \<Longrightarrow> bs = put_u8 w @ rest"
  by (auto simp: get_u8_def put_u8_def split: list.splits)

lemma get_slice_exact: "get_slice k bs = Inr (s, rest) \<Longrightarrow> bs = s @ rest \<and> length s = k"
  by (auto simp: get_slice_def split: if_splits)

lemma get_times_u64_exact:
  "get_times n get_u64 bs = Inr (xs, rest) \<Longrightarrow> bs = concat (map put_u64 xs) @ rest \<and> length xs = n"
  by (induction n arbitrary: bs xs) (fastforce simp: gbind_eq_Inr dest: get_u64_exact)+

lemmas get_exacts = get_u8_exact get_u32_exact get_u64_exact get_slice_exact get_times_u64_exact

interpretation u64_codec: exact_codec put_u64 get_u64 "\<lambda>_. True"
  by unfold_locales (auto simp: codec_simps frugal_intros dest: get_u64_exact)

interpretation u32_codec: exact_codec put_u32 get_u32 "\<lambda>_. True"
  by unfold_locales (auto simp: codec_simps frugal_intros dest: get_u32_exact)

subsection \<open>Length-prefixed sequences\<close>

definition put_bytes :: "bytes \<Rightarrow> bytes" where
  "put_bytes d = put_len d @ d"

definition get_bytes :: "bytes getter" where
  "get_bytes = gbind get_u32 (\<lambda>n. get_slice (unat n))"

definition put_u64s :: "u64 list \<Rightarrow> bytes" where
  "put_u64s xs = put_len xs @ concat (map put_u64 xs)"

definition get_u64s :: "u64 list getter" where
  "get_u64s = gbind get_u32 (\<lambda>n. get_times (unat n) get_u64)"

definition short :: "'a list \<Rightarrow> bool" where
  "short xs \<longleftrightarrow> length xs < 2 ^ 32"

lemma short_Nil [simp]: "short []"
  by (simp add: short_def)

lemma get_put_short [codec_simps]:
  "short xs \<Longrightarrow> get_u32 (put_len xs @ rest) = Inr (word_of_nat (length xs), rest)"
  by (simp add: short_def get_put_len)

lemma unat_short [simp]: "short xs \<Longrightarrow> unat (word_of_nat (length xs) :: u32) = length xs"
  by (simp add: short_def)

lemma unat_imp_short: "length xs = unat (n :: u32) \<Longrightarrow> short xs"
  by (simp add: short_def)

lemma put_len_unat: "length xs = unat (n :: u32) \<Longrightarrow> put_len xs = put_u32 n"
  by (simp add: put_len_def)

interpretation bytes_codec: exact_codec put_bytes get_bytes short
proof
  show "get_bytes (put_bytes x @ rest) = Inr (x, rest)" if "short x" for x rest
    using that by (simp add: get_bytes_def put_bytes_def codec_simps)
  show "short x" if "get_bytes bs = Inr (x, rest)" for bs x rest
    using that by (auto simp: get_bytes_def gbind_eq_Inr dest: get_slice_exact intro: unat_imp_short)
  show "frugal get_bytes"
    by (simp add: get_bytes_def frugal_intros)
  show "bs = put_bytes x @ rest" if "get_bytes bs = Inr (x, rest)" for bs x rest
    using that
    by (auto simp: get_bytes_def put_bytes_def gbind_eq_Inr put_len_unat dest!: get_exacts)
qed

interpretation u64s_codec: exact_codec put_u64s get_u64s short
proof
  show "get_u64s (put_u64s x @ rest) = Inr (x, rest)" if "short x" for x rest
    using that by (simp add: get_u64s_def put_u64s_def codec_simps)
  show "short x" if "get_u64s bs = Inr (x, rest)" for bs x rest
    using that by (auto simp: get_u64s_def gbind_eq_Inr dest: get_times_length intro: unat_imp_short)
  show "frugal get_u64s"
    by (simp add: get_u64s_def frugal_intros)
  show "bs = put_u64s x @ rest" if "get_u64s bs = Inr (x, rest)" for bs x rest
    using that
    by (auto simp: get_u64s_def put_u64s_def gbind_eq_Inr put_len_unat dest!: get_exacts)
qed

lemmas seq_codec_simps [codec_simps] = bytes_codec.get_put u64s_codec.get_put
lemmas seq_codec_frugal [frugal_intros] = bytes_codec.get_frugal u64s_codec.get_frugal
lemmas seq_codec_wf = bytes_codec.get_wf u64s_codec.get_wf
lemmas seq_codec_exact = bytes_codec.get_exact u64s_codec.get_exact

end
