(* ===== verification/Ballots.thy ===== *)
theory Ballots
  imports Byte_Buffer
begin

text \<open>
  The ballot of the leader election (\<open>paxos.rs\<close>, \<open>Ballot\<close>): a pair of a round number and a process
  id with the derived lexicographic order, and the \<open>Leader\<close> indication that carries it.
\<close>

datatype Ballot = Ballot (bal_n: u64) (bal_pid: u64)

instantiation Ballot :: linorder
begin

definition less_eq_Ballot :: "Ballot \<Rightarrow> Ballot \<Rightarrow> bool" where
  "a \<le> b \<longleftrightarrow> bal_n a < bal_n b \<or> bal_n a = bal_n b \<and> bal_pid a \<le> bal_pid b"

definition less_Ballot :: "Ballot \<Rightarrow> Ballot \<Rightarrow> bool" where
  "a < b \<longleftrightarrow> bal_n a < bal_n b \<or> bal_n a = bal_n b \<and> bal_pid a < (bal_pid b :: u64)"

instance
  by standard (auto simp: less_eq_Ballot_def less_Ballot_def intro: Ballot.expand)

end

lemma Ballot_less_simps [simp]:
  "Ballot n p < Ballot m q \<longleftrightarrow> n < m \<or> n = m \<and> p < q"
  "Ballot n p \<le> Ballot m q \<longleftrightarrow> n < m \<or> n = m \<and> p \<le> q"
  by (simp_all add: less_eq_Ballot_def less_Ballot_def)

record Leader =
  ldr_pid :: u64
  ldr_round :: Ballot

definition leader_with :: "u64 \<Rightarrow> Ballot \<Rightarrow> Leader" where
  "leader_with pid round = \<lparr>ldr_pid = pid, ldr_round = round\<rparr>"

lemma leader_with_sel [simp]:
  "ldr_pid (leader_with p b) = p" "ldr_round (leader_with p b) = b"
  "leader_with (ldr_pid l) (ldr_round l) = l"
  by (simp_all add: leader_with_def)

lemma leader_with_inject [simp]: "leader_with p b = leader_with q c \<longleftrightarrow> p = q \<and> b = c"
  by (simp add: leader_with_def)

end
