(* ===== verification/Paxos_Messages.thy ===== *)
theory Paxos_Messages
  imports Ballots
begin

text \<open>
  The wire format of the Paxos messages (\<open>atomic_broadcast/messages.rs\<close>, module \<open>paxos\<close>):
  ballots, log entries with stop signs, and every \<open>PaxosMsg\<close>. The shapes of the messages are those
  the exhaustive matches of \<open>serialise\<close> and \<open>deserialise\<close> take apart and put together.
\<close>

abbreviation "PREPARE_ID \<equiv> (1 :: u8)"
abbreviation "PROMISE_ID \<equiv> (2 :: u8)"
abbreviation "ACCEPTSYNC_ID \<equiv> (3 :: u8)"
abbreviation "ACCEPTDECIDE_ID \<equiv> (4 :: u8)"
abbreviation "ACCEPTED_ID \<equiv> (5 :: u8)"
abbreviation "DECIDE_ID \<equiv> (6 :: u8)"
abbreviation "PROPOSALFORWARD_ID \<equiv> (7 :: u8)"
abbreviation "FIRSTACCEPT_ID \<equiv> (8 :: u8)"
abbreviation "PREPAREREQ_ID \<equiv> (9 :: u8)"
abbreviation "NORMAL_ENTRY_ID \<equiv> (1 :: u8)"
abbreviation "SS_ENTRY_ID \<equiv> (2 :: u8)"

record StopSign =
  ss_config_id :: u32
  ss_nodes :: "u64 list"
  ss_skip_prepare_use_leader :: "Leader option"

datatype Entry = Normal bytes | StopSignEntry StopSign

datatype PaxosMsg =
    PrepareReq
  | Prepare (prep_n: Ballot) (prep_ld: u64) (prep_n_accepted: Ballot) (prep_sfx_len: u64)
  | Promise (prom_n: Ballot) (prom_n_accepted: Ballot) (prom_sfx: "Entry list") (prom_ld: u64)
  | AcceptSync (as_n: Ballot) (as_entries: "Entry list") (as_ld: u64) (as_sync: bool)
  | FirstAccept (fa_n: Ballot) (fa_entries: "Entry list")
  | AcceptDecide (ad_n: Ballot) (ad_ld: u64) (ad_entries: "Entry list")
  | Accepted (acc_n: Ballot) (acc_la: u64)
  | Decide (dec_ld: u64) (dec_n: Ballot)
  | ProposalForward (pf_entries: "Entry list")

record Message =
  msg_from :: u64
  msg_to :: u64
  msg_msg :: PaxosMsg

definition message_with :: "u64 \<Rightarrow> u64 \<Rightarrow> PaxosMsg \<Rightarrow> Message" where
  "message_with from to m = \<lparr>msg_from = from, msg_to = to, msg_msg = m\<rparr>"

subsection \<open>Serialisers\<close>

definition serialise_ballot :: "Ballot \<Rightarrow> bytes" where
  "serialise_ballot b = put_u64 (bal_n b) @ put_u64 (bal_pid b)"

definition serialise_leader_opt :: "Leader option \<Rightarrow> bytes" where
  "serialise_leader_opt lo = (case lo of
      Some l \<Rightarrow> put_u8 1 @ put_u64 (ldr_pid l) @ serialise_ballot (ldr_round l)
    | None \<Rightarrow> put_u8 0)"

fun serialise_entry :: "Entry \<Rightarrow> bytes" where
  "serialise_entry (Normal d) = put_u8 NORMAL_ENTRY_ID @ put_bytes d"
| "serialise_entry (StopSignEntry ss) =
     put_u8 SS_ENTRY_ID @ put_u32 (ss_config_id ss) @ put_u64s (ss_nodes ss)
     @ serialise_leader_opt (ss_skip_prepare_use_leader ss)"

definition serialise_entries :: "Entry list \<Rightarrow> bytes" where
  "serialise_entries ents = put_len ents @ concat (map serialise_entry ents)"

fun serialise_paxos_msg :: "PaxosMsg \<Rightarrow> bytes" where
  "serialise_paxos_msg PrepareReq = put_u8 PREPAREREQ_ID"
| "serialise_paxos_msg (Prepare n ld n_accepted sfx_len) =
     put_u8 PREPARE_ID @ serialise_ballot n @ serialise_ballot n_accepted
     @ put_u64 ld @ put_u64 sfx_len"
| "serialise_paxos_msg (Promise n n_accepted sfx ld) =
     put_u8 PROMISE_ID @ serialise_ballot n @ serialise_ballot n_accepted
     @ put_u64 ld @ serialise_entries sfx"
| "serialise_paxos_msg (AcceptSync n entries ld sync) =
     put_u8 ACCEPTSYNC_ID @ put_u64 ld @ put_u8 (if sync then 1 else 0)
     @ serialise_ballot n @ serialise_entries entries"
| "serialise_paxos_msg (FirstAccept n entries) =
     put_u8 FIRSTACCEPT_ID @ serialise_ballot n @ serialise_entries entries"
| "serialise_paxos_msg (AcceptDecide n ld entries) =
     put_u8 ACCEPTDECIDE_ID @ put_u64 ld @ serialise_ballot n @ serialise_entries entries"
| "serialise_paxos_msg (Accepted n la) =
     put_u8 ACCEPTED_ID @ serialise_ballot n @ put_u64 la"
| "serialise_paxos_msg (Decide ld n) =
     put_u8 DECIDE_ID @ serialise_ballot n @ put_u64 ld"
| "serialise_paxos_msg (ProposalForward entries) =
     put_u8 PROPOSALFORWARD_ID @ serialise_entries entries"

definition serialise_message :: "Message \<Rightarrow> bytes" where
  "serialise_message m = put_u64 (msg_from m) @ put_u64 (msg_to m) @ serialise_paxos_msg (msg_msg m)"

subsection \<open>Deserialisers\<close>

definition deserialise_ballot :: "Ballot getter" where
  "deserialise_ballot = gbind get_u64 (\<lambda>n. gbind get_u64 (\<lambda>pid. gret (Ballot n pid)))"

definition deserialise_leader_opt :: "Leader option getter" where
  "deserialise_leader_opt = gbind get_u8 (\<lambda>flag.
     if flag = 1
     then gbind get_u64 (\<lambda>pid. gbind deserialise_ballot (\<lambda>ballot.
            gret (Some (leader_with pid ballot))))
     else gret None)"

definition deserialise_entry :: "Entry getter" where
  "deserialise_entry = gbind get_u8 (\<lambda>i.
     if i = NORMAL_ENTRY_ID then gbind get_bytes (\<lambda>d. gret (Normal d))
     else if i = SS_ENTRY_ID then
       gbind get_u32 (\<lambda>config_id. gbind get_u64s (\<lambda>nodes.
       gbind deserialise_leader_opt (\<lambda>skip.
         gret (StopSignEntry \<lparr>ss_config_id = config_id, ss_nodes = nodes,
                              ss_skip_prepare_use_leader = skip\<rparr>))))
     else gfail UnexpectedId)"

definition deserialise_entries :: "Entry list getter" where
  "deserialise_entries = gbind get_u32 (\<lambda>len. get_times (unat len) deserialise_entry)"

definition deserialise_sync :: "bool getter" where
  "deserialise_sync = gbind get_u8 (\<lambda>b.
     if b = 1 then gret True else if b = 0 then gret False else gfail UnexpectedId)"

definition deserialise_paxos_msg :: "PaxosMsg getter" where
  "deserialise_paxos_msg = gbind get_u8 (\<lambda>i.
     if i = PREPAREREQ_ID then gret PrepareReq
     else if i = PREPARE_ID then
       gbind deserialise_ballot (\<lambda>n. gbind deserialise_ballot (\<lambda>n_accepted.
       gbind get_u64 (\<lambda>ld. gbind get_u64 (\<lambda>sfx_len. gret (Prepare n ld n_accepted sfx_len)))))
     else if i = PROMISE_ID then
       gbind deserialise_ballot (\<lambda>n. gbind deserialise_ballot (\<lambda>n_accepted.
       gbind get_u64 (\<lambda>ld. gbind deserialise_entries (\<lambda>sfx. gret (Promise n n_accepted sfx ld)))))
     else if i = ACCEPTSYNC_ID then
       gbind get_u64 (\<lambda>ld. gbind deserialise_sync (\<lambda>sync. gbind deserialise_ballot (\<lambda>n.
       gbind deserialise_entries (\<lambda>sfx. gret (AcceptSync n sfx ld sync)))))
     else if i = ACCEPTDECIDE_ID then
       gbind get_u64 (\<lambda>ld. gbind deserialise_ballot (\<lambda>n.
       gbind deserialise_entries (\<lambda>entries. gret (AcceptDecide n ld entries))))
     else if i = ACCEPTED_ID then
       gbind deserialise_ballot (\<lambda>n. gbind get_u64 (\<lambda>ld. gret (Accepted n ld)))
     else if i = DECIDE_ID then
       gbind deserialise_ballot (\<lambda>n. gbind get_u64 (\<lambda>ld. gret (Decide ld n)))
     else if i = PROPOSALFORWARD_ID then
       gbind deserialise_entries (\<lambda>entries. gret (ProposalForward entries))
     else if i = FIRSTACCEPT_ID then
       gbind deserialise_ballot (\<lambda>n. gbind deserialise_entries (\<lambda>entries.
       gret (FirstAccept n entries)))
     else gfail InvalidType)"

definition deserialise_message :: "Message getter" where
  "deserialise_message =
     gbind get_u64 (\<lambda>from. gbind get_u64 (\<lambda>to. gbind deserialise_paxos_msg (\<lambda>m.
       gret (message_with from to m))))"

subsection \<open>Lengths that fit their \<open>u32\<close> field\<close>

fun entry_wf :: "Entry \<Rightarrow> bool" where
  "entry_wf (Normal d) = short d"
| "entry_wf (StopSignEntry ss) = short (ss_nodes ss)"

definition entries_wf :: "Entry list \<Rightarrow> bool" where
  "entries_wf es \<longleftrightarrow> short es \<and> list_all entry_wf es"

fun paxos_msg_wf :: "PaxosMsg \<Rightarrow> bool" where
  "paxos_msg_wf (Promise _ _ sfx _) = entries_wf sfx"
| "paxos_msg_wf (AcceptSync _ es _ _) = entries_wf es"
| "paxos_msg_wf (FirstAccept _ es) = entries_wf es"
| "paxos_msg_wf (AcceptDecide _ _ es) = entries_wf es"
| "paxos_msg_wf (ProposalForward es) = entries_wf es"
| "paxos_msg_wf _ = True"

definition message_wf :: "Message \<Rightarrow> bool" where
  "message_wf m = paxos_msg_wf (msg_msg m)"

subsection \<open>The codecs\<close>

interpretation ballot_codec: exact_codec serialise_ballot deserialise_ballot "\<lambda>_. True"
  by unfold_locales
    (auto simp: serialise_ballot_def deserialise_ballot_def codec_simps frugal_intros gbind_eq_Inr
      dest!: get_u64_exact)

lemmas ballot_codec_simps [codec_simps] = ballot_codec.get_put [OF TrueI]
lemmas ballot_codec_frugal [frugal_intros] = ballot_codec.get_frugal

interpretation leader_opt_codec: codec serialise_leader_opt deserialise_leader_opt "\<lambda>_. True"
  by unfold_locales
    (auto simp: serialise_leader_opt_def deserialise_leader_opt_def codec_simps
      intro!: frugal_intros split: option.split)

lemmas leader_opt_codec_simps [codec_simps] = leader_opt_codec.get_put [OF TrueI]
lemmas leader_opt_codec_frugal [frugal_intros] = leader_opt_codec.get_frugal

lemma get_put_entry [codec_simps]:
  "entry_wf e \<Longrightarrow> deserialise_entry (serialise_entry e @ rest) = Inr (e, rest)"
  by (cases e) (simp_all add: deserialise_entry_def codec_simps)

interpretation entry_codec: codec serialise_entry deserialise_entry entry_wf
proof
  show "entry_wf x" if "deserialise_entry bs = Inr (x, rest)" for bs x rest
    using that
    by (auto simp: deserialise_entry_def gbind_eq_Inr split: if_splits dest: seq_codec_wf)
  show "frugal deserialise_entry"
    unfolding deserialise_entry_def by (intro frugal_intros)
qed (simp add: codec_simps)

interpretation entries_codec: codec serialise_entries deserialise_entries entries_wf
proof
  show "deserialise_entries (serialise_entries x @ rest) = Inr (x, rest)" if "entries_wf x" for x rest
    using that entry_codec.get_stream [of x rest]
    by (simp add: deserialise_entries_def serialise_entries_def entries_wf_def list_all_iff codec_simps)
  show "entries_wf x" if "deserialise_entries bs = Inr (x, rest)" for bs x rest
    using that
    by (auto simp: deserialise_entries_def entries_wf_def gbind_eq_Inr list_all_iff
        dest: get_times_length entry_codec.get_stream_wf intro: unat_imp_short)
  show "frugal deserialise_entries"
    unfolding deserialise_entries_def by (intro frugal_intros entry_codec.get_frugal)
qed

lemmas entries_codec_simps [codec_simps] = entries_codec.get_put
lemmas entries_codec_frugal [frugal_intros] = entries_codec.get_frugal

lemma get_put_sync [codec_simps]:
  "deserialise_sync (put_u8 (if b then 1 else 0) @ rest) = Inr (b, rest)"
  by (simp add: deserialise_sync_def codec_simps)

lemma frugal_deserialise_sync [frugal_intros]: "frugal deserialise_sync"
  unfolding deserialise_sync_def by (intro frugal_intros)

interpretation paxos_msg_codec: codec serialise_paxos_msg deserialise_paxos_msg paxos_msg_wf
proof
  show "deserialise_paxos_msg (serialise_paxos_msg x @ rest) = Inr (x, rest)"
    if "paxos_msg_wf x" for x rest
    using that by (cases x) (simp_all add: deserialise_paxos_msg_def codec_simps)
  show "paxos_msg_wf x" if "deserialise_paxos_msg bs = Inr (x, rest)" for bs x rest
    using that
    by (auto simp: deserialise_paxos_msg_def gbind_eq_Inr split: if_splits dest: entries_codec.get_wf)
  show "frugal deserialise_paxos_msg"
    unfolding deserialise_paxos_msg_def by (intro frugal_intros)
qed

interpretation message_codec: codec serialise_message deserialise_message message_wf
  by unfold_locales
    (auto simp: deserialise_message_def serialise_message_def message_wf_def message_with_def
      paxos_msg_codec.get_put codec_simps gbind_eq_Inr dest: paxos_msg_codec.get_wf
      intro!: frugal_intros paxos_msg_codec.get_frugal)

subsection \<open>Properties\<close>

text \<open>C8: every Paxos message whose vectors are shorter than \<open>2^32\<close> survives the wire, whatever bytes follow
  it in the buffer, and nothing but its own bytes is consumed; no message's bytes start those of another.\<close>

theorem paxos_message_roundtrip:
  assumes "message_wf m"
  shows "deserialise_message (serialise_message m @ rest) = Inr (m, rest) \<and>
    (\<forall>m' s. message_wf m' \<longrightarrow> serialise_message m' = serialise_message m @ s \<longrightarrow> m' = m \<and> s = [])"
  using assms message_codec.get_put message_codec.prefix_free by blast

theorem paxos_message_roundtrip_witness:
  "deserialise_message (serialise_message (message_with 1 2 (Promise (Ballot 3 1) (Ballot 2 5)
      [Normal [7, 8], StopSignEntry \<lparr>ss_config_id = 2, ss_nodes = [1, 2, 4],
        ss_skip_prepare_use_leader = Some (leader_with 1 (Ballot 3 1))\<rparr>] 9)) @ [255])
    = Inr (message_with 1 2 (Promise (Ballot 3 1) (Ballot 2 5)
      [Normal [7, 8], StopSignEntry \<lparr>ss_config_id = 2, ss_nodes = [1, 2, 4],
        ss_skip_prepare_use_leader = Some (leader_with 1 (Ballot 3 1))\<rparr>] 9), [255])"
  by (rule paxos_message_roundtrip [THEN conjunct1])
    (simp add: message_wf_def message_with_def entries_wf_def short_def)

end
