(* ===== verification/Reconfig_Messages.thy ===== *)
theory Reconfig_Messages
  imports Paxos_Messages
begin

text \<open>
  The messages of reconfiguration and of the leader election (\<open>atomic_broadcast/messages.rs\<close>):
  \<open>ReconfigurationMsg\<close> with the transferred sequence segments, and \<open>HeartbeatMsg\<close>.
\<close>

record SequenceSegment =
  seg_from_idx :: u64
  seg_to_idx :: u64
  seg_entries :: "Entry list"

record SequenceMetaData =
  smd_config_id :: u32
  smd_len :: u64

record SequenceTransfer =
  st_config_id :: u32
  st_tag :: u32
  st_succeeded :: bool
  st_metadata :: SequenceMetaData
  st_segment :: SequenceSegment

record SequenceRequest =
  sr_config_id :: u32
  sr_tag :: u32
  sr_from_idx :: u64
  sr_to_idx :: u64
  sr_requestor_pid :: u64

record Reconfig =
  rc_continued_nodes :: "u64 list"
  rc_new_nodes :: "u64 list"

definition reconfig_len :: "Reconfig \<Rightarrow> nat" where
  "reconfig_len r = length (rc_continued_nodes r) + length (rc_new_nodes r)"

record ReconfigInit =
  ri_config_id :: u32
  ri_nodes :: Reconfig
  ri_seq_metadata :: SequenceMetaData
  ri_from :: u64
  ri_segment :: "SequenceSegment option"
  ri_skip_prepare_use_leader :: "Leader option"

datatype ReconfigurationMsg =
    Init ReconfigInit
  | SequenceRequestMsg SequenceRequest
  | SequenceTransferMsg SequenceTransfer

abbreviation "RECONFIG_INIT_ID \<equiv> (1 :: u8)"
abbreviation "SEQ_REQ_ID \<equiv> (2 :: u8)"
abbreviation "SEQ_TRANSFER_ID \<equiv> (3 :: u8)"

definition segment_with :: "u64 \<Rightarrow> u64 \<Rightarrow> Entry list \<Rightarrow> SequenceSegment" where
  "segment_with from to es = \<lparr>seg_from_idx = from, seg_to_idx = to, seg_entries = es\<rparr>"

definition metadata_with :: "u32 \<Rightarrow> u64 \<Rightarrow> SequenceMetaData" where
  "metadata_with cid len = \<lparr>smd_config_id = cid, smd_len = len\<rparr>"

definition transfer_with ::
  "u32 \<Rightarrow> u32 \<Rightarrow> bool \<Rightarrow> SequenceMetaData \<Rightarrow> SequenceSegment \<Rightarrow> SequenceTransfer" where
  "transfer_with cid tag ok md seg = \<lparr>st_config_id = cid, st_tag = tag, st_succeeded = ok,
     st_metadata = md, st_segment = seg\<rparr>"

definition request_with :: "u32 \<Rightarrow> u32 \<Rightarrow> u64 \<Rightarrow> u64 \<Rightarrow> u64 \<Rightarrow> SequenceRequest" where
  "request_with cid tag from to req = \<lparr>sr_config_id = cid, sr_tag = tag, sr_from_idx = from,
     sr_to_idx = to, sr_requestor_pid = req\<rparr>"

definition reconfig_with :: "u64 list \<Rightarrow> u64 list \<Rightarrow> Reconfig" where
  "reconfig_with continued new = \<lparr>rc_continued_nodes = continued, rc_new_nodes = new\<rparr>"

definition reconfig_init_with ::
  "u32 \<Rightarrow> Reconfig \<Rightarrow> SequenceMetaData \<Rightarrow> u64 \<Rightarrow> SequenceSegment option \<Rightarrow> Leader option \<Rightarrow> ReconfigInit"
where
  "reconfig_init_with cid nodes md from seg skip = \<lparr>ri_config_id = cid, ri_nodes = nodes,
     ri_seq_metadata = md, ri_from = from, ri_segment = seg, ri_skip_prepare_use_leader = skip\<rparr>"

lemmas with_defs = segment_with_def metadata_with_def transfer_with_def request_with_def
  reconfig_with_def reconfig_init_with_def

subsection \<open>Reconfiguration\<close>

definition serialise_segment_opt :: "SequenceSegment option \<Rightarrow> bytes" where
  "serialise_segment_opt so = (case so of
      Some s \<Rightarrow> put_u8 1 @ put_u64 (seg_from_idx s) @ put_u64 (seg_to_idx s)
                @ serialise_entries (seg_entries s)
    | None \<Rightarrow> put_u8 0)"

fun serialise_reconfig :: "ReconfigurationMsg \<Rightarrow> bytes" where
  "serialise_reconfig (Init r) =
     put_u8 RECONFIG_INIT_ID @ put_u32 (ri_config_id r) @ put_u64 (ri_from r)
     @ put_u32 (smd_config_id (ri_seq_metadata r)) @ put_u64 (smd_len (ri_seq_metadata r))
     @ put_u64s (rc_continued_nodes (ri_nodes r)) @ put_u64s (rc_new_nodes (ri_nodes r))
     @ serialise_segment_opt (ri_segment r)
     @ serialise_leader_opt (ri_skip_prepare_use_leader r)"
| "serialise_reconfig (SequenceRequestMsg sr) =
     put_u8 SEQ_REQ_ID @ put_u32 (sr_config_id sr) @ put_u32 (sr_tag sr)
     @ put_u64 (sr_from_idx sr) @ put_u64 (sr_to_idx sr) @ put_u64 (sr_requestor_pid sr)"
| "serialise_reconfig (SequenceTransferMsg st) =
     put_u8 SEQ_TRANSFER_ID @ put_u32 (st_config_id st) @ put_u32 (st_tag st)
     @ put_u8 (if st_succeeded st then 1 else 0)
     @ put_u64 (seg_from_idx (st_segment st)) @ put_u64 (seg_to_idx (st_segment st))
     @ put_u32 (smd_config_id (st_metadata st)) @ put_u64 (smd_len (st_metadata st))
     @ serialise_entries (seg_entries (st_segment st))"

definition deserialise_segment_opt :: "SequenceSegment option getter" where
  "deserialise_segment_opt = gbind get_u8 (\<lambda>flag.
     if flag = 1
     then gbind get_u64 (\<lambda>from_idx. gbind get_u64 (\<lambda>to_idx.
          gbind deserialise_entries (\<lambda>entries. gret (Some (segment_with from_idx to_idx entries)))))
     else gret None)"

definition deserialise_reconfig :: "ReconfigurationMsg getter" where
  "deserialise_reconfig = gbind get_u8 (\<lambda>i.
     if i = RECONFIG_INIT_ID then
       gbind get_u32 (\<lambda>config_id. gbind get_u64 (\<lambda>from.
       gbind get_u32 (\<lambda>md_config_id. gbind get_u64 (\<lambda>md_len.
       gbind get_u64s (\<lambda>continued_nodes. gbind get_u64s (\<lambda>new_nodes.
       gbind deserialise_segment_opt (\<lambda>segment. gbind deserialise_leader_opt (\<lambda>skip.
         gret (Init (reconfig_init_with config_id (reconfig_with continued_nodes new_nodes)
           (metadata_with md_config_id md_len) from segment skip))))))))))
     else if i = SEQ_REQ_ID then
       gbind get_u32 (\<lambda>config_id. gbind get_u32 (\<lambda>tag. gbind get_u64 (\<lambda>from_idx.
       gbind get_u64 (\<lambda>to_idx. gbind get_u64 (\<lambda>requestor_pid.
         gret (SequenceRequestMsg (request_with config_id tag from_idx to_idx requestor_pid)))))))
     else if i = SEQ_TRANSFER_ID then
       gbind get_u32 (\<lambda>config_id. gbind get_u32 (\<lambda>tag. gbind get_u8 (\<lambda>succeeded.
       gbind get_u64 (\<lambda>from_idx. gbind get_u64 (\<lambda>to_idx.
       gbind get_u32 (\<lambda>md_config_id. gbind get_u64 (\<lambda>md_len.
       gbind deserialise_entries (\<lambda>entries.
         gret (SequenceTransferMsg (transfer_with config_id tag (succeeded = 1)
           (metadata_with md_config_id md_len) (segment_with from_idx to_idx entries)))))))))))
     else gfail InvalidType)"

definition segment_opt_wf :: "SequenceSegment option \<Rightarrow> bool" where
  "segment_opt_wf so = (case so of None \<Rightarrow> True | Some s \<Rightarrow> entries_wf (seg_entries s))"

fun reconfig_wf :: "ReconfigurationMsg \<Rightarrow> bool" where
  "reconfig_wf (Init r) \<longleftrightarrow> short (rc_continued_nodes (ri_nodes r)) \<and>
     short (rc_new_nodes (ri_nodes r)) \<and> segment_opt_wf (ri_segment r)"
| "reconfig_wf (SequenceRequestMsg sr) \<longleftrightarrow> True"
| "reconfig_wf (SequenceTransferMsg st) \<longleftrightarrow> entries_wf (seg_entries (st_segment st))"

interpretation segment_opt_codec: codec serialise_segment_opt deserialise_segment_opt segment_opt_wf
proof
  show "deserialise_segment_opt (serialise_segment_opt x @ rest) = Inr (x, rest)"
    if "segment_opt_wf x" for x rest
    using that
    by (auto simp: serialise_segment_opt_def deserialise_segment_opt_def segment_opt_wf_def
        codec_simps with_defs split: option.splits)
  show "segment_opt_wf x" if "deserialise_segment_opt bs = Inr (x, rest)" for bs x rest
    using that
    by (auto simp: deserialise_segment_opt_def segment_opt_wf_def with_defs gbind_eq_Inr
        dest: entries_codec.get_wf split: if_splits)
  show "frugal deserialise_segment_opt"
    unfolding deserialise_segment_opt_def by (intro frugal_intros)
qed

lemmas segment_opt_codec_simps [codec_simps] = segment_opt_codec.get_put
lemmas segment_opt_codec_frugal [frugal_intros] = segment_opt_codec.get_frugal

lemma get_put_reconfig:
  "reconfig_wf x \<Longrightarrow> deserialise_reconfig (serialise_reconfig x @ rest) = Inr (x, rest)"
  by (cases x) (simp_all add: deserialise_reconfig_def with_defs codec_simps)

interpretation reconfig_codec: codec serialise_reconfig deserialise_reconfig reconfig_wf
proof
  show "reconfig_wf x" if "deserialise_reconfig bs = Inr (x, rest)" for bs x rest
    using that
    by (auto simp: deserialise_reconfig_def with_defs gbind_eq_Inr split: if_splits
        dest: entries_codec.get_wf segment_opt_codec.get_wf seq_codec_wf)
  show "frugal deserialise_reconfig"
    unfolding deserialise_reconfig_def by (intro frugal_intros)
qed (rule get_put_reconfig)

subsection \<open>Heartbeats\<close>

datatype HeartbeatMsg =
    Request (hbreq_round: u64) (hbreq_max_ballot: Ballot)
  | Reply (hbrep_sender_pid: u64) (hbrep_round: u64) (hbrep_max_ballot: Ballot)

abbreviation "HB_REQ_ID \<equiv> (1 :: u8)"
abbreviation "HB_REP_ID \<equiv> (2 :: u8)"

fun serialise_heartbeat :: "HeartbeatMsg \<Rightarrow> bytes" where
  "serialise_heartbeat (Request round b) =
     put_u8 HB_REQ_ID @ put_u64 round @ put_u64 (bal_n b) @ put_u64 (bal_pid b)"
| "serialise_heartbeat (Reply sender round b) =
     put_u8 HB_REP_ID @ put_u64 sender @ put_u64 round @ put_u64 (bal_n b) @ put_u64 (bal_pid b)"

definition deserialise_heartbeat :: "HeartbeatMsg getter" where
  "deserialise_heartbeat = gbind get_u8 (\<lambda>i.
     if i = HB_REQ_ID then
       gbind get_u64 (\<lambda>round. gbind get_u64 (\<lambda>n. gbind get_u64 (\<lambda>pid.
         gret (Request round (Ballot n pid)))))
     else if i = HB_REP_ID then
       gbind get_u64 (\<lambda>sender_pid. gbind get_u64 (\<lambda>round. gbind get_u64 (\<lambda>n. gbind get_u64 (\<lambda>pid.
         gret (Reply sender_pid round (Ballot n pid))))))
     else gfail InvalidType)"

interpretation heartbeat_codec: exact_codec serialise_heartbeat deserialise_heartbeat "\<lambda>_. True"
proof
  show "deserialise_heartbeat (serialise_heartbeat x @ rest) = Inr (x, rest)" for x rest
    by (cases x) (simp_all add: deserialise_heartbeat_def codec_simps)
  show "frugal deserialise_heartbeat"
    unfolding deserialise_heartbeat_def by (intro frugal_intros)
  show "bs = serialise_heartbeat x @ rest" if "deserialise_heartbeat bs = Inr (x, rest)" for bs x rest
    using that
    by (auto simp: deserialise_heartbeat_def gbind_eq_Inr split: if_splits dest!: get_exacts)
qed simp

text \<open>\<open>size_hint\<close> of a heartbeat (55) is an upper bound of what \<open>serialise\<close> writes.\<close>

lemma heartbeat_size: "length (serialise_heartbeat m) \<le> 55"
  by (cases m) auto

subsection \<open>Properties\<close>

text \<open>Every reconfiguration message (initialisation, sequence request, sequence transfer with its segment) whose
  vectors are shorter than \<open>2^32\<close> survives the wire, and whatever a received buffer decodes to is such a
  message and decodes to itself after being sent on.\<close>

theorem reconfig_roundtrip:
  "(reconfig_wf m \<longrightarrow> deserialise_reconfig (serialise_reconfig m @ rest) = Inr (m, rest)) \<and>
   (deserialise_reconfig bs = Inr (m, rest) \<longrightarrow>
      reconfig_wf m \<and> deserialise_reconfig (serialise_reconfig m @ rest') = Inr (m, rest'))"
  using reconfig_codec.get_put reconfig_codec.get_wf by blast

theorem reconfig_roundtrip_witness:
  "deserialise_reconfig (serialise_reconfig (SequenceTransferMsg (transfer_with 1 2 True
      (metadata_with 1 10) (segment_with 5 7 [Normal [1], Normal []]))) @ [0])
    = Inr (SequenceTransferMsg (transfer_with 1 2 True
      (metadata_with 1 10) (segment_with 5 7 [Normal [1], Normal []])), [0])"
  by (rule reconfig_roundtrip [THEN conjunct1, THEN mp]) (simp add: with_defs entries_wf_def short_def)

text \<open>The heartbeat format is exact: a buffer decodes to a heartbeat and a rest precisely when it is the
  serialised heartbeat followed by the rest; in particular every heartbeat survives the wire and the size hint
  of 55 bytes is never exceeded.\<close>

theorem heartbeat_exact:
  "(deserialise_heartbeat bs = Inr (m, rest)) = (bs = serialise_heartbeat m @ rest) \<and>
   length (serialise_heartbeat m) \<le> 55"
  using heartbeat_codec.get_iff heartbeat_size by simp

end
