(* ===== verification/Broadcast_Messages.thy ===== *)
theory Broadcast_Messages
  imports Byte_Buffer
begin

text \<open>
  The messages shared by the Raft and the Paxos implementation of atomic broadcast
  (\<open>atomic_broadcast/messages.rs\<close>): proposals and their responses, and \<open>StopMsg\<close>.
\<close>

abbreviation "RECONFIG_ID \<equiv> (0 :: u64)"

record Proposal =
  prop_data :: bytes
  prop_reconfig :: "(u64 list \<times> u64 list) option"

definition proposal_reconfiguration :: "bytes \<Rightarrow> u64 list \<times> u64 list \<Rightarrow> Proposal" where
  "proposal_reconfiguration data reconfig = \<lparr>prop_data = data, prop_reconfig = Some reconfig\<rparr>"

definition proposal_normal :: "bytes \<Rightarrow> Proposal" where
  "proposal_normal data = \<lparr>prop_data = data, prop_reconfig = None\<rparr>"

record ProposalResp =
  presp_data :: bytes
  presp_latest_leader :: u64

definition proposal_resp_with :: "bytes \<Rightarrow> u64 \<Rightarrow> ProposalResp" where
  "proposal_resp_with data leader = \<lparr>presp_data = data, presp_latest_leader = leader\<rparr>"

datatype AtomicBroadcastMsg =
    ProposalMsg Proposal
  | ProposalRespMsg ProposalResp
  | FirstLeader u64
  | PendingReconfiguration bytes

abbreviation "PROPOSAL_ID \<equiv> (1 :: u8)"
abbreviation "PROPOSALRESP_ID \<equiv> (2 :: u8)"
abbreviation "FIRSTLEADER_ID \<equiv> (3 :: u8)"
abbreviation "PENDINGRECONFIG_ID \<equiv> (4 :: u8)"

fun serialise_abcast :: "AtomicBroadcastMsg \<Rightarrow> bytes" where
  "serialise_abcast (ProposalMsg p) =
     put_u8 PROPOSAL_ID @ put_bytes (prop_data p)
     @ (case prop_reconfig p of
          Some (voters, followers) \<Rightarrow> put_u64s voters @ put_u64s followers
        | None \<Rightarrow> put_u32 0 @ put_u32 0)"
| "serialise_abcast (ProposalRespMsg pr) =
     put_u8 PROPOSALRESP_ID @ put_u64 (presp_latest_leader pr) @ put_bytes (presp_data pr)"
| "serialise_abcast (FirstLeader pid) = put_u8 FIRSTLEADER_ID @ put_u64 pid"
| "serialise_abcast (PendingReconfiguration data) = put_u8 PENDINGRECONFIG_ID @ put_bytes data"

definition deserialise_abcast :: "AtomicBroadcastMsg getter" where
  "deserialise_abcast = gbind get_u8 (\<lambda>i.
     if i = PROPOSAL_ID then
       gbind get_bytes (\<lambda>data. gbind get_u64s (\<lambda>voters. gbind get_u64s (\<lambda>followers.
         gret (ProposalMsg \<lparr>prop_data = data,
           prop_reconfig = (if length voters = 0 \<and> length followers = 0 then None
                            else Some (voters, followers))\<rparr>))))
     else if i = PROPOSALRESP_ID then
       gbind get_u64 (\<lambda>latest_leader. gbind get_bytes (\<lambda>data.
         gret (ProposalRespMsg (proposal_resp_with data latest_leader))))
     else if i = FIRSTLEADER_ID then gbind get_u64 (\<lambda>pid. gret (FirstLeader pid))
     else if i = PENDINGRECONFIG_ID then
       gbind get_bytes (\<lambda>data. gret (PendingReconfiguration data))
     else gfail InvalidType)"

text \<open>A reconfiguration to no node at all is the one proposal the format cannot carry.\<close>

fun abcast_wf :: "AtomicBroadcastMsg \<Rightarrow> bool" where
  "abcast_wf (ProposalMsg p) \<longleftrightarrow> short (prop_data p) \<and>
     (case prop_reconfig p of None \<Rightarrow> True
      | Some (voters, followers) \<Rightarrow> short voters \<and> short followers \<and> (voters \<noteq> [] \<or> followers \<noteq> []))"
| "abcast_wf (ProposalRespMsg pr) \<longleftrightarrow> short (presp_data pr)"
| "abcast_wf (FirstLeader pid) \<longleftrightarrow> True"
| "abcast_wf (PendingReconfiguration data) \<longleftrightarrow> short data"

lemma put_u32_0_u64s: "put_u32 0 = put_u64s []"
  by (simp add: put_u64s_def put_len_def)

lemma get_put_abcast:
  "abcast_wf x \<Longrightarrow> deserialise_abcast (serialise_abcast x @ rest) = Inr (x, rest)"
  by (cases x)
    (auto simp: deserialise_abcast_def proposal_resp_with_def put_u32_0_u64s codec_simps
      split: option.splits)

interpretation abcast_codec: exact_codec serialise_abcast deserialise_abcast abcast_wf
proof
  show "abcast_wf x" if "deserialise_abcast bs = Inr (x, rest)" for bs x rest
    using that
    by (auto simp: deserialise_abcast_def proposal_resp_with_def gbind_eq_Inr split: if_splits
        dest: seq_codec_wf)
  show "frugal deserialise_abcast"
    unfolding deserialise_abcast_def by (intro frugal_intros)
  show "bs = serialise_abcast x @ rest" if "deserialise_abcast bs = Inr (x, rest)" for bs x rest
    using that
    by (auto simp: deserialise_abcast_def proposal_resp_with_def put_u32_0_u64s gbind_eq_Inr
        split: if_splits dest!: get_exacts seq_codec_exact)
qed (rule get_put_abcast)

datatype StopMsg = PeerStop u64 | ClientStop

abbreviation "PEER_STOP_ID \<equiv> (1 :: u8)"
abbreviation "CLIENT_STOP_ID \<equiv> (2 :: u8)"

fun serialise_stop :: "StopMsg \<Rightarrow> bytes" where
  "serialise_stop (PeerStop pid) = put_u8 PEER_STOP_ID @ put_u64 pid"
| "serialise_stop ClientStop = put_u8 CLIENT_STOP_ID"

definition deserialise_stop :: "StopMsg getter" where
  "deserialise_stop = gbind get_u8 (\<lambda>i.
     if i = PEER_STOP_ID then gbind get_u64 (\<lambda>pid. gret (PeerStop pid))
     else if i = CLIENT_STOP_ID then gret ClientStop
     else gfail InvalidType)"

interpretation stop_codec: exact_codec serialise_stop deserialise_stop "\<lambda>_. True"
proof
  show "deserialise_stop (serialise_stop x @ rest) = Inr (x, rest)" for x rest
    by (cases x) (simp_all add: deserialise_stop_def codec_simps)
  show "frugal deserialise_stop"
    unfolding deserialise_stop_def by (intro frugal_intros)
  show "bs = serialise_stop x @ rest" if "deserialise_stop bs = Inr (x, rest)" for bs x rest
    using that by (auto simp: deserialise_stop_def gbind_eq_Inr split: if_splits dest!: get_exacts)
qed simp

subsection \<open>Properties\<close>

text \<open>C9: the format of proposals, responses, first-leader and pending-reconfiguration messages is exact: a buffer
  decodes to a message and a rest precisely when the message is well formed and the buffer is the serialised
  message followed by the rest.\<close>

theorem abcast_exact:
  "(deserialise_abcast bs = Inr (m, rest)) = (abcast_wf m \<and> bs = serialise_abcast m @ rest)"
  by (rule abcast_codec.get_iff)

text \<open>The one proposal that does not survive the wire: a reconfiguration with no voters and no followers
  arrives as an ordinary proposal, because both lengths are written as zero exactly as for no
  reconfiguration.\<close>

theorem empty_reconfig_is_lost:
  assumes "short data"
  shows "deserialise_abcast (serialise_abcast (ProposalMsg (proposal_reconfiguration data ([], []))) @ rest)
    = Inr (ProposalMsg (proposal_normal data), rest)"
proof -
  have "serialise_abcast (ProposalMsg (proposal_reconfiguration data ([], [])))
      = serialise_abcast (ProposalMsg (proposal_normal data))"
    by (simp add: proposal_reconfiguration_def proposal_normal_def put_u32_0_u64s)
  then show ?thesis
    using assms get_put_abcast [of "ProposalMsg (proposal_normal data)" rest]
    by (simp add: proposal_normal_def)
qed

theorem empty_reconfig_is_lost_witness:
  "deserialise_abcast (serialise_abcast (ProposalMsg (proposal_reconfiguration [1, 2] ([], []))) @ [])
    = Inr (ProposalMsg (proposal_normal [1, 2]), [])"
  by (rule empty_reconfig_is_lost) (simp add: short_def)

end
