(* ===== verification/Ballot_Leader_Election.thy ===== *)
theory Ballot_Leader_Election
  imports Quorums Stop_Protocol Reconfig_Messages Broadcast_Messages "HOL-Library.Product_Lexorder"
begin

text \<open>
  The ballot leader election component (\<open>paxos.rs\<close>, module \<open>ballot_leader_election\<close>): the state
  \<open>BallotLeaderComp\<close>, its constructor and every handler, with the messages sent, the timers set and the
  \<open>Leader\<close> indications triggered as the outputs of a step. \<open>'p\<close> stands for Kompact's \<open>ActorPath\<close>.
  Additions on \<open>u64\<close> wrap, as in the release profile the benchmarks are built with; a division by
  a zero \<open>initial_election_factor\<close> panics.
\<close>

record 'p BallotLeaderComp =
  ble_pid :: u64
  ble_peers :: "'p list"
  ble_hb_round :: u64
  ble_ballots :: "(Ballot \<times> u64) list"
  ble_current_ballot :: Ballot
  ble_leader :: "(Ballot \<times> u64) option"
  ble_max_ballot :: Ballot
  ble_hb_delay :: u64
  ble_delta :: u64
  ble_majority :: nat
  ble_timer :: "u64 option"
  ble_stopped :: bool
  ble_stopped_peers :: "u64 set"
  ble_stop_ask :: "u64 option"
  ble_quick_timeout :: bool
  ble_initial_election_factor :: u64

datatype 'p ble_out =
    TellHeartbeat 'p HeartbeatMsg
  | TellStop 'p StopMsg
  | TriggerLeader Leader
  | ReplyStopAsk u64

datatype 'p ble_in =
    BleStart
  | BleTimeout
  | BleStop u64
  | BleHeartbeat 'p HeartbeatMsg
  | BleNetStop StopMsg
  | BleDeserError
  | BleKill

definition ble_with ::
  "'p list \<Rightarrow> u64 \<Rightarrow> u64 \<Rightarrow> u64 \<Rightarrow> bool \<Rightarrow> Leader option \<Rightarrow> u64 \<Rightarrow> 'p BallotLeaderComp" where
  "ble_with peers pid hb_delay delta quick_timeout initial_leader initial_election_factor =
    (let n = length peers + 1;
         (leader, initial_ballot, max_ballot) =
           (case initial_leader of
              Some l \<Rightarrow> (Some (ldr_round l, ldr_pid l),
                         (if ldr_pid l = pid then ldr_round l else Ballot 0 pid),
                         ldr_round l)
            | None \<Rightarrow> (None, Ballot 0 pid, Ballot 0 pid))
     in \<lparr>ble_pid = pid, ble_peers = peers, ble_hb_round = 0, ble_ballots = [],
         ble_current_ballot = initial_ballot, ble_leader = leader, ble_max_ballot = max_ballot,
         ble_hb_delay = hb_delay, ble_delta = delta, ble_majority = n div 2 + 1, ble_timer = None,
         ble_stopped = False, ble_stopped_peers = {}, ble_stop_ask = None,
         ble_quick_timeout = quick_timeout,
         ble_initial_election_factor = initial_election_factor\<rparr>)"

definition set_initial_leader :: "Leader \<Rightarrow> 'p BallotLeaderComp \<Rightarrow> 'p BallotLeaderComp" where
  "set_initial_leader l s = s\<lparr>
     ble_leader := Some (ldr_round l, ldr_pid l),
     ble_current_ballot := (if ldr_pid l = ble_pid s then ldr_round l else Ballot 0 (ble_pid s)),
     ble_max_ballot := ldr_round l,
     ble_quick_timeout := False\<rparr>"

definition check_leader ::
  "'p BallotLeaderComp \<Rightarrow> ('p BallotLeaderComp \<times> 'p ble_out list) rust" where
  "check_leader s = rbind (runwrap (iter_max (ble_ballots s))) (\<lambda>(top_ballot, top_pid).
     let s = s\<lparr>ble_ballots := []\<rparr> in
     if top_ballot < ble_max_ballot s then
       Inr (s\<lparr>ble_current_ballot := Ballot (bal_n (ble_max_ballot s) + 1)
                                          (bal_pid (ble_current_ballot s)),
              ble_leader := None\<rparr>, [])
     else if ble_leader s \<noteq> Some (top_ballot, top_pid) then
       Inr (s\<lparr>ble_quick_timeout := False, ble_max_ballot := top_ballot,
              ble_leader := Some (top_ballot, top_pid)\<rparr>,
            [TriggerLeader (leader_with top_pid top_ballot)])
     else Inr (s, []))"

definition timer_delay :: "'p BallotLeaderComp \<Rightarrow> u64 rust" where
  "timer_delay s =
    (if ble_quick_timeout s
     then if ble_initial_election_factor s = 0 then Inl PanicCall
          else Inr (ble_hb_delay s div ble_initial_election_factor s)
     else Inr (ble_hb_delay s))"

definition start_timer :: "u64 \<Rightarrow> 'p BallotLeaderComp \<Rightarrow> 'p BallotLeaderComp" where
  "start_timer t s = s\<lparr>ble_timer := Some t\<rparr>"

definition stop_timer :: "'p BallotLeaderComp \<Rightarrow> 'p BallotLeaderComp" where
  "stop_timer s = s\<lparr>ble_timer := None\<rparr>"

definition send_requests :: "'p BallotLeaderComp \<Rightarrow> 'p ble_out list" where
  "send_requests s =
     map (\<lambda>peer. TellHeartbeat peer (Request (ble_hb_round s) (ble_max_ballot s))) (ble_peers s)"

definition hb_timeout ::
  "'p BallotLeaderComp \<Rightarrow> ('p BallotLeaderComp \<times> 'p ble_out list) rust" where
  "hb_timeout s =
    rbind (if length (ble_ballots s) + 1 \<ge> ble_majority s
           then check_leader (s\<lparr>ble_ballots := ble_ballots s @ [(ble_current_ballot s, ble_pid s)]\<rparr>)
           else Inr (s\<lparr>ble_ballots := []\<rparr>, [])) (\<lambda>(s, out).
    rbind (timer_delay s) (\<lambda>delay.
    let s = s\<lparr>ble_hb_round := ble_hb_round s + 1\<rparr> in
    Inr (start_timer delay s, out @ send_requests s)))"

definition ble_on_start ::
  "'p BallotLeaderComp \<Rightarrow> ('p BallotLeaderComp \<times> 'p ble_out list) rust" where
  "ble_on_start s = rbind (timer_delay s) (\<lambda>delay. Inr (start_timer delay s, send_requests s))"

definition ble_receive_local ::
  "u64 \<Rightarrow> 'p BallotLeaderComp \<Rightarrow> ('p BallotLeaderComp \<times> 'p ble_out list) rust" where
  "ble_receive_local pid s =
    (let s = stop_timer s;
         out = map (\<lambda>peer. TellStop peer (PeerStop pid)) (ble_peers s);
         s = s\<lparr>ble_stopped := True\<rparr>
     in if card (ble_stopped_peers s) = length (ble_peers s)
        then Inr (s, out @ [ReplyStopAsk pid])
        else Inr (s\<lparr>ble_stop_ask := Some pid\<rparr>, out))"

fun ble_receive_heartbeat ::
  "'p \<Rightarrow> HeartbeatMsg \<Rightarrow> 'p BallotLeaderComp \<Rightarrow> ('p BallotLeaderComp \<times> 'p ble_out list) rust" where
  "ble_receive_heartbeat sender (Request round max_ballot) s =
    (if ble_stopped s then Inr (s, [])
     else let s = (if max_ballot > ble_max_ballot s then s\<lparr>ble_max_ballot := max_ballot\<rparr> else s)
          in Inr (s, [TellHeartbeat sender (Reply (ble_pid s) round (ble_current_ballot s))]))"
| "ble_receive_heartbeat sender (Reply sender_pid round max_ballot) s =
    (if ble_stopped s then Inr (s, [])
     else if round = ble_hb_round s
     then Inr (s\<lparr>ble_ballots := ble_ballots s @ [(max_ballot, sender_pid)]\<rparr>, [])
     else Inr (s\<lparr>ble_hb_delay := ble_hb_delay s + ble_delta s\<rparr>, []))"

fun ble_receive_stop ::
  "StopMsg \<Rightarrow> 'p BallotLeaderComp \<Rightarrow> ('p BallotLeaderComp \<times> 'p ble_out list) rust" where
  "ble_receive_stop (PeerStop pid) s =
    rbind (rassert (pid \<notin> ble_stopped_peers s)) (\<lambda>_.
    let s = s\<lparr>ble_stopped_peers := insert pid (ble_stopped_peers s)\<rparr> in
    if ble_stopped s \<and> card (ble_stopped_peers s) = length (ble_peers s)
    then rbind (runwrap (ble_stop_ask s)) (\<lambda>ask. Inr (s\<lparr>ble_stop_ask := None\<rparr>, [ReplyStopAsk ask]))
    else Inr (s, []))"
| "ble_receive_stop ClientStop s = Inr (s, [])"

text \<open>One event of the component. Kompact only fires the timer that is set; \<open>err(e)\<close> of
  \<open>match_deser!\<close> logs the error.\<close>

fun ble_step ::
  "'p BallotLeaderComp \<Rightarrow> 'p ble_in \<Rightarrow> ('p BallotLeaderComp \<times> 'p ble_out list) rust" where
  "ble_step s BleStart = ble_on_start s"
| "ble_step s BleTimeout = (if ble_timer s = None then Inr (s, []) else hb_timeout s)"
| "ble_step s (BleStop pid) = ble_receive_local pid s"
| "ble_step s (BleHeartbeat sender hb) = ble_receive_heartbeat sender hb s"
| "ble_step s (BleNetStop m) = ble_receive_stop m s"
| "ble_step s BleDeserError = Inr (s, [])"
| "ble_step s BleKill = Inr (stop_timer s, [])"

definition ble_run ::
  "'p BallotLeaderComp \<Rightarrow> 'p ble_in list \<Rightarrow> ('p BallotLeaderComp \<times> 'p ble_out list) rust" where
  "ble_run s is = for_each (\<lambda>i s. ble_step s i) is s"

lemma ble_run_simps [simp]:
  "ble_run s [] = Inr (s, [])"
  "ble_run s (i # is) = step_then (ble_step s i) (\<lambda>s. ble_run s is)"
  by (simp_all add: ble_run_def)

subsection \<open>Facts on single steps\<close>

lemma fold_max_ge: "fold max xs x \<ge> (x::'a::linorder)"
  by (induction xs arbitrary: x) (auto intro: order_trans [OF max.cobounded2])

lemma check_leader_snoc:
  "check_leader (s\<lparr>ble_ballots := bs @ [b]\<rparr>) =
    (let (top_ballot, top_pid) = Max (insert b (set bs)); s = s\<lparr>ble_ballots := []\<rparr> in
     if top_ballot < ble_max_ballot s then
       Inr (s\<lparr>ble_current_ballot := Ballot (bal_n (ble_max_ballot s) + 1)
                                          (bal_pid (ble_current_ballot s)),
              ble_leader := None\<rparr>, [])
     else if ble_leader s \<noteq> Some (top_ballot, top_pid) then
       Inr (s\<lparr>ble_quick_timeout := False, ble_max_ballot := top_ballot,
              ble_leader := Some (top_ballot, top_pid)\<rparr>,
            [TriggerLeader (leader_with top_pid top_ballot)])
     else Inr (s, []))"
  by (simp add: check_leader_def iter_max_Max Let_def split: prod.split)

primrec is_leader_trigger :: "'p ble_out \<Rightarrow> Leader option" where
  "is_leader_trigger (TriggerLeader l) = Some l"
| "is_leader_trigger (TellHeartbeat p m) = None"
| "is_leader_trigger (TellStop p m) = None"
| "is_leader_trigger (ReplyStopAsk p) = None"

definition leaders :: "'p ble_out list \<Rightarrow> Leader list" where
  "leaders out = List.map_filter is_leader_trigger out"

primrec is_ask_reply :: "'p ble_out \<Rightarrow> u64 option" where
  "is_ask_reply (ReplyStopAsk p) = Some p"
| "is_ask_reply (TriggerLeader l) = None"
| "is_ask_reply (TellHeartbeat p m) = None"
| "is_ask_reply (TellStop p m) = None"

definition ask_replies :: "'p ble_out list \<Rightarrow> u64 list" where
  "ask_replies out = List.map_filter is_ask_reply out"

lemma leaders_simps [simp]:
  "leaders [] = []" "leaders (out @ out') = leaders out @ leaders out'"
  "leaders (TriggerLeader l # out) = l # leaders out"
  "leaders (TellHeartbeat p m # out) = leaders out"
  "leaders (ReplyStopAsk a # out) = leaders out"
  "leaders (send_requests s) = []"
  "leaders (map (\<lambda>peer. TellStop peer st) ps) = []"
  by (simp_all add: leaders_def map_filter_append map_filter_simps send_requests_def map_filter_map_None)

lemma ask_replies_simps [simp]:
  "ask_replies [] = []" "ask_replies (out @ out') = ask_replies out @ ask_replies out'"
  "ask_replies (TriggerLeader l # out) = ask_replies out"
  "ask_replies (TellHeartbeat p m # out) = ask_replies out"
  "ask_replies (ReplyStopAsk a # out) = a # ask_replies out"
  "ask_replies (send_requests s) = []"
  "ask_replies (map (\<lambda>peer. TellStop peer st) ps) = []"
  by (simp_all add: ask_replies_def map_filter_append map_filter_simps send_requests_def map_filter_map_None)

subsection \<open>Elected ballots only grow\<close>

definition above :: "Ballot option \<Rightarrow> Ballot \<Rightarrow> bool" where
  "above prev b = (case prev of None \<Rightarrow> True | Some l \<Rightarrow> l < b)"

text \<open>\<open>ble_inv s prev N\<close>: every vote carries its voter's id, no counter exceeds \<open>N\<close>, and the ballot
  elected last is still the leader or has been overtaken by the component's own ballot.\<close>

definition ble_inv :: "'p BallotLeaderComp \<Rightarrow> Ballot option \<Rightarrow> nat \<Rightarrow> bool" where
  "ble_inv s prev N \<longleftrightarrow>
     (\<forall>(b, p) \<in> set (ble_ballots s). bal_pid b = p \<and> unat (bal_n b) \<le> N) \<and>
     bal_pid (ble_current_ballot s) = ble_pid s \<and> unat (bal_n (ble_current_ballot s)) \<le> N \<and>
     unat (bal_n (ble_max_ballot s)) \<le> N \<and>
     (case ble_leader s of None \<Rightarrow> True | Some (b, p) \<Rightarrow> bal_pid b = p \<and> prev = Some b) \<and>
     (case prev of None \<Rightarrow> True
      | Some b \<Rightarrow> b \<le> ble_max_ballot s \<and> (ble_leader s = None \<longrightarrow> b < ble_current_ballot s))"

primrec ble_in_ok :: "nat \<Rightarrow> 'p ble_in \<Rightarrow> bool" where
  "ble_in_ok N (BleHeartbeat sender hb) = (case hb of
      Request round b \<Rightarrow> unat (bal_n b) \<le> N
    | Reply p round b \<Rightarrow> unat (bal_n b) \<le> N \<and> bal_pid b = p)"
| "ble_in_ok N BleStart = True"
| "ble_in_ok N BleTimeout = True"
| "ble_in_ok N (BleStop pid) = True"
| "ble_in_ok N (BleNetStop m) = True"
| "ble_in_ok N BleDeserError = True"
| "ble_in_ok N BleKill = True"

lemma ble_inv_mono: "ble_inv s prev N \<Longrightarrow> N \<le> M \<Longrightarrow> ble_inv s prev M"
  by (force simp: ble_inv_def)

lemma ble_inv_cong:
  assumes "ble_inv s prev N" "ble_ballots t = ble_ballots s" "ble_current_ballot t = ble_current_ballot s"
    "ble_pid t = ble_pid s" "ble_max_ballot t = ble_max_ballot s" "ble_leader t = ble_leader s"
  shows "ble_inv t prev N"
  using assms unfolding ble_inv_def by (auto split: option.splits)

definition advances :: "Ballot option \<Rightarrow> Leader list \<Rightarrow> Ballot option \<Rightarrow> bool" where
  "advances prev ls prev' \<longleftrightarrow>
     (ls = [] \<and> prev' = prev) \<or>
     (\<exists>l. ls = [l] \<and> prev' = Some (ldr_round l) \<and> above prev (ldr_round l) \<and>
          ldr_pid l = bal_pid (ldr_round l))"

lemma check_leader_inv:
  assumes inv: "ble_inv s prev N" and N: "Suc N < 2 ^ 64"
    and step: "check_leader (s\<lparr>ble_ballots := ble_ballots s @ [(ble_current_ballot s, ble_pid s)]\<rparr>) = Inr (s', out)"
  shows "\<exists>prev'. ble_inv s' prev' (Suc N) \<and> advances prev (leaders out) prev'"
proof -
  let ?own = "(ble_current_ballot s, ble_pid s)"
  obtain top p where top: "Max (insert ?own (set (ble_ballots s))) = (top, p)"
    by (meson surj_pair)
  have top_in: "(top, p) \<in> insert ?own (set (ble_ballots s))"
    unfolding top [symmetric] by (rule Max_in) auto
  have "?own \<le> (top, p)"
    unfolding top [symmetric] by simp
  then have own: "ble_current_ballot s \<le> top"
    by auto
  have p: "bal_pid top = p" and topN: "unat (bal_n top) \<le> N"
    using top_in inv by (auto simp: ble_inv_def)
  show ?thesis
  proof (cases "top < ble_max_ballot s")
    case True
    have "unat (bal_n (ble_max_ballot s) + 1) = Suc (unat (bal_n (ble_max_ballot s)))"
      using inv N by (intro unat_Suc_u64) (auto simp: ble_inv_def)
    with True show ?thesis
      using inv step
      by (intro exI [of _ prev])
        (auto simp: ble_inv_def check_leader_snoc top advances_def less_eq_Ballot_def less_Ballot_def
          word_less_nat_alt split: option.splits)
  next
    case ge: False
    show ?thesis
    proof (cases "ble_leader s = Some (top, p)")
      case True
      then show ?thesis
        using inv step ge
        by (intro exI [of _ prev])
          (auto simp: ble_inv_def check_leader_snoc top advances_def split: option.splits)
    next
      case False
      have "above prev top"
      proof (cases "ble_leader s")
        case None
        then show ?thesis
          using inv own by (auto simp: above_def ble_inv_def split: option.splits)
      next
        case (Some bp)
        then show ?thesis
          using inv ge False p
          by (cases bp) (auto simp: above_def ble_inv_def split: option.splits)
      qed
      then show ?thesis
        using inv step ge False p topN
        by (intro exI [of _ "Some top"])
          (auto simp: ble_inv_def check_leader_snoc top advances_def split: option.splits)
    qed
  qed
qed

lemma hb_timeout_inv:
  assumes inv: "ble_inv s prev N" and N: "Suc N < 2 ^ 64" and step: "hb_timeout s = Inr (s', out)"
  shows "\<exists>prev'. ble_inv s' prev' (Suc N) \<and> advances prev (leaders out) prev'"
proof (cases "length (ble_ballots s) + 1 \<ge> ble_majority s")
  case True
  then obtain s1 out1 where
    c: "check_leader (s\<lparr>ble_ballots := ble_ballots s @ [(ble_current_ballot s, ble_pid s)]\<rparr>) = Inr (s1, out1)"
    and s': "ble_ballots s' = ble_ballots s1" "ble_current_ballot s' = ble_current_ballot s1"
      "ble_pid s' = ble_pid s1" "ble_max_ballot s' = ble_max_ballot s1" "ble_leader s' = ble_leader s1"
    and out: "leaders out = leaders out1"
    using step by (auto simp: hb_timeout_def rbind_eq_Inr Let_def start_timer_def)
  show ?thesis
    using check_leader_inv [OF inv N c] ble_inv_cong [OF _ s'] out by metis
next
  case False
  then show ?thesis
    using inv step
    by (intro exI [of _ prev])
      (auto simp: hb_timeout_def rbind_eq_Inr Let_def start_timer_def ble_inv_def advances_def
        split: option.splits)
qed

lemma ble_step_inv:
  assumes inv: "ble_inv s prev N" and N: "Suc N < 2 ^ 64" and i: "ble_in_ok N i"
    and step: "ble_step s i = Inr (s', out)"
  shows "\<exists>prev'. ble_inv s' prev' (Suc N) \<and> advances prev (leaders out) prev'"
proof (cases i)
  case BleTimeout
  then show ?thesis
    using hb_timeout_inv [OF inv N] step ble_inv_mono [OF inv, of "Suc N"]
    by (cases "ble_timer s") (auto simp: advances_def)
next
  case (BleHeartbeat sender hb)
  then have "ble_inv s' prev N"
    using inv i step
    by (cases hb) (auto simp: ble_inv_def Let_def split: if_splits option.splits)
  moreover have "leaders out = []"
    using BleHeartbeat step by (cases hb) (auto simp: Let_def split: if_splits)
  ultimately show ?thesis
    by (auto simp: advances_def intro: ble_inv_mono)
next
  case (BleNetStop m)
  then show ?thesis
    using ble_inv_mono [OF inv, of "Suc N"] step
    by (cases m; intro exI [of _ prev])
      (auto simp: advances_def Let_def rbind_eq_Inr elim: ble_inv_cong split: if_splits)
qed (use ble_inv_mono [OF inv, of "Suc N"] step in
      \<open>auto simp: advances_def ble_on_start_def ble_receive_local_def rbind_eq_Inr Let_def start_timer_def
        stop_timer_def intro!: exI [of _ prev] elim: ble_inv_cong split: if_splits\<close>)

lemma ble_in_ok_mono: "ble_in_ok N i \<Longrightarrow> N \<le> M \<Longrightarrow> ble_in_ok M i"
  by (cases i) (auto split: HeartbeatMsg.splits)

lemma ble_run_inv:
  assumes "ble_run s is = Inr (s', out)" "ble_inv s prev N" "N + length is < 2 ^ 64"
    "\<forall>i\<in>set is. ble_in_ok N i"
  shows "\<exists>prev'. ble_inv s' prev' (N + length is) \<and>
    sorted_wrt (<) (map ldr_round (leaders out)) \<and>
    (\<forall>l\<in>set (leaders out). above prev (ldr_round l) \<and> ldr_pid l = bal_pid (ldr_round l)) \<and>
    prev' = (if leaders out = [] then prev else Some (ldr_round (List.last (leaders out))))"
  using assms
proof (induction "is" arbitrary: s prev N out)
  case Nil
  then show ?case by auto
next
  case (Cons i "is")
  then obtain s1 o1 o2 where st: "ble_step s i = Inr (s1, o1)" and
    rn: "ble_run s1 is = Inr (s', o2)" and out: "out = o1 @ o2"
    by (auto simp: step_then_eq_Inr)
  have "Suc N < 2 ^ 64"
    using Cons.prems(3) by simp
  then obtain prev1 where i1: "ble_inv s1 prev1 (Suc N)" and adv: "advances prev (leaders o1) prev1"
    using ble_step_inv [OF Cons.prems(2) _ _ st] Cons.prems(4) by auto
  obtain prev' where IH: "ble_inv s' prev' (Suc N + length is)"
    "sorted_wrt (<) (map ldr_round (leaders o2))"
    "\<forall>l\<in>set (leaders o2). above prev1 (ldr_round l) \<and> ldr_pid l = bal_pid (ldr_round l)"
    "prev' = (if leaders o2 = [] then prev1 else Some (ldr_round (List.last (leaders o2))))"
    using Cons.IH [OF rn i1] Cons.prems(3,4) ble_in_ok_mono [of N _ "Suc N"] by auto
  show ?case
    using adv IH out
    by (intro exI [of _ prev'])
      (auto simp: advances_def above_def sorted_wrt_append split: option.splits intro: order.strict_trans)
qed

subsection \<open>The stop protocol\<close>

definition peer_stop_of :: "'p ble_in \<Rightarrow> u64 option" where
  "peer_stop_of i = (case i of BleNetStop (PeerStop p) \<Rightarrow> Some p | _ \<Rightarrow> None)"

definition stop_ask_of :: "'p ble_in \<Rightarrow> u64 option" where
  "stop_ask_of i = (case i of BleStop a \<Rightarrow> Some a | _ \<Rightarrow> None)"

definition peer_stops :: "'p ble_in list \<Rightarrow> u64 list" where
  "peer_stops is = List.map_filter peer_stop_of is"

definition stop_asks :: "'p ble_in list \<Rightarrow> u64 list" where
  "stop_asks is = List.map_filter stop_ask_of is"

lemma timer_delay_ok: "ble_initial_election_factor s \<noteq> 0 \<Longrightarrow> \<exists>d. timer_delay s = Inr d"
  by (simp add: timer_delay_def)

definition same_stop_fields :: "'p BallotLeaderComp \<Rightarrow> 'p BallotLeaderComp \<Rightarrow> bool" where
  "same_stop_fields s s' \<longleftrightarrow> ble_peers s' = ble_peers s \<and> ble_stopped_peers s' = ble_stopped_peers s \<and>
     ble_initial_election_factor s' = ble_initial_election_factor s \<and>
     ble_stopped s' = ble_stopped s \<and> ble_stop_ask s' = ble_stop_ask s"

lemma check_leader_total:
  "\<exists>s' out. check_leader (s\<lparr>ble_ballots := bs @ [b]\<rparr>) = Inr (s', out) \<and> same_stop_fields s s' \<and>
     ask_replies out = []"
  by (simp add: check_leader_snoc Let_def same_stop_fields_def split: prod.split)

lemma hb_timeout_total:
  assumes "ble_initial_election_factor s \<noteq> 0"
  shows "\<exists>s' out. hb_timeout s = Inr (s', out) \<and> same_stop_fields s s' \<and> ask_replies out = []"
proof -
  obtain s1 o1 where 1: "(if length (ble_ballots s) + 1 \<ge> ble_majority s
      then check_leader (s\<lparr>ble_ballots := ble_ballots s @ [(ble_current_ballot s, ble_pid s)]\<rparr>)
      else Inr (s\<lparr>ble_ballots := []\<rparr>, [])) = Inr (s1, o1)"
    and s1: "same_stop_fields s s1" "ask_replies o1 = []"
  proof (cases "length (ble_ballots s) + 1 \<ge> ble_majority s")
    case True
    then show thesis
      using check_leader_total [where s = s and bs = "ble_ballots s"
          and b = "(ble_current_ballot s, ble_pid s)"] that by auto
  next
    case False
    then show thesis
      using that [of "s\<lparr>ble_ballots := []\<rparr>" "[]"] by (simp add: same_stop_fields_def)
  qed
  obtain d where "timer_delay s1 = Inr d"
    using timer_delay_ok [of s1] assms s1 by (auto simp: same_stop_fields_def)
  then show ?thesis
    using s1 unfolding hb_timeout_def 1
    by (simp add: Let_def start_timer_def same_stop_fields_def)
qed

lemma heartbeat_total:
  "\<exists>s' out. ble_receive_heartbeat p hb s = Inr (s', out) \<and> same_stop_fields s s' \<and> ask_replies out = []"
  by (cases hb) (auto simp: same_stop_fields_def Let_def)

lemma ble_step_other:
  assumes "stop_ask_of i = None" "peer_stop_of i = None" "ble_initial_election_factor s \<noteq> 0"
  shows "\<exists>s' out. ble_step s i = Inr (s', out) \<and> same_stop_fields s s' \<and> ask_replies out = []"
proof (cases i)
  case BleStart
  then show ?thesis
    using timer_delay_ok [OF assms(3)] by (auto simp: ble_on_start_def start_timer_def same_stop_fields_def)
next
  case BleTimeout
  then show ?thesis
    using hb_timeout_total [OF assms(3)] by (cases "ble_timer s") (auto simp: same_stop_fields_def)
next
  case (BleHeartbeat p hb)
  then show ?thesis
    using heartbeat_total [of p hb s] by simp
next
  case (BleNetStop m)
  then show ?thesis
    using assms(2) by (cases m) (auto simp: peer_stop_of_def same_stop_fields_def)
qed (use assms in \<open>auto simp: stop_ask_of_def stop_timer_def same_stop_fields_def\<close>)

interpretation ble_stop: stop_protocol "\<lambda>i s. ble_step s i" "\<lambda>s. length (ble_peers s)" ble_stopped_peers
  ble_stopped ble_stop_ask "\<lambda>s. ble_initial_election_factor s \<noteq> 0" stop_ask_of peer_stop_of is_ask_reply
proof
  show "peer_stop_of i = None" if "stop_ask_of i = Some a" for i :: "'a ble_in" and a
    using that by (cases i) (auto simp: stop_ask_of_def peer_stop_of_def)
next
  fix i :: "'a ble_in" and a and s :: "'a BallotLeaderComp"
  assume "stop_ask_of i = Some a" and f: "ble_initial_election_factor s \<noteq> 0"
  then have "i = BleStop a"
    by (cases i) (auto simp: stop_ask_of_def)
  then show "\<exists>s' out. ble_step s i = Inr (s', out) \<and> ble_initial_election_factor s' \<noteq> 0 \<and>
      length (ble_peers s') = length (ble_peers s) \<and> ble_stopped_peers s' = ble_stopped_peers s \<and>
      ble_stopped s' \<and>
      ble_stop_ask s' = (if card (ble_stopped_peers s) = length (ble_peers s) then ble_stop_ask s else Some a) \<and>
      List.map_filter is_ask_reply out = (if card (ble_stopped_peers s) = length (ble_peers s) then [a] else [])"
    using f by (simp add: ble_receive_local_def stop_timer_def Let_def ask_replies_def [symmetric])
next
  fix i :: "'a ble_in" and p and s :: "'a BallotLeaderComp"
  assume "peer_stop_of i = Some p" and f: "ble_initial_election_factor s \<noteq> 0"
    and p: "p \<notin> ble_stopped_peers s"
    and pend: "ble_stopped s \<and> card (insert p (ble_stopped_peers s)) = length (ble_peers s) \<Longrightarrow>
      ble_stop_ask s \<noteq> None"
  then have "i = BleNetStop (PeerStop p)"
    by (cases i) (auto simp: peer_stop_of_def split: StopMsg.splits)
  then show "\<exists>s' out. ble_step s i = Inr (s', out) \<and> ble_initial_election_factor s' \<noteq> 0 \<and>
      length (ble_peers s') = length (ble_peers s) \<and> ble_stopped s' = ble_stopped s \<and>
      ble_stopped_peers s' = insert p (ble_stopped_peers s) \<and>
      (if ble_stopped s \<and> card (insert p (ble_stopped_peers s)) = length (ble_peers s)
       then ble_stop_ask s' = None \<and> List.map_filter is_ask_reply out = [the (ble_stop_ask s)]
       else ble_stop_ask s' = ble_stop_ask s \<and> List.map_filter is_ask_reply out = [])"
    using f p pend by (auto simp: rassert_def Let_def ask_replies_def [symmetric])
next
  fix i :: "'a ble_in" and s :: "'a BallotLeaderComp"
  assume "stop_ask_of i = None" "peer_stop_of i = None" "ble_initial_election_factor s \<noteq> 0"
  from ble_step_other [OF this] this(3)
  show "\<exists>s' out. ble_step s i = Inr (s', out) \<and> ble_initial_election_factor s' \<noteq> 0 \<and>
      length (ble_peers s') = length (ble_peers s) \<and> ble_stopped s' = ble_stopped s \<and>
      ble_stopped_peers s' = ble_stopped_peers s \<and> ble_stop_ask s' = ble_stop_ask s \<and>
      List.map_filter is_ask_reply out = []"
    by (auto simp: same_stop_fields_def ask_replies_def)
qed

lemma stop_state_init:
  "f \<noteq> 0 \<Longrightarrow> ble_stop.stop_state (length peers) [] (ble_with peers pid hb_delay delta quick il f) []"
  by (auto simp: ble_stop.stop_state_def ble_stop.asks_def ble_stop.announced_def ble_with_def Let_def
      map_filter_simps split: option.split)

lemma ble_inv_init:
  assumes "case il of None \<Rightarrow> True | Some l \<Rightarrow> ldr_pid l = bal_pid (ldr_round l) \<and> unat (bal_n (ldr_round l)) \<le> N"
  shows "ble_inv (ble_with peers pid hb_delay delta quick il f) (map_option ldr_round il) N"
  using assms by (auto simp: ble_inv_def ble_with_def Let_def split: option.splits)

subsection \<open>Properties\<close>



text \<open>C2: along every run of a fresh component, the ballots it indicates as leader are strictly
  increasing (and above the ballot of the leader it was created with), and each indicated leader is
  the process whose id is in the ballot. The counters stay in range: \<open>N\<close> bounds the round numbers of
  all received ballots, and the run is shorter than \<open>2^64 - N\<close> events.\<close>

theorem ble_leaders_increase:
  assumes "ble_run (ble_with peers pid hb_delay delta quick il f) is = Inr (s, out)"
    and "\<forall>i\<in>set is. ble_in_ok N i" and "N + length is < 2 ^ 64"
    and "case il of None \<Rightarrow> True | Some l \<Rightarrow> ldr_pid l = bal_pid (ldr_round l) \<and> unat (bal_n (ldr_round l)) \<le> N"
  shows "sorted_wrt (<) (map ldr_round (leaders out)) \<and>
    (\<forall>l\<in>set (leaders out). ldr_pid l = bal_pid (ldr_round l) \<and>
       above (map_option ldr_round il) (ldr_round l) \<and> ldr_round l \<le> ble_max_ballot s)"
proof -
  obtain prev' where inv: "ble_inv s prev' (N + length is)"
    and sorted: "sorted_wrt (<) (map ldr_round (leaders out))"
    and each: "\<forall>l\<in>set (leaders out). above (map_option ldr_round il) (ldr_round l) \<and>
      ldr_pid l = bal_pid (ldr_round l)"
    and prev': "prev' = (if leaders out = [] then map_option ldr_round il
      else Some (ldr_round (List.last (leaders out))))"
    using ble_run_inv [OF assms(1) ble_inv_init [OF assms(4)] assms(3,2)] by blast
  have "ldr_round l \<le> ble_max_ballot s" if "l \<in> set (leaders out)" for l
  proof -
    have "ldr_round l \<le> ldr_round (List.last (leaders out))"
      using sorted that by (cases "leaders out" rule: rev_cases) (auto simp: sorted_wrt_append less_imp_le)
    also have "\<dots> \<le> ble_max_ballot s"
      using inv prev' that by (auto simp: ble_inv_def split: if_splits)
    finally show ?thesis .
  qed
  then show ?thesis
    using sorted each by blast
qed

theorem ble_leaders_increase_witness:
  "\<exists>s out. ble_run (ble_with [7::nat] 2 100 10 False None 1)
      [BleStart, BleHeartbeat 7 (Reply 3 0 (Ballot 0 3)), BleTimeout,
       BleHeartbeat 7 (Reply 3 1 (Ballot 4 3)), BleTimeout] = Inr (s, out) \<and>
    leaders out = [leader_with 3 (Ballot 0 3), leader_with 3 (Ballot 4 3)] \<and>
    sorted_wrt (<) (map ldr_round (leaders out)) \<and>
    (\<forall>l\<in>set (leaders out). ldr_round l \<le> ble_max_ballot s)"
proof -
  let ?s = "ble_with [7::nat] 2 100 10 False None 1"
  let ?is = "[BleStart, BleHeartbeat 7 (Reply 3 0 (Ballot 0 3)), BleTimeout,
       BleHeartbeat 7 (Reply 3 1 (Ballot 4 3)), BleTimeout]"
  obtain s out where r: "ble_run ?s ?is = Inr (s, out)"
    and l: "leaders out = [leader_with 3 (Ballot 0 3), leader_with 3 (Ballot 4 3)]"
    by (simp add: hb_timeout_def ble_on_start_def check_leader_def ble_with_def timer_delay_def
        start_timer_def send_requests_def max_def)
  show ?thesis
    using ble_leaders_increase [OF r, of 4] r l by simp
qed

text \<open>the stop protocol ends as it should. Whatever the order of events, if each of the peers announces its
  stop at most once and the component is asked to stop at most once, no \<open>assert!\<close>, \<open>expect\<close> or
  \<open>unwrap\<close> of the component fails, and the ask is answered exactly once when all peers have stopped and never before.\<close>

theorem ble_stop_protocol:
  assumes "f \<noteq> 0" "distinct (peer_stops is)" "length (peer_stops is) \<le> length peers"
    "length (stop_asks is) \<le> 1"
  shows "\<exists>s out. ble_run (ble_with peers pid hb_delay delta quick il f) is = Inr (s, out) \<and>
    ask_replies out = (if length (peer_stops is) = length peers then stop_asks is else []) \<and>
    ble_stopped s = (stop_asks is \<noteq> []) \<and> ble_stopped_peers s = set (peer_stops is)"
  using ble_stop.stop_run [OF stop_state_init [OF assms(1)], of "is"] assms
  by (fastforce simp: ble_stop.stop_state_def ble_stop.asks_def ble_stop.announced_def peer_stops_def
      stop_asks_def ask_replies_def ble_run_def)

theorem ble_stop_protocol_witness:
  "\<exists>s out. ble_run (ble_with [7::nat, 8] 2 100 10 True None 5)
      [BleStart, BleNetStop (PeerStop 3), BleTimeout, BleStop 2, BleNetStop (PeerStop 4)]
      = Inr (s, out) \<and> ask_replies out = [2]"
  using ble_stop_protocol [of 5 "[BleStart, BleNetStop (PeerStop 3), BleTimeout, BleStop 2,
      BleNetStop (PeerStop 4)]" "[7::nat, 8]" 2 100 10 True None]
  by (auto simp: peer_stops_def stop_asks_def peer_stop_of_def stop_ask_of_def map_filter_simps)

subsection \<open>Majorities\<close>

text \<open>The threshold \<open>n / 2 + 1\<close> of the constructor makes the voters of two elections meet.\<close>

interpretation ble_voters: threshold "{..length peers}" "ble_majority (ble_with peers pid hb_delay delta quick il f)"
  for peers :: "'p list" and pid hb_delay delta quick il f
  by unfold_locales (auto simp: ble_with_def Let_def split: option.split)

end
