(* ===== verification/Communicator.thy ===== *)
theory Communicator
  imports Paxos_Messages Broadcast_Messages
begin

text \<open>
  The communicator (\<open>communicator.rs\<close>): it carries the messages of one replica to the communicators of
  its peers and to the client, and hands what arrives to the replica. \<open>'p\<close> is Kompact's
  \<open>ActorPath\<close>, \<open>'r\<close> the message type of the Raft library, whose \<open>get_to\<close> is a parameter. \<open>order\<close> is the
  order in which the hash map of peers is iterated.
\<close>

datatype 'r AtomicBroadcastCompMsg =
    CompRawRaftMsg 'r
  | CompRawPaxosMsg Message
  | CompStopMsg u64

datatype 'r CommunicatorMsg =
    CommRawRaftMsg 'r
  | CommRawPaxosMsg Message
  | CommProposalResponse ProposalResp
  | CommSendStop u64 bool

record 'p Communicator =
  comm_peers :: "u64 \<rightharpoonup> 'p"
  comm_client :: 'p

definition communicator_with :: "(u64 \<rightharpoonup> 'p) \<Rightarrow> 'p \<Rightarrow> 'p Communicator" where
  "communicator_with peers client = \<lparr>comm_peers = peers, comm_client = client\<rparr>"

datatype ('p, 'r) comm_out =
    CommTellRaft 'p 'r
  | CommTellPaxos 'p Message
  | CommTellAbcast 'p AtomicBroadcastMsg
  | CommTellStop 'p StopMsg

fun communicator_handle ::
  "('r \<Rightarrow> u64) \<Rightarrow> u64 list \<Rightarrow> 'r CommunicatorMsg \<Rightarrow> 'p Communicator \<Rightarrow> ('p, 'r) comm_out list rust" where
  "communicator_handle get_to order (CommRawRaftMsg rm) c =
     rbind (runwrap (comm_peers c (get_to rm))) (\<lambda>receiver. Inr [CommTellRaft receiver rm])"
| "communicator_handle get_to order (CommRawPaxosMsg pm) c =
     rbind (runwrap (comm_peers c (msg_to pm))) (\<lambda>receiver. Inr [CommTellPaxos receiver pm])"
| "communicator_handle get_to order (CommProposalResponse pr) c =
     Inr [CommTellAbcast (comm_client c) (ProposalRespMsg pr)]"
| "communicator_handle get_to order (CommSendStop my_pid ack_client) c =
     Inr (map (\<lambda>ap. CommTellStop ap (PeerStop my_pid)) (List.map_filter (comm_peers c) order)
          @ (if ack_client then [CommTellStop (comm_client c) (PeerStop my_pid)] else []))"

datatype 'r comm_net = NetRaft 'r | NetPaxos Message | NetStop StopMsg | NetDeserError

fun communicator_receive_network :: "'r comm_net \<Rightarrow> 'r AtomicBroadcastCompMsg list" where
  "communicator_receive_network (NetRaft r) = [CompRawRaftMsg r]"
| "communicator_receive_network (NetPaxos p) = [CompRawPaxosMsg p]"
| "communicator_receive_network (NetStop (PeerStop pid)) = [CompStopMsg pid]"
| "communicator_receive_network (NetStop ClientStop) = []"
| "communicator_receive_network NetDeserError = []"

end
