(* ===== verification/Memory_Storage.thy ===== *)
theory Memory_Storage
  imports Paxos_Messages
begin

text \<open>
  The in-memory storage of the Paxos replicas (\<open>storage.rs\<close>, module \<open>paxos\<close>): \<open>MemorySequence\<close> and
  \<open>MemoryState\<close>. The locale \<open>sequence_store\<close> is what the sequence transfer relies on; \<open>MemorySequence\<close>
  provides it.
\<close>

record MemorySequence =
  mem_sequence :: "Entry list"

definition seq_new :: MemorySequence where
  "seq_new = \<lparr>mem_sequence = []\<rparr>"

definition new_with_sequence :: "Entry list \<Rightarrow> MemorySequence" where
  "new_with_sequence seq = \<lparr>mem_sequence = seq\<rparr>"

definition append_entry :: "Entry \<Rightarrow> MemorySequence \<Rightarrow> MemorySequence" where
  "append_entry e s = s\<lparr>mem_sequence := mem_sequence s @ [e]\<rparr>"

definition append_sequence :: "Entry list \<Rightarrow> MemorySequence \<Rightarrow> MemorySequence" where
  "append_sequence seq s = s\<lparr>mem_sequence := mem_sequence s @ seq\<rparr>"

definition append_on_prefix :: "u64 \<Rightarrow> Entry list \<Rightarrow> MemorySequence \<Rightarrow> MemorySequence" where
  "append_on_prefix from_idx seq s = s\<lparr>mem_sequence := take (unat from_idx) (mem_sequence s) @ seq\<rparr>"

text \<open>\<open>slice.get(from..to)\<close> and \<open>slice.get(from..)\<close>.\<close>

definition slice_get :: "'a list \<Rightarrow> nat \<Rightarrow> nat \<Rightarrow> 'a list option" where
  "slice_get xs from to =
    (if from \<le> to \<and> to \<le> length xs then Some (take (to - from) (drop from xs)) else None)"

definition slice_get_from :: "'a list \<Rightarrow> nat \<Rightarrow> 'a list option" where
  "slice_get_from xs from = (if from \<le> length xs then Some (drop from xs) else None)"

definition get_entries :: "MemorySequence \<Rightarrow> u64 \<Rightarrow> u64 \<Rightarrow> Entry list rust" where
  "get_entries s from to = (case slice_get (mem_sequence s) (unat from) (unat to) of
     Some ents \<Rightarrow> Inr ents
   | None \<Rightarrow> Inl PanicCall)"

definition get_ser_entries :: "MemorySequence \<Rightarrow> u64 \<Rightarrow> u64 \<Rightarrow> bytes option" where
  "get_ser_entries s from to =
     map_option serialise_entries (slice_get (mem_sequence s) (unat from) (unat to))"

definition get_suffix :: "MemorySequence \<Rightarrow> u64 \<Rightarrow> Entry list" where
  "get_suffix s from = (case slice_get_from (mem_sequence s) (unat from) of
     Some ents \<Rightarrow> ents | None \<Rightarrow> [])"

definition get_ser_suffix :: "MemorySequence \<Rightarrow> u64 \<Rightarrow> bytes option" where
  "get_ser_suffix s from = map_option serialise_entries (slice_get_from (mem_sequence s) (unat from))"

definition get_sequence :: "MemorySequence \<Rightarrow> Entry list" where
  "get_sequence s = mem_sequence s"

definition get_sequence_len :: "MemorySequence \<Rightarrow> u64" where
  "get_sequence_len s = word_of_nat (length (mem_sequence s))"

fun is_stopsign :: "Entry \<Rightarrow> bool" where
  "is_stopsign (StopSignEntry _) = True"
| "is_stopsign (Normal _) = False"

definition seq_stopped :: "MemorySequence \<Rightarrow> bool" where
  "seq_stopped s = (mem_sequence s \<noteq> [] \<and> is_stopsign (last (mem_sequence s)))"

record MemoryState =
  mem_n_prom :: Ballot
  mem_acc_round :: Ballot
  mem_ld :: u64

definition memory_state_new :: MemoryState where
  "memory_state_new = \<lparr>mem_n_prom = Ballot 0 0, mem_acc_round = Ballot 0 0, mem_ld = 0\<rparr>"

definition set_promise :: "Ballot \<Rightarrow> MemoryState \<Rightarrow> MemoryState" where
  "set_promise b s = s\<lparr>mem_n_prom := b\<rparr>"

definition set_decided_len :: "u64 \<Rightarrow> MemoryState \<Rightarrow> MemoryState" where
  "set_decided_len ld s = s\<lparr>mem_ld := ld\<rparr>"

definition set_accepted_round :: "Ballot \<Rightarrow> MemoryState \<Rightarrow> MemoryState" where
  "set_accepted_round b s = s\<lparr>mem_acc_round := b\<rparr>"

subsection \<open>What a client of a sequence relies on\<close>

locale sequence_store =
  fixes seq_with :: "Entry list \<Rightarrow> 's"
    and entries :: "'s \<Rightarrow> u64 \<Rightarrow> u64 \<Rightarrow> Entry list rust"
    and contents :: "'s \<Rightarrow> Entry list"
    and seq_len :: "'s \<Rightarrow> u64"
  assumes contents_with: "contents (seq_with es) = es"
    and len_contents: "length (contents s) < 2 ^ 64 \<Longrightarrow> unat (seq_len s) = length (contents s)"
    and entries_in_range: "from \<le> to \<Longrightarrow> unat to \<le> length (contents s) \<Longrightarrow>
      entries s from to = Inr (take (unat to - unat from) (drop (unat from) (contents s)))"
begin

text \<open>The \<open>i\<close>-th of \<open>n\<close> equal segments can always be read, and is the \<open>i\<close>-th block of the sequence.\<close>

lemma equal_segment:
  fixes i n :: nat
  assumes len: "length (contents s) < 2 ^ 64" and i: "i < n" and n: "n < 2 ^ 64"
    and off: "off = seq_len s div word_of_nat n"
  shows "entries s (word_of_nat i * off) (word_of_nat i * off + off) =
    Inr (take (length (contents s) div n) (drop (i * (length (contents s) div n)) (contents s)))"
    and "unat (word_of_nat i * off) = i * (length (contents s) div n)"
    and "unat (word_of_nat i * off + off) = Suc i * (length (contents s) div n)"
proof -
  let ?L = "length (contents s)" and ?d = "length (contents s) div n"
  have o: "unat off = ?d"
    using len_contents [OF len] n by (simp add: off unat_div)
  have "Suc i * ?d \<le> n * ?d"
    using i by (intro mult_le_mono1) simp
  also have "\<dots> \<le> ?L"
    by simp
  finally have le: "Suc i * ?d \<le> ?L" .
  then have le': "i * ?d \<le> ?L"
    by simp
  have id: "unat (word_of_nat i * off) = i * ?d"
    using le' len i n o unat_mult_u64 [of "word_of_nat i" off] by simp
  have id1: "unat (word_of_nat i * off + off) = Suc i * ?d"
    using le len id o unat_add_u64 [of "word_of_nat i * off" off] by simp
  show "unat (word_of_nat i * off) = i * ?d" "unat (word_of_nat i * off + off) = Suc i * ?d"
    by (fact id, fact id1)
  have "word_of_nat i * off \<le> word_of_nat i * off + off"
    using id id1 by (simp add: word_le_nat_alt)
  from entries_in_range [OF this] show "entries s (word_of_nat i * off) (word_of_nat i * off + off) =
    Inr (take ?d (drop (i * ?d) (contents s)))"
    using id id1 le by simp
qed

end

interpretation mem_store: sequence_store new_with_sequence get_entries get_sequence get_sequence_len
  by unfold_locales
    (auto simp: new_with_sequence_def get_entries_def get_sequence_def get_sequence_len_def
      slice_get_def word_le_nat_alt)

lemma entries_wf_slice: "entries_wf es \<Longrightarrow> slice_get es i j = Some xs \<Longrightarrow> entries_wf xs"
  by (fastforce simp: entries_wf_def short_def list_all_iff slice_get_def
      dest: in_set_takeD in_set_dropD split: if_splits)

lemma get_ser_entries_roundtrip:
  "get_ser_entries s from to = Some b \<Longrightarrow> entries_wf (mem_sequence s) \<Longrightarrow>
   \<exists>xs. slice_get (mem_sequence s) (unat from) (unat to) = Some xs \<and>
     deserialise_entries (b @ rest) = Inr (xs, rest)"
  by (auto simp: get_ser_entries_def intro!: entries_codec.get_put elim: entries_wf_slice)

end
