(* ===== verification/Paxos_Replica.thy ===== *)
theory Paxos_Replica
  imports Communicator Memory_Storage Reconfig_Messages Stop_Protocol
begin

text \<open>
  The Paxos replica of one configuration (\<open>paxos.rs\<close>, \<open>PaxosReplica\<close>): the component around the
  \<open>Paxos\<close> value of the \<open>leaderpaxos\<close> crate. The crate is not part of the repository: the operations
  the replica calls are the fields of \<open>paxos_api\<close>, an argument of the handlers, over an abstract state \<open>'x\<close>.
\<close>

datatype ProposeErr = ProposeErrNormal bytes | ProposeErrReconfiguration "u64 list"

record 'x paxos_api =
  px_with :: "u32 \<Rightarrow> u64 \<Rightarrow> u64 list \<Rightarrow> MemorySequence \<times> MemoryState \<Rightarrow> Leader option \<Rightarrow> nat option \<Rightarrow> 'x"
  px_get_current_leader :: "'x \<Rightarrow> u64"
  px_get_decided_entries :: "'x \<Rightarrow> 'x \<times> Entry list"
  px_stopped :: "'x \<Rightarrow> bool"
  px_stop_and_get_sequence :: "'x \<Rightarrow> 'x \<times> MemorySequence"
  px_get_outgoing_msgs :: "'x \<Rightarrow> 'x \<times> Message list"
  px_propose_normal :: "bytes \<Rightarrow> 'x \<Rightarrow> 'x \<times> ProposeErr option"
  px_propose_reconfiguration :: "u64 list \<Rightarrow> Ballot option \<Rightarrow> 'x \<Rightarrow> 'x \<times> ProposeErr option"
  px_get_chosen_entries :: "u64 \<Rightarrow> u64 \<Rightarrow> 'x \<Rightarrow> bool \<times> Entry list"
  px_handle :: "Message \<Rightarrow> 'x \<Rightarrow> 'x"
  px_handle_leader :: "Leader \<Rightarrow> 'x \<Rightarrow> 'x"

record FinalMsg =
  fm_config_id :: u32
  fm_nodes :: Reconfig
  fm_final_sequence :: MemorySequence
  fm_skip_prepare_use_leader :: "Leader option"

definition final_msg_with :: "u32 \<Rightarrow> Reconfig \<Rightarrow> MemorySequence \<Rightarrow> Leader option \<Rightarrow> FinalMsg" where
  "final_msg_with cid nodes seq skip = \<lparr>fm_config_id = cid, fm_nodes = nodes, fm_final_sequence = seq,
     fm_skip_prepare_use_leader = skip\<rparr>"

datatype PaxosCompMsg =
    CompLeader u32 u64
  | CompPendingReconfig bytes
  | CompReconfig FinalMsg
  | CompKillComponents nat

datatype 'p PaxosReplicaMsg =
    RepPropose Proposal
  | RepLocalSequenceReq 'p SequenceRequest SequenceMetaData
  | RepStop bool

record 'x PaxosReplica =
  pr_peers :: "u64 list"
  pr_paxos :: 'x
  pr_config_id :: u32
  pr_pid :: u64
  pr_current_leader :: u64
  pr_timers :: bool
  pr_pending_reconfig :: bool
  pr_stopped :: bool
  pr_stopped_peers :: "u64 set"
  pr_stop_ask :: "bool option"

datatype ('p, 'r) rep_out =
    RepTrigger "'r CommunicatorMsg"
  | RepTellSupervisor PaxosCompMsg
  | RepTellTransfer 'p ReconfigurationMsg
  | RepReplyStop bool

definition replica_with ::
  "'x paxos_api \<Rightarrow> u64 list \<Rightarrow> u32 \<Rightarrow> u64 \<Rightarrow> Leader option \<Rightarrow> nat \<Rightarrow> 'x PaxosReplica" where
  "replica_with api peers config_id pid skip_prepare_use_leader max_inflight =
     \<lparr>pr_peers = peers,
      pr_paxos = px_with api config_id pid peers (new_with_sequence [], memory_state_new)
                   skip_prepare_use_leader (Some max_inflight),
      pr_config_id = config_id, pr_pid = pid, pr_current_leader = 0, pr_timers = False,
      pr_pending_reconfig = False, pr_stopped = False, pr_stopped_peers = {}, pr_stop_ask = None\<rparr>"

definition replica_start_timers :: "'x PaxosReplica \<Rightarrow> 'x PaxosReplica" where
  "replica_start_timers s = s\<lparr>pr_timers := True\<rparr>"

definition replica_stop_timers :: "'x PaxosReplica \<Rightarrow> 'x PaxosReplica" where
  "replica_stop_timers s = s\<lparr>pr_timers := False\<rparr>"

definition send_outgoing ::
  "'x paxos_api \<Rightarrow> 'x PaxosReplica \<Rightarrow> 'x PaxosReplica \<times> ('p, 'r) rep_out list" where
  "send_outgoing api s = (let (x, msgs) = px_get_outgoing_msgs api (pr_paxos s)
     in (s\<lparr>pr_paxos := x\<rparr>, map (\<lambda>m. RepTrigger (CommRawPaxosMsg m)) msgs))"

definition handle_stopsign ::
  "'x paxos_api \<Rightarrow> StopSign \<Rightarrow> 'x PaxosReplica \<Rightarrow> 'x PaxosReplica \<times> ('p, 'r) rep_out list" where
  "handle_stopsign api ss s =
    (let (x, final_seq) = px_stop_and_get_sequence api (pr_paxos s);
         (continued_nodes, new_nodes) =
            partition (\<lambda>pid. pid = pr_pid s \<or> pid \<in> set (pr_peers s)) (ss_nodes ss);
         r = final_msg_with (ss_config_id ss) (reconfig_with continued_nodes new_nodes) final_seq
               (ss_skip_prepare_use_leader ss)
     in (s\<lparr>pr_paxos := x\<rparr>, [RepTellSupervisor (CompReconfig r)]))"

definition last_stopsign :: "Entry list \<Rightarrow> StopSign option" where
  "last_stopsign es = (if es = [] then None
     else case last es of StopSignEntry ss \<Rightarrow> Some ss | Normal d \<Rightarrow> None)"

definition normal_data :: "Entry \<Rightarrow> bytes option" where
  "normal_data e = (case e of Normal d \<Rightarrow> Some d | StopSignEntry ss \<Rightarrow> None)"

definition get_decided ::
  "'x paxos_api \<Rightarrow> 'x PaxosReplica \<Rightarrow> 'x PaxosReplica \<times> ('p, 'r) rep_out list" where
  "get_decided api s =
    (let leader = px_get_current_leader api (pr_paxos s);
         (s, out0) = (if pr_current_leader s \<noteq> leader
            then (s\<lparr>pr_current_leader := leader\<rparr>,
                  [RepTellSupervisor (CompLeader (pr_config_id s) leader)])
            else (s, []));
         (x, decided_entries) = px_get_decided_entries api (pr_paxos s);
         s = s\<lparr>pr_paxos := x\<rparr>;
         (s', out1) = (case last_stopsign decided_entries of
              Some ss \<Rightarrow> handle_stopsign api ss s
            | None \<Rightarrow> (s, []))
     in if pr_current_leader s = pr_pid s
        then let latest_leader = (if px_stopped api (pr_paxos s') then 0 else pr_pid s')
             in (s', out0 @ out1 @ map (\<lambda>data. RepTrigger (CommProposalResponse
                    (proposal_resp_with data latest_leader)))
                  (List.map_filter normal_data decided_entries))
        else (s', out0 @ out1))"

definition replica_propose ::
  "'x paxos_api \<Rightarrow> u64 \<Rightarrow> Proposal \<Rightarrow> 'x PaxosReplica \<Rightarrow> 'x PaxosReplica \<times> ProposeErr option" where
  "replica_propose api prio_start_round p s =
    (let (x, err) = (case prop_reconfig p of
           Some (reconfig, _) \<Rightarrow>
             px_propose_reconfiguration api reconfig (Some (Ballot prio_start_round 0)) (pr_paxos s)
         | None \<Rightarrow> px_propose_normal api (prop_data p) (pr_paxos s))
     in (s\<lparr>pr_paxos := x\<rparr>, err))"

fun replica_receive_local ::
  "'x paxos_api \<Rightarrow> u64 \<Rightarrow> 'p PaxosReplicaMsg \<Rightarrow> 'x PaxosReplica \<Rightarrow> ('x PaxosReplica, ('p, 'r) rep_out) handled"
where
  "replica_receive_local api prio (RepPropose p) s =
    (if pr_pending_reconfig s then Inr (s, [])
     else let (s, err) = replica_propose api prio p s in
       (case err of
          None \<Rightarrow> Inr (s, [])
        | Some (ProposeErrNormal data) \<Rightarrow>
            Inr (s\<lparr>pr_pending_reconfig := True\<rparr>, [RepTellSupervisor (CompPendingReconfig data)])
        | Some (ProposeErrReconfiguration _) \<Rightarrow> Inl PanicCall))"
| "replica_receive_local api prio (RepLocalSequenceReq requestor seq_req prev_seq_metadata) s =
    (let (succeeded, entries) =
           px_get_chosen_entries api (sr_from_idx seq_req) (sr_to_idx seq_req) (pr_paxos s);
         segment = segment_with (sr_from_idx seq_req) (sr_to_idx seq_req) entries;
         st = transfer_with (sr_config_id seq_req) (sr_tag seq_req) succeeded prev_seq_metadata segment
     in Inr (s, [RepTellTransfer requestor (SequenceTransferMsg st)]))"
| "replica_receive_local api prio (RepStop ack_client) s =
    (let out = [RepTrigger (CommSendStop (pr_pid s) ack_client)];
         s = (replica_stop_timers s)\<lparr>pr_stopped := True\<rparr>
     in if card (pr_stopped_peers s) = length (pr_peers s)
        then Inr (s, out @ [RepReplyStop ack_client])
        else Inr (s\<lparr>pr_stop_ask := Some ack_client\<rparr>, out))"

fun replica_handle_comm ::
  "'x paxos_api \<Rightarrow> 'r AtomicBroadcastCompMsg \<Rightarrow> 'x PaxosReplica \<Rightarrow> ('x PaxosReplica, ('p, 'r) rep_out) handled"
where
  "replica_handle_comm api (CompRawPaxosMsg pm) s =
    (if pr_stopped s then Inr (s, []) else Inr (s\<lparr>pr_paxos := px_handle api pm (pr_paxos s)\<rparr>, []))"
| "replica_handle_comm api (CompStopMsg pid) s =
    rbind (rassert (pid \<notin> pr_stopped_peers s)) (\<lambda>_.
    let s = s\<lparr>pr_stopped_peers := insert pid (pr_stopped_peers s)\<rparr> in
    if pr_stopped s \<and> card (pr_stopped_peers s) = length (pr_peers s)
    then rbind (runwrap (pr_stop_ask s)) (\<lambda>ask. Inr (s\<lparr>pr_stop_ask := None\<rparr>, [RepReplyStop ask]))
    else Inr (s, []))"
| "replica_handle_comm api (CompRawRaftMsg _) s = Inr (s, [])"

definition replica_handle_leader ::
  "'x paxos_api \<Rightarrow> Leader \<Rightarrow> 'x PaxosReplica \<Rightarrow> 'x PaxosReplica \<times> ('p, 'r) rep_out list" where
  "replica_handle_leader api l s =
    (let s = s\<lparr>pr_paxos := px_handle_leader api l (pr_paxos s)\<rparr>
     in if pr_current_leader s \<noteq> ldr_pid l \<and> \<not> px_stopped api (pr_paxos s)
        then (s\<lparr>pr_current_leader := ldr_pid l\<rparr>,
              [RepTellSupervisor (CompLeader (pr_config_id s) (ldr_pid l))])
        else (s, []))"

text \<open>One event of the replica; the periodic timers only fire while they are set.\<close>

datatype ('p, 'r) rep_in =
    RiStart
  | RiKill
  | RiLocal "'p PaxosReplicaMsg"
  | RiComm "'r AtomicBroadcastCompMsg"
  | RiLeader Leader
  | RiDecidedTimer
  | RiOutgoingTimer

fun replica_step ::
  "'x paxos_api \<Rightarrow> u64 \<Rightarrow> ('p, 'r) rep_in \<Rightarrow> 'x PaxosReplica \<Rightarrow> ('x PaxosReplica, ('p, 'r) rep_out) handled"
where
  "replica_step api prio RiStart s = Inr (replica_start_timers s, [])"
| "replica_step api prio RiKill s = Inr (replica_stop_timers s, [])"
| "replica_step api prio (RiLocal m) s = replica_receive_local api prio m s"
| "replica_step api prio (RiComm m) s = replica_handle_comm api m s"
| "replica_step api prio (RiLeader l) s = Inr (replica_handle_leader api l s)"
| "replica_step api prio RiDecidedTimer s = Inr (if pr_timers s then get_decided api s else (s, []))"
| "replica_step api prio RiOutgoingTimer s = Inr (if pr_timers s then send_outgoing api s else (s, []))"

subsection \<open>The stop protocol\<close>

definition rep_stop_of :: "('p, 'r) rep_in \<Rightarrow> bool option" where
  "rep_stop_of i = (case i of RiLocal (RepStop b) \<Rightarrow> Some b | _ \<Rightarrow> None)"

definition rep_peer_of :: "('p, 'r) rep_in \<Rightarrow> u64 option" where
  "rep_peer_of i = (case i of RiComm (CompStopMsg p) \<Rightarrow> Some p | _ \<Rightarrow> None)"

primrec rep_reply_of :: "('p, 'r) rep_out \<Rightarrow> bool option" where
  "rep_reply_of (RepReplyStop b) = Some b"
| "rep_reply_of (RepTrigger m) = None"
| "rep_reply_of (RepTellSupervisor m) = None"
| "rep_reply_of (RepTellTransfer p m) = None"

text \<open>The crate reports a failed proposal of an ordinary command only with that command.\<close>

definition api_propose_ok :: "'x paxos_api \<Rightarrow> bool" where
  "api_propose_ok api \<longleftrightarrow>
     (\<forall>d x nodes. snd (px_propose_normal api d x) \<noteq> Some (ProposeErrReconfiguration nodes)) \<and>
     (\<forall>ns b x nodes. snd (px_propose_reconfiguration api ns b x) \<noteq> Some (ProposeErrReconfiguration nodes))"

definition rep_same_stop :: "'x PaxosReplica \<Rightarrow> 'x PaxosReplica \<Rightarrow> bool" where
  "rep_same_stop s s' \<longleftrightarrow> pr_peers s' = pr_peers s \<and> pr_stopped_peers s' = pr_stopped_peers s \<and>
     pr_stopped s' = pr_stopped s \<and> pr_stop_ask s' = pr_stop_ask s"

lemma no_reply_simps [simp]:
  "List.map_filter rep_reply_of [] = []"
  "List.map_filter rep_reply_of (xs @ ys) = List.map_filter rep_reply_of xs @ List.map_filter rep_reply_of ys"
  "List.map_filter rep_reply_of (x # xs)
     = (case rep_reply_of x of None \<Rightarrow> [] | Some b \<Rightarrow> [b]) @ List.map_filter rep_reply_of xs"
  "List.map_filter rep_reply_of (map (\<lambda>d. RepTrigger (CommProposalResponse (h d))) ds) = []"
  "List.map_filter rep_reply_of (map (\<lambda>m. RepTrigger (CommRawPaxosMsg m)) ms) = []"
  by (auto simp: map_filter_append map_filter_simps map_filter_map_None split: option.split)

lemma get_decided_stop:
  "get_decided api s = (s', out) \<Longrightarrow> rep_same_stop s s' \<and> List.map_filter rep_reply_of out = []"
  by (auto simp: get_decided_def handle_stopsign_def rep_same_stop_def Let_def
      split: prod.splits option.splits if_splits)

lemma replica_propose_stop: "rep_same_stop s (fst (replica_propose api prio p s))"
  by (auto simp: replica_propose_def rep_same_stop_def split: prod.split)

lemma replica_propose_err:
  "api_propose_ok api \<Longrightarrow> snd (replica_propose api prio p s) \<noteq> Some (ProposeErrReconfiguration nodes)"
  by (auto simp: replica_propose_def api_propose_ok_def Let_def split: prod.split option.split)
    (metis snd_conv)+

lemma replica_step_other:
  fixes i :: "('p, 'r) rep_in"
  assumes "rep_stop_of i = None" "rep_peer_of i = None" "api_propose_ok api"
  shows "\<exists>s' out. replica_step api prio i s = Inr (s', out) \<and> rep_same_stop s s' \<and>
    List.map_filter rep_reply_of out = []"
proof (cases i)
  case (RiLocal m)
  show ?thesis
  proof (cases m)
    case (RepPropose p)
    obtain s1 err where e: "replica_propose api prio p s = (s1, err)"
      by fastforce
    have "err \<noteq> Some (ProposeErrReconfiguration ns)" for ns
      using replica_propose_err [OF assms(3), of prio p s ns] e by simp
    then have "err = None \<or> (\<exists>d. err = Some (ProposeErrNormal d))"
      by (metis ProposeErr.exhaust not_None_eq)
    then show ?thesis
      using RiLocal RepPropose replica_propose_stop [of s api prio p] e by (auto simp: rep_same_stop_def)
  next
    case (RepLocalSequenceReq q sr md)
    then show ?thesis
      using RiLocal by (auto simp: rep_same_stop_def split: prod.split)
  next
    case (RepStop b)
    then show ?thesis
      using RiLocal assms by (simp add: rep_stop_of_def)
  qed
next
  case (RiComm m)
  then show ?thesis
    using assms(2) by (cases m) (auto simp: rep_peer_of_def rep_same_stop_def)
next
  case RiDecidedTimer
  obtain s1 and o1 :: "('p, 'r) rep_out list" where g: "get_decided api s = (s1, o1)"
    by fastforce
  then have "rep_same_stop s s1" "List.map_filter rep_reply_of o1 = []"
    using get_decided_stop by blast+
  then show ?thesis
    using RiDecidedTimer g by (auto simp: rep_same_stop_def)
qed (auto simp: replica_start_timers_def replica_stop_timers_def rep_same_stop_def
      replica_handle_leader_def send_outgoing_def Let_def split: prod.split)

lemma replica_stop_protocol:
  fixes api :: "'x paxos_api"
  assumes "api_propose_ok api"
  shows "stop_protocol (replica_step api prio) (\<lambda>s. length (pr_peers s)) pr_stopped_peers pr_stopped
    pr_stop_ask (\<lambda>_. True) rep_stop_of rep_peer_of rep_reply_of"
proof
  show "rep_peer_of i = None" if "rep_stop_of i = Some a" for i :: "('p, 'r) rep_in" and a
    using that by (cases i) (auto simp: rep_stop_of_def rep_peer_of_def)
next
  fix i :: "('p, 'r) rep_in" and a and s :: "'x PaxosReplica"
  assume "rep_stop_of i = Some a"
  then have "i = RiLocal (RepStop a)"
    by (cases i) (auto simp: rep_stop_of_def split: PaxosReplicaMsg.splits)
  then show "\<exists>s' out. replica_step api prio i s = Inr (s', out) \<and> True \<and>
      length (pr_peers s') = length (pr_peers s) \<and> pr_stopped_peers s' = pr_stopped_peers s \<and> pr_stopped s' \<and>
      pr_stop_ask s' = (if card (pr_stopped_peers s) = length (pr_peers s) then pr_stop_ask s else Some a) \<and>
      List.map_filter rep_reply_of out = (if card (pr_stopped_peers s) = length (pr_peers s) then [a] else [])"
    by (simp add: replica_stop_timers_def Let_def)
next
  fix i :: "('p, 'r) rep_in" and p and s :: "'x PaxosReplica"
  assume "rep_peer_of i = Some p" and p: "p \<notin> pr_stopped_peers s"
    and pend: "pr_stopped s \<and> card (insert p (pr_stopped_peers s)) = length (pr_peers s) \<Longrightarrow>
      pr_stop_ask s \<noteq> None"
  then have "i = RiComm (CompStopMsg p)"
    by (cases i) (auto simp: rep_peer_of_def split: AtomicBroadcastCompMsg.splits)
  then show "\<exists>s' out. replica_step api prio i s = Inr (s', out) \<and> True \<and>
      length (pr_peers s') = length (pr_peers s) \<and> pr_stopped s' = pr_stopped s \<and>
      pr_stopped_peers s' = insert p (pr_stopped_peers s) \<and>
      (if pr_stopped s \<and> card (insert p (pr_stopped_peers s)) = length (pr_peers s)
       then pr_stop_ask s' = None \<and> List.map_filter rep_reply_of out = [the (pr_stop_ask s)]
       else pr_stop_ask s' = pr_stop_ask s \<and> List.map_filter rep_reply_of out = [])"
    using p pend by (auto simp: rassert_def Let_def)
next
  fix i :: "('p, 'r) rep_in" and s :: "'x PaxosReplica"
  assume "rep_stop_of i = None" "rep_peer_of i = None"
  from replica_step_other [OF this assms, of prio s]
  show "\<exists>s' out. replica_step api prio i s = Inr (s', out) \<and> True \<and>
      length (pr_peers s') = length (pr_peers s) \<and> pr_stopped s' = pr_stopped s \<and>
      pr_stopped_peers s' = pr_stopped_peers s \<and> pr_stop_ask s' = pr_stop_ask s \<and>
      List.map_filter rep_reply_of out = []"
    by (auto simp: rep_same_stop_def)
qed

text \<open>A concrete instance of the crate's interface, for the witnesses.\<close>

definition example_api :: "unit paxos_api" where
  "example_api = \<lparr>px_with = (\<lambda>_ _ _ _ _ _. ()), px_get_current_leader = (\<lambda>_. 0),
     px_get_decided_entries = (\<lambda>x. (x, [])), px_stopped = (\<lambda>_. False),
     px_stop_and_get_sequence = (\<lambda>x. (x, seq_new)), px_get_outgoing_msgs = (\<lambda>x. (x, [])),
     px_propose_normal = (\<lambda>_ x. (x, None)), px_propose_reconfiguration = (\<lambda>_ _ x. (x, None)),
     px_get_chosen_entries = (\<lambda>_ _ _. (False, [])), px_handle = (\<lambda>_ x. x), px_handle_leader = (\<lambda>_ x. x)\<rparr>"

subsection \<open>Properties\<close>



primrec rep_response_of :: "('p, 'r) rep_out \<Rightarrow> ProposalResp option" where
  "rep_response_of (RepTrigger m) = (case m of CommProposalResponse pr \<Rightarrow> Some pr | _ \<Rightarrow> None)"
| "rep_response_of (RepTellSupervisor m) = None"
| "rep_response_of (RepTellTransfer p m) = None"
| "rep_response_of (RepReplyStop b) = None"

primrec rep_final_of :: "('p, 'r) rep_out \<Rightarrow> FinalMsg option" where
  "rep_final_of (RepTellSupervisor m) = (case m of CompReconfig r \<Rightarrow> Some r | _ \<Rightarrow> None)"
| "rep_final_of (RepTrigger m) = None"
| "rep_final_of (RepTellTransfer p m) = None"
| "rep_final_of (RepReplyStop b) = None"

lemma map_filter_map_Some: "(\<And>x. f (g x) = Some (h x)) \<Longrightarrow> List.map_filter f (map g xs) = map h xs"
  by (induction xs) (auto simp: map_filter_simps)

text \<open>what a replica does with newly decided entries. Only the leader answers the client, once for every ordinary
  entry and in the order of the log (naming no leader once the configuration is stopped); every replica
  hands a decided stop sign to its supervisor exactly when it is the last decided entry, together with the final
  sequence and the split of the new configuration into continued and new nodes.\<close>

theorem get_decided_responds:
  "let (s', out) = (get_decided api s :: 'x PaxosReplica \<times> ('p, 'r) rep_out list);
       es = snd (px_get_decided_entries api (pr_paxos s));
       x = fst (px_get_decided_entries api (pr_paxos s))
   in List.map_filter rep_response_of out =
        (if px_get_current_leader api (pr_paxos s) = pr_pid s
         then map (\<lambda>d. proposal_resp_with d (if px_stopped api (pr_paxos s') then 0 else pr_pid s))
                (List.map_filter normal_data es)
         else []) \<and>
      List.map_filter rep_final_of out = (case last_stopsign es of
          None \<Rightarrow> []
        | Some ss \<Rightarrow> [final_msg_with (ss_config_id ss)
            (reconfig_with (filter (\<lambda>p. p = pr_pid s \<or> p \<in> set (pr_peers s)) (ss_nodes ss))
                           (filter (\<lambda>p. \<not> (p = pr_pid s \<or> p \<in> set (pr_peers s))) (ss_nodes ss)))
            (snd (px_stop_and_get_sequence api x)) (ss_skip_prepare_use_leader ss)])"
proof -
  have "List.map_filter rep_response_of (map (\<lambda>d. RepTrigger (CommProposalResponse (h d))) ds) = map h ds"
    for h :: "bytes \<Rightarrow> ProposalResp" and ds
    by (rule map_filter_map_Some) simp
  moreover have "List.map_filter rep_final_of (map (\<lambda>d. RepTrigger (CommProposalResponse (h d))) ds) = []"
    for h :: "bytes \<Rightarrow> ProposalResp" and ds
    by (rule map_filter_map_None) simp
  ultimately show ?thesis
    by (auto simp: get_decided_def handle_stopsign_def Let_def map_filter_append map_filter_simps
        o_def split: prod.split option.split)
qed

end
