(* ===== verification/Linearizability.thy ===== *)
theory Linearizability
  imports Rust_Prelude
begin

text \<open>
  The linearisability checker of the test utilities (\<open>shared_rust/src/lib.rs\<close>, module \<open>test_utils\<close>):
  a backtracking search over the minimal operations of a key's history. Its correctness is stated against the
  usual definition: some sequence of the operations that respects real-time order and the
  sequential semantics of a register explains the history.
\<close>

datatype KVOperation = ReadInvokation | ReadResponse | WriteInvokation | WriteResponse

record KVTimestamp =
  kv_key :: u64
  kv_operation :: KVOperation
  kv_value :: "u32 option"
  kv_time :: u64   \<comment> \<open>an \<open>i64\<close>, read with \<open>sint\<close>\<close>
  kv_sender :: u32

fun is_invokation :: "KVOperation \<Rightarrow> bool" where
  "is_invokation ReadInvokation = True"
| "is_invokation WriteInvokation = True"
| "is_invokation _ = False"

fun get_minimal_ops :: "KVTimestamp list \<Rightarrow> KVTimestamp list" where
  "get_minimal_ops [] = []"
| "get_minimal_ops (e # trace) =
     (if is_invokation (kv_operation e) then e # get_minimal_ops trace else [])"

definition get_response_value :: "KVTimestamp \<Rightarrow> KVTimestamp list \<Rightarrow> u32 option" where
  "get_response_value invokation trace = (case kv_operation invokation of
      ReadInvokation \<Rightarrow>
        (case find (\<lambda>x. kv_operation x = ReadResponse \<and> kv_sender x = kv_sender invokation) trace of
           Some ts \<Rightarrow> kv_value ts
         | None \<Rightarrow> None)
    | _ \<Rightarrow> kv_value invokation)"

definition remove_op :: "KVTimestamp \<Rightarrow> KVTimestamp list \<Rightarrow> KVTimestamp list rust" where
  "remove_op entry trace =
    (let cloned = filter (\<lambda>x. kv_sender x \<noteq> kv_sender entry) trace
     in if length cloned < length trace then Inr cloned else Inl AssertFailed)"

lemma remove_op_shorter: "remove_op op h = Inr h' \<Longrightarrow> length h' < length h"
  by (auto simp: remove_op_def Let_def split: if_splits)

text \<open>The stack \<open>s\<close> is the vector the Rust code pushes to and pops from; \<open>try_ops\<close> is the
  \<open>for op in minimal_ops\<close> loop.\<close>

function (sequential) is_linearizable :: "KVTimestamp list \<Rightarrow> u32 list \<Rightarrow> (bool \<times> u32 list) rust"
  and try_ops :: "KVTimestamp list \<Rightarrow> KVTimestamp list \<Rightarrow> u32 list \<Rightarrow> (bool \<times> u32 list) rust"
where
  "is_linearizable h s = (if h = [] then Inr (True, s) else try_ops (get_minimal_ops h) h s)"
| "try_ops [] h s = Inr (False, s)"
| "try_ops (op # ops) h s =
    (case get_response_value op h of
       None \<Rightarrow> Inl UnwrapNone
     | Some response_val \<Rightarrow>
        if kv_operation op = WriteInvokation \<or> kv_operation op = WriteResponse then
          (case remove_op op h of
             Inl e \<Rightarrow> Inl e
           | Inr removed_op_trace \<Rightarrow>
              (case is_linearizable removed_op_trace (s @ [response_val]) of
                 Inl e \<Rightarrow> Inl e
               | Inr (True, s') \<Rightarrow> Inr (True, s')
               | Inr (False, s') \<Rightarrow> try_ops ops h (butlast s')))
        else
          (case remove_op op h of
             Inl e \<Rightarrow> Inl e
           | Inr removed_op_trace \<Rightarrow>
              if s = [] then Inl UnwrapNone
              else if last s = response_val then
                (case is_linearizable removed_op_trace s of
                   Inl e \<Rightarrow> Inl e
                 | Inr (True, s') \<Rightarrow> Inr (True, s')
                 | Inr (False, s') \<Rightarrow> try_ops ops h s')
              else try_ops ops h s))"
  by pat_completeness auto
termination
  by (relation "measures [\<lambda>x. case x of Inl (h, s) \<Rightarrow> length h | Inr (ops, h, s) \<Rightarrow> length h,
                          \<lambda>x. case x of Inl (h, s) \<Rightarrow> 1 | Inr (ops, h, s) \<Rightarrow> 0,
                          \<lambda>x. case x of Inl (h, s) \<Rightarrow> 0 | Inr (ops, h, s) \<Rightarrow> length ops]")
    (auto dest: remove_op_shorter)

text \<open>\<open>order\<close> is the order in which the hash map of traces is iterated.\<close>

definition key_trace :: "u64 \<Rightarrow> KVTimestamp list \<Rightarrow> KVTimestamp list" where
  "key_trace k ts = sort_key (\<lambda>x. sint (kv_time x)) (filter (\<lambda>x. kv_key x = k) ts)"

fun all_linearizable :: "u64 list \<Rightarrow> KVTimestamp list \<Rightarrow> bool rust" where
  "all_linearizable [] ts = Inr True"
| "all_linearizable (k # order) ts =
    (case is_linearizable (key_trace k ts) [0] of
       Inl e \<Rightarrow> Inl e
     | Inr (ok, s) \<Rightarrow> if ok then all_linearizable order ts else Inr False)"

subsection \<open>The specification\<close>

datatype reg_op = RegWrite u32 | RegRead u32

fun reg_legal :: "u32 \<Rightarrow> reg_op list \<Rightarrow> bool" where
  "reg_legal v [] = True"
| "reg_legal v (RegWrite w # ops) = reg_legal w ops"
| "reg_legal v (RegRead w # ops) = (w = v \<and> reg_legal v ops)"

definition senders :: "KVTimestamp list \<Rightarrow> u32 set" where
  "senders h = kv_sender ` set h"

text \<open>The response of \<open>p\<close> comes before the invocation of \<open>q\<close>.\<close>

fun precedes :: "KVTimestamp list \<Rightarrow> u32 \<Rightarrow> u32 \<Rightarrow> bool" where
  "precedes [] p q = False"
| "precedes (x # h) p q =
    ((\<not> is_invokation (kv_operation x) \<and> kv_sender x = p \<and>
      (\<exists>i\<in>set h. is_invokation (kv_operation i) \<and> kv_sender i = q)) \<or> precedes h p q)"

text \<open>Every client that occurs has exactly one complete operation: a read whose response
  carries a value, or a write with its value.\<close>

definition op_shape :: "KVTimestamp list \<Rightarrow> bool" where
  "op_shape es = (case es of
     [i, r] \<Rightarrow> (kv_operation i = ReadInvokation \<and> kv_operation r = ReadResponse \<and> kv_value r \<noteq> None) \<or>
               (kv_operation i = WriteInvokation \<and> kv_operation r = WriteResponse \<and> kv_value i \<noteq> None)
   | _ \<Rightarrow> False)"

definition of_sender :: "u32 \<Rightarrow> KVTimestamp list \<Rightarrow> KVTimestamp list" where
  "of_sender p h = filter (\<lambda>x. kv_sender x = p) h"

definition hist_wf :: "KVTimestamp list \<Rightarrow> bool" where
  "hist_wf h = list_all (\<lambda>x. op_shape (of_sender (kv_sender x) h)) h"

definition op_of :: "KVTimestamp list \<Rightarrow> u32 \<Rightarrow> reg_op" where
  "op_of h p = (case of_sender p h of
     i # r # _ \<Rightarrow> if kv_operation i = ReadInvokation then RegRead (the (kv_value r))
                  else RegWrite (the (kv_value i))
   | _ \<Rightarrow> RegWrite 0)"

definition linearization :: "u32 \<Rightarrow> KVTimestamp list \<Rightarrow> u32 list \<Rightarrow> bool" where
  "linearization v h ps \<longleftrightarrow> distinct ps \<and> set ps = senders h \<and> reg_legal v (map (op_of h) ps) \<and>
     sorted_wrt (\<lambda>p q. \<not> precedes h q p) ps"

subsection \<open>Removing an operation\<close>

abbreviation without :: "u32 \<Rightarrow> KVTimestamp list \<Rightarrow> KVTimestamp list" where
  "without p h \<equiv> filter (\<lambda>x. kv_sender x \<noteq> p) h"

lemma of_sender_without: "q \<noteq> p \<Longrightarrow> of_sender q (without p h) = of_sender q h"
  unfolding of_sender_def filter_filter by (rule filter_cong) auto

lemma op_of_without: "q \<noteq> p \<Longrightarrow> op_of (without p h) q = op_of h q"
  by (simp add: op_of_def of_sender_without)

lemma precedes_without: "p \<noteq> r \<Longrightarrow> q \<noteq> r \<Longrightarrow> precedes (without r h) p q = precedes h p q"
  by (induction h) auto

lemma senders_without: "senders (without p h) = senders h - {p}"
  by (auto simp: senders_def)

lemma hist_wf_without: "hist_wf h \<Longrightarrow> hist_wf (without p h)"
  by (auto simp: hist_wf_def list_all_iff of_sender_without)

lemma op_shape_sender: "hist_wf h \<Longrightarrow> p \<in> senders h \<Longrightarrow> op_shape (of_sender p h)"
  by (auto simp: hist_wf_def list_all_iff senders_def)

lemma linearization_Cons:
  assumes "p \<in> senders h" "\<forall>q. \<not> precedes h q p"
  shows "linearization v h (p # ps) \<longleftrightarrow>
    (case op_of h p of RegWrite w \<Rightarrow> linearization w (without p h) ps
                     | RegRead w \<Rightarrow> w = v \<and> linearization v (without p h) ps)"
proof -
  have m: "map (op_of h) ps = map (op_of (without p h)) ps" if "p \<notin> set ps"
    using that by (intro map_cong) (auto intro!: op_of_without [symmetric])
  have s: "sorted_wrt (\<lambda>p q. \<not> precedes h q p) ps
      = sorted_wrt (\<lambda>p q. \<not> precedes (without p' h) q p) ps" if "p' \<notin> set ps" for p'
    using that by (intro iffI; elim sorted_wrt_mono_rel [rotated]) (metis precedes_without)+
  have d: "insert p (set ps) = senders h \<longleftrightarrow> set ps = senders h - {p}" if "p \<notin> set ps"
    using that assms(1) by auto
  show ?thesis
  proof (cases "p \<in> set ps")
    case True
    then show ?thesis
      by (auto simp: linearization_def senders_without split: reg_op.split)
  next
    case False
    then show ?thesis
      using assms(2)
      by (auto simp: linearization_def senders_without m s [of p] d split: reg_op.split)
  qed
qed

subsection \<open>Minimal operations\<close>

abbreviation is_inv :: "KVTimestamp \<Rightarrow> bool" where
  "is_inv x \<equiv> is_invokation (kv_operation x)"

lemma get_minimal_ops_takeWhile: "get_minimal_ops h = takeWhile is_inv h"
  by (induction h) auto

lemma precedes_append: "\<forall>x\<in>set xs. is_inv x \<Longrightarrow> precedes (xs @ ys) p q = precedes ys p q"
  by (induction xs) auto

lemma precedes_imp_inv: "precedes h p q \<Longrightarrow> \<exists>i\<in>set h. is_inv i \<and> kv_sender i = q"
  by (induction h) auto

lemma op_shapeE:
  assumes "op_shape es"
  obtains i r where "es = [i, r]" "is_inv i" "\<not> is_inv r"
    "kv_operation i = ReadInvokation \<and> kv_operation r = ReadResponse \<and> kv_value r \<noteq> None \<or>
     kv_operation i = WriteInvokation \<and> kv_operation r = WriteResponse \<and> kv_value i \<noteq> None"
  using assms by (auto simp: op_shape_def split: list.splits)

text \<open>The operations the checker tries first are those that nothing precedes.\<close>

lemma minimal_op:
  assumes wf: "hist_wf h" and op: "op \<in> set (get_minimal_ops h)"
  shows "kv_sender op \<in> senders h" and "\<not> precedes h q (kv_sender op)"
    and "\<exists>r. of_sender (kv_sender op) h = [op, r] \<and> op_shape [op, r]"
proof -
  let ?p = "kv_sender op"
  obtain xs ys where h: "h = xs @ op # ys" and xs: "\<forall>x\<in>set xs. is_inv x" and inv: "is_inv op"
  proof -
    obtain as bs where ab: "takeWhile is_inv h = as @ op # bs"
      using op by (auto simp: get_minimal_ops_takeWhile dest: split_list)
    then have "h = as @ op # (bs @ dropWhile is_inv h)"
      by (metis append.assoc append_Cons takeWhile_dropWhile_id)
    moreover have "\<forall>x\<in>set (as @ op # bs). is_inv x"
      by (metis ab set_takeWhileD)
    ultimately show thesis
      using that by auto
  qed
  show p: "?p \<in> senders h"
    by (simp add: h senders_def)
  obtain i r where ir: "of_sender ?p h = [i, r]" "\<not> is_inv r" and sh: "op_shape [i, r]"
    using op_shape_sender [OF wf p] by (metis op_shapeE)
  have split: "of_sender ?p xs @ op # of_sender ?p ys = [i, r]"
    using ir h by (simp add: of_sender_def)
  have "of_sender ?p xs = []"
    using split ir(2) inv by (cases "of_sender ?p xs") (auto simp: append_eq_Cons_conv)
  then have ys: "of_sender ?p ys = [r]" and "i = op"
    using split by auto
  then show "\<exists>r. of_sender ?p h = [op, r] \<and> op_shape [op, r]"
    using ir sh by blast
  show "\<not> precedes h q ?p"
  proof
    assume "precedes h q ?p"
    then have "precedes ys q ?p"
      using precedes_append [of "xs @ [op]" ys q ?p] xs inv h by simp
    then obtain j where "j \<in> set (of_sender ?p ys)" "is_inv j"
      using precedes_imp_inv by (fastforce simp: of_sender_def)
    then show False
      using ys ir(2) by simp
  qed
qed

lemma unpreceded_is_minimal:
  assumes wf: "hist_wf h" and p: "p \<in> senders h" and first: "\<forall>q. \<not> precedes h q p"
  shows "\<exists>op\<in>set (get_minimal_ops h). kv_sender op = p"
proof -
  obtain i r where "of_sender p h = [i, r]" and i: "is_inv i"
    using op_shape_sender [OF wf p] by (metis op_shapeE)
  then have "i \<in> set (of_sender p h)"
    by simp
  then have ih: "i \<in> set h" and ip: "kv_sender i = p"
    by (auto simp: of_sender_def)
  show ?thesis
  proof (cases "i \<in> set (takeWhile is_inv h)")
    case True
    then show ?thesis
      using ip by (auto simp: get_minimal_ops_takeWhile)
  next
    case False
    obtain x zs where d: "dropWhile is_inv h = x # zs" and x: "\<not> is_inv x"
      using ih False by (metis hd_dropWhile list.exhaust list.sel(1) dropWhile_eq_Nil_conv
          takeWhile_eq_all_conv)
    then have h: "h = takeWhile is_inv h @ x # zs"
      by (metis takeWhile_dropWhile_id)
    then have "i \<in> set zs"
      using ih False i x by (metis Un_iff set_append set_ConsD)
    then have "precedes (x # zs) (kv_sender x) p"
      using x i ip by auto
    then have "precedes h (kv_sender x) p"
      using precedes_append [of "takeWhile is_inv h" "x # zs"] h by (metis set_takeWhileD)
    then show ?thesis
      using first by blast
  qed
qed

lemma linearization_Cons_imp:
  assumes "hist_wf h" "linearization v h (p # ps)"
  shows "\<forall>q. \<not> precedes h q p"
proof (intro allI notI)
  fix q
  assume pre: "precedes h q p"
  then have "q \<in> senders h"
    by (induction h) (auto simp: senders_def)
  then have q: "q = p \<or> q \<in> set ps" and p: "p \<in> senders h"
    using assms by (auto simp: linearization_def)
  show False
  proof (cases "q = p")
    case True
    have "\<not> precedes h p p" if "op_shape (of_sender p h)" for h
      using that
    proof (induction h)
      case (Cons x h)
      show ?case
      proof (cases "kv_sender x = p")
        case True
        then obtain r where "of_sender p h = [r]" "\<not> is_inv r" "is_inv x"
          using Cons.prems by (auto simp: of_sender_def elim!: op_shapeE)
        then have "\<forall>i\<in>set (of_sender p h). \<not> is_inv i"
          by simp
        then have "\<forall>i\<in>set h. kv_sender i = p \<longrightarrow> \<not> is_inv i"
          by (auto simp: of_sender_def)
        then show ?thesis
          using \<open>is_inv x\<close> precedes_imp_inv [of h p p] by auto
      next
        case False
        then show ?thesis
          using Cons by (simp add: of_sender_def)
      qed
    qed simp
    then show ?thesis
      using pre True op_shape_sender [OF assms(1) p] by blast
  next
    case False
    then show ?thesis
      using q pre assms(2) by (auto simp: linearization_def)
  qed
qed

lemma linearization_Nil: "linearization v h [] \<longleftrightarrow> h = []"
  by (auto simp: linearization_def senders_def)

subsection \<open>The search decides linearisability\<close>

lemma response_value_op_of:
  assumes "of_sender (kv_sender op) h = [op, r]" "op_shape [op, r]"
  shows "(kv_operation op = WriteInvokation \<and>
            (\<exists>w. get_response_value op h = Some w \<and> op_of h (kv_sender op) = RegWrite w)) \<or>
         (kv_operation op = ReadInvokation \<and>
            (\<exists>w. get_response_value op h = Some w \<and> op_of h (kv_sender op) = RegRead w))"
proof -
  have "find (\<lambda>x. kv_operation x = ReadResponse \<and> kv_sender x = kv_sender op) h
      = find (\<lambda>x. kv_operation x = ReadResponse) (of_sender (kv_sender op) h)"
    unfolding of_sender_def by (induction h) auto
  then show ?thesis
    using assms by (auto simp: op_shape_def op_of_def get_response_value_def)
qed

lemma remove_op_sender: "kv_sender op \<in> senders h \<Longrightarrow> remove_op op h = Inr (without (kv_sender op) h)"
  by (auto simp: remove_op_def Let_def senders_def length_filter_less)

lemma is_linearizable_spec:
  "hist_wf h \<Longrightarrow> s \<noteq> [] \<Longrightarrow>
     \<exists>b s'. is_linearizable h s = Inr (b, s') \<and> b = (\<exists>ps. linearization (last s) h ps) \<and> (\<not> b \<longrightarrow> s' = s)"
  "hist_wf h \<Longrightarrow> s \<noteq> [] \<Longrightarrow> set ops \<subseteq> set (get_minimal_ops h) \<Longrightarrow>
     \<exists>b s'. try_ops ops h s = Inr (b, s') \<and>
       b = (\<exists>op\<in>set ops. \<exists>ps. linearization (last s) h (kv_sender op # ps)) \<and> (\<not> b \<longrightarrow> s' = s)"
proof (induction h s and ops h s rule: is_linearizable_try_ops.induct)
  case (1 h s)
  show ?case
  proof (cases "h = []")
    case True
    then show ?thesis
      using linearization_Nil by auto
  next
    case False
    have "(\<exists>op\<in>set (get_minimal_ops h). \<exists>ps. linearization (last s) h (kv_sender op # ps))
        = (\<exists>ps. linearization (last s) h ps)"
    proof
      assume "\<exists>ps. linearization (last s) h ps"
      then obtain p ps where l: "linearization (last s) h (p # ps)"
        using False linearization_Nil by (metis list.exhaust)
      moreover have "p \<in> senders h"
        using l by (auto simp: linearization_def)
      ultimately show "\<exists>op\<in>set (get_minimal_ops h). \<exists>ps. linearization (last s) h (kv_sender op # ps)"
        using unpreceded_is_minimal linearization_Cons_imp "1.prems"(1) by blast
    qed blast
    then show ?thesis
      using "1.IH" [OF False "1.prems"] False by simp
  qed
next
  case (2 h s)
  then show ?case by (auto intro: exI [of _ False])
next
  case (3 op ops h s)
  let ?p = "kv_sender op"
  have op: "op \<in> set (get_minimal_ops h)" and ops: "set ops \<subseteq> set (get_minimal_ops h)"
    using "3.prems"(3) by auto
  note min = minimal_op [OF "3.prems"(1) op]
  have rm: "remove_op op h = Inr (without ?p h)"
    using remove_op_sender min(1) by blast
  have wf': "hist_wf (without ?p h)"
    by (rule hist_wf_without [OF "3.prems"(1)])
  have lin: "linearization (last s) h (?p # ps) = (case op_of h ?p of
      RegWrite w \<Rightarrow> linearization w (without ?p h) ps
    | RegRead w \<Rightarrow> w = last s \<and> linearization (last s) (without ?p h) ps)" for ps
    using linearization_Cons min by blast
  obtain r where r: "of_sender ?p h = [op, r]" "op_shape [op, r]"
    using min(3) by blast
  from response_value_op_of [OF r] show ?case
  proof (elim disjE conjE exE)
    fix w
    assume k: "kv_operation op = WriteInvokation" and v: "get_response_value op h = Some w"
      and w: "op_of h ?p = RegWrite w"
    obtain b s' where 1: "is_linearizable (without ?p h) (s @ [w]) = Inr (b, s')"
      "b = (\<exists>ps. linearization w (without ?p h) ps)" "\<not> b \<longrightarrow> s' = s @ [w]"
      using "3.IH"(1) [OF v _ rm wf'] k by auto
    show ?thesis
      using "3.IH"(2) [OF v _ rm 1(1) refl _ "3.prems"(1) _ ops] 1 k v w rm lin "3.prems"(2)
      by (cases b) auto
  next
    fix w
    assume k: "kv_operation op = ReadInvokation" and v: "get_response_value op h = Some w"
      and w: "op_of h ?p = RegRead w"
    show ?thesis
    proof (cases "last s = w")
      case True
      obtain b s' where 1: "is_linearizable (without ?p h) s = Inr (b, s')"
        "b = (\<exists>ps. linearization (last s) (without ?p h) ps)" "\<not> b \<longrightarrow> s' = s"
        using "3.IH"(3) [OF v _ rm "3.prems"(2) True wf' "3.prems"(2)] k by auto
      show ?thesis
        using "3.IH"(4) [OF v _ rm "3.prems"(2) True 1(1) refl _ "3.prems"(1) _ ops] 1 k v w rm lin
          "3.prems"(2) True
        by (cases b) auto
    next
      case False
      then show ?thesis
        using "3.IH"(5) [OF v _ rm "3.prems"(2) False "3.prems"(1,2) ops] k v w rm lin "3.prems"(2)
        by auto
    qed
  qed
qed

subsection \<open>Properties\<close>

text \<open>C3: on every history in which each client has one complete operation, the search terminates without a
  panic and answers \<open>true\<close> exactly when the history is linearisable: there is an order of the operations
  that respects real time and in which every read returns the value written last (or the
  initial one).\<close>

theorem is_linearizable_decides:
  assumes "hist_wf h"
  shows "\<exists>s'. is_linearizable h [v] = Inr (\<exists>ps. linearization v h ps, s')"
  using is_linearizable_spec(1) [OF assms, of "[v]"] by auto

theorem is_linearizable_decides_witness:
  "\<exists>s'. is_linearizable
     [\<lparr>kv_key = 1, kv_operation = WriteInvokation, kv_value = Some 5, kv_time = 1, kv_sender = 1\<rparr>,
      \<lparr>kv_key = 1, kv_operation = ReadInvokation, kv_value = None, kv_time = 2, kv_sender = 2\<rparr>,
      \<lparr>kv_key = 1, kv_operation = ReadResponse, kv_value = Some 0, kv_time = 3, kv_sender = 2\<rparr>,
      \<lparr>kv_key = 1, kv_operation = WriteResponse, kv_value = Some 5, kv_time = 4, kv_sender = 1\<rparr>] [0]
    = Inr (True, s')"
proof -
  let ?h = "[\<lparr>kv_key = 1, kv_operation = WriteInvokation, kv_value = Some 5, kv_time = 1, kv_sender = 1\<rparr>,
      \<lparr>kv_key = 1, kv_operation = ReadInvokation, kv_value = None, kv_time = 2, kv_sender = 2\<rparr>,
      \<lparr>kv_key = 1, kv_operation = ReadResponse, kv_value = Some 0, kv_time = 3, kv_sender = 2\<rparr>,
      \<lparr>kv_key = 1, kv_operation = WriteResponse, kv_value = Some 5, kv_time = 4, kv_sender = 1\<rparr>]
      :: KVTimestamp list"
  have "hist_wf ?h"
    by (simp add: hist_wf_def of_sender_def op_shape_def)
  moreover have "linearization 0 ?h [2, 1]"
    by (auto simp: linearization_def senders_def op_of_def of_sender_def)
  ultimately show ?thesis
    using is_linearizable_decides [of ?h 0] by metis
qed

text \<open>The checker over all keys answers \<open>true\<close> exactly when the time-sorted history of every key is
  linearisable from the initial value 0, in whatever order the hash map yields the keys.\<close>

theorem all_linearizable_decides:
  assumes "\<forall>k\<in>set order. hist_wf (key_trace k ts)"
  shows "all_linearizable order ts = Inr (\<forall>k\<in>set order. \<exists>ps. linearization 0 (key_trace k ts) ps)"
  using assms
proof (induction order)
  case (Cons k order)
  then obtain s' where "is_linearizable (key_trace k ts) [0]
      = Inr (\<exists>ps. linearization 0 (key_trace k ts) ps, s')"
    using is_linearizable_spec(1) [of "key_trace k ts" "[0]"] by auto
  then show ?case
    using Cons by auto
qed simp

theorem all_linearizable_decides_witness:
  "all_linearizable [7, 9]
     [\<lparr>kv_key = 9, kv_operation = ReadResponse, kv_value = Some 0, kv_time = 3, kv_sender = 2\<rparr>,
      \<lparr>kv_key = 9, kv_operation = ReadInvokation, kv_value = None, kv_time = 2, kv_sender = 2\<rparr>]
    = Inr True"
proof -
  let ?ts = "[\<lparr>kv_key = 9, kv_operation = ReadResponse, kv_value = Some 0, kv_time = 3, kv_sender = 2\<rparr>,
      \<lparr>kv_key = 9, kv_operation = ReadInvokation, kv_value = None, kv_time = 2, kv_sender = 2\<rparr>]
      :: KVTimestamp list"
  have 7: "key_trace 7 ?ts = []" and 9: "key_trace 9 ?ts = rev ?ts"
    by (simp_all add: key_trace_def)
  have wf: "hist_wf (rev ?ts)" and "linearization 0 (rev ?ts) [2]"
    by (auto simp: hist_wf_def of_sender_def op_shape_def linearization_def senders_def op_of_def)
  then have "\<forall>k\<in>set [7, 9]. \<exists>ps. linearization 0 (key_trace k ?ts) ps"
    using 7 9 linearization_Nil by (metis empty_iff empty_set set_ConsD)
  moreover have "\<forall>k\<in>set [7, 9]. hist_wf (key_trace k ?ts)"
    using 7 9 wf by (simp add: hist_wf_def)
  ultimately show ?thesis
    using all_linearizable_decides [of "[7, 9]" ?ts] by presburger
qed

end
