(* ===== verification/Partitioning_Actor.thy ===== *)
theory Partitioning_Actor
  imports Byte_Buffer Linearizability
begin

text \<open>
  The partitioning actor (\<open>kompact/src/partitioning_actor.rs\<close>) that hands the nodes of a distributed
  benchmark their process ids, starts and stops an iteration and counts the acknowledgements, and its wire
  format. \<open>'p\<close> is Kompact's \<open>ActorPath\<close>, whose own serialiser and deserialiser are parameters.
\<close>

record 'p Init =
  init_pid :: u32
  init_init_id :: u32
  init_nodes :: "'p list"
  init_init_data :: "bytes option"

datatype 'p PartitioningActorMsg =
    InitMsg "'p Init"
  | InitAck u32
  | Run
  | Done
  | TestDone "KVTimestamp list"
  | Stop
  | StopAck

datatype IterationControlMsg =
    ICPrepare "bytes option"
  | ICRun
  | ICStop nat   \<comment> \<open>the \<open>Ask\<close> to answer, by an identity\<close>

subsection \<open>Wire format\<close>

abbreviation "INIT_ID \<equiv> (1 :: u8)"
abbreviation "INITACK_ID \<equiv> (2 :: u8)"
abbreviation "RUN_ID \<equiv> (3 :: u8)"
abbreviation "DONE_ID \<equiv> (4 :: u8)"
abbreviation "TESTDONE_ID \<equiv> (5 :: u8)"
abbreviation "STOP_ID \<equiv> (6 :: u8)"
abbreviation "STOP_ACK_ID \<equiv> (13 :: u8)"
abbreviation "READ_INV \<equiv> (8 :: u8)"
abbreviation "READ_RESP \<equiv> (9 :: u8)"
abbreviation "WRITE_INV \<equiv> (10 :: u8)"
abbreviation "WRITE_RESP \<equiv> (11 :: u8)"

definition serialise_kv_op :: "KVTimestamp \<Rightarrow> bytes rust" where
  "serialise_kv_op ts = (case kv_operation ts of
      ReadInvokation \<Rightarrow> Inr (put_u8 READ_INV)
    | ReadResponse \<Rightarrow> rbind (runwrap (kv_value ts)) (\<lambda>v. Inr (put_u8 READ_RESP @ put_u32 v))
    | WriteInvokation \<Rightarrow> rbind (runwrap (kv_value ts)) (\<lambda>v. Inr (put_u8 WRITE_INV @ put_u32 v))
    | WriteResponse \<Rightarrow> rbind (runwrap (kv_value ts)) (\<lambda>v. Inr (put_u8 WRITE_RESP @ put_u32 v)))"

definition serialise_timestamp :: "KVTimestamp \<Rightarrow> bytes rust" where
  "serialise_timestamp ts = rbind (serialise_kv_op ts) (\<lambda>op.
     Inr (put_u64 (kv_key ts) @ op @ put_u64 (kv_time ts) @ put_u32 (kv_sender ts)))"

fun serialise_timestamps :: "KVTimestamp list \<Rightarrow> bytes rust" where
  "serialise_timestamps [] = Inr []"
| "serialise_timestamps (ts # tss) = rbind (serialise_timestamp ts) (\<lambda>b.
     rbind (serialise_timestamps tss) (\<lambda>bs. Inr (b @ bs)))"

fun serialise_partitioning :: "('p \<Rightarrow> bytes) \<Rightarrow> 'p PartitioningActorMsg \<Rightarrow> bytes rust" where
  "serialise_partitioning put_path (InitMsg i) = Inr (
     put_u8 INIT_ID @ put_u32 (init_pid i) @ put_u32 (init_init_id i)
     @ (case init_init_data i of
          Some data \<Rightarrow> put_u64 (word_of_nat (length data)) @ concat (map put_u8 data)
        | None \<Rightarrow> put_u64 0)
     @ put_len (init_nodes i) @ concat (map put_path (init_nodes i)))"
| "serialise_partitioning put_path (InitAck i) = Inr (put_u8 INITACK_ID @ put_u32 i)"
| "serialise_partitioning put_path Run = Inr (put_u8 RUN_ID)"
| "serialise_partitioning put_path Done = Inr (put_u8 DONE_ID)"
| "serialise_partitioning put_path (TestDone timestamps) =
     rbind (serialise_timestamps timestamps) (\<lambda>bs.
       Inr (put_u8 TESTDONE_ID @ put_len timestamps @ bs))"
| "serialise_partitioning put_path Stop = Inr (put_u8 STOP_ID)"
| "serialise_partitioning put_path StopAck = Inr (put_u8 STOP_ACK_ID)"

definition deserialise_kv_op :: "(KVOperation \<times> u32 option) getter" where
  "deserialise_kv_op = gbind get_u8 (\<lambda>i.
     if i = READ_INV then gret (ReadInvokation, None)
     else if i = READ_RESP then gbind get_u32 (\<lambda>v. gret (ReadResponse, Some v))
     else if i = WRITE_INV then gbind get_u32 (\<lambda>v. gret (WriteInvokation, Some v))
     else if i = WRITE_RESP then gbind get_u32 (\<lambda>v. gret (WriteResponse, Some v))
     else gfail UnexpectedId)"

definition deserialise_timestamp :: "KVTimestamp getter" where
  "deserialise_timestamp =
     gbind get_u64 (\<lambda>key. gbind deserialise_kv_op (\<lambda>(operation, v).
     gbind get_u64 (\<lambda>time. gbind get_u32 (\<lambda>sender.
       gret \<lparr>kv_key = key, kv_operation = operation, kv_value = v, kv_time = time, kv_sender = sender\<rparr>))))"

definition deserialise_partitioning :: "'p getter \<Rightarrow> 'p PartitioningActorMsg getter" where
  "deserialise_partitioning get_path = gbind get_u8 (\<lambda>i.
     if i = INIT_ID then
       gbind get_u32 (\<lambda>pid. gbind get_u32 (\<lambda>init_id. gbind get_u64 (\<lambda>data_len.
       gbind (if data_len = 0 then gret None
              else gbind (get_times (unat data_len) get_u8) (\<lambda>data. gret (Some data))) (\<lambda>init_data.
       gbind get_u32 (\<lambda>nodes_len. gbind (get_times (unat nodes_len) get_path) (\<lambda>nodes.
         gret (InitMsg \<lparr>init_pid = pid, init_init_id = init_id, init_nodes = nodes,
                        init_init_data = init_data\<rparr>)))))))
     else if i = INITACK_ID then gbind get_u32 (\<lambda>init_id. gret (InitAck init_id))
     else if i = RUN_ID then gret Run
     else if i = DONE_ID then gret Done
     else if i = TESTDONE_ID then
       gbind get_u32 (\<lambda>n. gbind (get_times (unat n) deserialise_timestamp) (\<lambda>timestamps.
         gret (TestDone timestamps)))
     else if i = STOP_ID then gret Stop
     else if i = STOP_ACK_ID then gret StopAck
     else gfail InvalidType)"

definition timestamp_wf :: "KVTimestamp \<Rightarrow> bool" where
  "timestamp_wf ts \<longleftrightarrow> (kv_operation ts = ReadInvokation) = (kv_value ts = None)"

fun partitioning_wf :: "('p \<Rightarrow> bool) \<Rightarrow> 'p PartitioningActorMsg \<Rightarrow> bool" where
  "partitioning_wf path_wf (InitMsg i) \<longleftrightarrow> short (init_nodes i) \<and> list_all path_wf (init_nodes i) \<and>
     (case init_init_data i of None \<Rightarrow> True | Some d \<Rightarrow> d \<noteq> [] \<and> length d < 2 ^ 64)"
| "partitioning_wf path_wf (TestDone tss) \<longleftrightarrow> short tss \<and> list_all timestamp_wf tss"
| "partitioning_wf path_wf _ \<longleftrightarrow> True"

lemma get_put_timestamp:
  assumes "timestamp_wf ts"
  shows "\<exists>b. serialise_timestamp ts = Inr b \<and> (\<forall>rest. deserialise_timestamp (b @ rest) = Inr (ts, rest))"
  using assms
  by (cases "kv_operation ts"; cases "kv_value ts")
    (auto simp: timestamp_wf_def serialise_timestamp_def serialise_kv_op_def deserialise_timestamp_def
      deserialise_kv_op_def codec_simps split: prod.splits)

lemma get_put_timestamps:
  assumes "list_all timestamp_wf tss"
  shows "\<exists>b. serialise_timestamps tss = Inr b \<and>
    (\<forall>rest. get_times (length tss) deserialise_timestamp (b @ rest) = Inr (tss, rest))"
  using assms
proof (induction tss)
  case (Cons ts tss)
  then show ?case
    using get_put_timestamp [of ts] by auto
qed simp

lemma get_times_u8: "n = length xs \<Longrightarrow> get_times n get_u8 (concat (map put_u8 xs) @ rest) = Inr (xs, rest)"
  by (rule get_times_concat) (auto simp: codec_simps)

lemma get_put_partitioning:
  assumes "codec put_path get_path path_wf" and "partitioning_wf path_wf m"
  shows "\<exists>b. serialise_partitioning put_path m = Inr b \<and>
    (\<forall>rest. deserialise_partitioning get_path (b @ rest) = Inr (m, rest))"
proof (cases m)
  case (InitMsg i)
  have nodes: "get_times (length (init_nodes i)) get_path (concat (map put_path (init_nodes i)) @ rest)
      = Inr (init_nodes i, rest)" for rest
    using codec.get_stream [OF assms(1)] assms(2) InitMsg by (simp add: list_all_iff)
  show ?thesis
  proof (cases "init_init_data i")
    case None
    then show ?thesis
      using InitMsg assms(2) nodes by (simp add: deserialise_partitioning_def codec_simps)
  next
    case (Some d)
    then have "d \<noteq> []" "length d < 2 ^ 64"
      using assms(2) InitMsg by auto
    then have nz: "(word_of_nat (length d) :: u64) \<noteq> 0" and "unat (word_of_nat (length d) :: u64) = length d"
      by (metis length_0_conv unat_0 unat_of_nat_u64, simp)
    then show ?thesis
      using InitMsg assms(2) nodes Some
      by (simp add: deserialise_partitioning_def codec_simps get_times_u8)
  qed
next
  case (TestDone tss)
  then show ?thesis
    using get_put_timestamps [of tss] assms(2) by (auto simp: deserialise_partitioning_def codec_simps)
qed (simp_all add: deserialise_partitioning_def codec_simps)

subsection \<open>The actor\<close>

record 'p PartitioningActor =
  pa_finished_latch :: bool   \<comment> \<open>whether there is a latch\<close>
  pa_reply_stop :: "nat option"
  pa_stop_ack_count :: u32
  pa_init_id :: u32
  pa_n :: u32
  pa_nodes :: "'p list"
  pa_init_ack_count :: u32
  pa_done_count :: u32
  pa_test_promise :: bool   \<comment> \<open>whether there is an unfulfilled promise\<close>
  pa_test_results :: "KVTimestamp list"

datatype 'p pa_out =
    PaTell 'p "'p PartitioningActorMsg"
  | PaPrepareLatch
  | PaFinishedLatch
  | PaFulfil "KVTimestamp list"
  | PaReplyStop nat

definition partitioning_with :: "bool \<Rightarrow> u32 \<Rightarrow> 'p list \<Rightarrow> bool \<Rightarrow> 'p PartitioningActor" where
  "partitioning_with finished_latch init_id nodes test_promise =
     \<lparr>pa_finished_latch = finished_latch, pa_reply_stop = None, pa_stop_ack_count = 0,
      pa_init_id = init_id, pa_n = 0, pa_nodes = nodes, pa_init_ack_count = 0, pa_done_count = 0,
      pa_test_promise = test_promise, pa_test_results = []\<rparr>"

fun pa_receive_local ::
  "IterationControlMsg \<Rightarrow> 'p PartitioningActor \<Rightarrow> 'p PartitioningActor \<times> 'p pa_out list" where
  "pa_receive_local (ICPrepare init_data) s =
    (let s = s\<lparr>pa_n := word_of_nat (length (pa_nodes s))\<rparr>
     in (s, map (\<lambda>(r, node). PaTell node (InitMsg
              \<lparr>init_pid = word_of_nat r + 1, init_init_id = pa_init_id s, init_nodes = pa_nodes s,
               init_init_data = init_data\<rparr>)) (enumerate 0 (pa_nodes s))))"
| "pa_receive_local ICRun s = (s, map (\<lambda>node. PaTell node Run) (pa_nodes s))"
| "pa_receive_local (ICStop stop_latch) s =
    (s\<lparr>pa_reply_stop := Some stop_latch\<rparr>, map (\<lambda>node. PaTell node Stop) (pa_nodes s))"

fun pa_receive_network ::
  "'p PartitioningActorMsg \<Rightarrow> 'p PartitioningActor \<Rightarrow> ('p PartitioningActor \<times> 'p pa_out list) rust" where
  "pa_receive_network (InitAck _) s =
    (let s = s\<lparr>pa_init_ack_count := pa_init_ack_count s + 1\<rparr>
     in Inr (s, if pa_init_ack_count s = pa_n s then [PaPrepareLatch] else []))"
| "pa_receive_network Done s =
    (let s = s\<lparr>pa_done_count := pa_done_count s + 1\<rparr>
     in if pa_done_count s = pa_n s
        then if pa_finished_latch s then Inr (s, [PaFinishedLatch]) else Inl UnwrapNone
        else Inr (s, []))"
| "pa_receive_network (TestDone td) s =
    (let s = s\<lparr>pa_done_count := pa_done_count s + 1, pa_test_results := pa_test_results s @ td\<rparr>
     in if pa_done_count s = pa_n s
        then if pa_test_promise s
             then Inr (s\<lparr>pa_test_promise := False\<rparr>, [PaFulfil (pa_test_results s)])
             else Inl UnwrapNone
        else Inr (s, []))"
| "pa_receive_network StopAck s =
    (let s = s\<lparr>pa_stop_ack_count := pa_stop_ack_count s + 1\<rparr>
     in if pa_stop_ack_count s = pa_n s
        then rbind (runwrap (pa_reply_stop s)) (\<lambda>ask.
               Inr (s\<lparr>pa_reply_stop := None\<rparr>, [PaReplyStop ask]))
        else Inr (s, []))"
| "pa_receive_network _ s = Inr (s, [])"

fun pa_run :: "'p PartitioningActorMsg list \<Rightarrow> 'p PartitioningActor \<Rightarrow> ('p PartitioningActor \<times> 'p pa_out list) rust" where
  "pa_run [] s = Inr (s, [])"
| "pa_run (m # ms) s = rbind (pa_receive_network m s) (\<lambda>(s', out).
     rbind (pa_run ms s') (\<lambda>(s'', out'). Inr (s'', out @ out')))"

lemma pa_run_snoc:
  "pa_run (ms @ [m]) s = rbind (pa_run ms s) (\<lambda>(s1, o1).
     rbind (pa_receive_network m s1) (\<lambda>(s2, o2). Inr (s2, o1 @ o2)))"
proof (induction ms arbitrary: s)
  case Nil
  then show ?case by (cases "pa_receive_network m s") auto
next
  case (Cons j ms)
  then show ?case
    by (cases "pa_receive_network j s") (auto simp: rbind_def split: sum.splits prod.splits)
qed

primrec is_init_ack :: "'p PartitioningActorMsg \<Rightarrow> bool" where
  "is_init_ack (InitAck _) = True" | "is_init_ack (InitMsg _) = False" | "is_init_ack Run = False"
| "is_init_ack Done = False" | "is_init_ack (TestDone _) = False" | "is_init_ack Stop = False"
| "is_init_ack StopAck = False"

primrec test_done :: "'p PartitioningActorMsg \<Rightarrow> KVTimestamp list list" where
  "test_done (TestDone td) = [td]" | "test_done (InitMsg _) = []" | "test_done Run = []"
| "test_done Done = []" | "test_done (InitAck _) = []" | "test_done Stop = []" | "test_done StopAck = []"

primrec barrier_out :: "'p pa_out \<Rightarrow> KVTimestamp list list" where
  "barrier_out (PaFulfil r) = [r]" | "barrier_out (PaTell p m) = []" | "barrier_out PaPrepareLatch = []"
| "barrier_out PaFinishedLatch = []" | "barrier_out (PaReplyStop a) = []"

definition tds :: "'p PartitioningActorMsg list \<Rightarrow> KVTimestamp list list" where
  "tds ms = concat (map test_done ms)"

definition acks :: "'p PartitioningActorMsg list \<Rightarrow> nat" where
  "acks ms = length (filter is_init_ack ms)"

definition stops :: "'p PartitioningActorMsg list \<Rightarrow> nat" where
  "stops ms = length (filter (\<lambda>m. m = StopAck) ms)"

text \<open>The counters, the promise and the outputs after the messages \<open>ms\<close> of \<open>n\<close> nodes, when the
  iteration was prepared and asked to stop by \<open>a\<close>.\<close>

definition pa_inv :: "nat \<Rightarrow> nat \<Rightarrow> 'p PartitioningActorMsg list \<Rightarrow> 'p PartitioningActor \<Rightarrow> 'p pa_out list \<Rightarrow> bool" where
  "pa_inv n a ms s out \<longleftrightarrow> pa_n s = word_of_nat n \<and>
     pa_init_ack_count s = word_of_nat (acks ms) \<and> pa_done_count s = word_of_nat (length (tds ms)) \<and>
     pa_stop_ack_count s = word_of_nat (stops ms) \<and> pa_test_results s = concat (tds ms) \<and>
     pa_test_promise s = (length (tds ms) \<noteq> n) \<and> pa_reply_stop s = (if stops ms = n then None else Some a) \<and>
     filter (\<lambda>x. x = PaPrepareLatch) out = (if acks ms = n then [PaPrepareLatch] else []) \<and>
     concat (map barrier_out out) = (if length (tds ms) = n then [concat (tds ms)] else []) \<and>
     filter (\<lambda>x. \<exists>b. x = PaReplyStop b) out = (if stops ms = n then [PaReplyStop a] else [])"

lemma counts_snoc [simp]:
  "tds [] = []" "acks [] = 0" "stops [] = 0"
  "tds (ms @ [m]) = tds ms @ test_done m"
  "acks (ms @ [m]) = acks ms + (if is_init_ack m then 1 else 0)"
  "stops (ms @ [m]) = stops ms + (if m = StopAck then 1 else 0)"
  by (simp_all add: tds_def acks_def stops_def)

lemma word_of_nat_eq_u32: "a < 2 ^ 32 \<Longrightarrow> b < 2 ^ 32 \<Longrightarrow> (word_of_nat a :: u32) = word_of_nat b \<longleftrightarrow> a = b"
  by (metis unat_of_nat_u32)

lemma word_of_nat_Suc_eq_u32:
  "Suc a < 2 ^ 32 \<Longrightarrow> b < 2 ^ 32 \<Longrightarrow> (word_of_nat a + 1 :: u32) = word_of_nat b \<longleftrightarrow> Suc a = b"
  using word_of_nat_eq_u32 [of "Suc a" b] by (simp add: add.commute)

lemma pa_step_inv:
  assumes inv: "pa_inv n a ms s out" and n: "n < 2 ^ 32"
    and m: "m \<noteq> Done" "acks (ms @ [m]) \<le> n" "length (tds (ms @ [m])) \<le> n" "stops (ms @ [m]) \<le> n"
  shows "\<exists>s' out'. pa_receive_network m s = Inr (s', out') \<and> pa_inv n a (ms @ [m]) s' (out @ out')"
proof (cases m)
  case (InitAck i)
  then show ?thesis
    using inv m n word_of_nat_Suc_eq_u32 [of "acks ms" n] by (auto simp: pa_inv_def Let_def add.commute)
next
  case (TestDone td)
  then show ?thesis
    using inv m n word_of_nat_Suc_eq_u32 [of "length (tds ms)" n]
    by (auto simp: pa_inv_def Let_def add.commute)
next
  case StopAck
  then show ?thesis
    using inv m n word_of_nat_Suc_eq_u32 [of "stops ms" n]
    by (auto simp: pa_inv_def Let_def add.commute)
qed (use inv m in \<open>auto simp: pa_inv_def\<close>)

lemma pa_run_inv:
  assumes "pa_inv n a [] s []" and "n < 2 ^ 32" and "Done \<notin> set ms"
    and "acks ms \<le> n" "length (tds ms) \<le> n" "stops ms \<le> n"
  shows "\<exists>s' out. pa_run ms s = Inr (s', out) \<and> pa_inv n a ms s' out"
  using assms(3-6)
proof (induction ms rule: rev_induct)
  case Nil
  then show ?case using assms(1) by simp
next
  case (snoc m ms)
  then obtain s1 o1 where 1: "pa_run ms s = Inr (s1, o1)" "pa_inv n a ms s1 o1"
    by auto
  have "m \<noteq> Done"
    using snoc.prems(1) by auto
  then show ?case
    using pa_step_inv [OF 1(2) assms(2) _ snoc.prems(2-)] 1(1) by (auto simp: pa_run_snoc)
qed

subsection \<open>Properties\<close>

text \<open>Every message of the partitioning actor survives the wire (given that actor paths do), except that empty
  initialisation data is sent like no data; values that \<open>serialise\<close> unwraps must be present.\<close>

theorem partitioning_roundtrip:
  assumes "codec put_path get_path path_wf" and "partitioning_wf path_wf m"
  shows "\<exists>b. serialise_partitioning put_path m = Inr b \<and>
    (\<forall>rest. deserialise_partitioning get_path (b @ rest) = Inr (m, rest))"
  by (rule get_put_partitioning [OF assms])

theorem partitioning_roundtrip_witness:
  "\<exists>b. serialise_partitioning put_u64 (InitMsg \<lparr>init_pid = 1, init_init_id = 4, init_nodes = [10, 11],
      init_init_data = Some [3]\<rparr>) = Inr b \<and>
    (\<forall>rest. deserialise_partitioning get_u64 (b @ rest)
      = Inr (InitMsg \<lparr>init_pid = 1, init_init_id = 4, init_nodes = [10, 11], init_init_data = Some [3]\<rparr>, rest))"
  by (rule partitioning_roundtrip [OF u64_codec.codec_axioms]) (simp add: short_def)



end
