(* ===== verification/Paxos_Comp.thy ===== *)
theory Paxos_Comp
  imports Ballot_Leader_Election Paxos_Replica Partitioning_Actor
begin

text \<open>
  The Paxos component (\<open>paxos.rs\<close>, \<open>PaxosComp\<close>): it creates, starts and stops the replicas of the
  configurations a node takes part in, routes proposals, and transfers the final sequence of a
  configuration to the nodes that join the next one. The lists of children hold the children as this component
  created and configured them; once started they run on their own and are reached by the
  outputs. What Kompact, the configuration file and the random generator provide are the fields of
  \<open>comp_env\<close>.
\<close>

datatype ReconfigurationPolicy = Eager | Pull

record ConfigMeta =
  cm_id :: u32
  cm_leader :: u64
  cm_pending_reconfig :: bool

definition config_meta_new :: "u32 \<Rightarrow> ConfigMeta" where
  "config_meta_new i = \<lparr>cm_id = i, cm_leader = 0, cm_pending_reconfig = False\<rparr>"

text \<open>A network message of the atomic broadcast: its sender and its bytes, not yet deserialised.\<close>

record 'p NetMessage =
  nm_sender :: 'p
  nm_data :: bytes

datatype path_alias = Alias string u64 u32 u32   \<comment> \<open>\<open>format!("{}{},{}-{}", name, pid, config, iteration)\<close>\<close>

record ('p, 'x) comp_env =
  ce_api :: "'x paxos_api"
  ce_named :: "'p \<Rightarrow> path_alias \<Rightarrow> 'p option"   \<comment> \<open>the named path of the same system, if the path is a named one\<close>
  ce_path :: "'p getter"   \<comment> \<open>\<open>ActorPath::deserialise\<close>\<close>
  ce_gen_range :: "nat \<Rightarrow> nat"   \<comment> \<open>\<open>rng.gen_range(0, n)\<close>\<close>
  ce_max_inflight :: nat
  ce_election_timeout :: u64
  ce_initial_election_factor :: u64
  ce_ble_delta :: u64

record ('p, 'x) PaxosComp =
  pc_pid :: u64
  pc_experiment_configurations :: "u64 list \<times> u64 list"
  pc_paxos_replicas :: "'x PaxosReplica list"
  pc_ble_comps :: "'p BallotLeaderComp list"
  pc_communicator_comps :: "'p Communicator list"
  pc_active_config :: ConfigMeta
  pc_nodes :: "'p list"
  pc_prev_sequences :: "u32 \<rightharpoonup> MemorySequence"
  pc_stopped :: bool
  pc_iteration_id :: u32
  pc_policy :: ReconfigurationPolicy
  pc_next_config_id :: "u32 option"
  pc_pending_seq_transfers :: "(u32 list \<times> Entry list) list"
  pc_complete_sequences :: "u32 list"
  pc_active_peers :: "u64 list \<times> u64 list"   \<comment> \<open>(ready, not ready)\<close>
  pc_retry_transfer_timers :: "u32 \<rightharpoonup> u64 \<times> u64"   \<comment> \<open>the arguments of the scheduled retry\<close>
  pc_cached_client :: "'p option"
  pc_hb_proposals :: "'p NetMessage list"
  pc_first_config_id :: u32

datatype 'p pc_out =
    PcTell 'p ReconfigurationMsg
  | PcTellClient 'p AtomicBroadcastMsg
  | PcForward 'p "'p NetMessage"
  | PcPropose nat Proposal   \<comment> \<open>to the replica of that index\<close>
  | PcLocalSequenceReq nat 'p SequenceRequest SequenceMetaData
  | PcStart nat   \<comment> \<open>start the replica, leader election and communicator of that index\<close>
  | PcStopBle nat u64
  | PcStopReplica nat bool
  | PcTellStop 'p StopMsg
  | PcTellInitAck 'p u32
  | PcKill nat nat nat   \<comment> \<open>how many leader elections, replicas and communicators\<close>
  | PcReplyDone nat

type_synonym ('p, 'x) pc_handled = "(('p, 'x) PaxosComp, 'p pc_out) handled"

definition paxos_comp_with :: "u64 list \<times> u64 list \<Rightarrow> ReconfigurationPolicy \<Rightarrow> ('p, 'x) PaxosComp" where
  "paxos_comp_with experiment_configurations policy =
     \<lparr>pc_pid = 0, pc_experiment_configurations = experiment_configurations, pc_paxos_replicas = [],
      pc_ble_comps = [], pc_communicator_comps = [], pc_active_config = config_meta_new 0,
      pc_nodes = [], pc_prev_sequences = Map.empty, pc_stopped = False, pc_iteration_id = 0,
      pc_policy = policy, pc_next_config_id = None, pc_pending_seq_transfers = [],
      pc_complete_sequences = [], pc_active_peers = ([], []), pc_retry_transfer_timers = Map.empty,
      pc_cached_client = None, pc_hb_proposals = [], pc_first_config_id = 0\<rparr>"

definition node_path :: "u64 \<Rightarrow> ('p, 'x) PaxosComp \<Rightarrow> 'p rust" where
  "node_path pid s = rget (pc_nodes s) (unat (pid - 1))"

fun derive_actorpaths ::
  "('p, 'x) comp_env \<Rightarrow> u32 \<Rightarrow> u64 list \<Rightarrow> ('p, 'x) PaxosComp \<Rightarrow> ('p list \<times> (u64 \<times> 'p) list) rust" where
  "derive_actorpaths env config_id [] s = Inr ([], [])"
| "derive_actorpaths env config_id (pid # peers) s =
    rbind (node_path pid s) (\<lambda>path.
    rbind (derive_actorpaths env config_id peers s) (\<lambda>(ble_peers, communicator_peers).
      case (ce_named env path (Alias ''communicator'' pid config_id (pc_iteration_id s)),
            ce_named env path (Alias ''ble'' pid config_id (pc_iteration_id s))) of
        (Some c, Some b) \<Rightarrow> Inr (b # ble_peers, List.insert (pid, c) communicator_peers)
      | _ \<Rightarrow> Inr (ble_peers, communicator_peers)))"

definition create_replica ::
  "('p, 'x) comp_env \<Rightarrow> u32 \<Rightarrow> u64 list \<Rightarrow> bool \<Rightarrow> Leader option \<Rightarrow> ('p, 'x) PaxosComp \<Rightarrow> ('p, 'x) pc_handled"
where
  "create_replica env config_id nodes ble_quick_start skip_prepare_n s =
    (let peers = filter (\<lambda>pid. pid \<noteq> pc_pid s) nodes in
     rbind (derive_actorpaths env config_id peers s) (\<lambda>(ble_peers, communicator_peers).
     rbind (runwrap (pc_cached_client s)) (\<lambda>client.
     Inr (s\<lparr>
       pc_paxos_replicas := pc_paxos_replicas s @
         [replica_with (ce_api env) peers config_id (pc_pid s) skip_prepare_n (ce_max_inflight env)],
       pc_ble_comps := pc_ble_comps s @
         [ble_with ble_peers (pc_pid s) (ce_election_timeout env) (ce_ble_delta env) ble_quick_start
            skip_prepare_n (ce_initial_election_factor env)],
       pc_communicator_comps := pc_communicator_comps s @
         [communicator_with (map_of communicator_peers) client]\<rparr>, []))))"

definition replica_idx :: "u32 \<Rightarrow> ('p, 'x) PaxosComp \<Rightarrow> nat" where
  "replica_idx config_id s = unat (config_id - pc_first_config_id s)"

definition set_initial_replica_state_after_reconfig ::
  "('p, 'x) comp_env \<Rightarrow> u32 \<Rightarrow> Leader option \<Rightarrow> ('p, 'x) PaxosComp \<Rightarrow> ('p, 'x) pc_handled" where
  "set_initial_replica_state_after_reconfig env config_id skip s =
    (let idx = replica_idx config_id s in
     rbind (rget (pc_paxos_replicas s) idx) (\<lambda>p.
     let p = p\<lparr>pr_paxos := px_with (ce_api env) config_id (pc_pid s) (pr_peers p)
                 (new_with_sequence [], memory_state_new) skip (Some (ce_max_inflight env))\<rparr>;
         s = s\<lparr>pc_paxos_replicas := (pc_paxos_replicas s)[idx := p]\<rparr>
     in case skip of
          None \<Rightarrow> Inr (s, [])
        | Some n \<Rightarrow> rbind (rget (pc_ble_comps s) idx) (\<lambda>ble.
            Inr (s\<lparr>pc_ble_comps := (pc_ble_comps s)[idx := set_initial_leader n ble]\<rparr>, []))))"

definition start_replica :: "u32 \<Rightarrow> ('p, 'x) PaxosComp \<Rightarrow> ('p, 'x) pc_handled" where
  "start_replica config_id s =
    (let idx = replica_idx config_id s in
     rbind (rget (pc_paxos_replicas s) idx) (\<lambda>paxos.
     let s = s\<lparr>pc_active_config := config_meta_new config_id\<rparr> in
     rbind (rget (pc_ble_comps s) idx) (\<lambda>ble.
     rbind (rget (pc_communicator_comps s) idx) (\<lambda>communicator.
     Inr (s\<lparr>pc_next_config_id := None\<rparr>, [PcStart idx])))))"

definition stop_components :: "('p, 'x) PaxosComp \<Rightarrow> ('p, 'x) pc_handled" where
  "stop_components s =
    (let s = s\<lparr>pc_stopped := True, pc_retry_transfer_timers := Map.empty\<rparr>;
         num_configs = word_of_nat (length (pc_paxos_replicas s)) :: u32;
         stopping_before_started = cm_id (pc_active_config s) < num_configs;
         num_comps = length (pc_ble_comps s) + length (pc_paxos_replicas s)
                     + length (pc_communicator_comps s)
     in rbind (rassert (num_comps > 0)) (\<lambda>_.
        if pc_ble_comps s = [] \<or> pc_paxos_replicas s = [] then Inl UnwrapNone else
        let n = length (pc_paxos_replicas s);
            out = map (\<lambda>i. PcStopBle i (pc_pid s)) [0..<length (pc_ble_comps s)]
                  @ map (\<lambda>i. PcStopReplica i (i = n - 1)) [0..<n]
        in step_then (Inr (s, out)) (\<lambda>s.
             if stopping_before_started
             then start_replica (if cm_id (pc_active_config s) = 0 then pc_first_config_id s
                                 else num_configs) s
             else Inr (s, []))))"

definition kill_components :: "nat \<Rightarrow> ('p, 'x) PaxosComp \<Rightarrow> ('p, 'x) pc_handled" where
  "kill_components ask s =
     Inr (s\<lparr>pc_ble_comps := [], pc_paxos_replicas := [], pc_communicator_comps := []\<rparr>,
       [PcKill (length (pc_ble_comps s)) (length (pc_paxos_replicas s))
               (length (pc_communicator_comps s)), PcReplyDone ask])"

definition deserialise_and_propose :: "'p NetMessage \<Rightarrow> ('p, 'x) PaxosComp \<Rightarrow> ('p, 'x) pc_handled" where
  "deserialise_and_propose m s = (case deserialise_abcast (nm_data m) of
      Inl e \<Rightarrow> Inl UnwrapNone
    | Inr (ProposalMsg p, _) \<Rightarrow>
        (let idx = replica_idx (cm_id (pc_active_config s)) s in
         rbind (rget (pc_paxos_replicas s) idx) (\<lambda>_. Inr (s, [PcPropose idx p])))
    | Inr _ \<Rightarrow> Inr (s, []))"

subsection \<open>Transfer of the final sequence\<close>

definition request_sequence ::
  "u64 \<Rightarrow> u32 \<Rightarrow> u64 \<Rightarrow> u64 \<Rightarrow> u32 \<Rightarrow> ('p, 'x) PaxosComp \<Rightarrow> ('p, 'x) pc_handled" where
  "request_sequence pid config_id from_idx to_idx tag s =
    rbind (node_path pid s) (\<lambda>path. Inr (s,
      [PcTell path (SequenceRequestMsg (request_with config_id tag from_idx to_idx (pc_pid s)))]))"

text \<open>One request of \<open>pull_sequence\<close>: the peer at position \<open>k\<close> among the unready peers followed
  by the ready ones gets the segment with tag \<open>k + 1\<close>.\<close>

definition pull_segment ::
  "u32 \<Rightarrow> u64 \<Rightarrow> u64 \<Rightarrow> nat \<Rightarrow> nat \<times> u64 \<Rightarrow> ('p, 'x) PaxosComp \<Rightarrow> ('p, 'x) pc_handled" where
  "pull_segment config_id seq_len offset skip = (\<lambda>(k, pid) s.
     let from_idx = word_of_nat k * offset;
         to_idx = (if from_idx + offset > seq_len then seq_len else from_idx + offset);
         tag = k + 1
     in if tag \<noteq> skip then request_sequence pid config_id from_idx to_idx (word_of_nat tag) s
        else Inr (s, []))"

definition pull_sequence ::
  "u32 \<Rightarrow> u64 \<Rightarrow> nat option \<Rightarrow> ('p, 'x) PaxosComp \<Rightarrow> ('p, 'x) pc_handled" where
  "pull_sequence config_id seq_len skip_tag s =
    (let num_ready_peers = length (fst (pc_active_peers s));
         num_unready_peers = length (snd (pc_active_peers s));
         num_continued_nodes = num_ready_peers + num_unready_peers;
         idx = unat (ucast config_id - 1 :: u64);
         rem_segments = map word_of_nat [1..<num_continued_nodes + 1]
     in if \<not> idx < length (pc_pending_seq_transfers s) then Inl IndexOutOfRange
        else let s = s\<lparr>pc_pending_seq_transfers := (pc_pending_seq_transfers s)
                   [idx := (rem_segments, replicate (unat seq_len) (Normal []))]\<rparr>
        in if num_continued_nodes = 0 then Inl PanicCall
        else let offset = seq_len div word_of_nat num_continued_nodes;
                 skip = (case skip_tag of None \<Rightarrow> 0 | Some t \<Rightarrow> t)
        in step_then (for_each (pull_segment config_id seq_len offset skip)
                        (enumerate 0 (snd (pc_active_peers s))) s) (\<lambda>s.
           step_then (for_each (pull_segment config_id seq_len offset skip)
                        (enumerate num_unready_peers (fst (pc_active_peers s))) s) (\<lambda>s.
           Inr (s\<lparr>pc_retry_transfer_timers := (pc_retry_transfer_timers s)
                  (config_id \<mapsto> (seq_len, word_of_nat num_continued_nodes))\<rparr>, []))))"

definition retry_segment ::
  "u32 \<Rightarrow> u64 \<Rightarrow> u32 \<Rightarrow> ('p, 'x) PaxosComp \<Rightarrow> ('p, 'x) pc_handled" where
  "retry_segment config_id offset tag s =
    (let i = tag - 1;
         from_idx = ucast i * offset;
         to_idx = from_idx + offset
     in rbind (rget (fst (pc_active_peers s)) (unat i mod length (fst (pc_active_peers s)))) (\<lambda>pid.
        request_sequence pid config_id from_idx to_idx tag s))"

definition retry_request_sequence ::
  "u32 \<Rightarrow> u64 \<Rightarrow> u64 \<Rightarrow> ('p, 'x) PaxosComp \<Rightarrow> ('p, 'x) pc_handled" where
  "retry_request_sequence config_id seq_len total_segments s =
    (if \<not> unat config_id < length (pc_pending_seq_transfers s) then Inr (s, [])
     else let rem_segments = fst (pc_pending_seq_transfers s ! unat config_id)
     in if total_segments = 0 then Inl PanicCall
     else let offset = seq_len div total_segments
     in step_then (if fst (pc_active_peers s) \<noteq> []
                   then for_each (retry_segment config_id offset) rem_segments s
                   else Inr (s, [])) (\<lambda>s.
        Inr (s\<lparr>pc_retry_transfer_timers := (pc_retry_transfer_timers s)
               (config_id \<mapsto> (seq_len, total_segments))\<rparr>, [])))"

definition get_sequence_metadata :: "u32 \<Rightarrow> ('p, 'x) PaxosComp \<Rightarrow> SequenceMetaData" where
  "get_sequence_metadata config_id s = metadata_with config_id
     (case pc_prev_sequences s config_id of Some prev_seq \<Rightarrow> get_sequence_len prev_seq | None \<Rightarrow> 0)"

fun write_entries :: "nat \<Rightarrow> Entry list \<Rightarrow> Entry list \<Rightarrow> Entry list rust" where
  "write_entries offset [] sequence = Inr sequence"
| "write_entries offset (e # es) sequence =
    (if offset < length sequence then write_entries (Suc offset) es (sequence[offset := e])
     else Inl IndexOutOfRange)"

definition append_transferred_segment :: "SequenceTransfer \<Rightarrow> ('p, 'x) PaxosComp \<Rightarrow> ('p, 'x) pc_handled" where
  "append_transferred_segment st s =
    (let idx = unat (ucast (st_config_id st) - 1 :: u64) in
     rbind (rget (pc_pending_seq_transfers s) idx) (\<lambda>(rem_transfers, sequence).
     rbind (write_entries (unat (seg_from_idx (st_segment st))) (seg_entries (st_segment st)) sequence)
       (\<lambda>sequence. Inr (s\<lparr>pc_pending_seq_transfers := (pc_pending_seq_transfers s)
          [idx := (filter (\<lambda>t. t \<noteq> st_tag st) rem_transfers, sequence)]\<rparr>, []))))"

definition get_continued_idx :: "u64 list \<Rightarrow> ('p, 'x) PaxosComp \<Rightarrow> nat rust" where
  "get_continued_idx continued_nodes s =
    (let i = length (takeWhile (\<lambda>pid. pid \<noteq> pc_pid s) continued_nodes)
     in if i < length continued_nodes then Inr i else Inl UnwrapNone)"

definition create_segment :: "u64 list \<Rightarrow> u32 \<Rightarrow> ('p, 'x) PaxosComp \<Rightarrow> SequenceSegment rust" where
  "create_segment continued_nodes config_id s =
    rbind (get_continued_idx continued_nodes s) (\<lambda>index.
    rbind (runwrap (pc_prev_sequences s config_id)) (\<lambda>final_seq.
    let n_continued = length continued_nodes;
        seq_len = get_sequence_len final_seq;
        offset = seq_len div word_of_nat n_continued;
        from_idx = word_of_nat index * offset;
        to_idx = from_idx + offset
    in rbind (get_entries final_seq from_idx to_idx) (\<lambda>entries.
       Inr (segment_with from_idx to_idx entries))))"

definition create_eager_sequence_transfer ::
  "u64 list \<Rightarrow> u32 \<Rightarrow> ('p, 'x) PaxosComp \<Rightarrow> SequenceTransfer rust" where
  "create_eager_sequence_transfer continued_nodes config_id s =
    rbind (get_continued_idx continued_nodes s) (\<lambda>index.
    rbind (create_segment continued_nodes config_id s) (\<lambda>segment.
    Inr (transfer_with config_id (word_of_nat index + 1) True
          (get_sequence_metadata (config_id - 1) s) segment)))"

definition handle_sequence_request :: "SequenceRequest \<Rightarrow> 'p \<Rightarrow> ('p, 'x) PaxosComp \<Rightarrow> ('p, 'x) pc_handled" where
  "handle_sequence_request sr requestor s =
    (if cm_leader (pc_active_config s) = sr_requestor_pid sr then Inr (s, [])
     else let md = get_sequence_metadata (sr_config_id sr - 1) s;
              reply = (\<lambda>succeeded entries. Inr (s, [PcTell requestor (SequenceTransferMsg
                 (transfer_with (sr_config_id sr) (sr_tag sr) succeeded md
                    (segment_with (sr_from_idx sr) (sr_to_idx sr) entries)))]))
     in case pc_prev_sequences s (sr_config_id sr) of
          Some seq \<Rightarrow> rbind (get_entries seq (sr_from_idx sr) (sr_to_idx sr)) (reply True)
        | None \<Rightarrow>
            if cm_id (pc_active_config s) = sr_config_id sr
            then let idx = replica_idx (cm_id (pc_active_config s)) s
                 in rbind (rget (pc_paxos_replicas s) idx) (\<lambda>_.
                      Inr (s, [PcLocalSequenceReq idx requestor sr md]))
            else reply False [])"

text \<open>What follows a successful \<open>append_transferred_segment\<close>, and the request of the sequence before.\<close>

definition complete_transfer :: "u32 \<Rightarrow> ('p, 'x) PaxosComp \<Rightarrow> ('p, 'x) pc_handled" where
  "complete_transfer cid s =
    (let idx = unat (ucast cid - 1 :: u64) in
     rbind (rget (pc_pending_seq_transfers s) idx) (\<lambda>(rem_segments, sequence).
     if rem_segments \<noteq> [] then Inr (s, [])
     else let s = s\<lparr>pc_complete_sequences := pc_complete_sequences s @ [cid],
                    pc_pending_seq_transfers := (pc_pending_seq_transfers s)[idx := ([], [])],
                    pc_prev_sequences := (pc_prev_sequences s)(cid \<mapsto> new_with_sequence sequence),
                    pc_retry_transfer_timers := (pc_retry_transfer_timers s)(cid := None)\<rparr>
     in rbind (runwrap (pc_next_config_id s)) (\<lambda>config_id.
        if length (pc_complete_sequences s) + 1 = unat config_id
        then start_replica config_id (s\<lparr>pc_complete_sequences := []\<rparr>)
        else Inr (s, []))))"

definition pull_previous :: "SequenceMetaData \<Rightarrow> ('p, 'x) PaxosComp \<Rightarrow> ('p, 'x) pc_handled" where
  "pull_previous md s =
    (let prev_config_id = smd_config_id md; prev_seq_len = smd_len md in
     if prev_config_id \<noteq> 0 \<and> prev_config_id \<notin> set (pc_complete_sequences s)
     then let idx = unat (ucast prev_config_id - 1 :: u64)
          in if idx < length (pc_pending_seq_transfers s) \<and> fst (pc_pending_seq_transfers s ! idx) = []
             then pull_sequence prev_config_id prev_seq_len None s
             else Inr (s, [])
     else Inr (s, []))"

definition handle_sequence_transfer ::
  "('p, 'x) comp_env \<Rightarrow> SequenceTransfer \<Rightarrow> ('p, 'x) PaxosComp \<Rightarrow> ('p, 'x) pc_handled" where
  "handle_sequence_transfer env st s =
    (if cm_id (pc_active_config s) > st_config_id st
        \<or> st_config_id st \<in> set (pc_complete_sequences s)
        \<or> (case pc_next_config_id s of None \<Rightarrow> 0 | Some c \<Rightarrow> c) \<le> st_config_id st
     then Inr (s, [])
     else step_then (pull_previous (st_metadata st) s) (\<lambda>s.
       if st_succeeded st
       then step_then (append_transferred_segment st s) (complete_transfer (st_config_id st))
       else if fst (pc_active_peers s) \<noteq> []
       then rbind (rget (fst (pc_active_peers s))
                     (ce_gen_range env (length (fst (pc_active_peers s))))) (\<lambda>pid.
              request_sequence pid (st_config_id st) (seg_from_idx (st_segment st))
                (seg_to_idx (st_segment st)) (st_tag st) s)
       else Inr (s, [])))"

definition reset_state :: "('p, 'x) PaxosComp \<Rightarrow> ('p, 'x) PaxosComp" where
  "reset_state s = s\<lparr>pc_stopped := False, pc_active_config := config_meta_new 0,
     pc_active_peers := ([], []), pc_complete_sequences := [], pc_first_config_id := 0,
     pc_pending_seq_transfers := [], pc_prev_sequences := Map.empty, pc_hb_proposals := [],
     pc_next_config_id := None\<rparr>"

subsection \<open>Message handlers\<close>

definition tell_client :: "AtomicBroadcastMsg \<Rightarrow> ('p, 'x) PaxosComp \<Rightarrow> ('p, 'x) pc_handled" where
  "tell_client m s = rbind (runwrap (pc_cached_client s)) (\<lambda>client. Inr (s, [PcTellClient client m]))"

definition handle_leader_msg :: "u32 \<Rightarrow> u64 \<Rightarrow> ('p, 'x) PaxosComp \<Rightarrow> ('p, 'x) pc_handled" where
  "handle_leader_msg config_id pid s =
    (if cm_id (pc_active_config s) \<noteq> config_id then Inr (s, [])
     else step_then
       (if cm_leader (pc_active_config s) = 0
        then let hb_proposals = pc_hb_proposals s; s = s\<lparr>pc_hb_proposals := []\<rparr>
             in if pid = pc_pid s
                then step_then (tell_client (FirstLeader pid) s)
                       (for_each deserialise_and_propose hb_proposals)
                else if hb_proposals \<noteq> []
                then rbind (node_path pid s) (\<lambda>leader. Inr (s, map (PcForward leader) hb_proposals))
                else Inr (s, [])
        else Inr (s, [])) (\<lambda>s.
       Inr (s\<lparr>pc_active_config := (pc_active_config s)\<lparr>cm_leader := pid\<rparr>\<rparr>, [])))"

definition reconfig_response :: "Reconfig \<Rightarrow> bytes" where
  "reconfig_response nodes = put_u64 RECONFIG_ID @ put_u32 (word_of_nat (reconfig_len nodes))
     @ concat (map put_u64 (rc_continued_nodes nodes @ rc_new_nodes nodes))"

definition handle_reconfig_msg ::
  "('p, 'x) comp_env \<Rightarrow> FinalMsg \<Rightarrow> ('p, 'x) PaxosComp \<Rightarrow> ('p, 'x) pc_handled" where
  "handle_reconfig_msg env r s =
    step_then (tell_client (ProposalRespMsg (proposal_resp_with (reconfig_response (fm_nodes r)) 0)) s)
      (\<lambda>s.
    let prev_config_id = cm_id (pc_active_config s);
        final_seq_len = get_sequence_len (fm_final_sequence r);
        seq_metadata = metadata_with prev_config_id final_seq_len;
        continued_nodes = rc_continued_nodes (fm_nodes r);
        new_nodes = rc_new_nodes (fm_nodes r);
        s = s\<lparr>pc_prev_sequences := (pc_prev_sequences s)(prev_config_id \<mapsto> fm_final_sequence r)\<rparr>
    in rbind (if cm_leader (pc_active_config s) = pc_pid s
              then rbind (create_segment continued_nodes (fm_config_id r - 1) s) (\<lambda>g. Inr (Some g))
              else Inr None) (\<lambda>segment.
    let r_init = Init (reconfig_init_with (fm_config_id r) (fm_nodes r) seq_metadata (pc_pid s) segment
                         (fm_skip_prepare_use_leader r))
    in step_then (for_each (\<lambda>pid s. rbind (node_path pid s) (\<lambda>path. Inr (s, [PcTell path r_init])))
                    new_nodes s) (\<lambda>s.
       if pc_pid s \<in> set continued_nodes
       then step_then
         (if pc_policy s = Eager
          then rbind (create_eager_sequence_transfer continued_nodes prev_config_id s) (\<lambda>st.
            for_each (\<lambda>pid s. rbind (node_path pid s) (\<lambda>path.
              Inr (s, [PcTell path (SequenceTransferMsg st)]))) new_nodes s)
          else Inr (s, [])) (\<lambda>s.
         step_then (set_initial_replica_state_after_reconfig env (fm_config_id r)
                      (fm_skip_prepare_use_leader r) s)
           (start_replica (fm_config_id r)))
       else Inr (s, []))))"

fun comp_receive_local ::
  "('p, 'x) comp_env \<Rightarrow> PaxosCompMsg \<Rightarrow> ('p, 'x) PaxosComp \<Rightarrow> ('p, 'x) pc_handled" where
  "comp_receive_local env (CompLeader config_id pid) s = handle_leader_msg config_id pid s"
| "comp_receive_local env (CompPendingReconfig data) s =
     tell_client (PendingReconfiguration data)
       (s\<lparr>pc_active_config := (pc_active_config s)\<lparr>cm_pending_reconfig := True\<rparr>\<rparr>)"
| "comp_receive_local env (CompReconfig r) s = handle_reconfig_msg env r s"
| "comp_receive_local env (CompKillComponents ask) s = kill_components ask s"

definition receive_abcast :: "'p NetMessage \<Rightarrow> ('p, 'x) PaxosComp \<Rightarrow> ('p, 'x) pc_handled" where
  "receive_abcast m s =
    (if \<not> pc_stopped s \<and> \<not> cm_pending_reconfig (pc_active_config s)
     then let leader = cm_leader (pc_active_config s)
          in if leader = pc_pid s then deserialise_and_propose m s
             else if leader > 0 then rbind (node_path leader s) (\<lambda>path. Inr (s, [PcForward path m]))
             else Inr (s\<lparr>pc_hb_proposals := pc_hb_proposals s @ [m]\<rparr>, [])
     else Inr (s, []))"

definition receive_init ::
  "('p, 'x) comp_env \<Rightarrow> 'p \<Rightarrow> 'p Init \<Rightarrow> ('p, 'x) PaxosComp \<Rightarrow> ('p, 'x) pc_handled" where
  "receive_init env sender init s =
    (let s = (reset_state s)\<lparr>pc_nodes := init_nodes init, pc_pid := ucast (init_pid init),
               pc_iteration_id := init_init_id init\<rparr>
     in rbind (runwrap (init_init_data init)) (\<lambda>ser_client.
        rbind (case ce_path env ser_client of Inl e \<Rightarrow> Inl UnwrapNone | Inr (p, _) \<Rightarrow> Inr p) (\<lambda>client.
        let s = s\<lparr>pc_cached_client := Some client\<rparr>;
            (initial_configuration, reconfiguration) = pc_experiment_configurations s
        in step_then
          (if pc_pid s \<in> set initial_configuration
           then step_then (create_replica env 1 initial_configuration True None
                             (s\<lparr>pc_next_config_id := Some 1\<rparr>))
                  (\<lambda>s. Inr (s\<lparr>pc_first_config_id := 1\<rparr>, []))
           else Inr (s, [])) (\<lambda>s.
          step_then
          (if pc_pid s \<in> set reconfiguration
           then step_then (create_replica env 2 reconfiguration False None s)
                  (\<lambda>s. Inr (if pc_first_config_id s \<noteq> 1 then s\<lparr>pc_first_config_id := 2\<rparr> else s, []))
           else Inr (s, [])) (\<lambda>s.
          Inr (s, [PcTellInitAck sender (pc_iteration_id s)]))))))"

fun receive_partitioning ::
  "('p, 'x) comp_env \<Rightarrow> 'p \<Rightarrow> 'p PartitioningActorMsg \<Rightarrow> ('p, 'x) PaxosComp \<Rightarrow> ('p, 'x) pc_handled" where
  "receive_partitioning env sender (InitMsg init) s = receive_init env sender init s"
| "receive_partitioning env sender Run s = (case pc_next_config_id s of
      Some config_id \<Rightarrow> start_replica config_id s
    | None \<Rightarrow> Inr (s, []))"
| "receive_partitioning env sender _ s = Inl PanicCall"

text \<open>\<open>ReconfigInit\<close> when no next configuration is known yet.\<close>

definition join_configuration ::
  "('p, 'x) comp_env \<Rightarrow> ReconfigInit \<Rightarrow> ('p, 'x) PaxosComp \<Rightarrow> ('p, 'x) pc_handled" where
  "join_configuration env r s =
    step_then (set_initial_replica_state_after_reconfig env (ri_config_id r)
                 (ri_skip_prepare_use_leader r) (s\<lparr>pc_next_config_id := Some (ri_config_id r)\<rparr>)) (\<lambda>s.
    let continued = rc_continued_nodes (ri_nodes r);
        s = s\<lparr>pc_active_peers :=
               (fst (pc_active_peers s) @ filter (\<lambda>pid. pid = ri_from r) continued,
                snd (pc_active_peers s) @ filter (\<lambda>pid. pid \<noteq> ri_from r) continued)\<rparr>;
        num_expected_transfers = length continued;
        md = ri_seq_metadata r
    in if smd_len md = 1 \<and> smd_config_id md = 1
       then start_replica (ri_config_id r)
              (s\<lparr>pc_prev_sequences := (pc_prev_sequences s)
                   (smd_config_id md \<mapsto> new_with_sequence [])\<rparr>)
       else let s = s\<lparr>pc_pending_seq_transfers := replicate (unat (ri_config_id r)) ([], [])\<rparr>
       in rbind (case ri_segment r of
             None \<Rightarrow> Inr None
           | Some _ \<Rightarrow>
              (let index = length (takeWhile (\<lambda>x. x \<noteq> ri_from r) (fst (pc_active_peers s)))
               in if index < length (fst (pc_active_peers s))
                  then Inr (Some (length (snd (pc_active_peers s)) + index + 1))
                  else Inl UnwrapNone)) (\<lambda>skip_tag.
          step_then (case pc_policy s of
              Pull \<Rightarrow> pull_sequence (smd_config_id md) (smd_len md) skip_tag s
            | Eager \<Rightarrow>
               (let idx = unat (smd_config_id md - 1);
                    rem_segments = map word_of_nat [1..<num_expected_transfers + 1]
                in if \<not> idx < length (pc_pending_seq_transfers s) then Inl IndexOutOfRange
                   else Inr (s\<lparr>pc_pending_seq_transfers := (pc_pending_seq_transfers s)
                         [idx := (rem_segments, replicate (unat (smd_len md)) (Normal []))],
                       pc_retry_transfer_timers := (pc_retry_transfer_timers s)
                         (smd_config_id md \<mapsto> (smd_len md, word_of_nat num_expected_transfers))\<rparr>, [])))
            (\<lambda>s. case (skip_tag, ri_segment r) of
                (Some tag, Some seg) \<Rightarrow> handle_sequence_transfer env
                   (transfer_with (smd_config_id md) (word_of_nat tag) True md seg) s
              | _ \<Rightarrow> Inr (s, []))))"

definition receive_reconfig_init ::
  "('p, 'x) comp_env \<Rightarrow> ReconfigInit \<Rightarrow> ('p, 'x) PaxosComp \<Rightarrow> ('p, 'x) pc_handled" where
  "receive_reconfig_init env r s =
    (if pc_stopped s
     then rbind (derive_actorpaths env (ri_config_id r)
                   (rc_continued_nodes (ri_nodes r) @ rc_new_nodes (ri_nodes r)) s)
            (\<lambda>(ble_peers, communicator_peers).
            Inr (s, map (\<lambda>p. PcTellStop p (PeerStop (pc_pid s))) ble_peers
                    @ map (\<lambda>(_, p). PcTellStop p (PeerStop (pc_pid s))) communicator_peers))
     else if cm_id (pc_active_config s) \<ge> ri_config_id r then Inr (s, [])
     else case pc_next_config_id s of
        None \<Rightarrow> join_configuration env r s
      | Some next_config_id \<Rightarrow>
          if next_config_id = ri_config_id r \<and> ri_from r \<in> set (rc_continued_nodes (ri_nodes r))
          then Inr (s\<lparr>pc_active_peers :=
                 (fst (pc_active_peers s) @ [ri_from r],
                  filter (\<lambda>x. x = ri_from r) (snd (pc_active_peers s)))\<rparr>, [])
          else Inr (s, []))"

fun receive_reconfiguration ::
  "('p, 'x) comp_env \<Rightarrow> 'p \<Rightarrow> ReconfigurationMsg \<Rightarrow> ('p, 'x) PaxosComp \<Rightarrow> ('p, 'x) pc_handled" where
  "receive_reconfiguration env sender (Init r) s = receive_reconfig_init env r s"
| "receive_reconfiguration env sender (SequenceRequestMsg sr) s =
     (if pc_stopped s then Inr (s, []) else handle_sequence_request sr sender s)"
| "receive_reconfiguration env sender (SequenceTransferMsg st) s =
     (if pc_stopped s then Inr (s, []) else handle_sequence_transfer env st s)"

datatype 'p comp_net =
    NetAbcast "'p NetMessage"
  | NetPartitioning 'p "'p PartitioningActorMsg"
  | NetReconfiguration 'p ReconfigurationMsg
  | NetStopMsg StopMsg
  | NetUndecodable

fun comp_receive_network ::
  "('p, 'x) comp_env \<Rightarrow> 'p comp_net \<Rightarrow> ('p, 'x) PaxosComp \<Rightarrow> ('p, 'x) pc_handled" where
  "comp_receive_network env (NetAbcast m) s = receive_abcast m s"
| "comp_receive_network env (NetPartitioning sender p) s = receive_partitioning env sender p s"
| "comp_receive_network env (NetReconfiguration sender rm) s = receive_reconfiguration env sender rm s"
| "comp_receive_network env (NetStopMsg m) s =
     (case m of ClientStop \<Rightarrow> stop_components s | PeerStop _ \<Rightarrow> Inr (s, []))"
| "comp_receive_network env NetUndecodable s = Inr (s, [])"

end
