(* ===== verification/Sequence_Transfer.thy ===== *)
theory Sequence_Transfer
  imports Paxos_Comp
begin

text \<open>
  The transfer of a configuration's final sequence to the nodes that join the next configuration: which
  segments \<open>pull_sequence\<close> asks for, what \<open>handle_sequence_request\<close> and \<open>create_segment\<close> answer, and
  what \<open>append_transferred_segment\<close> and \<open>handle_sequence_transfer\<close> make of the answers.
\<close>

subsection \<open>Assembling the segments\<close>

lemma write_entries_Inr:
  "offset + length es \<le> length xs \<Longrightarrow>
   write_entries offset es xs = Inr (take offset xs @ es @ drop (offset + length es) xs)"
proof (induction es arbitrary: offset xs)
  case (Cons e es)
  then have "write_entries (Suc offset) es (xs[offset := e])
      = Inr (take (Suc offset) (xs[offset := e]) @ es @ drop (Suc offset + length es) (xs[offset := e]))"
    by (intro Cons.IH) simp
  then show ?case
    using Cons.prems by (simp add: take_Suc_conv_app_nth take_update_cancel drop_update_cancel)
qed simp

text \<open>The sequence as far as the segments \<open>K\<close> (of \<open>n\<close>, each of length \<open>d\<close>) have been received.\<close>

definition assembled :: "nat \<Rightarrow> nat \<Rightarrow> nat set \<Rightarrow> Entry list \<Rightarrow> Entry list" where
  "assembled n d K seq =
     map (\<lambda>j. if j < n * d \<and> j div d \<in> K then seq ! j else Normal []) [0..<length seq]"

lemma assembled_empty: "assembled n d {} seq = replicate (length seq) (Normal [])"
  by (simp add: assembled_def map_replicate_const)

lemma assembled_all:
  assumes "n * d \<le> length seq"
  shows "assembled n d {..<n} seq = take (n * d) seq @ replicate (length seq - n * d) (Normal [])"
proof (rule nth_equalityI)
  fix j
  assume "j < length (assembled n d {..<n} seq)"
  moreover have "j div d < n" if "j < n * d"
    using that by (simp add: less_mult_imp_div_less)
  ultimately show "assembled n d {..<n} seq ! j
      = (take (n * d) seq @ replicate (length seq - n * d) (Normal [])) ! j"
    by (auto simp: assembled_def nth_append)
qed (use assms in \<open>simp add: assembled_def\<close>)

lemma div_block: "k * d \<le> j \<and> j < Suc k * d \<longleftrightarrow> 0 < d \<and> j div d = k" for d j k :: nat
  by (metis Suc_eq_plus1 add.commute div_less_iff_less_mult gr_zeroI leD less_Suc_eq_le less_eq_div_iff_mult_less_eq
      mult_is_0 order.strict_trans2 order_antisym order_refl not_less_zero)

lemma assembled_insert:
  assumes k: "k < n" and le: "n * d \<le> length seq"
  shows "take (k * d) (assembled n d K seq) @ take d (drop (k * d) seq)
      @ drop (k * d + d) (assembled n d K seq) = assembled n d (insert k K) seq"
proof (rule nth_equalityI)
  have "Suc k * d \<le> n * d"
    using k by (intro mult_le_mono1) simp
  with le have kd: "k * d + d \<le> length seq"
    by simp
  then show "length (take (k * d) (assembled n d K seq) @ take d (drop (k * d) seq)
      @ drop (k * d + d) (assembled n d K seq)) = length (assembled n d (insert k K) seq)"
    by (simp add: assembled_def)
  fix j
  assume "j < length (take (k * d) (assembled n d K seq) @ take d (drop (k * d) seq)
      @ drop (k * d + d) (assembled n d K seq))"
  then have j: "j < length seq"
    using kd by (simp add: assembled_def)
  consider "j < k * d" | "k * d \<le> j" "j < Suc k * d" | "Suc k * d \<le> j"
    by linarith
  then show "(take (k * d) (assembled n d K seq) @ take d (drop (k * d) seq)
      @ drop (k * d + d) (assembled n d K seq)) ! j = assembled n d (insert k K) seq ! j"
  proof cases
    case 1
    then have "j div d \<noteq> k"
      using div_block [of k d j] by auto
    then show ?thesis
      using 1 kd j by (simp add: assembled_def nth_append)
  next
    case 2
    then have "j div d = k" "j < n * d"
      using div_block [of k d j] \<open>Suc k * d \<le> n * d\<close> by auto
    moreover have "j - k * d < d"
      using 2 by simp
    ultimately show ?thesis
      using 2 kd j by (simp add: assembled_def nth_append)
  next
    case 3
    then have "\<not> (0 < d \<and> j div d = k)"
      using div_block [of k d j] by auto
    then show ?thesis
      using 3 kd j by (auto simp: assembled_def nth_append)
  qed
qed

subsection \<open>A joining node receives the segments\<close>

definition tags_left :: "nat \<Rightarrow> nat set \<Rightarrow> u32 list" where
  "tags_left n K = map (\<lambda>k. word_of_nat (k + 1)) (filter (\<lambda>k. k \<notin> K) [0..<n])"

lemma tags_left_empty: "tags_left n {} = map word_of_nat [1..<n + 1]"
  by (simp add: tags_left_def map_Suc_upt [symmetric] del: upt_Suc map_Suc_upt)

lemma tags_left_eq_Nil: "tags_left n K = [] \<longleftrightarrow> {..<n} \<subseteq> K"
  by (auto simp: tags_left_def filter_empty_conv)

lemma word_tag_inject:
  "k < n \<Longrightarrow> j < n \<Longrightarrow> n < 2 ^ 32 \<Longrightarrow> (word_of_nat (k + 1) :: u32) = word_of_nat (j + 1) \<longleftrightarrow> k = j"
  using word_of_nat_eq_u32 [of "k + 1" "j + 1"] by simp

lemma tags_left_remove:
  assumes "k < n" "n < 2 ^ 32"
  shows "filter (\<lambda>t. t \<noteq> word_of_nat (k + 1)) (tags_left n K) = tags_left n (insert k K)"
  unfolding tags_left_def filter_map filter_filter o_def
  by (rule arg_cong [where f = "map _"], rule filter_cong)
    (use assms word_tag_inject [of _ n k] in auto)

text \<open>The transfer with the tag of position \<open>k\<close> that carries the \<open>b\<close>-th of \<open>n\<close> segments of \<open>seq\<close>.\<close>

definition segment_offset :: "Entry list \<Rightarrow> nat \<Rightarrow> u64" where
  "segment_offset seq n = word_of_nat (length seq) div word_of_nat n"

definition segment_block :: "Entry list \<Rightarrow> nat \<Rightarrow> nat \<Rightarrow> SequenceSegment" where
  "segment_block seq n b = segment_with (word_of_nat b * segment_offset seq n)
     (word_of_nat b * segment_offset seq n + segment_offset seq n)
     (take (length seq div n) (drop (b * (length seq div n)) seq))"

definition segment_transfer ::
  "u32 \<Rightarrow> SequenceMetaData \<Rightarrow> Entry list \<Rightarrow> nat \<Rightarrow> nat \<Rightarrow> nat \<Rightarrow> SequenceTransfer" where
  "segment_transfer cid md seq n k b =
     transfer_with cid (word_of_nat (k + 1)) True md (segment_block seq n b)"

definition transfer_idx :: "u32 \<Rightarrow> nat" where
  "transfer_idx cid = unat (ucast cid - 1 :: u64)"

lemma segment_transfer_sel [simp]:
  "st_config_id (segment_transfer cid md seq n k b) = cid"
  "st_metadata (segment_transfer cid md seq n k b) = md"
  "st_succeeded (segment_transfer cid md seq n k b)"
  "st_tag (segment_transfer cid md seq n k b) = word_of_nat (k + 1)"
  "st_segment (segment_transfer cid md seq n k b) = segment_block seq n b"
  by (simp_all add: segment_transfer_def with_defs)

lemma segment_offset_mem:
  assumes "length seq < 2 ^ 64" "b < n" "n < 2 ^ 32"
  shows "unat (word_of_nat b * segment_offset seq n) = b * (length seq div n)"
    and "unat (word_of_nat b * segment_offset seq n + segment_offset seq n) = Suc b * (length seq div n)"
    and "get_entries (new_with_sequence seq) (word_of_nat b * segment_offset seq n)
      (word_of_nat b * segment_offset seq n + segment_offset seq n)
      = Inr (take (length seq div n) (drop (b * (length seq div n)) seq))"
  using mem_store.equal_segment [of "new_with_sequence seq" b n "segment_offset seq n"] assms
  by (simp_all add: segment_offset_def get_sequence_len_def new_with_sequence_def get_sequence_def)

lemma segment_in_range: "b < n \<Longrightarrow> b * (L div n) + L div n \<le> (L :: nat)"
proof -
  assume "b < n"
  then have "Suc b * (L div n) \<le> n * (L div n)"
    by (intro mult_le_mono1) simp
  then show ?thesis
    by (metis add.commute mult_Suc order_trans times_div_less_eq_dividend)
qed

text \<open>A node is \<^emph>\<open>receiving\<close> the sequence of configuration \<open>cid\<close>, the last one missing before it can
  start configuration \<open>nc\<close>.\<close>

definition receiving ::
  "u32 \<Rightarrow> SequenceMetaData \<Rightarrow> u32 \<Rightarrow> ('p, 'x) PaxosComp \<Rightarrow> bool" where
  "receiving cid md nc s \<longleftrightarrow> cm_id (pc_active_config s) \<le> cid \<and> cid \<notin> set (pc_complete_sequences s) \<and>
     pc_next_config_id s = Some nc \<and> cid < nc \<and>
     (smd_config_id md = 0 \<or> smd_config_id md = cid \<or> smd_config_id md \<in> set (pc_complete_sequences s)) \<and>
     transfer_idx cid < length (pc_pending_seq_transfers s) \<and>
     length (pc_complete_sequences s) + 2 = unat nc \<and>
     replica_idx nc s < length (pc_paxos_replicas s) \<and> replica_idx nc s < length (pc_ble_comps s) \<and>
     replica_idx nc s < length (pc_communicator_comps s)"

text \<open>The tags of \<open>T\<close> have been received, each with the block \<open>f\<close> assigns to it.\<close>

definition with_segments ::
  "u32 \<Rightarrow> Entry list \<Rightarrow> nat \<Rightarrow> (nat \<Rightarrow> nat) \<Rightarrow> nat set \<Rightarrow> ('p, 'x) PaxosComp \<Rightarrow> ('p, 'x) PaxosComp" where
  "with_segments cid seq n f T s = s\<lparr>pc_pending_seq_transfers := (pc_pending_seq_transfers s)
     [transfer_idx cid := (tags_left n T, assembled n (length seq div n) (f ` T) seq)]\<rparr>"

definition joined :: "u32 \<Rightarrow> u32 \<Rightarrow> Entry list \<Rightarrow> ('p, 'x) PaxosComp \<Rightarrow> ('p, 'x) PaxosComp" where
  "joined cid nc result s = s\<lparr>
     pc_pending_seq_transfers := (pc_pending_seq_transfers s)[transfer_idx cid := ([], [])],
     pc_prev_sequences := (pc_prev_sequences s)(cid \<mapsto> new_with_sequence result),
     pc_retry_transfer_timers := (pc_retry_transfer_timers s)(cid := None),
     pc_complete_sequences := [], pc_active_config := config_meta_new nc, pc_next_config_id := None\<rparr>"

lemma append_segment:
  assumes n: "k < n" "b < n" "n < 2 ^ 32" and L: "length seq < 2 ^ 64"
    and idx: "transfer_idx cid < length (pc_pending_seq_transfers s)"
    and pend: "pc_pending_seq_transfers s ! transfer_idx cid
      = (tags_left n T, assembled n (length seq div n) B seq)"
  shows "append_transferred_segment (segment_transfer cid md seq n k b) s
    = Inr (s\<lparr>pc_pending_seq_transfers := (pc_pending_seq_transfers s)
        [transfer_idx cid := (tags_left n (insert k T), assembled n (length seq div n) (insert b B) seq)]\<rparr>, [])"
proof -
  let ?d = "length seq div n"
  have "b * ?d + length (take ?d (drop (b * ?d) seq)) \<le> length (assembled n ?d B seq)"
    using segment_in_range [OF n(2), of "length seq"] by (simp add: assembled_def)
  then have "write_entries (b * ?d) (take ?d (drop (b * ?d) seq)) (assembled n ?d B seq)
      = Inr (assembled n ?d (insert b B) seq)"
    using assembled_insert [OF n(2), of ?d seq B] segment_in_range [OF n(2), of "length seq"]
    by (simp add: write_entries_Inr)
  then show ?thesis
    using idx pend segment_offset_mem [OF L n(2,3)] tags_left_remove [OF n(1,3), of T]
    by (simp add: append_transferred_segment_def transfer_idx_def [symmetric] rget_def
        segment_block_def segment_with_def)
qed

lemma handle_transfer_receiving:
  assumes "receiving cid md nc s" and "\<not> {..<n} \<subseteq> T"
  shows "handle_sequence_transfer env (segment_transfer cid md seq n k b) (with_segments cid seq n f T s)
    = step_then (append_transferred_segment (segment_transfer cid md seq n k b) (with_segments cid seq n f T s))
        (complete_transfer cid)"
proof -
  have "pull_previous md (with_segments cid seq n f T s) = Inr (with_segments cid seq n f T s, [])"
    using assms
    by (auto simp: pull_previous_def receiving_def with_segments_def Let_def tags_left_eq_Nil
        transfer_idx_def)
  then show ?thesis
    using assms(1)
    by (cases "append_transferred_segment (segment_transfer cid md seq n k b) (with_segments cid seq n f T s)")
      (auto simp: handle_sequence_transfer_def receiving_def with_segments_def not_le
        rbind_def split: sum.splits)
qed

lemma append_with_segments:
  assumes "receiving cid md nc s" "k < n" "f k < n" "n < 2 ^ 32" "length seq < 2 ^ 64"
  shows "append_transferred_segment (segment_transfer cid md seq n k (f k)) (with_segments cid seq n f T s)
      = Inr (with_segments cid seq n f (insert k T) s, [])"
  using append_segment [OF assms(2-5), of cid "with_segments cid seq n f T s" T "f ` T" md] assms(1)
  by (simp add: with_segments_def receiving_def)

lemma pending_with_segments:
  assumes "receiving cid md nc s"
  shows "rget (pc_pending_seq_transfers (with_segments cid seq n f T s)) (transfer_idx cid)
      = Inr (tags_left n T, assembled n (length seq div n) (f ` T) seq)"
  using assms by (simp add: rget_def with_segments_def receiving_def)

lemma handle_transfer_partial:
  assumes r: "receiving cid md nc s" and n: "k < n" "f k < n" "n < 2 ^ 32" and L: "length seq < 2 ^ 64"
    and T: "\<not> {..<n} \<subseteq> insert k T"
  shows "handle_sequence_transfer env (segment_transfer cid md seq n k (f k)) (with_segments cid seq n f T s)
    = Inr (with_segments cid seq n f (insert k T) s, [])"
proof -
  have "\<not> {..<n} \<subseteq> T"
    using T by auto
  then show ?thesis
    using T by (simp add: handle_transfer_receiving [OF r] append_with_segments [where f = f, OF r n L]
      complete_transfer_def transfer_idx_def [symmetric] pending_with_segments [OF r] tags_left_eq_Nil)
qed

lemma handle_transfer_last:
  assumes r: "receiving cid md nc s" and n: "k < n" "f k < n" "n < 2 ^ 32" and L: "length seq < 2 ^ 64"
    and T: "insert k T = {..<n}" "\<not> {..<n} \<subseteq> T"
  shows "handle_sequence_transfer env (segment_transfer cid md seq n k (f k)) (with_segments cid seq n f T s)
    = Inr (joined cid nc (assembled n (length seq div n) (f ` {..<n}) seq) s, [PcStart (replica_idx nc s)])"
proof -
  have "rget (pc_pending_seq_transfers (with_segments cid seq n f {..<n} s)) (transfer_idx cid)
      = Inr ([], assembled n (length seq div n) (f ` {..<n}) seq)"
    using pending_with_segments [OF r] tags_left_eq_Nil by simp
  then have "complete_transfer cid (with_segments cid seq n f {..<n} s)
      = Inr (joined cid nc (assembled n (length seq div n) (f ` {..<n}) seq) s, [PcStart (replica_idx nc s)])"
    using r
    by (simp add: complete_transfer_def transfer_idx_def [symmetric] receiving_def with_segments_def
        start_replica_def replica_idx_def rget_def joined_def)
  then show ?thesis
    by (simp add: handle_transfer_receiving [OF r T(2)] append_with_segments [where f = f, OF r n L] T(1))
qed

lemma handle_transfer_late:
  assumes "receiving cid md nc s"
  shows "handle_sequence_transfer env (segment_transfer cid md seq n k b) (joined cid nc result s)
    = Inr (joined cid nc result s, [])"
  using assms
  by (simp add: handle_sequence_transfer_def joined_def receiving_def config_meta_new_def)

lemma handle_transfers:
  assumes r: "receiving cid md nc s" and n: "n < 2 ^ 32" and L: "length seq < 2 ^ 64"
    and f: "\<forall>k<n. f k < n" and ks: "set ks \<subseteq> {..<n}" and T: "T \<subseteq> {..<n}" "T \<noteq> {..<n}"
  shows "for_each (handle_sequence_transfer env) (map (\<lambda>k. segment_transfer cid md seq n k (f k)) ks)
      (with_segments cid seq n f T s)
    = (if set ks \<union> T = {..<n}
       then Inr (joined cid nc (assembled n (length seq div n) (f ` {..<n}) seq) s, [PcStart (replica_idx nc s)])
       else Inr (with_segments cid seq n f (set ks \<union> T) s, []))"
  using ks T
proof (induction ks arbitrary: T)
  case (Cons k ks)
  let ?res = "assembled n (length seq div n) (f ` {..<n}) seq"
  have late: "for_each (handle_sequence_transfer env) (map (\<lambda>k. segment_transfer cid md seq n k (f k)) js)
      (joined cid nc ?res s) = Inr (joined cid nc ?res s, [])" for js
    by (induction js) (simp_all add: handle_transfer_late [OF r])
  have k: "k < n" "f k < n"
    using Cons.prems f by auto
  show ?case
  proof (cases "insert k T = {..<n}")
    case True
    moreover have "insert k (set ks \<union> T) = {..<n}"
      using True Cons.prems(1) by auto
    moreover have "\<not> {..<n} \<subseteq> T"
      using Cons.prems by auto
    ultimately show ?thesis
      using handle_transfer_last [where f = f, OF r k n L True] late by simp
  next
    case False
    then have "\<not> {..<n} \<subseteq> insert k T" and ins: "insert k T \<subseteq> {..<n}"
      using Cons.prems by auto
    from handle_transfer_partial [where f = f, OF r k n L this(1)] show ?thesis
      using Cons.IH [OF _ ins False] Cons.prems(1) by simp
  qed
qed auto

subsection \<open>Requests and answers\<close>

definition segment_request :: "u32 \<Rightarrow> u64 \<Rightarrow> Entry list \<Rightarrow> nat \<Rightarrow> nat \<Rightarrow> SequenceRequest" where
  "segment_request cid pid seq n k = request_with cid (word_of_nat (k + 1))
     (word_of_nat k * segment_offset seq n) (word_of_nat k * segment_offset seq n + segment_offset seq n) pid"

definition reachable_peers :: "('p, 'x) PaxosComp \<Rightarrow> bool" where
  "reachable_peers s = list_all (\<lambda>p. unat (p - 1) < length (pc_nodes s))
     (snd (pc_active_peers s) @ fst (pc_active_peers s))"

definition peer_path :: "u64 \<Rightarrow> ('p, 'x) PaxosComp \<Rightarrow> 'p" where
  "peer_path p s = pc_nodes s ! unat (p - 1)"

lemma no_clip:
  assumes "length seq < 2 ^ 64" "k < n" "n < 2 ^ 32"
  shows "\<not> word_of_nat k * segment_offset seq n + segment_offset seq n > word_of_nat (length seq)"
  using segment_offset_mem(2) [OF assms] segment_in_range [OF assms(2), of "length seq"] assms(1)
  by (simp add: word_less_nat_alt)

lemma pull_segments:
  assumes "length seq < 2 ^ 64" "n < 2 ^ 32" "j + length ps \<le> n"
    and "list_all (\<lambda>p. unat (p - 1) < length (pc_nodes s)) ps"
  shows "for_each (pull_segment cid (word_of_nat (length seq)) (segment_offset seq n) skip) (enumerate j ps) s
    = Inr (s, map (\<lambda>(k, p). PcTell (peer_path p s) (SequenceRequestMsg (segment_request cid (pc_pid s) seq n k)))
         (filter (\<lambda>(k, p). k + 1 \<noteq> skip) (enumerate j ps)))"
  using assms(3,4)
proof (induction ps arbitrary: j)
  case (Cons p ps)
  then have "pull_segment cid (word_of_nat (length seq)) (segment_offset seq n) skip (j, p) s
    = Inr (s, if j + 1 \<noteq> skip
       then [PcTell (peer_path p s) (SequenceRequestMsg (segment_request cid (pc_pid s) seq n j))] else [])"
    using no_clip [of seq j n] assms
    by (simp add: pull_segment_def request_sequence_def node_path_def rget_def peer_path_def
        segment_request_def Let_def)
  then show ?case
    using Cons by simp
qed simp

lemma pull_sequence_eq:
  assumes L: "length seq < 2 ^ 64" and n: "n < 2 ^ 32" "0 < n"
    and peers: "n = length (snd (pc_active_peers s) @ fst (pc_active_peers s))" "reachable_peers s"
    and idx: "transfer_idx cid < length (pc_pending_seq_transfers s)"
  shows "pull_sequence cid (word_of_nat (length seq)) skip_tag s
    = Inr ((with_segments cid seq n f {} s)\<lparr>pc_retry_transfer_timers := (pc_retry_transfer_timers s)
            (cid \<mapsto> (word_of_nat (length seq), word_of_nat n))\<rparr>,
        map (\<lambda>(k, p). PcTell (peer_path p s) (SequenceRequestMsg (segment_request cid (pc_pid s) seq n k)))
         (filter (\<lambda>(k, p). Some (k + 1) \<noteq> skip_tag)
           (enumerate 0 (snd (pc_active_peers s) @ fst (pc_active_peers s)))))"
proof -
  obtain ready unready where ru: "pc_active_peers s = (ready, unready)"
    by fastforce
  define skip where "skip = (case skip_tag of None \<Rightarrow> 0 | Some t \<Rightarrow> t)"
  have skip: "Suc k = skip \<longleftrightarrow> Some (Suc k) = skip_tag" for k
    by (auto simp: skip_def split: option.split)
  let ?s = "s\<lparr>pc_pending_seq_transfers := (pc_pending_seq_transfers s)
     [transfer_idx cid := (map word_of_nat [1..<n + 1], replicate (length seq) (Normal []))]\<rparr>"
  have 1: "for_each (pull_segment cid (word_of_nat (length seq)) (segment_offset seq n) skip) (enumerate 0 unready) ?s
    = Inr (?s, map (\<lambda>(k, p). PcTell (peer_path p s) (SequenceRequestMsg (segment_request cid (pc_pid s) seq n k)))
         (filter (\<lambda>(k, p). Some (k + 1) \<noteq> skip_tag) (enumerate 0 unready)))"
    using pull_segments [OF L n(1), of 0 unready ?s] peers(1,2) ru
    by (simp add: reachable_peers_def peer_path_def skip del: upt_Suc)
  have 2: "for_each (pull_segment cid (word_of_nat (length seq)) (segment_offset seq n) skip)
      (enumerate (length unready) ready) ?s
    = Inr (?s, map (\<lambda>(k, p). PcTell (peer_path p s) (SequenceRequestMsg (segment_request cid (pc_pid s) seq n k)))
         (filter (\<lambda>(k, p). Some (k + 1) \<noteq> skip_tag) (enumerate (length unready) ready)))"
    using pull_segments [OF L n(1), of "length unready" ready ?s] peers(1,2) ru
    by (simp add: reachable_peers_def peer_path_def skip del: upt_Suc)
  have "length ready + length unready = n"
    using peers ru by simp
  then show ?thesis
    using 1 2 idx n ru L
    by (auto simp: pull_sequence_def Let_def transfer_idx_def [symmetric] segment_offset_def [symmetric]
        skip_def [symmetric] with_segments_def tags_left_empty assembled_empty enumerate_append_eq
        del: upt_Suc)
qed

lemma answer_request:
  assumes "length seq < 2 ^ 64" "k < n" "n < 2 ^ 32"
    and "pc_prev_sequences v cid = Some (new_with_sequence seq)" "cm_leader (pc_active_config v) \<noteq> pid"
  shows "handle_sequence_request (segment_request cid pid seq n k) requestor v
    = Inr (v, [PcTell requestor (SequenceTransferMsg
        (segment_transfer cid (get_sequence_metadata (cid - 1) v) seq n k k))])"
  using assms segment_offset_mem(3) [OF assms(1-3)]
  by (simp add: handle_sequence_request_def segment_request_def segment_transfer_def segment_block_def
      with_defs)


lemma create_segment_block:
  assumes "pc_prev_sequences s cid = Some (new_with_sequence seq)" "length seq < 2 ^ 64"
    and "length continued < 2 ^ 32" "distinct continued" "i < length continued" "continued ! i = pc_pid s"
  shows "create_segment continued cid s = Inr (segment_block seq (length continued) i)"
proof -
  have "takeWhile (\<lambda>pid. pid \<noteq> pc_pid s) continued = take i continued"
    using assms(4-6) by (intro takeWhile_eq_take_P_nth) (auto, metis less_trans nat_neq_iff nth_eq_iff_index_eq)
  then have "get_continued_idx continued s = Inr i"
    using assms(5) by (simp add: get_continued_idx_def)
  then show ?thesis
    using assms segment_offset_mem(3) [OF assms(2,5,3)]
    by (simp add: create_segment_def segment_block_def get_sequence_len_def segment_offset_def
        new_with_sequence_def Let_def)
qed

lemma assembled_complete_iff:
  assumes n: "0 < n" and seq: "seq \<noteq> []" "is_stopsign (last seq)"
  shows "assembled n (length seq div n) B seq = seq \<longleftrightarrow>
    n dvd length seq \<and> n - 1 \<in> B \<and> assembled n (length seq div n) B seq = seq"
proof (intro iffI conjI)
  let ?d = "length seq div n" and ?l = "length seq - 1"
  assume eq: "assembled n ?d B seq = seq"
  have l: "?l < length seq"
    using seq by simp
  have "seq ! ?l \<noteq> Normal []"
    using seq by (auto simp: last_conv_nth)
  moreover have "assembled n ?d B seq ! ?l = (if ?l < n * ?d \<and> ?l div ?d \<in> B then seq ! ?l else Normal [])"
    using l by (simp add: assembled_def)
  ultimately have b: "?l < n * ?d" "?l div ?d \<in> B"
    using eq by (metis)+
  then have "length seq \<le> n * ?d"
    by simp
  moreover have "n * ?d \<le> length seq"
    by simp
  ultimately have L: "length seq = n * ?d"
    by (rule order_antisym)
  then show "n dvd length seq"
    by (metis dvd_triv_left)
  have d: "0 < ?d"
    using b(1) by (cases "?d = 0") auto
  have "?l div ?d = n - 1"
  proof -
    have "(n - 1) * ?d + ?d = length seq"
      using L n by (cases n) simp_all
    then have "(n - 1) * ?d \<le> ?l \<and> ?l < Suc (n - 1) * ?d"
      using d l by simp
    then show ?thesis
      using div_block [of "n - 1" ?d ?l] by blast
  qed
  with b(2) show "n - 1 \<in> B"
    by simp
qed auto

lemma assembled_full:
  assumes "n dvd length seq"
  shows "assembled n (length seq div n) {..<n} seq = seq"
  using assms by (simp add: assembled_all)

lemma set_initial_ok:
  assumes "replica_idx cid s < length (pc_paxos_replicas s)" "replica_idx cid s < length (pc_ble_comps s)"
  shows "\<exists>reps bles. set_initial_replica_state_after_reconfig env cid skip s
      = Inr (s\<lparr>pc_paxos_replicas := reps, pc_ble_comps := bles\<rparr>, []) \<and>
    length reps = length (pc_paxos_replicas s) \<and> length bles = length (pc_ble_comps s)"
proof (cases skip)
  case None
  then show ?thesis
    using assms
    by (intro exI [of _ "(pc_paxos_replicas s)[replica_idx cid s := _]"] exI [of _ "pc_ble_comps s"])
      (simp add: set_initial_replica_state_after_reconfig_def rget_def Let_def)
next
  case (Some l)
  then show ?thesis
    using assms
    by (intro exI [of _ "(pc_paxos_replicas s)[replica_idx cid s := _]"]
        exI [of _ "(pc_ble_comps s)[replica_idx cid s := _]"])
      (simp add: set_initial_replica_state_after_reconfig_def rget_def Let_def)
qed


lemma receiving_timers [simp]:
  "receiving cid md nc (s\<lparr>pc_retry_transfer_timers := t\<rparr>) = receiving cid md nc s"
  "replica_idx nc (s\<lparr>pc_retry_transfer_timers := t\<rparr>) = replica_idx nc s"
  by (simp_all add: receiving_def replica_idx_def)

lemma with_segments_timers:
  "(with_segments cid seq n f T s)\<lparr>pc_retry_transfer_timers := t\<rparr>
    = with_segments cid seq n f T (s\<lparr>pc_retry_transfer_timers := t\<rparr>)"
  by (simp add: with_segments_def)

lemma joined_sel [simp]:
  "pc_prev_sequences (joined cid nc res s) cid = Some (new_with_sequence res)"
  "cm_id (pc_active_config (joined cid nc res s)) = nc"
  by (simp_all add: joined_def config_meta_new_def)

lemma new_with_sequence_inject [simp]: "new_with_sequence a = new_with_sequence b \<longleftrightarrow> a = b"
  by (simp add: new_with_sequence_def)

lemma pull_and_receive:
  assumes L: "length seq < 2 ^ 64" and n: "n < 2 ^ 32" "0 < n"
    and peers: "n = length (snd (pc_active_peers s) @ fst (pc_active_peers s))" "reachable_peers s"
    and r: "receiving cid md nc s" and ks: "set ks = {..<n}"
  shows "\<exists>s1 out. pull_sequence cid (word_of_nat (length seq)) None s = Inr (s1, out) \<and>
    out = map (\<lambda>(k, p). PcTell (peer_path p s) (SequenceRequestMsg (segment_request cid (pc_pid s) seq n k)))
            (enumerate 0 (snd (pc_active_peers s) @ fst (pc_active_peers s))) \<and>
    for_each (handle_sequence_transfer env) (map (\<lambda>k. segment_transfer cid md seq n k k) ks) s1
      = Inr (joined cid nc (assembled n (length seq div n) {..<n} seq) (s\<lparr>pc_retry_transfer_timers
            := (pc_retry_transfer_timers s)(cid \<mapsto> (word_of_nat (length seq), word_of_nat n))\<rparr>),
          [PcStart (replica_idx nc s)])"
proof -
  let ?s = "s\<lparr>pc_retry_transfer_timers
            := (pc_retry_transfer_timers s)(cid \<mapsto> (word_of_nat (length seq), word_of_nat n))\<rparr>"
  have idx: "transfer_idx cid < length (pc_pending_seq_transfers s)"
    using r by (simp add: receiving_def)
  have r': "receiving cid md nc ?s"
    using r by simp
  show ?thesis
    using pull_sequence_eq [where f = id, OF L n peers idx, of None]
      handle_transfers [where f = id and T = "{}" and ks = ks and env = env, OF r' n(1) L] ks n(2)
    by (auto simp: with_segments_timers)
qed

subsection \<open>Joining with the leader's segment\<close>

lemma filter_eq_single:
  assumes "distinct xs" "i < length xs"
  shows "filter (\<lambda>x. x = xs ! i) xs = [xs ! i]"
proof -
  let ?ys = "filter (\<lambda>x. x = xs ! i) xs"
  have set: "set ?ys = {xs ! i}"
    using assms by auto
  moreover have "distinct ?ys"
    using assms by simp
  ultimately have "length ?ys = 1"
    by (metis card.empty card_insert_disjoint distinct_card empty_iff finite.emptyI One_nat_def)
  then show ?thesis
    using set by (cases ?ys) auto
qed

lemma metadata_with_sel [simp]:
  "smd_config_id (metadata_with c l) = c" "smd_len (metadata_with c l) = l"
  by (simp_all add: metadata_with_def)

lemma transfer_idx_1: "transfer_idx 1 = 0"
  by (simp add: transfer_idx_def)

text \<open>The state of a node that has handled a \<open>ReconfigInit\<close> for configuration 2 up to the pull.\<close>

definition fresh_joiner :: "('p, 'x) PaxosComp \<Rightarrow> bool" where
  "fresh_joiner s \<longleftrightarrow> pc_active_peers s = ([], []) \<and> pc_policy s = Pull \<and> pc_complete_sequences s = [] \<and>
     cm_id (pc_active_config s) = 0 \<and> replica_idx 2 s < length (pc_paxos_replicas s) \<and>
     replica_idx 2 s < length (pc_ble_comps s) \<and> replica_idx 2 s < length (pc_communicator_comps s)"

lemma join_with_leader_segment:
  assumes s: "fresh_joiner s" and L: "length seq < 2 ^ 64" and n: "1 < n" "n < 2 ^ 32"
    and r: "ri_config_id r = 2" "ri_seq_metadata r = metadata_with 1 (word_of_nat (length seq))"
      "rc_continued_nodes (ri_nodes r) = continued" "ri_from r = continued ! i"
      "ri_segment r = Some (segment_block seq n i)"
    and c: "length continued = n" "distinct continued" "i < n"
      "\<forall>p\<in>set continued. unat (p - 1) < length (pc_nodes s)"
    and len: "length seq \<noteq> 1"
  shows "\<exists>s0 out. join_configuration env r s = Inr (with_segments 1 seq n (\<lambda>k. if k = n - 1 then i else k) {n - 1} s0, out) \<and>
    receiving 1 \<lparr>smd_config_id = 0, smd_len = 0\<rparr> 2 s0 \<and> replica_idx 2 s0 = replica_idx 2 s"
proof -
  let ?f = "\<lambda>k. if k = n - 1 then i else k"
  let ?md = "metadata_with 1 (word_of_nat (length seq))"
  let ?s = "s\<lparr>pc_next_config_id := Some 2\<rparr>"
  obtain reps bles where init: "set_initial_replica_state_after_reconfig env 2 (ri_skip_prepare_use_leader r) ?s
      = Inr (?s\<lparr>pc_paxos_replicas := reps, pc_ble_comps := bles\<rparr>, [])"
    and lens: "length reps = length (pc_paxos_replicas s)" "length bles = length (pc_ble_comps s)"
    using set_initial_ok [of 2 ?s env "ri_skip_prepare_use_leader r"] s
    by (auto simp: fresh_joiner_def replica_idx_def)
  let ?un = "filter (\<lambda>pid. pid \<noteq> continued ! i) continued"
  have ready: "filter (\<lambda>pid. pid = continued ! i) continued = [continued ! i]"
    using filter_eq_single [of continued i] c by simp
  have un: "length ?un = n - 1"
    using sum_length_filter_compl [of "\<lambda>pid. pid = continued ! i" continued] ready c(1) by simp
  let ?s1 = "?s\<lparr>pc_paxos_replicas := reps, pc_ble_comps := bles,
      pc_active_peers := ([continued ! i], ?un), pc_pending_seq_transfers := replicate 2 ([], [])\<rparr>"
  let ?s2 = "?s1\<lparr>pc_retry_transfer_timers := (pc_retry_transfer_timers s)
      (1 \<mapsto> (word_of_nat (length seq), word_of_nat n))\<rparr>"
  have rec: "receiving 1 md 2 ?s2" if "smd_config_id md = 0 \<or> smd_config_id md = 1" for md
    using s that lens by (auto simp: receiving_def fresh_joiner_def transfer_idx_1 replica_idx_def)
  have peers: "n = length (snd (pc_active_peers ?s1) @ fst (pc_active_peers ?s1))" "reachable_peers ?s1"
    using un n c(3,4) c(1) by (auto simp: reachable_peers_def list_all_iff)
  obtain out where pull: "pull_sequence 1 (word_of_nat (length seq)) (Some n) ?s1
      = Inr (with_segments 1 seq n ?f {} ?s2, out)"
    using pull_sequence_eq [where f = ?f, OF L n(2) _ peers, of 1 "Some n"] n
    by (auto simp: transfer_idx_1 with_segments_timers)
  have st: "transfer_with 1 (word_of_nat n) True ?md (segment_block seq n i)
      = segment_transfer 1 ?md seq n (n - 1) i"
    using n by (simp add: segment_transfer_def)
  have "0 \<in> {..<n}" "0 \<noteq> n - 1"
    using n by auto
  then have sub: "\<not> {..<n} \<subseteq> {n - 1}"
    by blast
  have hd: "handle_sequence_transfer env (segment_transfer 1 ?md seq n (n - 1) i) (with_segments 1 seq n ?f {} ?s2)
      = Inr (with_segments 1 seq n ?f {n - 1} ?s2, [])"
    using handle_transfer_partial [where f = ?f and k = "n - 1" and T = "{}" and env = env,
        OF rec _ _ n(2) L, of ?md] n c(3) sub
    by auto
  have L1: "\<not> word_of_nat (length seq) = (1 :: u64)"
    using len L by (metis unat_1 unat_of_nat_u64)
  have tw: "takeWhile (\<lambda>x. x \<noteq> continued ! i) [continued ! i] = []"
    by simp
  have "join_configuration env r s = Inr (with_segments 1 seq n ?f {n - 1} ?s2, out)"
    using s init pull hd L1 un n ready st
    by (simp add: join_configuration_def r Let_def fresh_joiner_def)
  then show ?thesis
    using rec [of "\<lparr>smd_config_id = 0, smd_len = 0\<rparr>"] by (auto simp: replica_idx_def)
qed

subsection \<open>A concrete joining node\<close>

definition example_env :: "(nat, unit) comp_env" where
  "example_env = \<lparr>ce_api = example_api, ce_named = (\<lambda>p _. Some p), ce_path = gfail Underflow,
     ce_gen_range = (\<lambda>_. 0), ce_max_inflight = 10, ce_election_timeout = 100,
     ce_initial_election_factor = 1, ce_ble_delta = 10\<rparr>"

text \<open>Process 3 joins configuration 2 of the processes 1, 2 and 3.\<close>

definition example_joiner :: "(nat, unit) PaxosComp" where
  "example_joiner = (paxos_comp_with ([1, 2], [1, 2, 3]) Pull)\<lparr>pc_pid := 3, pc_nodes := [11, 12, 13],
     pc_paxos_replicas := [replica_with example_api [1, 2] 2 3 None 10],
     pc_ble_comps := [ble_with [11, 12] 3 100 10 False None 1],
     pc_communicator_comps := [communicator_with Map.empty 9], pc_first_config_id := 2\<rparr>"

definition example_receiver :: "(nat, unit) PaxosComp" where
  "example_receiver = example_joiner\<lparr>pc_next_config_id := Some 2,
     pc_pending_seq_transfers := replicate 2 ([], []), pc_active_peers := ([1], [2])\<rparr>"

definition example_server :: "Entry list \<Rightarrow> (nat, unit) PaxosComp" where
  "example_server seq = (paxos_comp_with ([1, 2], [1, 2, 3]) Pull)\<lparr>pc_pid := 1,
     pc_prev_sequences := [1 \<mapsto> new_with_sequence seq],
     pc_active_config := \<lparr>cm_id = 2, cm_leader = 1, cm_pending_reconfig = False\<rparr>\<rparr>"

lemma example_server_sel:
  "pc_pid (example_server seq) = 1"
  "pc_prev_sequences (example_server seq) 1 = Some (new_with_sequence seq)"
  by (simp_all add: example_server_def)

abbreviation example_stopsign :: Entry where
  "example_stopsign \<equiv> StopSignEntry \<lparr>ss_config_id = 2, ss_nodes = [1, 2, 3], ss_skip_prepare_use_leader = None\<rparr>"

lemma example_receiving:
  "receiving 1 (metadata_with 0 0) 2 example_receiver" "reachable_peers example_receiver"
  "length (snd (pc_active_peers example_receiver) @ fst (pc_active_peers example_receiver)) = 2"
  by (simp_all add: receiving_def example_receiver_def example_joiner_def paxos_comp_with_def
      config_meta_new_def transfer_idx_1 replica_idx_def reachable_peers_def)

lemma example_fresh: "fresh_joiner example_joiner"
  by (simp add: fresh_joiner_def example_joiner_def paxos_comp_with_def config_meta_new_def replica_idx_def)

subsection \<open>Properties\<close>

text \<open>C1: the transfer of a final sequence by pulling. A joining node that pulls a sequence of length
  \<open>L\<close> from \<open>n\<close> continued nodes sends exactly one request to each; each node that has the final sequence
  answers its request with the block asked for; and once all answers have arrived, in whatever order and however
  often repeated, the joining node starts its replica exactly once and has stored the first
  \<open>n * (L div n)\<close> entries, followed by \<open>L mod n\<close> empty entries.\<close>

theorem sequence_transfer_by_pull:
  assumes "length seq < 2 ^ 64" "n < 2 ^ 32" "0 < n"
    and "n = length (snd (pc_active_peers s) @ fst (pc_active_peers s))" "reachable_peers s"
    and "receiving cid md nc s" "set ks = {..<n}"
    and "\<forall>k<n. pc_prev_sequences (v k) cid = Some (new_with_sequence seq) \<and>
           cm_leader (pc_active_config (v k)) \<noteq> pc_pid s \<and> get_sequence_metadata (cid - 1) (v k) = md"
  shows "\<exists>s1 out s2. pull_sequence cid (word_of_nat (length seq)) None s = Inr (s1, out) \<and>
    out = map (\<lambda>(k, p). PcTell (peer_path p s) (SequenceRequestMsg (segment_request cid (pc_pid s) seq n k)))
            (enumerate 0 (snd (pc_active_peers s) @ fst (pc_active_peers s))) \<and>
    (\<forall>k<n. handle_sequence_request (segment_request cid (pc_pid s) seq n k) me (v k)
        = Inr (v k, [PcTell me (SequenceTransferMsg (segment_transfer cid md seq n k k))])) \<and>
    for_each (handle_sequence_transfer env) (map (\<lambda>k. segment_transfer cid md seq n k k) ks) s1
      = Inr (s2, [PcStart (replica_idx nc s)]) \<and>
    cm_id (pc_active_config s2) = nc \<and>
    pc_prev_sequences s2 cid = Some (new_with_sequence
      (take (n * (length seq div n)) seq @ replicate (length seq mod n) (Normal [])))"
proof -
  have "\<forall>k<n. handle_sequence_request (segment_request cid (pc_pid s) seq n k) me (v k)
        = Inr (v k, [PcTell me (SequenceTransferMsg (segment_transfer cid md seq n k k))])"
  proof (intro allI impI)
    fix k
    assume k: "k < n"
    with assms(8) have a: "pc_prev_sequences (v k) cid = Some (new_with_sequence seq)"
      and b: "cm_leader (pc_active_config (v k)) \<noteq> pc_pid s" and c: "get_sequence_metadata (cid - 1) (v k) = md"
      by blast+
    show "handle_sequence_request (segment_request cid (pc_pid s) seq n k) me (v k)
        = Inr (v k, [PcTell me (SequenceTransferMsg (segment_transfer cid md seq n k k))])"
      using answer_request [OF assms(1) k assms(2) a b, of me] c by simp
  qed
  moreover have "assembled n (length seq div n) {..<n} seq
      = take (n * (length seq div n)) seq @ replicate (length seq mod n) (Normal [])"
    by (simp add: assembled_all minus_mult_div_eq_mod)
  moreover obtain s1 out where
    "pull_sequence cid (word_of_nat (length seq)) None s = Inr (s1, out)"
    "out = map (\<lambda>(k, p). PcTell (peer_path p s) (SequenceRequestMsg (segment_request cid (pc_pid s) seq n k)))
            (enumerate 0 (snd (pc_active_peers s) @ fst (pc_active_peers s)))"
    "for_each (handle_sequence_transfer env) (map (\<lambda>k. segment_transfer cid md seq n k k) ks) s1
      = Inr (joined cid nc (assembled n (length seq div n) {..<n} seq) (s\<lparr>pc_retry_transfer_timers
            := (pc_retry_transfer_timers s)(cid \<mapsto> (word_of_nat (length seq), word_of_nat n))\<rparr>),
          [PcStart (replica_idx nc s)])"
    using pull_and_receive [where env = env, OF assms(1-7)] by blast
  ultimately show ?thesis
    by (intro exI [of _ s1] exI [of _ out] exI conjI) (assumption | simp)+
qed

theorem sequence_transfer_by_pull_witness:
  "\<exists>s1 out s2. pull_sequence 1 (word_of_nat (length [Normal [5], Normal [6], example_stopsign])) None example_receiver
      = Inr (s1, out) \<and> length out = 2 \<and>
    for_each (handle_sequence_transfer example_env) (map (\<lambda>k. segment_transfer 1 (metadata_with 0 0)
        [Normal [5], Normal [6], example_stopsign] 2 k k) [1, 1, 0]) s1
      = Inr (s2, [PcStart (replica_idx 2 example_receiver)]) \<and>
    pc_prev_sequences s2 1 = Some (new_with_sequence [Normal [5], Normal [6], Normal []])"
proof -
  let ?seq = "[Normal [5], Normal [6], example_stopsign]"
  have v: "\<forall>k<2::nat. pc_prev_sequences (example_server ?seq) 1 = Some (new_with_sequence ?seq) \<and>
      cm_leader (pc_active_config (example_server ?seq)) \<noteq> pc_pid example_receiver \<and>
      get_sequence_metadata (1 - 1) (example_server ?seq) = metadata_with 0 0"
    by (simp add: example_server_def example_receiver_def example_joiner_def get_sequence_metadata_def)
  have ks: "set [1, 1, 0] = {..<2::nat}"
    by auto
  have res: "take (2 * (length ?seq div 2)) ?seq @ replicate (length ?seq mod 2) (Normal [])
      = [Normal [5], Normal [6], Normal []]"
  proof -
    have l: "length ?seq = 3"
      by simp
    show ?thesis
      unfolding l by simp
  qed
  from sequence_transfer_by_pull [where env = example_env and me = 13 and v = "\<lambda>_. example_server ?seq",
      OF _ _ _ example_receiving(3) [symmetric] example_receiving(2,1) ks v]
  obtain s1 out s2 where "pull_sequence 1 (word_of_nat (length ?seq)) None example_receiver = Inr (s1, out)"
    and out: "out = map (\<lambda>(k, p). PcTell (peer_path p example_receiver) (SequenceRequestMsg
       (segment_request 1 (pc_pid example_receiver) ?seq 2 k)))
       (enumerate 0 (snd (pc_active_peers example_receiver) @ fst (pc_active_peers example_receiver)))"
    and "for_each (handle_sequence_transfer example_env) (map (\<lambda>k. segment_transfer 1 (metadata_with 0 0)
        ?seq 2 k k) [1, 1, 0]) s1 = Inr (s2, [PcStart (replica_idx 2 example_receiver)])"
    and "pc_prev_sequences s2 1 = Some (new_with_sequence
      (take (2 * (length ?seq div 2)) ?seq @ replicate (length ?seq mod 2) (Normal [])))"
    by force
  moreover have "length out = 2"
    using example_receiving(3) by (simp add: out)
  ultimately show ?thesis
    unfolding res by blast
qed





text \<open>The retry of a timed-out transfer looks up the remaining segments under the configuration id, where
  \<open>pull_sequence\<close> stored them one place below. After a node that joins configuration 2 has pulled the sequence
  of configuration 1 and none of its segments has arrived, the retry requests nothing although all of them are
  missing: it only sets its timer again.\<close>

theorem pull_then_retry_stalls:
  fixes seq :: "Entry list"
  assumes "length seq < 2 ^ 64" "n < 2 ^ 32" "0 < n"
    and "n = length (snd (pc_active_peers s) @ fst (pc_active_peers s))" "reachable_peers s"
    and "pc_pending_seq_transfers s = replicate 2 ([], [])"
  shows "\<exists>s1 out. pull_sequence 1 (word_of_nat (length seq)) None s = Inr (s1, out) \<and>
    fst (pc_pending_seq_transfers s1 ! 0) = map word_of_nat [1..<n + 1] \<and>
    retry_request_sequence 1 (word_of_nat (length seq)) (word_of_nat n) s1 = Inr (s1, [])"
proof -
  obtain s1 out where p: "pull_sequence 1 (word_of_nat (length seq)) None s = Inr (s1, out)"
    and s1: "s1 = (with_segments 1 seq n id {} s)\<lparr>pc_retry_transfer_timers := (pc_retry_transfer_timers s)
            (1 \<mapsto> (word_of_nat (length seq), word_of_nat n))\<rparr>"
    using pull_sequence_eq [where f = id, OF assms(1-5), of 1 None] assms(6)
    by (simp add: transfer_idx_1)
  have "pc_pending_seq_transfers s1 = [(tags_left n {}, replicate (length seq) (Normal [])), ([], [])]"
    by (simp add: s1 with_segments_def assms(6) transfer_idx_1 numeral_2_eq_2 assembled_empty)
  moreover have "unat (word_of_nat n :: u64) = n"
    using assms(2) by simp
  then have "(word_of_nat n :: u64) \<noteq> 0"
    using assms(3) by (metis less_irrefl unat_0)
  ultimately have "retry_request_sequence 1 (word_of_nat (length seq)) (word_of_nat n) s1 = Inr (s1, [])"
    by (simp add: retry_request_sequence_def Let_def s1)
  then show ?thesis
    using p \<open>pc_pending_seq_transfers s1 = _\<close> tags_left_empty by (metis fst_conv nth_Cons_0)
qed

theorem pull_then_retry_stalls_witness:
  "\<exists>s1 out. pull_sequence 1 (word_of_nat (length [Normal [5], example_stopsign])) None example_receiver = Inr (s1, out) \<and>
    fst (pc_pending_seq_transfers s1 ! 0) = [1, 2] \<and>
    retry_request_sequence 1 (word_of_nat (length [Normal [5], example_stopsign])) (word_of_nat 2) s1 = Inr (s1, [])"
  using pull_then_retry_stalls [where seq = "[Normal [5], example_stopsign]",
      OF _ _ _ example_receiving(3) [symmetric] example_receiving(2)]
  by (simp add: example_receiver_def upt_rec)

text \<open>A further \<open>ReconfigInit\<close> for the configuration a node is joining should move its sender from the unready
  to the ready peers. The retained set is inverted: every other unready peer is dropped, and the sender stays
  unready while it also becomes ready.\<close>

theorem later_init_drops_unready_peers:
  assumes "\<not> pc_stopped s" "cm_id (pc_active_config s) < ri_config_id r"
    "pc_next_config_id s = Some (ri_config_id r)" "ri_from r \<in> set (rc_continued_nodes (ri_nodes r))"
  shows "\<exists>s'. receive_reconfig_init env r s = Inr (s', []) \<and>
    fst (pc_active_peers s') = fst (pc_active_peers s) @ [ri_from r] \<and>
    set (snd (pc_active_peers s')) = set (snd (pc_active_peers s)) \<inter> {ri_from r}"
  using assms by (auto simp: receive_reconfig_init_def)

theorem later_init_drops_unready_peers_witness:
  "\<exists>s'. receive_reconfig_init example_env (reconfig_init_with 2 (reconfig_with [1, 2, 4] [3]) (metadata_with 1 9) 2
        None None) (example_receiver\<lparr>pc_active_peers := ([1], [2, 4])\<rparr>) = Inr (s', []) \<and>
    fst (pc_active_peers s') = [1, 2] \<and> set (snd (pc_active_peers s')) = {2}"
  using later_init_drops_unready_peers [of "example_receiver\<lparr>pc_active_peers := ([1], [2, 4])\<rparr>"
      "reconfig_init_with 2 (reconfig_with [1, 2, 4] [3]) (metadata_with 1 9) 2 None None" example_env]
  by (simp add: example_receiver_def example_joiner_def paxos_comp_with_def config_meta_new_def
      reconfig_init_with_def reconfig_with_def)

end
