(* ===== verification/Graphs.thy ===== *)
theory Graphs
  imports Rust_Prelude
begin

text \<open>
  Adjacency matrices, their division into blocks and the Floyd-Warshall algorithm, monolithic and blocked
  (\<open>shared_rust/src/helpers/graphs.rs\<close>). The weights are an arbitrary linearly ordered commutative monoid
  (in the program \<open>f64\<close> with infinity; rounding is not modelled). The loops only index square matrices within
  their bounds; what they do to ragged ones is not modelled.
\<close>

datatype Phase = InitialPhase | NormalPhase nat

fun phase_k :: "Phase \<Rightarrow> nat rust" where
  "phase_k (NormalPhase k) = Inr k"
| "phase_k InitialPhase = Inl PanicCall"

fun incremented :: "Phase \<Rightarrow> Phase" where
  "incremented InitialPhase = NormalPhase 0"
| "incremented (NormalPhase k) = NormalPhase (k + 1)"

fun phase_eq :: "Phase \<Rightarrow> nat \<Rightarrow> bool" where
  "phase_eq InitialPhase other = False"
| "phase_eq (NormalPhase k) other = (k = other)"

type_synonym 'w matrix = "'w list list"

definition graph_with :: "'w matrix \<Rightarrow> 'w matrix rust" where
  "graph_with data = (if data = [] then Inl IndexOutOfRange
     else if length data = length (data ! 0) then Inr data else Inl AssertFailed)"

definition graph_get :: "'w matrix \<Rightarrow> nat \<Rightarrow> nat \<Rightarrow> 'w" where
  "graph_get g i j = g ! i ! j"

definition graph_set :: "'w matrix \<Rightarrow> nat \<Rightarrow> nat \<Rightarrow> 'w \<Rightarrow> 'w matrix" where
  "graph_set g i j v = g[i := (g ! i)[j := v]]"

record 'w Block =
  blk_id :: nat
  blk_num_per_dim :: nat
  blk_row_offset :: nat
  blk_col_offset :: nat
  blk_size :: nat
  blk_graph :: "'w matrix"

definition block_with :: "nat \<Rightarrow> nat \<Rightarrow> nat \<Rightarrow> nat \<Rightarrow> 'w matrix \<Rightarrow> 'w Block" where
  "block_with block_id num_blocks_per_dim row_offset col_offset data =
     \<lparr>blk_id = block_id, blk_num_per_dim = num_blocks_per_dim, blk_row_offset = row_offset,
      blk_col_offset = col_offset, blk_size = length data, blk_graph = data\<rparr>"

definition block_position :: "'w Block \<Rightarrow> nat \<times> nat" where
  "block_position b = (blk_id b div blk_num_per_dim b, blk_id b mod blk_num_per_dim b)"

definition get_block :: "'w matrix \<Rightarrow> nat \<Rightarrow> nat \<Rightarrow> 'w Block" where
  "get_block g block_id block_size =
    (let num_blocks_per_dim = length g div block_size;
         global_start_row = (block_id div num_blocks_per_dim) * block_size;
         global_start_col = (block_id mod num_blocks_per_dim) * block_size;
         block = map (\<lambda>i. map (\<lambda>j. graph_get g (global_start_row + i) (global_start_col + j))
                            [0..<block_size]) [0..<block_size]
     in block_with block_id num_blocks_per_dim global_start_row global_start_col block)"

definition break_into_blocks :: "nat \<Rightarrow> 'w matrix \<Rightarrow> 'w Block list list rust" where
  "break_into_blocks block_size g =
    (if block_size = 0 then Inl PanicCall
     else if length g mod block_size \<noteq> 0 then Inl AssertFailed
     else let num_blocks_per_dim = length g div block_size
          in Inr (map (\<lambda>i. map (\<lambda>j. get_block g (i * num_blocks_per_dim + j) block_size)
                    [0..<num_blocks_per_dim]) [0..<num_blocks_per_dim]))"

definition assemble_from_blocks :: "'w Block list list \<Rightarrow> 'w matrix rust" where
  "assemble_from_blocks blocks =
    (if blocks = [] then Inl IndexOutOfRange
     else if length blocks \<noteq> length (blocks ! 0) then Inl AssertFailed
     else let block_size = blk_size (blocks ! 0 ! 0);
              total_size = length blocks * block_size
          in graph_with (map (\<lambda>i. map (\<lambda>j.
               graph_get (blk_graph (blocks ! (i div block_size) ! (j div block_size)))
                         (i mod block_size) (j mod block_size))
               [0..<total_size]) [0..<total_size]))"

text \<open>The body of the three nested loops, one phase (the two inner loops), and the whole.\<close>

definition fw_relax :: "nat \<Rightarrow> nat \<times> nat \<Rightarrow> 'w::{ordered_comm_monoid_add,linorder} matrix \<Rightarrow> 'w matrix" where
  "fw_relax k = (\<lambda>(i, j) g.
     let new_value = graph_get g i k + graph_get g k j
     in if graph_get g i j > new_value then graph_set g i j new_value else g)"

definition fw_phase :: "nat \<Rightarrow> 'w::{ordered_comm_monoid_add,linorder} matrix \<Rightarrow> 'w matrix" where
  "fw_phase k g = fold (fw_relax k) (List.product [0..<length g] [0..<length g]) g"

definition compute_floyd_warshall :: "'w::{ordered_comm_monoid_add,linorder} matrix \<Rightarrow> 'w matrix" where
  "compute_floyd_warshall g = fold fw_phase [0..<length g] g"

definition element_at :: "(nat \<Rightarrow> 'w Block) \<Rightarrow> nat \<Rightarrow> nat \<Rightarrow> 'w Block \<Rightarrow> 'w" where
  "element_at neighbours row col b =
    (let dest_block_id = (row div blk_size b) * blk_num_per_dim b + col div blk_size b;
         local_row = row mod blk_size b;
         local_col = col mod blk_size b
     in if dest_block_id = blk_id b then graph_get (blk_graph b) local_row local_col
        else graph_get (blk_graph (neighbours dest_block_id)) local_row local_col)"

definition inner_relax ::
  "(nat \<Rightarrow> 'w::{ordered_comm_monoid_add,linorder} Block) \<Rightarrow> nat \<Rightarrow> nat \<times> nat \<Rightarrow> 'w Block \<Rightarrow> 'w Block" where
  "inner_relax neighbours k = (\<lambda>(i, j) b.
     let global_i = blk_row_offset b + i;
         global_j = blk_col_offset b + j;
         new_value = element_at neighbours global_i k b + element_at neighbours k global_j b
     in if graph_get (blk_graph b) i j > new_value
        then b\<lparr>blk_graph := graph_set (blk_graph b) i j new_value\<rparr> else b)"

definition compute_floyd_warshall_inner ::
  "(nat \<Rightarrow> 'w::{ordered_comm_monoid_add,linorder} Block) \<Rightarrow> nat \<Rightarrow> 'w Block \<Rightarrow> 'w Block" where
  "compute_floyd_warshall_inner neighbours k b =
     fold (inner_relax neighbours k)
       (List.product [0..<length (blk_graph b)] [0..<length (blk_graph b)]) b"

text \<open>The blocked algorithm as \<open>graph_block_floyd_warshall\<close> composes it: every block of a phase reads its
  neighbours in the blocks of the phase before.\<close>

definition lookup_block :: "'w Block list list \<Rightarrow> nat \<Rightarrow> 'w Block" where
  "lookup_block old_blocks block_id = old_blocks ! (block_id div length old_blocks) ! (block_id mod length old_blocks)"

definition blocked_phase :: "nat \<Rightarrow> 'w::{ordered_comm_monoid_add,linorder} Block list list \<Rightarrow> 'w Block list list" where
  "blocked_phase k blocks = map (map (compute_floyd_warshall_inner (lookup_block blocks) k)) blocks"

definition blocked_floyd_warshall :: "nat \<Rightarrow> 'w::{ordered_comm_monoid_add,linorder} matrix \<Rightarrow> 'w matrix rust" where
  "blocked_floyd_warshall block_size g =
     rbind (break_into_blocks block_size g)
       (\<lambda>blocks. assemble_from_blocks (fold blocked_phase [0..<length g] blocks))"

subsection \<open>Square matrices\<close>

definition square :: "nat \<Rightarrow> 'w matrix \<Rightarrow> bool" where
  "square n g \<longleftrightarrow> length g = n \<and> (\<forall>i<n. length (g ! i) = n)"

definition tabulate :: "nat \<Rightarrow> (nat \<Rightarrow> nat \<Rightarrow> 'w) \<Rightarrow> 'w matrix" where
  "tabulate n f = map (\<lambda>i. map (f i) [0..<n]) [0..<n]"

lemma square_tabulate [simp]: "square n (tabulate n f)"
  by (simp add: square_def tabulate_def)

lemma length_tabulate [simp]: "length (tabulate n f) = n"
  by (simp add: tabulate_def)

lemma get_tabulate [simp]: "i < n \<Longrightarrow> j < n \<Longrightarrow> graph_get (tabulate n f) i j = f i j"
  by (simp add: tabulate_def graph_get_def)

lemma square_eqI:
  assumes "square n g" "square n h" "\<And>i j. i < n \<Longrightarrow> j < n \<Longrightarrow> graph_get g i j = graph_get h i j"
  shows "g = h"
  using assms by (auto simp: square_def graph_get_def intro!: nth_equalityI)

lemma tabulate_cong: "(\<And>i j. i < n \<Longrightarrow> j < n \<Longrightarrow> f i j = h i j) \<Longrightarrow> tabulate n f = tabulate n h"
  by (rule square_eqI [of n]) auto

lemma tabulate_get: "square n g \<Longrightarrow> tabulate n (graph_get g) = g"
  by (rule square_eqI) auto

lemma square_set: "square n g \<Longrightarrow> square n (graph_set g i j v)"
  by (cases "i < n") (auto simp: square_def graph_set_def nth_list_update)

lemma get_set:
  "square n g \<Longrightarrow> i < n \<Longrightarrow> j < n \<Longrightarrow> a < n \<Longrightarrow> b < n \<Longrightarrow>
   graph_get (graph_set g i j v) a b = (if a = i \<and> b = j then v else graph_get g a b)"
  by (auto simp: square_def graph_set_def graph_get_def nth_list_update)

lemma square_length: "square n g \<Longrightarrow> length g = n"
  by (simp add: square_def)

subsection \<open>A phase updates all entries at once\<close>

definition relaxed :: "(nat \<Rightarrow> nat \<Rightarrow> 'w::{ordered_comm_monoid_add,linorder}) \<Rightarrow> nat \<Rightarrow> nat \<Rightarrow> nat \<Rightarrow> 'w" where
  "relaxed D k i j = min (D i j) (D i k + D k j)"

lemma relaxed_row: "0 \<le> D k k \<Longrightarrow> relaxed D k k j = D k j"
  unfolding relaxed_def by (metis add_increasing min.absorb1 order_refl)

lemma relaxed_col: "0 \<le> D k k \<Longrightarrow> relaxed D k i k = D i k"
  unfolding relaxed_def by (metis add_increasing2 min.absorb1 order_refl)

text \<open>Lowering one entry to \<open>v\<close>: the conditional update of both inner loops.\<close>

definition lower :: "nat \<Rightarrow> nat \<Rightarrow> 'w::linorder \<Rightarrow> 'w matrix \<Rightarrow> 'w matrix" where
  "lower i j v g = (if graph_get g i j > v then graph_set g i j v else g)"

lemma square_lower: "square n g \<Longrightarrow> square n (lower i j v g)"
  by (simp add: lower_def square_set)

lemma get_lower:
  "square n g \<Longrightarrow> i < n \<Longrightarrow> j < n \<Longrightarrow> a < n \<Longrightarrow> b < n \<Longrightarrow>
   graph_get (lower i j v g) a b = (if a = i \<and> b = j then min (graph_get g i j) v else graph_get g a b)"
  by (auto simp: lower_def get_set min_def)

text \<open>The matrix in which the entries \<open>P\<close> have been relaxed over \<open>k\<close>.\<close>

definition partly :: "nat \<Rightarrow> (nat \<Rightarrow> nat \<Rightarrow> 'w::{ordered_comm_monoid_add,linorder}) \<Rightarrow> nat \<Rightarrow> (nat \<times> nat) set \<Rightarrow> nat \<Rightarrow> nat \<Rightarrow> 'w" where
  "partly n D k P a b = (if (a, b) \<in> P then relaxed D k a b else D a b)"

lemma partly_cross: "0 \<le> D k k \<Longrightarrow> partly n D k P i k = D i k \<and> partly n D k P k j = D k j"
  by (simp add: partly_def relaxed_row relaxed_col)

lemma partly_lower: "min (partly n D k P i j) (D i k + D k j) = relaxed D k i j"
  by (simp add: partly_def relaxed_def min.assoc)

lemma fw_relax_partial:
  assumes n: "k < n" "i < n" "j < n" and pos: "0 \<le> D k k"
  shows "fw_relax k (i, j) (tabulate n (partly n D k P)) = tabulate n (partly n D k (insert (i, j) P))"
proof -
  let ?g = "tabulate n (partly n D k P)"
  have "fw_relax k (i, j) ?g = lower i j (D i k + D k j) ?g"
    using n partly_cross [of D k n P i j, OF pos] by (simp add: fw_relax_def lower_def)
  also have "\<dots> = tabulate n (partly n D k (insert (i, j) P))"
  proof (rule square_eqI [of n])
    fix a b
    assume "a < n" "b < n"
    then show "graph_get (lower i j (D i k + D k j) ?g) a b
        = graph_get (tabulate n (partly n D k (insert (i, j) P))) a b"
      using n get_lower [of n ?g i j a b "D i k + D k j"] partly_lower [of n D k P i j]
      by (auto simp: partly_def)
  qed (simp_all add: square_lower)
  finally show ?thesis .
qed

lemma fold_fw_relax:
  assumes "k < n" "0 \<le> D k k" "set ps \<subseteq> {..<n} \<times> {..<n}"
  shows "fold (fw_relax k) ps (tabulate n (partly n D k P)) = tabulate n (partly n D k (set ps \<union> P))"
  using assms(3)
proof (induction ps arbitrary: P)
  case (Cons p ps)
  obtain i j where p: "p = (i, j)" "i < n" "j < n"
    using Cons.prems by auto
  then show ?case
    using Cons.IH [of "insert (i, j) P"] Cons.prems
      fw_relax_partial [where D = D and P = P, OF assms(1) p(2,3) assms(2)] by simp
qed simp

lemma partly_start: "tabulate n (partly n D k {}) = tabulate n D"
  by (rule tabulate_cong) (simp add: partly_def)

lemma partly_end: "tabulate n (partly n D k (set (List.product [0..<n] [0..<n]) \<union> {})) = tabulate n (relaxed D k)"
  by (rule tabulate_cong) (simp add: partly_def)

lemma fw_phase_eq:
  assumes "square n g" "k < n" "0 \<le> graph_get g k k"
  shows "fw_phase k g = tabulate n (relaxed (graph_get g) k)"
proof -
  have "fw_phase k g = fold (fw_relax k) (List.product [0..<n] [0..<n])
      (tabulate n (partly n (graph_get g) k {}))"
    using assms(1) by (simp add: fw_phase_def square_length partly_start tabulate_get)
  also have "\<dots> = tabulate n (partly n (graph_get g) k (set (List.product [0..<n] [0..<n]) \<union> {}))"
    using assms(2,3) by (intro fold_fw_relax) auto
  finally show ?thesis
    by (simp only: partly_end)
qed

subsection \<open>Shortest distances\<close>

text \<open>A walk is the list of nodes it visits; its weight is the sum of its edges.\<close>

fun walk_weight :: "'w::{ordered_comm_monoid_add,linorder} matrix \<Rightarrow> nat list \<Rightarrow> 'w" where
  "walk_weight g (x # y # xs) = graph_get g x y + walk_weight g (y # xs)"
| "walk_weight g _ = 0"

definition walk :: "nat \<Rightarrow> nat \<Rightarrow> nat \<Rightarrow> nat list \<Rightarrow> bool" where
  "walk n i j p \<longleftrightarrow> p \<noteq> [] \<and> hd p = i \<and> last p = j \<and> set p \<subseteq> {..<n}"

lemma walk_weight_join: "walk_weight g (p @ [x] @ q) = walk_weight g (p @ [x]) + walk_weight g (x # q)"
proof (induction p)
  case (Cons a p)
  then show ?case
    by (cases p) (simp_all add: add.assoc)
qed simp

definition nonneg :: "nat \<Rightarrow> 'w::{ordered_comm_monoid_add,linorder} matrix \<Rightarrow> bool" where
  "nonneg n g \<longleftrightarrow> square n g \<and> (\<forall>i<n. \<forall>j<n. 0 \<le> graph_get g i j)"

lemma nonneg_phase:
  assumes "nonneg n g" "k < n"
  shows "nonneg n (fw_phase k g)" and "i < n \<Longrightarrow> j < n \<Longrightarrow> graph_get (fw_phase k g) i j = relaxed (graph_get g) k i j"
proof -
  have eq: "fw_phase k g = tabulate n (relaxed (graph_get g) k)"
    using assms by (intro fw_phase_eq) (auto simp: nonneg_def)
  show "nonneg n (fw_phase k g)"
    using assms by (auto simp: eq nonneg_def relaxed_def)
  show "i < n \<Longrightarrow> j < n \<Longrightarrow> graph_get (fw_phase k g) i j = relaxed (graph_get g) k i j"
    by (simp add: eq)
qed

definition triangle :: "nat \<Rightarrow> nat \<Rightarrow> 'w::{ordered_comm_monoid_add,linorder} matrix \<Rightarrow> bool" where
  "triangle n m g \<longleftrightarrow> (\<forall>i<n. \<forall>j<n. \<forall>x<m. graph_get g i j \<le> graph_get g i x + graph_get g x j)"

lemma relaxed_triangle:
  fixes D :: "nat \<Rightarrow> nat \<Rightarrow> 'w::{ordered_comm_monoid_add,linorder}"
  assumes t: "\<And>a b. a \<in> {i, k} \<Longrightarrow> b \<in> {j, k} \<Longrightarrow> D a b \<le> D a x + D x b" and pos: "0 \<le> D k k"
  shows "relaxed D k i j \<le> relaxed D k i x + relaxed D k x j"
proof -
  have 1: "D i j \<le> D i x + D x j" and ik: "D i k \<le> D i x + D x k" and kj: "D k j \<le> D k x + D x j"
    and kk: "D k k \<le> D k x + D x k"
    using t by auto
  have 2: "D i k + D k j \<le> D i x + (D x k + D k j)"
    using add_right_mono [OF ik, of "D k j"] by (simp add: add.assoc)
  have 3: "D i k + D k j \<le> D i k + D k x + D x j"
    using add_left_mono [OF kj, of "D i k"] by (simp add: add.assoc)
  have "D i k + D k j \<le> D i k + (D k x + D x k) + D k j"
    using add_mono [OF add_increasing2 [OF order_trans [OF pos kk] order_refl [of "D i k"]] order_refl] .
  then have 4: "D i k + D k j \<le> D i k + D k x + (D x k + D k j)"
    by (simp add: add.assoc)
  show ?thesis
    using 1 2 3 4 unfolding relaxed_def
    by (auto simp: min_def intro: order_trans split: if_splits)
qed

lemma triangle_phase:
  assumes g: "nonneg n g" and k: "k < n" and t: "triangle n k g"
  shows "triangle n (Suc k) (fw_phase k g)"
  unfolding triangle_def
proof (intro allI impI)
  fix i j x
  assume ij: "i < n" "j < n" and x: "x < Suc k"
  have pos: "0 \<le> graph_get g k k"
    using g k by (simp add: nonneg_def)
  have "relaxed (graph_get g) k i j \<le> relaxed (graph_get g) k i x + relaxed (graph_get g) k x j"
  proof (cases "x = k")
    case True
    then show ?thesis
      using relaxed_row [of "graph_get g" k j, OF pos] relaxed_col [of "graph_get g" k i, OF pos]
      by (simp add: relaxed_def)
  next
    case False
    then show ?thesis
      using t ij k x pos by (intro relaxed_triangle) (auto simp: triangle_def)
  qed
  then show "graph_get (fw_phase k g) i j \<le> graph_get (fw_phase k g) i x + graph_get (fw_phase k g) x j"
    using nonneg_phase(2) [OF g k] ij x k by simp
qed

lemma fw_run:
  assumes "nonneg n g" "m \<le> n"
  shows "nonneg n (fold fw_phase [0..<m] g)" and "triangle n m (fold fw_phase [0..<m] g)"
proof -
  have "nonneg n (fold fw_phase [0..<m] g) \<and> triangle n m (fold fw_phase [0..<m] g)"
    using assms(2)
  proof (induction m)
    case 0
    then show ?case
      using assms(1) by (simp add: triangle_def)
  next
    case (Suc m)
    then show ?case
      by (simp add: nonneg_phase(1) triangle_phase)
  qed
  then show "nonneg n (fold fw_phase [0..<m] g)" and "triangle n m (fold fw_phase [0..<m] g)"
    by simp_all
qed

lemma fw_run_le:
  assumes "nonneg n g" "m \<le> n" "i < n" "j < n"
  shows "graph_get (fold fw_phase [0..<m] g) i j \<le> graph_get g i j"
  using assms(2)
proof (induction m)
  case (Suc m)
  have "graph_get (fw_phase m (fold fw_phase [0..<m] g)) i j \<le> graph_get (fold fw_phase [0..<m] g) i j"
    using nonneg_phase(2) [OF fw_run(1) [OF assms(1)]] Suc.prems assms(3,4) by (simp add: relaxed_def)
  then show ?case
    using Suc by (auto intro: order_trans)
qed simp

text \<open>Every entry is the weight of a walk of at least one edge.\<close>

definition attained :: "nat \<Rightarrow> 'w::{ordered_comm_monoid_add,linorder} matrix \<Rightarrow> nat \<Rightarrow> nat \<Rightarrow> 'w \<Rightarrow> bool" where
  "attained n g i j w \<longleftrightarrow> (\<exists>p. walk n i j p \<and> walk_weight g p = w)"

lemma attained_edge: "i < n \<Longrightarrow> j < n \<Longrightarrow> attained n g i j (graph_get g i j)"
  unfolding attained_def by (rule exI [of _ "[i, j]"]) (simp add: walk_def)

lemma attained_join:
  assumes "attained n g i x v" "attained n g x j w"
  shows "attained n g i j (v + w)"
proof -
  obtain p q where p: "walk n i x p" "walk_weight g p = v" and q: "walk n x j q" "walk_weight g q = w"
    using assms by (auto simp: attained_def)
  have split: "p = butlast p @ [x]" "q = x # tl q"
    using p(1) q(1) append_butlast_last_id [of p] by (auto simp: walk_def)
  have w: "walk_weight g (butlast p @ [x] @ tl q) = v + w"
    using walk_weight_join [of g "butlast p" x "tl q"] split p(2) q(2) by simp
  have "butlast p @ [x] @ tl q = p @ tl q"
    using split(1) by (metis append_assoc)
  moreover have "last (p @ tl q) = j"
    using p(1) q(1) split(2) by (cases "tl q") (auto simp: walk_def)
  moreover have "walk n i (last (p @ tl q)) (p @ tl q)"
    using p(1) q(1) by (auto simp: walk_def dest: list.set_sel(2))
  ultimately have "walk n i j (butlast p @ [x] @ tl q)"
    by metis
  then show ?thesis
    using w unfolding attained_def by blast
qed

lemma fw_run_attained:
  assumes "nonneg n g" "m \<le> n" "i < n" "j < n"
  shows "attained n g i j (graph_get (fold fw_phase [0..<m] g) i j)"
  using assms(2-4)
proof (induction m arbitrary: i j)
  case 0
  then show ?case
    by (simp add: attained_edge)
next
  case (Suc m)
  let ?h = "fold fw_phase [0..<m] g"
  have "attained n g i j (graph_get ?h i j)" "attained n g i j (graph_get ?h i m + graph_get ?h m j)"
    using Suc by (auto intro!: attained_join [of n g i m _ j])
  then show ?case
    using nonneg_phase(2) [OF fw_run(1) [OF assms(1), of m], of m i j] Suc.prems
    by (simp add: relaxed_def min_def)
qed

lemma walk_weight_mono:
  assumes "\<And>i j. i < n \<Longrightarrow> j < n \<Longrightarrow> graph_get h i j \<le> graph_get g i j" "set p \<subseteq> {..<n}"
  shows "walk_weight h p \<le> walk_weight g p"
  using assms(2)
proof (induction p rule: induct_list012)
  case (3 x y zs)
  then show ?case
    using assms(1) by (auto intro: add_mono)
qed simp_all

lemma triangle_walk:
  assumes "triangle n n h" "\<And>i. i < n \<Longrightarrow> graph_get h i i \<le> 0" "p \<noteq> []" "set p \<subseteq> {..<n}"
  shows "graph_get h (hd p) (last p) \<le> walk_weight h p"
  using assms(3,4)
proof (induction p rule: induct_list012)
  case (3 x y zs)
  have "graph_get h x (last (y # zs)) \<le> graph_get h x y + graph_get h y (last (y # zs))"
    using assms(1) "3.prems" last_in_set [of "y # zs"] by (auto simp: triangle_def simp del: last.simps)
  also have "\<dots> \<le> graph_get h x y + walk_weight h (y # zs)"
    using 3 by (intro add_left_mono) simp
  finally show ?case
    by simp
qed (simp_all add: assms(2))



subsection \<open>Blocks\<close>

definition block_of :: "nat \<Rightarrow> nat \<Rightarrow> (nat \<Rightarrow> nat \<Rightarrow> 'w) \<Rightarrow> nat \<Rightarrow> nat \<Rightarrow> 'w Block" where
  "block_of m s D bi bj = block_with (bi * m + bj) m (bi * s) (bj * s) (tabulate s (\<lambda>a b. D (bi * s + a) (bj * s + b)))"

definition grid :: "nat \<Rightarrow> nat \<Rightarrow> (nat \<Rightarrow> nat \<Rightarrow> 'w) \<Rightarrow> 'w Block list list" where
  "grid m s D = map (\<lambda>i. map (block_of m s D i) [0..<m]) [0..<m]"

lemma length_grid [simp]: "length (grid m s D) = m"
  by (simp add: grid_def)

lemma grid_nth [simp]: "bi < m \<Longrightarrow> bj < m \<Longrightarrow> grid m s D ! bi ! bj = block_of m s D bi bj"
  by (simp add: grid_def)

lemma block_of_sel [simp]:
  "blk_id (block_of m s D bi bj) = bi * m + bj" "blk_num_per_dim (block_of m s D bi bj) = m"
  "blk_row_offset (block_of m s D bi bj) = bi * s" "blk_col_offset (block_of m s D bi bj) = bj * s"
  "blk_size (block_of m s D bi bj) = s"
  "blk_graph (block_of m s D bi bj) = tabulate s (\<lambda>a b. D (bi * s + a) (bj * s + b))"
  by (simp_all add: block_of_def block_with_def)

lemma block_index: "(x::nat) < m * s \<Longrightarrow> x div s < m"
  by (cases "s = 0") (simp_all add: less_mult_imp_div_less)

lemma block_id_eq:
  fixes bi bi' :: nat
  assumes "bj < m" "bj' < m"
  shows "(bi * m + bj = bi' * m + bj') = (bi = bi' \<and> bj = bj')"
proof
  assume eq: "bi * m + bj = bi' * m + bj'"
  have "(bi * m + bj) div m = bi" "(bi' * m + bj') div m = bi'" "(bi * m + bj) mod m = bj" "(bi' * m + bj') mod m = bj'"
    using assms by simp_all
  then show "bi = bi' \<and> bj = bj'"
    using eq by metis
qed simp

lemma get_block_eq:
  assumes "length g = m * s" "0 < s" "bj < m"
  shows "get_block g (bi * m + bj) s = block_of m s (graph_get g) bi bj"
  using assms by (simp add: get_block_def Let_def block_of_def tabulate_def)

lemma break_into_grid:
  assumes "square (m * s) g" "0 < s"
  shows "break_into_blocks s g = Inr (grid m s (graph_get g))"
  using assms get_block_eq [of g m s] square_length [OF assms(1)]
  by (simp add: break_into_blocks_def Let_def grid_def)

lemma graph_with_tabulate: "0 < n \<Longrightarrow> graph_with (tabulate n f) = Inr (tabulate n f)"
  by (cases n) (simp_all add: graph_with_def tabulate_def del: upt_Suc)

lemma assemble_grid:
  assumes "0 < m" "0 < s"
  shows "assemble_from_blocks (grid m s D) = Inr (tabulate (m * s) D)"
proof -
  have "map (\<lambda>i. map (\<lambda>j. graph_get (blk_graph (grid m s D ! (i div s) ! (j div s))) (i mod s) (j mod s))
      [0..<m * s]) [0..<m * s] = tabulate (m * s) D"
    using assms by (auto simp: tabulate_def [of "m * s"] block_index)
  moreover have "grid m s D \<noteq> []" "length (grid m s D ! 0) = m"
    using assms(1) length_grid [of m s D] by (auto simp: grid_def)
  ultimately show ?thesis
    using assms by (simp add: assemble_from_blocks_def graph_with_tabulate)
qed

text \<open>Breaking a graph into blocks whose size divides it and assembling the blocks gives the graph back, and
  each block reports its own position.\<close>

theorem blocks_roundtrip:
  assumes "square (m * s) g" "0 < s" "0 < m"
  shows "\<exists>blocks. break_into_blocks s g = Inr blocks \<and> assemble_from_blocks blocks = Inr g
    \<and> (\<forall>i<m. \<forall>j<m. block_position (blocks ! i ! j) = (i, j))"
  using break_into_grid [OF assms(1,2)] assemble_grid [OF assms(3,2), of "graph_get g"] tabulate_get [OF assms(1)]
  by (simp add: block_position_def)

theorem blocks_roundtrip_witness:
  "\<exists>blocks. break_into_blocks 1 [[0, 7], [1, 0 :: int]] = Inr blocks \<and> assemble_from_blocks blocks = Inr [[0, 7], [1, 0]]
    \<and> (\<forall>i<2. \<forall>j<2. block_position (blocks ! i ! j) = (i, j))"
  by (rule blocks_roundtrip [of 2 1 "[[0, 7], [1, 0 :: int]]"])
    (auto simp: square_def less_Suc_eq numeral_2_eq_2)

lemma element_at_block:
  assumes "row < m * s" "col < m * s" "bi < m" "bj < m" "E row col = D row col"
  shows "element_at (lookup_block (grid m s D)) row col (block_of m s E bi bj) = D row col"
proof -
  have "0 < s"
    using assms(1) by (cases s) simp_all
  have d: "row div s < m" "col div s < m"
    using assms by (simp_all add: block_index)
  then have "lookup_block (grid m s D) (row div s * m + col div s) = block_of m s D (row div s) (col div s)"
    by (simp add: lookup_block_def)
  then show ?thesis
    using d assms \<open>0 < s\<close> by (auto simp: element_at_def Let_def block_id_eq)
qed

lemma inner_relax_partial:
  assumes n: "k < m * s" "bi < m" "bj < m" "a < s" "b < s" and pos: "0 \<le> D k k"
  shows "inner_relax (lookup_block (grid m s D)) k (a, b) (block_of m s (partly n D k P) bi bj)
    = block_of m s (partly n D k (insert (bi * s + a, bj * s + b) P)) bi bj"
proof -
  let ?E = "partly n D k P" and ?i = "bi * s + a" and ?j = "bj * s + b"
  let ?g = "tabulate s (\<lambda>a b. ?E (bi * s + a) (bj * s + b))"
  have ij: "?i < m * s" "?j < m * s"
    using mult_le_mono1 [of "Suc bi" m s] mult_le_mono1 [of "Suc bj" m s] n by simp_all
  have "inner_relax (lookup_block (grid m s D)) k (a, b) (block_of m s ?E bi bj)
      = (block_of m s ?E bi bj)\<lparr>blk_graph := lower a b (D ?i k + D k ?j) ?g\<rparr>"
    using n ij partly_cross [of D k n P, OF pos]
    by (simp add: inner_relax_def Let_def lower_def element_at_block)
  also have "lower a b (D ?i k + D k ?j) ?g
      = tabulate s (\<lambda>x y. partly n D k (insert (?i, ?j) P) (bi * s + x) (bj * s + y))"
  proof (rule square_eqI [of s])
    fix x y
    assume "x < s" "y < s"
    then show "graph_get (lower a b (D ?i k + D k ?j) ?g) x y = graph_get (tabulate s
        (\<lambda>x y. partly n D k (insert (?i, ?j) P) (bi * s + x) (bj * s + y))) x y"
      using n get_lower [of s ?g a b x y "D ?i k + D k ?j"] partly_lower [of n D k P ?i ?j]
      by (auto simp: partly_def)
  qed (simp_all add: square_lower)
  finally show ?thesis
    by (simp add: block_of_def block_with_def)
qed

lemma fold_inner_relax:
  assumes "k < m * s" "bi < m" "bj < m" "0 \<le> D k k" "set ps \<subseteq> {..<s} \<times> {..<s}"
  shows "fold (inner_relax (lookup_block (grid m s D)) k) ps (block_of m s (partly n D k P) bi bj)
    = block_of m s (partly n D k ((\<lambda>(a, b). (bi * s + a, bj * s + b)) ` set ps \<union> P)) bi bj"
  using assms(5)
proof (induction ps arbitrary: P)
  case (Cons p ps)
  then show ?case
    using inner_relax_partial [where D = D and P = P and n = n, OF assms(1-3) _ _ assms(4)] by auto
qed simp

lemma block_of_cong:
  "(\<And>a b. a < s \<Longrightarrow> b < s \<Longrightarrow> D (bi * s + a) (bj * s + b) = E (bi * s + a) (bj * s + b)) \<Longrightarrow>
   block_of m s D bi bj = block_of m s E bi bj"
  unfolding block_of_def by (rule arg_cong [where f = "block_with _ _ _ _"], rule tabulate_cong) auto

lemma inner_phase:
  assumes "k < m * s" "bi < m" "bj < m" "0 \<le> D k k"
  shows "compute_floyd_warshall_inner (lookup_block (grid m s D)) k (block_of m s D bi bj)
    = block_of m s (relaxed D k) bi bj"
proof -
  let ?ps = "List.product [0..<s] [0..<s]"
  have "compute_floyd_warshall_inner (lookup_block (grid m s D)) k (block_of m s D bi bj)
      = fold (inner_relax (lookup_block (grid m s D)) k) ?ps (block_of m s (partly 0 D k {}) bi bj)"
    by (simp add: compute_floyd_warshall_inner_def block_of_cong [where E = D and D = "partly 0 D k {}"] partly_def)
  also have "\<dots> = block_of m s (partly 0 D k ((\<lambda>(a, b). (bi * s + a, bj * s + b)) ` set ?ps \<union> {})) bi bj"
    using assms by (intro fold_inner_relax) auto
  also have "\<dots> = block_of m s (relaxed D k) bi bj"
    by (rule block_of_cong) (force simp: partly_def)
  finally show ?thesis .
qed

lemma grid_cong:
  assumes "\<And>i j. i < m * s \<Longrightarrow> j < m * s \<Longrightarrow> D i j = E i j"
  shows "grid m s D = grid m s E"
proof -
  have "bi * s + a < m * s" if "bi < m" "a < s" for bi a
    using mult_le_mono1 [of "Suc bi" m s] that by simp
  then have "block_of m s D bi bj = block_of m s E bi bj" if "bi < m" "bj < m" for bi bj
    using assms that by (intro block_of_cong) blast
  then show ?thesis
    by (simp add: grid_def)
qed

text \<open>A phase on the blocks is the phase on the whole matrix.\<close>

lemma blocked_phase_grid:
  assumes "nonneg (m * s) g" "k < m * s"
  shows "blocked_phase k (grid m s (graph_get g)) = grid m s (graph_get (fw_phase k g))"
proof -
  have inner: "compute_floyd_warshall_inner (lookup_block (grid m s (graph_get g))) k (block_of m s (graph_get g) bi bj)
      = block_of m s (relaxed (graph_get g) k) bi bj" if "bi < m" "bj < m" for bi bj
    using assms by (intro inner_phase that) (simp_all add: nonneg_def)
  have row: "length (grid m s D ! bi) = m" if "bi < m" for bi and D :: "nat \<Rightarrow> nat \<Rightarrow> 'a"
    using that by (simp add: grid_def)
  have "blocked_phase k (grid m s (graph_get g)) = grid m s (relaxed (graph_get g) k)"
    by (intro nth_equalityI) (simp_all add: blocked_phase_def inner row)
  also have "\<dots> = grid m s (graph_get (fw_phase k g))"
    using nonneg_phase(2) [OF assms] by (intro grid_cong) simp
  finally show ?thesis .
qed

lemma blocked_run:
  assumes "nonneg (m * s) g" "l \<le> m * s"
  shows "fold blocked_phase [0..<l] (grid m s (graph_get g)) = grid m s (graph_get (fold fw_phase [0..<l] g))"
  using assms(2)
proof (induction l)
  case (Suc l)
  then show ?case
    using blocked_phase_grid [OF fw_run(1) [OF assms(1), of l], of l] by simp
qed simp

text \<open>C5: The blocked algorithm, every block updating itself from its neighbours' results of the phase before,
  computes the same matrix as the monolithic loops, for any block size that divides the graph.\<close>

theorem blocked_floyd_warshall_correct:
  assumes "nonneg (m * s) g" "0 < s" "0 < m"
  shows "blocked_floyd_warshall s g = Inr (compute_floyd_warshall g)"
proof -
  have sq: "square (m * s) g" and len: "length g = m * s"
    using assms(1) by (auto simp: nonneg_def dest: square_length)
  have "square (m * s) (compute_floyd_warshall g)"
    using fw_run(1) [OF assms(1), of "m * s"] len by (simp add: compute_floyd_warshall_def nonneg_def)
  then show ?thesis
    using break_into_grid [OF sq assms(2)] blocked_run [OF assms(1) order_refl] assemble_grid [OF assms(3,2), of "graph_get (compute_floyd_warshall g)"] len
      tabulate_get [of "m * s" "compute_floyd_warshall g"]
    by (simp add: blocked_floyd_warshall_def compute_floyd_warshall_def)
qed

theorem blocked_floyd_warshall_correct_witness:
  "blocked_floyd_warshall 1 [[0, 7, 2], [1, 0, 9], [8, 3, 0 :: int]]
    = Inr (compute_floyd_warshall [[0, 7, 2], [1, 0, 9], [8, 3, 0]])"
  by (rule blocked_floyd_warshall_correct [of 3 1])
    (auto simp: nonneg_def square_def graph_get_def less_Suc_eq numeral_3_eq_3)

end
