(* ===== verification/Atomic_Register.thy ===== *)
theory Atomic_Register
  imports Partitioning_Actor Quorums "HOL-Library.AList" "HOL-Library.Product_Lexorder"
begin

text \<open>
  The atomic register actor (\<open>bench/atomicregister.rs\<close>): a read-impose write-consult-majority register per key,
  replicated over the nodes. Timestamps are \<open>(ts, wr)\<close>, compared as Rust compares tuples, which is the
  lexicographic order of \<open>Product_Lexorder\<close>. The clock is an argument (its reading at the operation on a key), the
  workload split \<open>(num_keys as f32 * workload) as u64\<close> is a function \<open>scale\<close> of the workload, of an abstract
  type. Arithmetic wraps, as in a release build.
\<close>

subsection \<open>Messages\<close>

record AtomicRegisterState =
  rs_ts :: u32
  rs_wr :: u32
  rs_value :: u32
  rs_acks :: u32
  rs_readval :: u32
  rs_writeval :: u32
  rs_rid :: u32
  rs_reading :: bool
  rs_first_received_ts :: u32
  rs_skip_impose :: bool

definition register_new :: AtomicRegisterState where
  "register_new = \<lparr>rs_ts = 0, rs_wr = 0, rs_value = 0, rs_acks = 0, rs_readval = 0, rs_writeval = 0, rs_rid = 0,
     rs_reading = False, rs_first_received_ts = 0, rs_skip_impose = True\<rparr>"

record RRead =
  rd_run_id :: u32
  rd_key :: u64
  rd_rid :: u32

record RAck =
  ak_run_id :: u32
  ak_key :: u64
  ak_rid :: u32

record RValue =
  vl_run_id :: u32
  vl_key :: u64
  vl_rid :: u32
  vl_ts :: u32
  vl_wr :: u32
  vl_value :: u32
  vl_sender_rank :: u32

record RWrite =
  wt_run_id :: u32
  wt_key :: u64
  wt_rid :: u32
  wt_ts :: u32
  wt_wr :: u32
  wt_value :: u32

datatype AtomicRegisterMessage = ARead RRead | AValue RValue | AWrite RWrite | AAck RAck

abbreviation "READ_ID \<equiv> (1 :: u8)"
abbreviation "WRITE_ID \<equiv> (2 :: u8)"
abbreviation "VALUE_ID \<equiv> (3 :: u8)"
abbreviation "ACK_ID \<equiv> (4 :: u8)"

fun serialise_register :: "AtomicRegisterMessage \<Rightarrow> bytes" where
  "serialise_register (ARead r) = put_u8 READ_ID @ put_u32 (rd_run_id r) @ put_u64 (rd_key r) @ put_u32 (rd_rid r)"
| "serialise_register (AValue v) = put_u8 VALUE_ID @ put_u32 (vl_run_id v) @ put_u64 (vl_key v) @ put_u32 (vl_rid v)
     @ put_u32 (vl_ts v) @ put_u32 (vl_wr v) @ put_u32 (vl_value v) @ put_u32 (vl_sender_rank v)"
| "serialise_register (AWrite w) = put_u8 WRITE_ID @ put_u32 (wt_run_id w) @ put_u64 (wt_key w) @ put_u32 (wt_rid w)
     @ put_u32 (wt_ts w) @ put_u32 (wt_wr w) @ put_u32 (wt_value w)"
| "serialise_register (AAck a) = put_u8 ACK_ID @ put_u32 (ak_run_id a) @ put_u64 (ak_key a) @ put_u32 (ak_rid a)"

definition deserialise_register :: "AtomicRegisterMessage getter" where
  "deserialise_register = gbind get_u8 (\<lambda>i.
     if i = READ_ID then
       gbind get_u32 (\<lambda>run_id. gbind get_u64 (\<lambda>key. gbind get_u32 (\<lambda>rid.
         gret (ARead \<lparr>rd_run_id = run_id, rd_key = key, rd_rid = rid\<rparr>))))
     else if i = VALUE_ID then
       gbind get_u32 (\<lambda>run_id. gbind get_u64 (\<lambda>key. gbind get_u32 (\<lambda>rid. gbind get_u32 (\<lambda>ts.
       gbind get_u32 (\<lambda>wr. gbind get_u32 (\<lambda>value. gbind get_u32 (\<lambda>sender_rank.
         gret (AValue \<lparr>vl_run_id = run_id, vl_key = key, vl_rid = rid, vl_ts = ts, vl_wr = wr,
           vl_value = value, vl_sender_rank = sender_rank\<rparr>))))))))
     else if i = WRITE_ID then
       gbind get_u32 (\<lambda>run_id. gbind get_u64 (\<lambda>key. gbind get_u32 (\<lambda>rid. gbind get_u32 (\<lambda>ts.
       gbind get_u32 (\<lambda>wr. gbind get_u32 (\<lambda>value.
         gret (AWrite \<lparr>wt_run_id = run_id, wt_key = key, wt_rid = rid, wt_ts = ts, wt_wr = wr,
           wt_value = value\<rparr>)))))))
     else if i = ACK_ID then
       gbind get_u32 (\<lambda>run_id. gbind get_u64 (\<lambda>key. gbind get_u32 (\<lambda>rid.
         gret (AAck \<lparr>ak_run_id = run_id, ak_key = key, ak_rid = rid\<rparr>))))
     else gfail InvalidType)"

interpretation register_codec: exact_codec serialise_register deserialise_register "\<lambda>_. True"
proof
  show "deserialise_register (serialise_register x @ rest) = Inr (x, rest)" for x rest
    by (cases x) (simp_all add: deserialise_register_def codec_simps)
  show "frugal deserialise_register"
    unfolding deserialise_register_def by (intro frugal_intros)
  show "bs = serialise_register x @ rest" if "deserialise_register bs = Inr (x, rest)" for bs x rest
    using that by (auto simp: deserialise_register_def gbind_eq_Inr split: if_splits dest!: get_exacts)
qed simp

lemma register_size: "length (serialise_register m) \<le> 33"
  by (cases m) auto

subsection \<open>The actor\<close>

type_synonym readlist = "(u32 \<times> u32 \<times> u32 \<times> u32) list"   \<comment> \<open>rank to \<open>(ts, wr, value)\<close>\<close>

record ('p, 'f) AtomicRegisterActor =
  ar_read_workload :: 'f
  ar_write_workload :: 'f
  ar_master :: "'p option"
  ar_nodes :: "'p list option"
  ar_n :: u32
  ar_rank :: u32
  ar_num_keys :: u64
  ar_read_count :: u64
  ar_write_count :: u64
  ar_current_run_id :: u32
  ar_register_state :: "u64 \<rightharpoonup> AtomicRegisterState"
  ar_register_readlist :: "u64 \<rightharpoonup> readlist"
  ar_testing :: bool
  ar_timestamps :: "KVTimestamp list"

datatype 'p ar_out = ArTell 'p AtomicRegisterMessage | ArControl 'p "'p PartitioningActorMsg"

type_synonym ('p, 'f) ar_handled = "(('p, 'f) AtomicRegisterActor, 'p ar_out) handled"

definition register_actor_with :: "u64 \<Rightarrow> 'f \<Rightarrow> 'f \<Rightarrow> bool \<Rightarrow> ('p, 'f) AtomicRegisterActor" where
  "register_actor_with num_keys read_workload write_workload testing =
     \<lparr>ar_read_workload = read_workload, ar_write_workload = write_workload, ar_master = None, ar_nodes = None,
      ar_n = 0, ar_rank = 0, ar_num_keys = num_keys, ar_read_count = 0, ar_write_count = 0,
      ar_current_run_id = 0, ar_register_state = Map.empty, ar_register_readlist = Map.empty,
      ar_testing = testing, ar_timestamps = []\<rparr>"

definition new_iteration :: "'p Init \<Rightarrow> ('p, 'f) AtomicRegisterActor \<Rightarrow> ('p, 'f) AtomicRegisterActor" where
  "new_iteration init s = s\<lparr>ar_current_run_id := init_init_id init,
     ar_n := word_of_nat (length (init_nodes init)), ar_rank := init_pid init,
     ar_register_state := (\<lambda>i. if i < ar_num_keys s then Some register_new else None),
     ar_register_readlist := (\<lambda>i. if i < ar_num_keys s then Some [] else None)\<rparr>"

definition bcast :: "AtomicRegisterMessage \<Rightarrow> ('p, 'f) AtomicRegisterActor \<Rightarrow> ('p, 'f) ar_handled" where
  "bcast msg s = rbind (runwrap (ar_nodes s)) (\<lambda>nodes. Inr (s, map (\<lambda>node. ArTell node msg) nodes))"

text \<open>The two maps of a key written together: the code updates them in place through \<open>get_mut\<close>.\<close>

definition put_register ::
  "u64 \<Rightarrow> AtomicRegisterState \<Rightarrow> readlist \<Rightarrow> ('p, 'f) AtomicRegisterActor \<Rightarrow> ('p, 'f) AtomicRegisterActor" where
  "put_register key r l s = s\<lparr>ar_register_state := (ar_register_state s)(key \<mapsto> r),
     ar_register_readlist := (ar_register_readlist s)(key \<mapsto> l)\<rparr>"

definition push_timestamp ::
  "(u64 \<Rightarrow> u64) \<Rightarrow> u64 \<Rightarrow> KVOperation \<Rightarrow> u32 option \<Rightarrow> ('p, 'f) AtomicRegisterActor \<Rightarrow> ('p, 'f) AtomicRegisterActor" where
  "push_timestamp now key operation val s = (if ar_testing s
     then s\<lparr>ar_timestamps := ar_timestamps s @ [\<lparr>kv_key = key, kv_operation = operation, kv_value = val,
              kv_time = now key, kv_sender = ar_rank s\<rparr>]\<rparr> else s)"

definition invoke_read :: "(u64 \<Rightarrow> u64) \<Rightarrow> u64 \<Rightarrow> ('p, 'f) AtomicRegisterActor \<Rightarrow> ('p, 'f) ar_handled" where
  "invoke_read now key s =
    rbind (runwrap (ar_register_state s key)) (\<lambda>register.
    let register = register\<lparr>rs_rid := rs_rid register + 1, rs_acks := 0, rs_reading := True\<rparr>
    in rbind (runwrap (ar_register_readlist s key)) (\<lambda>_.
       bcast (ARead \<lparr>rd_run_id = ar_current_run_id s, rd_key = key, rd_rid = rs_rid register\<rparr>)
         (push_timestamp now key ReadInvokation None (put_register key register [] s))))"

definition invoke_write :: "(u64 \<Rightarrow> u64) \<Rightarrow> u64 \<Rightarrow> ('p, 'f) AtomicRegisterActor \<Rightarrow> ('p, 'f) ar_handled" where
  "invoke_write now key s =
    rbind (runwrap (ar_register_state s key)) (\<lambda>register.
    let register = register\<lparr>rs_rid := rs_rid register + 1, rs_writeval := ar_rank s, rs_acks := 0,
                            rs_reading := False\<rparr>
    in rbind (runwrap (ar_register_readlist s key)) (\<lambda>_.
       bcast (ARead \<lparr>rd_run_id = ar_current_run_id s, rd_key = key, rd_rid = rs_rid register\<rparr>)
         (push_timestamp now key WriteInvokation (Some (ar_rank s)) (put_register key register [] s))))"

text \<open>The keys \<open>from, from + 1, \<dots>\<close> of \<open>count\<close> operations.\<close>

definition key_range :: "u64 \<Rightarrow> u64 \<Rightarrow> u64 list" where
  "key_range from count = map (\<lambda>l. from + word_of_nat l) [0..<unat count]"

definition invoke_operations ::
  "(u64 \<Rightarrow> 'f \<Rightarrow> u64) \<Rightarrow> (u64 \<Rightarrow> u64) \<Rightarrow> ('p, 'f) AtomicRegisterActor \<Rightarrow> ('p, 'f) ar_handled" where
  "invoke_operations scale now s =
    (let num_reads = scale (ar_num_keys s) (ar_read_workload s);
         num_writes = scale (ar_num_keys s) (ar_write_workload s);
         s = s\<lparr>ar_read_count := num_reads, ar_write_count := num_writes\<rparr>
     in if ar_rank s mod 2 = 0
        then step_then (for_each (invoke_read now) (key_range 0 num_reads) s)
               (for_each (invoke_write now) (key_range num_reads num_writes))
        else step_then (for_each (invoke_write now) (key_range 0 num_writes) s)
               (for_each (invoke_read now) (key_range num_writes num_reads)))"

definition send_done :: "('p, 'f) AtomicRegisterActor \<Rightarrow> ('p, 'f) ar_handled" where
  "send_done s =
    (if \<not> ar_testing s
     then rbind (runwrap (ar_master s)) (\<lambda>master. Inr (s, [ArControl master Done]))
     else rbind (runwrap (ar_master s)) (\<lambda>master.
       Inr (s\<lparr>ar_timestamps := []\<rparr>, [ArControl master (TestDone (ar_timestamps s))])))"

definition read_response ::
  "(u64 \<Rightarrow> u64) \<Rightarrow> u64 \<Rightarrow> u32 \<Rightarrow> ('p, 'f) AtomicRegisterActor \<Rightarrow> ('p, 'f) ar_handled" where
  "read_response now key read_value s =
    (let s = push_timestamp now key ReadResponse (Some read_value) (s\<lparr>ar_read_count := ar_read_count s - 1\<rparr>)
     in if ar_read_count s = 0 \<and> ar_write_count s = 0 then send_done s else Inr (s, []))"

definition write_response :: "(u64 \<Rightarrow> u64) \<Rightarrow> u64 \<Rightarrow> ('p, 'f) AtomicRegisterActor \<Rightarrow> ('p, 'f) ar_handled" where
  "write_response now key s =
    (let s = push_timestamp now key WriteResponse (Some (ar_rank s)) (s\<lparr>ar_write_count := ar_write_count s - 1\<rparr>)
     in if ar_read_count s = 0 \<and> ar_write_count s = 0 then send_done s else Inr (s, []))"

fun receive_control ::
  "(u64 \<Rightarrow> 'f \<Rightarrow> u64) \<Rightarrow> (u64 \<Rightarrow> u64) \<Rightarrow> 'p \<Rightarrow> 'p PartitioningActorMsg \<Rightarrow> ('p, 'f) AtomicRegisterActor \<Rightarrow> ('p, 'f) ar_handled"
where
  "receive_control scale now sender (InitMsg init) s =
    (let s = (new_iteration init s)\<lparr>ar_nodes := Some (init_nodes init)\<rparr>
     in Inr (s\<lparr>ar_master := Some sender\<rparr>, [ArControl sender (InitAck (ar_current_run_id s))]))"
| "receive_control scale now sender Run s = invoke_operations scale now s"
| "receive_control scale now sender _ s = Inr (s, [])"

definition receive_read :: "'p \<Rightarrow> RRead \<Rightarrow> ('p, 'f) AtomicRegisterActor \<Rightarrow> ('p, 'f) ar_handled" where
  "receive_read sender read s =
    (if rd_run_id read = ar_current_run_id s
     then rbind (runwrap (ar_register_state s (rd_key read))) (\<lambda>current_register.
       Inr (s, [ArTell sender (AValue \<lparr>vl_run_id = ar_current_run_id s, vl_key = rd_key read,
         vl_rid = rd_rid read, vl_ts = rs_ts current_register, vl_wr = rs_wr current_register,
         vl_value = rs_value current_register, vl_sender_rank = ar_rank s\<rparr>)]))
     else Inr (s, []))"

text \<open>What a reader notes of an arriving value before it is stored in the readlist.\<close>

definition note_value :: "RValue \<Rightarrow> readlist \<Rightarrow> AtomicRegisterState \<Rightarrow> AtomicRegisterState" where
  "note_value v readlist r =
    (if rs_reading r then
       if readlist = [] then r\<lparr>rs_first_received_ts := vl_ts v, rs_readval := vl_value v\<rparr>
       else if rs_skip_impose r \<and> rs_first_received_ts r \<noteq> vl_ts v then r\<lparr>rs_skip_impose := False\<rparr>
       else r
     else r)"

text \<open>The write that follows a majority of values with maximum \<open>(maxts, rr, readvalue)\<close>.\<close>

definition consult_write :: "u32 \<Rightarrow> RValue \<Rightarrow> AtomicRegisterState \<Rightarrow> u32 \<times> u32 \<times> u32 \<Rightarrow> RWrite" where
  "consult_write rank v r = (\<lambda>(maxts, rr, readvalue).
     if rs_reading r
     then \<lparr>wt_run_id = vl_run_id v, wt_key = vl_key v, wt_rid = vl_rid v, wt_ts = maxts, wt_wr = rr,
           wt_value = readvalue\<rparr>
     else \<lparr>wt_run_id = vl_run_id v, wt_key = vl_key v, wt_rid = vl_rid v, wt_ts = maxts + 1, wt_wr = rank,
           wt_value = rs_writeval r\<rparr>)"

definition receive_value :: "(u64 \<Rightarrow> u64) \<Rightarrow> RValue \<Rightarrow> ('p, 'f) AtomicRegisterActor \<Rightarrow> ('p, 'f) ar_handled" where
  "receive_value now v s =
    (if vl_run_id v = ar_current_run_id s then
       rbind (runwrap (ar_register_state s (vl_key v))) (\<lambda>current_register.
       if vl_rid v = rs_rid current_register then
         rbind (runwrap (ar_register_readlist s (vl_key v))) (\<lambda>readlist.
         let r = note_value v readlist current_register;
             readlist = AList.update (vl_sender_rank v) (vl_ts v, vl_wr v, vl_value v) readlist
         in if length readlist > unat (ar_n s div 2) then
              if rs_reading r \<and> rs_skip_impose r
              then read_response now (vl_key v) (rs_readval r)
                     (put_register (vl_key v) (r\<lparr>rs_value := rs_readval r\<rparr>) [] s)
              else rbind (runwrap (iter_max (map snd readlist))) (\<lambda>(maxts, rr, readvalue).
                     bcast (AWrite (consult_write (ar_rank s) v r (maxts, rr, readvalue)))
                       (put_register (vl_key v) (r\<lparr>rs_readval := readvalue\<rparr>) [] s))
            else Inr (put_register (vl_key v) r readlist s, []))
       else Inr (s, []))
     else Inr (s, []))"

definition receive_write :: "'p \<Rightarrow> RWrite \<Rightarrow> ('p, 'f) AtomicRegisterActor \<Rightarrow> ('p, 'f) ar_handled" where
  "receive_write sender w s =
    rbind (if wt_run_id w = ar_current_run_id s
           then rbind (runwrap (ar_register_state s (wt_key w))) (\<lambda>current_register.
             if (wt_ts w, wt_wr w) > (rs_ts current_register, rs_wr current_register)
             then Inr (s\<lparr>ar_register_state := (ar_register_state s)(wt_key w \<mapsto>
                    current_register\<lparr>rs_ts := wt_ts w, rs_wr := wt_wr w, rs_value := wt_value w\<rparr>)\<rparr>)
             else Inr s)
           else Inr s) (\<lambda>s.
    Inr (s, [ArTell sender (AAck \<lparr>ak_run_id = wt_run_id w, ak_key = wt_key w, ak_rid = wt_rid w\<rparr>)]))"

definition receive_ack :: "(u64 \<Rightarrow> u64) \<Rightarrow> RAck \<Rightarrow> ('p, 'f) AtomicRegisterActor \<Rightarrow> ('p, 'f) ar_handled" where
  "receive_ack now a s =
    (if ak_run_id a = ar_current_run_id s then
       rbind (runwrap (ar_register_state s (ak_key a))) (\<lambda>r.
       if ak_rid a = rs_rid r then
         let r = r\<lparr>rs_acks := rs_acks r + 1\<rparr>
         in if rs_acks r > ar_n s div 2 then
              let r = r\<lparr>rs_acks := 0\<rparr>; s = s\<lparr>ar_register_state := (ar_register_state s)(ak_key a \<mapsto> r)\<rparr>
              in if rs_reading r then read_response now (ak_key a) (rs_readval r) s
                 else write_response now (ak_key a) s
            else Inr (s\<lparr>ar_register_state := (ar_register_state s)(ak_key a \<mapsto> r)\<rparr>, [])
       else Inr (s, []))
     else Inr (s, []))"

datatype 'p ar_net = ArNetControl "'p PartitioningActorMsg" | ArNetRegister AtomicRegisterMessage | ArNetError

fun register_receive_network ::
  "(u64 \<Rightarrow> 'f \<Rightarrow> u64) \<Rightarrow> (u64 \<Rightarrow> u64) \<Rightarrow> 'p \<Rightarrow> 'p ar_net \<Rightarrow> ('p, 'f) AtomicRegisterActor \<Rightarrow> ('p, 'f) ar_handled" where
  "register_receive_network scale now sender (ArNetControl p) s = receive_control scale now sender p s"
| "register_receive_network scale now sender (ArNetRegister (ARead r)) s = receive_read sender r s"
| "register_receive_network scale now sender (ArNetRegister (AValue v)) s = receive_value now v s"
| "register_receive_network scale now sender (ArNetRegister (AWrite w)) s = receive_write sender w s"
| "register_receive_network scale now sender (ArNetRegister (AAck a)) s = receive_ack now a s"
| "register_receive_network scale now sender ArNetError s = Inr (s, [])"

subsection \<open>Timestamps\<close>

definition tag :: "AtomicRegisterState \<Rightarrow> u32 \<times> u32" where
  "tag r = (rs_ts r, rs_wr r)"

definition tags :: "('p, 'f) AtomicRegisterActor \<Rightarrow> u64 \<rightharpoonup> u32 \<times> u32" where
  "tags s key = map_option tag (ar_register_state s key)"

lemma tags_put_register [simp]: "tags (put_register key r l s) = (tags s)(key \<mapsto> tag r)"
  by (auto simp: tags_def put_register_def)

lemma tags_set_state [simp]:
  "tags (s\<lparr>ar_register_state := (ar_register_state s)(key \<mapsto> r)\<rparr>) = (tags s)(key \<mapsto> tag r)"
  by (auto simp: tags_def)

lemma tags_push_timestamp [simp]: "tags (push_timestamp now key operation val s) = tags s"
  by (auto simp: tags_def push_timestamp_def)

lemma tags_more [simp]:
  "tags (s\<lparr>ar_read_count := a\<rparr>) = tags s" "tags (s\<lparr>ar_write_count := b\<rparr>) = tags s"
  "tags (s\<lparr>ar_timestamps := ts\<rparr>) = tags s"
  by (auto simp: tags_def)

lemma tag_update [simp]:
  "tag (r\<lparr>rs_rid := a\<rparr>) = tag r" "tag (r\<lparr>rs_acks := a\<rparr>) = tag r" "tag (r\<lparr>rs_reading := b\<rparr>) = tag r"
  "tag (r\<lparr>rs_writeval := a\<rparr>) = tag r" "tag (r\<lparr>rs_readval := a\<rparr>) = tag r" "tag (r\<lparr>rs_value := a\<rparr>) = tag r"
  "tag (note_value v l r) = tag r"
  by (auto simp: tag_def note_value_def)

lemma tags_stay: "ar_register_state s key = Some r \<Longrightarrow> tag r' = tag r \<Longrightarrow> (tags s)(key \<mapsto> tag r') = tags s"
  by (auto simp: tags_def)

lemma tags_bcast: "bcast m s = Inr (s', out) \<Longrightarrow> tags s' = tags s"
  by (auto simp: bcast_def panic_simps)

lemma tags_send_done: "send_done s = Inr (s', out) \<Longrightarrow> tags s' = tags s"
  by (auto simp: send_done_def panic_simps split: if_splits)

lemma tags_responses:
  "read_response now key x s = Inr (s', out) \<Longrightarrow> tags s' = tags s"
  "write_response now key s = Inr (s', out) \<Longrightarrow> tags s' = tags s"
  by (auto simp: read_response_def write_response_def Let_def split: if_splits dest!: tags_send_done)

lemma runwrap_eq_Inr [panic_simps]: "runwrap x = Inr y \<longleftrightarrow> x = Some y"
  by (cases x) auto

lemma tags_invoke:
  "invoke_read now key s = Inr (s', out) \<Longrightarrow> tags s' = tags s"
  "invoke_write now key s = Inr (s', out) \<Longrightarrow> tags s' = tags s"
  by (auto simp: invoke_read_def invoke_write_def Let_def panic_simps tags_stay dest!: tags_bcast)

lemma tags_for_each:
  assumes "\<And>x s s' out. f x s = Inr (s', out) \<Longrightarrow> tags s' = tags s" "for_each f xs s = Inr (s', out)"
  shows "tags s' = tags s"
  using assms(2)
proof (induction xs arbitrary: s out)
  case (Cons x xs)
  then show ?case
    using assms(1) by (fastforce simp: panic_simps)
qed simp

lemma tags_invoke_each:
  "for_each (invoke_read now) ks s = Inr (s', out) \<Longrightarrow> tags s' = tags s"
  "for_each (invoke_write now) ks s = Inr (s', out) \<Longrightarrow> tags s' = tags s"
  by (rule tags_for_each, erule tags_invoke, assumption)+

lemma tags_receive:
  "invoke_operations scale now s = Inr (s', out) \<Longrightarrow> tags s' = tags s"
  "receive_read sender rd s = Inr (s', out) \<Longrightarrow> tags s' = tags s"
  "receive_value now v s = Inr (s', out) \<Longrightarrow> tags s' = tags s"
  "receive_ack now a s = Inr (s', out) \<Longrightarrow> tags s' = tags s"
proof -
  show "tags s' = tags s" if "invoke_operations scale now s = Inr (s', out)"
    using that
    by (auto simp: invoke_operations_def Let_def step_then_eq_Inr split: if_splits
        dest!: tags_invoke_each)
  show "tags s' = tags s" if "receive_read sender rd s = Inr (s', out)"
    using that by (auto simp: receive_read_def panic_simps split: if_splits)
  show "tags s' = tags s" if "receive_value now v s = Inr (s', out)"
    using that
    by (auto simp: receive_value_def Let_def panic_simps tags_stay split: if_splits
        dest!: tags_bcast tags_responses)
  show "tags s' = tags s" if "receive_ack now a s = Inr (s', out)"
    using that
    by (auto simp: receive_ack_def Let_def panic_simps tags_stay split: if_splits dest!: tags_responses)
qed

text \<open>A write keeps the greater of the two timestamps, with the value that belongs to it, and is always acknowledged.\<close>

lemma receive_write_max:
  assumes "receive_write sender w s = Inr (s', out)" "wt_run_id w = ar_current_run_id s"
  shows "\<exists>t. tags s (wt_key w) = Some t \<and> tags s' = (tags s)(wt_key w \<mapsto> max t (wt_ts w, wt_wr w))"
proof -
  obtain r where r: "ar_register_state s (wt_key w) = Some r"
    using assms by (auto simp: receive_write_def panic_simps split: if_splits)
  then have t: "tags s (wt_key w) = Some (tag r)"
    by (simp add: tags_def)
  have "tags s' = (tags s)(wt_key w \<mapsto> max (tag r) (wt_ts w, wt_wr w))"
  proof (cases "tag r < (wt_ts w, wt_wr w)")
    case True
    then have "s' = s\<lparr>ar_register_state := (ar_register_state s)(wt_key w \<mapsto>
        r\<lparr>rs_ts := wt_ts w, rs_wr := wt_wr w, rs_value := wt_value w\<rparr>)\<rparr>"
      using assms r by (auto simp: receive_write_def tag_def)
    then show ?thesis
      using True tag_def [of "r\<lparr>rs_ts := wt_ts w, rs_wr := wt_wr w\<rparr>"] by (simp add: max.absorb2 less_imp_le del: less_prod_simp)
  next
    case False
    then have "s' = s"
      using assms r by (auto simp: receive_write_def tag_def)
    then show ?thesis
      using False t by (simp add: max_def fun_upd_idem del: less_eq_prod_simp less_prod_simp)
  qed
  then show ?thesis
    using t by blast
qed

lemma tags_receive_write:
  assumes "receive_write sender w s = Inr (s', out)" "tags s key = Some t"
  shows "\<exists>t'. tags s' key = Some t' \<and> t \<le> t'"
proof (cases "wt_run_id w = ar_current_run_id s")
  case True
  then obtain u where "tags s (wt_key w) = Some u" "tags s' = (tags s)(wt_key w \<mapsto> max u (wt_ts w, wt_wr w))"
    using receive_write_max [OF assms(1)] by blast
  then show ?thesis
    using assms(2) by (cases "key = wt_key w") (auto simp del: split_paired_Ex)
next
  case False
  then have "s' = s"
    using assms(1) by (simp add: receive_write_def)
  then show ?thesis
    using assms(2) by simp
qed

definition is_init :: "'p ar_net \<Rightarrow> bool" where
  "is_init m = (case m of ArNetControl (InitMsg _) \<Rightarrow> True | _ \<Rightarrow> False)"

lemma tags_step:
  assumes "register_receive_network scale now sender m s = Inr (s', out)" "\<not> is_init m" "tags s key = Some t"
  shows "\<exists>t'. tags s' key = Some t' \<and> t \<le> t'"
proof (cases "\<exists>w. m = ArNetRegister (AWrite w)")
  case True
  then obtain w where "receive_write sender w s = Inr (s', out)"
    using assms(1) by auto
  then show ?thesis
    using assms(3) by (rule tags_receive_write)
next
  case False
  have "tags s' = tags s"
  proof (cases m)
    case (ArNetControl p)
    then show ?thesis
      using assms(1,2) by (cases p) (auto simp: is_init_def dest: tags_receive)
  next
    case (ArNetRegister x)
    then show ?thesis
      using assms(1) False by (cases x) (auto dest: tags_receive)
  qed (use assms(1) in simp)
  then show ?thesis
    using assms(3) by (intro exI [of _ t]) simp
qed

fun register_run ::
  "(u64 \<Rightarrow> 'f \<Rightarrow> u64) \<Rightarrow> ((u64 \<Rightarrow> u64) \<times> 'p \<times> 'p ar_net) list \<Rightarrow> ('p, 'f) AtomicRegisterActor \<Rightarrow> ('p, 'f) ar_handled" where
  "register_run scale [] s = Inr (s, [])"
| "register_run scale ((now, sender, m) # ms) s =
     step_then (register_receive_network scale now sender m s) (register_run scale ms)"

subsection \<open>Properties\<close>

text \<open>The wire format of the register messages is exact, and no message is longer than the size hint of 33
  bytes.\<close>

theorem register_exact:
  "(deserialise_register bs = Inr (m, rest)) = (bs = serialise_register m @ rest) \<and>
   length (serialise_register m) \<le> 33"
  using register_codec.get_iff register_size by simp

text \<open>C16: within an iteration the timestamp of a register never decreases, whatever messages the node receives and
  in whatever order, and no register disappears.\<close>

theorem register_tags_monotone:
  assumes "register_run scale ms s = Inr (s', out)" "\<forall>(now, sender, m)\<in>set ms. \<not> is_init m"
    "ar_register_state s key = Some r"
  shows "\<exists>r'. ar_register_state s' key = Some r' \<and> (rs_ts r, rs_wr r) \<le> (rs_ts r', rs_wr r')"
proof -
  have "\<exists>t'. tags s' key = Some t' \<and> t \<le> t'" if "tags s key = Some t" for t
    using assms(1,2) that
  proof (induction ms arbitrary: s out t)
    case (Cons x ms)
    obtain now sender m where x: "x = (now, sender, m)"
      by (cases x) auto
    obtain s1 o1 o2 where s1: "register_receive_network scale now sender m s = Inr (s1, o1)"
      "register_run scale ms s1 = Inr (s', o2)"
      using Cons.prems(1) x by (auto simp: panic_simps)
    then obtain t1 where "tags s1 key = Some t1" "t \<le> t1"
      using tags_step [OF s1(1) _ Cons.prems(3)] Cons.prems(2) x by auto
    then show ?case
      using Cons.IH [OF s1(2)] Cons.prems(2) by (auto intro: order_trans)
  qed simp
  then show ?thesis
    using assms(3) by (auto simp: tags_def tag_def)
qed

definition example_actor :: "(u32, unit) AtomicRegisterActor" where
  "example_actor = put_register 0 (register_new\<lparr>rs_rid := 1, rs_writeval := 1\<rparr>) [(2, 0, 0, 0)]
     ((new_iteration \<lparr>init_pid = 1, init_init_id = 7, init_nodes = [1, 2, 3], init_init_data = None\<rparr>
        (register_actor_with 1 () () True))\<lparr>ar_nodes := Some [1, 2, 3]\<rparr>)"

theorem register_tags_monotone_witness:
  "\<exists>r'. ar_register_state (example_actor\<lparr>ar_register_state := (ar_register_state example_actor)
        (0 \<mapsto> register_new\<lparr>rs_rid := 1, rs_writeval := 1, rs_ts := 5, rs_wr := 2, rs_value := 9\<rparr>)\<rparr>) 0 = Some r'
     \<and> (0, 0) \<le> (rs_ts r', rs_wr r')"
proof -
  let ?w = "\<lparr>wt_run_id = 7, wt_key = 0, wt_rid = 1, wt_ts = 5, wt_wr = 2, wt_value = 9\<rparr> :: RWrite"
  let ?s' = "example_actor\<lparr>ar_register_state := (ar_register_state example_actor)
    (0 \<mapsto> register_new\<lparr>rs_rid := 1, rs_writeval := 1, rs_ts := 5, rs_wr := 2, rs_value := 9\<rparr>)\<rparr>"
  have "register_run (\<lambda>_ _. 0) [(\<lambda>_. 3, 2, ArNetRegister (AWrite ?w))] example_actor
      = Inr (?s', [ArTell 2 (AAck \<lparr>ak_run_id = 7, ak_key = 0, ak_rid = 1\<rparr>)])"
    by (simp add: example_actor_def receive_write_def put_register_def new_iteration_def register_actor_with_def
        register_new_def)
  from register_tags_monotone [OF this, of 0 "register_new\<lparr>rs_rid := 1, rs_writeval := 1\<rparr>"] show ?thesis
    by (simp add: is_init_def example_actor_def put_register_def register_new_def)
qed

text \<open>The maximum of a non-empty read list.\<close>

lemma iter_max_readlist:
  assumes "l \<noteq> []"
  obtains q ts wr x where "iter_max (map snd l) = Some (ts, wr, x)" "(q, ts, wr, x) \<in> set l"
    "\<And>q' ts' wr' x'. (q', ts', wr', x') \<in> set l \<Longrightarrow> (ts', wr') \<le> (ts, wr)"
proof -
  let ?M = "Max (snd ` set l)"
  have M: "iter_max (map snd l) = Some ?M"
    using assms by (simp add: iter_max_Max)
  have "?M \<in> snd ` set l"
    using assms by (intro Max_in) auto
  then obtain q where q: "(q, ?M) \<in> set l"
    by auto
  obtain ts wr x where m: "?M = (ts, wr, x)"
    by (cases ?M) auto
  have "(ts', wr') \<le> (ts, wr)" if "(q', ts', wr', x') \<in> set l" for q' ts' wr' x'
  proof -
    have "(ts', wr', x') \<le> ?M"
      using that by (intro Max_ge) force+
    then show ?thesis
      by (auto simp: m)
  qed
  then show thesis
    using that M q m by metis
qed

lemma update_nonempty: "AList.update k v l \<noteq> []"
  by (cases l) auto

text \<open>what an actor broadcasts once a majority has answered its query. A writer sends its own value under a
  timestamp greater than every timestamp of the majority (as long as the 32-bit counter does not wrap); a reader that has to impose
  sends a greatest answer of the majority unchanged. In both cases the read list is emptied and the timestamps of the registers
  stay.\<close>

theorem consult_majority:
  assumes "ar_register_state s key = Some r" "ar_register_readlist s key = Some l" "ar_nodes s = Some nodes"
    "v = \<lparr>vl_run_id = ar_current_run_id s, vl_key = key, vl_rid = rs_rid r, vl_ts = ts, vl_wr = wr,
          vl_value = x, vl_sender_rank = q\<rparr>"
    "l' = AList.update q (ts, wr, x) l" "unat (ar_n s div 2) < length l'"
    "\<not> (rs_reading r \<and> rs_skip_impose (note_value v l r))"
    "\<forall>(p, ts, wr, x)\<in>set l'. ts \<noteq> - 1"
  shows "\<exists>s' w. receive_value now v s = Inr (s', map (\<lambda>node. ArTell node (AWrite w)) nodes)
    \<and> ar_register_readlist s' key = Some [] \<and> tags s' = tags s
    \<and> (if rs_reading r
       then (\<exists>p. (p, wt_ts w, wt_wr w, wt_value w) \<in> set l')
          \<and> (\<forall>(p, ts, wr, x)\<in>set l'. (ts, wr) \<le> (wt_ts w, wt_wr w))
       else wt_value w = rs_writeval r \<and> wt_wr w = ar_rank s
          \<and> (\<forall>(p, ts, wr, x)\<in>set l'. (ts, wr) < (wt_ts w, wt_wr w)))"
proof -
  have reading: "rs_reading (note_value v l r) = rs_reading r" "rs_writeval (note_value v l r) = rs_writeval r"
    by (auto simp: note_value_def)
  obtain p mts mwr mx where m: "iter_max (map snd l') = Some (mts, mwr, mx)" "(p, mts, mwr, mx) \<in> set l'"
    "\<And>q' ts' wr' x'. (q', ts', wr', x') \<in> set l' \<Longrightarrow> (ts', wr') \<le> (mts, mwr)"
    using iter_max_readlist [of l'] assms(5) update_nonempty by metis
  let ?w = "consult_write (ar_rank s) v (note_value v l r) (mts, mwr, mx)"
  let ?s = "put_register key ((note_value v l r)\<lparr>rs_readval := mx\<rparr>) [] s"
  have "receive_value now v s = Inr (?s, map (\<lambda>node. ArTell node (AWrite ?w)) nodes)"
    using assms m(1) reading by (auto simp: receive_value_def Let_def bcast_def put_register_def)
  moreover have "ar_register_readlist ?s key = Some []" "tags ?s = tags s"
    using assms(1) by (auto simp: put_register_def [of key] tags_def tag_update)
  moreover have "mts < mts + 1"
    using m(2) assms(8) by (intro word_Suc_greater) auto
  then have "if rs_reading r
       then (\<exists>p. (p, wt_ts ?w, wt_wr ?w, wt_value ?w) \<in> set l')
          \<and> (\<forall>(p, ts, wr, x)\<in>set l'. (ts, wr) \<le> (wt_ts ?w, wt_wr ?w))
       else wt_value ?w = rs_writeval r \<and> wt_wr ?w = ar_rank s
          \<and> (\<forall>(p, ts, wr, x)\<in>set l'. (ts, wr) < (wt_ts ?w, wt_wr ?w))"
    using m(2,3) reading by (fastforce simp: consult_write_def)
  ultimately show ?thesis
    by blast
qed

theorem consult_majority_witness:
  "\<exists>s' w. receive_value (\<lambda>_. 0) \<lparr>vl_run_id = 7, vl_key = 0, vl_rid = 1, vl_ts = 4, vl_wr = 2, vl_value = 9,
        vl_sender_rank = 3\<rparr> example_actor = Inr (s', map (\<lambda>node. ArTell node (AWrite w)) [1, 2, 3])
    \<and> wt_value w = 1 \<and> wt_wr w = 1 \<and> (4, 2) < (wt_ts w, wt_wr w)"
  using consult_majority [of example_actor 0 "register_new\<lparr>rs_rid := 1, rs_writeval := 1\<rparr>" "[(2, 0, 0, 0)]" "[1, 2, 3]"
      "\<lparr>vl_run_id = 7, vl_key = 0, vl_rid = 1, vl_ts = 4, vl_wr = 2, vl_value = 9, vl_sender_rank = 3\<rparr>" 4 2 9 3
      "[(2, 0, 0, 0), (3, 4, 2, 9)]" "\<lambda>_. 0"]
  by (fastforce simp: example_actor_def put_register_def new_iteration_def register_actor_with_def register_new_def)

end
