(* ===== verification/Register_System.thy ===== *)
theory Register_System
  imports Atomic_Register
begin

text \<open>
  Register actors on a network, driven by the partitioning actor: node \<open>0\<close> is the partitioning actor, the other
  nodes run the register actor. A step delivers one packet that is in flight, in any order; packets may be
  delayed for ever, and the clock advances with every step.
\<close>

type_synonym packet = "u32 \<times> u32 \<times> u32 ar_net"

record 'f rsys =
  sy_master :: "u32 PartitioningActor"
  sy_actor :: "u32 \<Rightarrow> (u32, 'f) AtomicRegisterActor"
  sy_net :: "packet list"
  sy_time :: u64
  sy_results :: "KVTimestamp list option"

fun actor_packet :: "u32 \<Rightarrow> u32 ar_out \<Rightarrow> packet" where
  "actor_packet src (ArTell dst m) = (src, dst, ArNetRegister m)"
| "actor_packet src (ArControl dst m) = (src, dst, ArNetControl m)"

fun master_packets :: "u32 pa_out \<Rightarrow> packet list" where
  "master_packets (PaTell dst m) = [(0, dst, ArNetControl m)]"
| "master_packets _ = []"

fun master_result :: "u32 pa_out \<Rightarrow> KVTimestamp list option" where
  "master_result (PaFulfil td) = Some td"
| "master_result _ = None"

definition sys_init :: "u64 \<Rightarrow> 'f \<Rightarrow> 'f \<Rightarrow> u32 list \<Rightarrow> 'f rsys" where
  "sys_init num_keys read_workload write_workload nodes =
    (let master = partitioning_with False 1 nodes True;
         (master, prepare) = pa_receive_local (ICPrepare None) master;
         (master, run) = pa_receive_local ICRun master
     in \<lparr>sy_master = master,
         sy_actor = (\<lambda>_. register_actor_with num_keys read_workload write_workload True),
         sy_net = concat (map master_packets (prepare @ run)), sy_time = 0, sy_results = None\<rparr>)"

definition remove_nth :: "nat \<Rightarrow> 'a list \<Rightarrow> 'a list" where
  "remove_nth i xs = take i xs @ drop (Suc i) xs"

definition sys_deliver :: "(u64 \<Rightarrow> 'f \<Rightarrow> u64) \<Rightarrow> nat \<Rightarrow> 'f rsys \<Rightarrow> 'f rsys rust" where
  "sys_deliver scale i y =
    rbind (rget (sy_net y) i) (\<lambda>(src, dst, m).
    let net = remove_nth i (sy_net y); y = y\<lparr>sy_time := sy_time y + 1\<rparr>
    in if dst = 0
       then (case m of
           ArNetControl p \<Rightarrow> rbind (pa_receive_network p (sy_master y)) (\<lambda>(master, out).
             Inr (y\<lparr>sy_master := master, sy_net := net @ concat (map master_packets out),
                    sy_results := (case List.map_filter master_result out of [] \<Rightarrow> sy_results y | td # _ \<Rightarrow> Some td)\<rparr>))
         | _ \<Rightarrow> Inl PanicCall)
       else rbind (register_receive_network scale (\<lambda>_. sy_time y) src m (sy_actor y dst)) (\<lambda>(actor, out).
         Inr (y\<lparr>sy_actor := (sy_actor y)(dst := actor), sy_net := net @ map (actor_packet dst) out\<rparr>)))"

text \<open>A schedule names each delivered packet by its ends, its kind and its key.\<close>

datatype kind = KInit | KRun | KRead | KValue | KWrite | KAck | KDone | KOther

fun packet_kind :: "u32 ar_net \<Rightarrow> kind \<times> u64" where
  "packet_kind (ArNetRegister (ARead r)) = (KRead, rd_key r)"
| "packet_kind (ArNetRegister (AValue v)) = (KValue, vl_key v)"
| "packet_kind (ArNetRegister (AWrite w)) = (KWrite, wt_key w)"
| "packet_kind (ArNetRegister (AAck a)) = (KAck, ak_key a)"
| "packet_kind (ArNetControl (InitMsg _)) = (KInit, 0)"
| "packet_kind (ArNetControl Run) = (KRun, 0)"
| "packet_kind (ArNetControl (TestDone _)) = (KDone, 0)"
| "packet_kind _ = (KOther, 0)"

fun find_index :: "('a \<Rightarrow> bool) \<Rightarrow> 'a list \<Rightarrow> nat" where
  "find_index P [] = 0"
| "find_index P (x # xs) = (if P x then 0 else Suc (find_index P xs))"

fun sys_run :: "(u64 \<Rightarrow> 'f \<Rightarrow> u64) \<Rightarrow> (u32 \<times> u32 \<times> kind \<times> u64) list \<Rightarrow> 'f rsys \<Rightarrow> 'f rsys rust" where
  "sys_run scale [] y = Inr y"
| "sys_run scale ((src, dst, k) # ds) y =
    rbind (sys_deliver scale (find_index (\<lambda>(a, b, m). a = src \<and> b = dst \<and> packet_kind m = k) (sy_net y)) y)
      (sys_run scale ds)"

text \<open>An operation of \<open>p\<close> on \<open>key\<close> that meets the majority \<open>qs\<close> in its query phase, and in its write phase.\<close>

definition query :: "u32 \<Rightarrow> u64 \<Rightarrow> u32 list \<Rightarrow> (u32 \<times> u32 \<times> kind \<times> u64) list" where
  "query p key qs = map (\<lambda>q. (p, q, KRead, key)) qs @ map (\<lambda>q. (q, p, KValue, key)) qs"

definition store :: "u32 \<Rightarrow> u64 \<Rightarrow> u32 list \<Rightarrow> (u32 \<times> u32 \<times> kind \<times> u64) list" where
  "store p key qs = map (\<lambda>q. (p, q, KWrite, key)) qs @ map (\<lambda>q. (q, p, KAck, key)) qs"

text \<open>Three nodes, two keys. On key 1 node 2 writes; nodes 1 and 3 read.\<close>

definition overwrite_schedule :: "(u32 \<times> u32 \<times> kind \<times> u64) list" where
  "overwrite_schedule =
     [(0, 1, KInit, 0), (0, 2, KInit, 0), (0, 3, KInit, 0)]
     @ [(0, 2, KRun, 0)] @ query 2 1 [2, 3] @ [(2, 1, KWrite, 1)]
     @ [(0, 1, KRun, 0)] @ query 1 1 [2, 3]
     @ [(2, 2, KWrite, 1), (1, 2, KAck, 1), (2, 2, KAck, 1)]
     @ [(0, 3, KRun, 0)] @ query 3 1 [1, 2]
     @ query 1 0 [1, 2] @ store 1 0 [1, 2]
     @ query 3 0 [1, 2] @ store 3 0 [1, 2]
     @ query 2 0 [1, 2]
     @ [(1, 0, KDone, 0), (2, 0, KDone, 0), (3, 0, KDone, 0)]"

text \<open>Four nodes. On key 0 nodes 1 and 3 write concurrently, with equal \<open>ts\<close>; node 1 keeps its own value, the
  others that of node 3. Then node 2 and after it node 4 read.\<close>

definition tie_schedule :: "(u32 \<times> u32 \<times> kind \<times> u64) list" where
  "tie_schedule =
     map (\<lambda>p. (0, p, KInit, 0)) [1, 2, 3, 4]
     @ [(0, 1, KRun, 0), (0, 3, KRun, 0)] @ query 1 0 [1, 2, 3] @ query 3 0 [2, 3, 4]
     @ store 3 0 [2, 3, 4] @ store 1 0 [1, 2, 3]
     @ [(0, 2, KRun, 0)] @ query 2 0 [2, 3, 4]
     @ [(0, 4, KRun, 0)] @ query 4 0 [1, 2, 3]
     @ query 1 1 [1, 2, 3] @ query 3 1 [1, 2, 3]
     @ query 2 1 [1, 2, 3] @ store 2 1 [1, 2, 3] @ query 4 1 [1, 2, 3] @ store 4 1 [1, 2, 3]
     @ map (\<lambda>p. (p, 0, KDone, 0)) [1, 2, 3, 4]"

text \<open>Five nodes. On key 0 node 1 writes and completes at nodes 1, 2 and 3. Then node 4 reads: after the majority
  1, 2, 4 has answered and the new value is being imposed, the old value of node 5 arrives.\<close>

definition late_schedule :: "(u32 \<times> u32 \<times> kind \<times> u64) list" where
  "late_schedule =
     map (\<lambda>p. (0, p, KInit, 0)) [1, 2, 3, 4, 5]
     @ [(0, 1, KRun, 0)] @ query 1 0 [1, 2, 3] @ store 1 0 [1, 2, 3]
     @ [(0, 4, KRun, 0)] @ query 4 0 [1, 2, 4, 5] @ store 4 0 [1, 2, 4]
     @ map (\<lambda>p. (0, p, KRun, 0)) [2, 3, 5]
     @ query 1 1 [1, 2, 3] @ query 3 1 [1, 2, 3] @ query 5 1 [1, 2, 3]
     @ query 2 1 [1, 2, 3] @ store 2 1 [1, 2, 3] @ query 4 1 [1, 2, 3] @ store 4 1 [1, 2, 3]
     @ query 2 0 [1, 2, 4]
     @ query 3 0 [1, 2, 3] @ store 3 0 [1, 2, 3] @ query 5 0 [1, 2, 3] @ store 5 0 [1, 2, 3]
     @ map (\<lambda>p. (p, 0, KDone, 0)) [1, 2, 3, 4, 5]"

subsection \<open>Runs the checker rejects\<close>

definition rejected :: "(u32 \<times> u32 \<times> kind \<times> u64) list \<Rightarrow> u32 list \<Rightarrow> bool" where
  "rejected schedule nodes =
    (case sys_run (\<lambda>_ w. w) schedule (sys_init 2 1 1 nodes :: u64 rsys) of
       Inr y \<Rightarrow> (case sy_results y of Some td \<Rightarrow> all_linearizable [0, 1] td = Inr False | None \<Rightarrow> False)
     | Inl e \<Rightarrow> False)"


text \<open>A run of four nodes that the checker rejects: a reader compares the first component of the timestamps
  only and skips the impose phase when two concurrent writes got the same one, so two later reads
  return the two values in the wrong order.\<close>

theorem timestamp_tie_not_linearizable: "rejected tie_schedule [1, 2, 3, 4]"
  by code_simp

text \<open>A run of five nodes that the checker rejects: a value that arrives after the majority finds the emptied
  read list and replaces the value that the reader is imposing and will return.\<close>

theorem late_value_not_linearizable: "rejected late_schedule [1, 2, 3, 4, 5]"
  by code_simp

end
