(* ===== verification/Reachability.thy ===== *)
theory Reachability
  imports Rust_Prelude
begin

text \<open>
  Runs of a component: the states it reaches, with the outputs so far, when its environment only gives it inputs
  that are allowed in the current state. \<open>safe_component\<close> is the contract of a handler that keeps an invariant on
  states and outputs and never panics on an allowed input; the facts on whole runs are proved once here.
\<close>

inductive reach ::
  "('i \<Rightarrow> 's \<Rightarrow> bool) \<Rightarrow> ('i \<Rightarrow> 's \<Rightarrow> ('s, 'o) handled) \<Rightarrow> 's \<Rightarrow> 's \<Rightarrow> 'o list \<Rightarrow> bool"
  for allowed step s0 where
  start: "reach allowed step s0 s0 []"
| next_step: "reach allowed step s0 s out \<Longrightarrow> allowed i s \<Longrightarrow> step i s = Inr (s', out') \<Longrightarrow>
    reach allowed step s0 s' (out @ out')"

inductive_cases reach_lastE: "reach allowed step s0 s out"

lemma reach_trans:
  assumes "reach allowed step s1 s2 out'" "reach allowed step s0 s1 out"
  shows "reach allowed step s0 s2 (out @ out')"
  using assms
proof (induction rule: reach.induct)
  case (next_step s out' i s' out'')
  have "reach allowed step s0 s (out @ out')"
    using next_step by blast
  then have "reach allowed step s0 s' ((out @ out') @ out'')"
    using next_step.hyps(2,3) by (rule reach.next_step)
  then show ?case
    by simp
qed simp

text \<open>Runs as lists of inputs, for evaluation.\<close>

definition run_inputs :: "('i \<Rightarrow> 's \<Rightarrow> ('s, 'o) handled) \<Rightarrow> 'i list \<Rightarrow> 's \<Rightarrow> ('s, 'o) handled" where
  "run_inputs step = for_each step"

fun all_allowed :: "('i \<Rightarrow> 's \<Rightarrow> bool) \<Rightarrow> ('i \<Rightarrow> 's \<Rightarrow> ('s, 'o) handled) \<Rightarrow> 'i list \<Rightarrow> 's \<Rightarrow> bool" where
  "all_allowed allowed step [] s = True"
| "all_allowed allowed step (i # is) s =
    (allowed i s \<and> (case step i s of Inl e \<Rightarrow> True | Inr (s', out) \<Rightarrow> all_allowed allowed step is s'))"

lemma run_reaches:
  assumes "all_allowed allowed step is s" "run_inputs step is s = Inr (s', out)"
  shows "reach allowed step s s' out"
  using assms
proof (induction "is" arbitrary: s out)
  case Nil
  then show ?case
    by (auto simp: run_inputs_def intro: reach.start)
next
  case (Cons i js)
  obtain s1 o1 o2 where s1: "step i s = Inr (s1, o1)" "for_each step js s1 = Inr (s', o2)" "out = o1 @ o2"
    using Cons.prems(2) by (auto simp: run_inputs_def panic_simps)
  have "reach allowed step s s1 ([] @ o1)"
    using Cons.prems(1) s1(1) by (intro reach.next_step [OF reach.start]) simp_all
  moreover have "reach allowed step s1 s' o2"
    using Cons.IH [of s1 o2] Cons.prems(1) s1 by (simp add: run_inputs_def)
  ultimately show ?case
    using reach_trans s1(3) by fastforce
qed

text \<open>A run under a scheduler that chooses the next input, until the system is quiet; \<open>None\<close> when it never is.\<close>

partial_function (option) run_until ::
  "('s \<Rightarrow> bool) \<Rightarrow> ('i \<Rightarrow> 's \<Rightarrow> ('s, 'o) handled) \<Rightarrow> ('s \<Rightarrow> 'i) \<Rightarrow> 's \<Rightarrow> 's rust option" where
  "run_until quiet step pick s =
    (if quiet s then Some (Inr s)
     else case step (pick s) s of
         Inl p \<Rightarrow> Some (Inl p)
       | Inr (s', out) \<Rightarrow> run_until quiet step pick s')"

lemma run_until_ends:
  fixes good :: "'s \<Rightarrow> bool"
  assumes "\<And>s. good s \<Longrightarrow> \<not> quiet s \<Longrightarrow>
      \<exists>s' out. step (pick s) s = Inr (s', out) \<and> good s' \<and> (work s' :: nat) < work s"
    and "good s"
  shows "\<exists>s'. run_until quiet step pick s = Some (Inr s') \<and> good s' \<and> quiet s'"
  using assms(2)
proof (induction "work s" arbitrary: s rule: less_induct)
  case less
  show ?case
  proof (cases "quiet s")
    case False
    then obtain s' out where "step (pick s) s = Inr (s', out)" "good s'" "work s' < work s"
      using assms(1) [OF less.prems] by blast
    then show ?thesis
      using less.hyps [of s'] False by (subst run_until.simps) simp
  qed (use less.prems in \<open>simp add: run_until.simps\<close>)
qed

locale safe_component =
  fixes allowed :: "'i \<Rightarrow> 's \<Rightarrow> bool"
    and step :: "'i \<Rightarrow> 's \<Rightarrow> ('s, 'o) handled"
    and inv :: "'s \<Rightarrow> 'o list \<Rightarrow> bool"
  assumes safe: "inv s out \<Longrightarrow> allowed i s \<Longrightarrow> \<exists>s' out'. step i s = Inr (s', out') \<and> inv s' (out @ out')"
begin

lemma reach_inv: "reach allowed step s0 s out \<Longrightarrow> inv s0 [] \<Longrightarrow> inv s out"
  by (induction rule: reach.induct) (use safe in fastforce)+

lemma no_panic: "reach allowed step s0 s out \<Longrightarrow> inv s0 [] \<Longrightarrow> allowed i s \<Longrightarrow> \<exists>s' out'. step i s = Inr (s', out')"
  using reach_inv safe by blast

lemma run_safe:
  "inv s out \<Longrightarrow> all_allowed allowed step is s \<Longrightarrow> \<exists>s' out'. run_inputs step is s = Inr (s', out') \<and> inv s' (out @ out')"
proof (induction "is" arbitrary: s out)
  case (Cons i js)
  obtain s1 o1 where s1: "step i s = Inr (s1, o1)" "inv s1 (out @ o1)"
    using safe [OF Cons.prems(1), of i] Cons.prems(2) by auto
  then obtain s2 o2 where "run_inputs step js s1 = Inr (s2, o2)" "inv s2 ((out @ o1) @ o2)"
    using Cons.IH [OF s1(2)] Cons.prems(2) by auto
  then show ?case
    using s1(1) by (simp add: run_inputs_def)
qed (simp add: run_inputs_def)

end

end
