(* ===== verification/Broadcast_Client.thy ===== *)
theory Broadcast_Client
  imports Broadcast_Messages Reachability "HOL-Library.AList"
begin

text \<open>
  The client of the atomic broadcast benchmark (\<open>atomic_broadcast/client.rs\<close>), built without the tracking features:
  it keeps a window of proposals in flight, retries those that were held back for a reconfiguration and
  finishes when all are answered or timed out. Hash maps are association lists with distinct keys;
  times are natural numbers (the reading \<open>now\<close> of the clock is an argument), the timer of a proposal is named by its
  id and setting or cancelling it is an output, and a latch is its counter.
\<close>

datatype ExperimentState = LeaderElection | Running | ReconfigurationElection | Finished

datatype LocalClientMessage = ClientRun | ClientStopAsk nat

datatype Response = ResponseNormal u64 | ResponseReconfiguration "u64 list"

record MetaResults =
  mr_num_timed_out :: u64
  mr_latencies :: "nat list"

record 'p Client =
  cl_num_proposals :: u64
  cl_num_concurrent_proposals :: u64
  cl_nodes :: "(u64 \<times> 'p) list"
  cl_reconfig :: "(u64 list \<times> u64 list) option"
  cl_leader_election_latch :: nat
  cl_finished_latch :: nat
  cl_latest_proposal_id :: u64
  cl_responses :: "(u64 \<times> nat option) list"
  cl_pending_proposals :: "(u64 \<times> nat option) list"   \<comment> \<open>id to start time\<close>
  cl_current_leader :: u64
  cl_state :: ExperimentState
  cl_current_config :: "u64 list"
  cl_num_timed_out :: u64
  cl_leader_changes :: "u64 list"
  cl_first_proposal_after_reconfig :: "u64 option"
  cl_retry_proposals :: "(u64 \<times> nat option) list"
  cl_stop_ask :: "nat option"

datatype 'p cl_out =
    ClTell 'p AtomicBroadcastMsg
  | ClTellStop 'p StopMsg
  | ClSchedule u64
  | ClCancel u64
  | ClElectionLatch
  | ClFinishedLatch
  | ClReplyStop nat MetaResults

type_synonym 'p cl_handled = "('p Client, 'p cl_out) handled"

definition client_with ::
  "u64 list \<Rightarrow> u64 \<Rightarrow> u64 \<Rightarrow> (u64 \<times> 'p) list \<Rightarrow> (u64 list \<times> u64 list) option \<Rightarrow> nat \<Rightarrow> nat \<Rightarrow> 'p Client" where
  "client_with initial_config num_proposals num_concurrent_proposals nodes reconfig election_latch finished_latch =
     \<lparr>cl_num_proposals = num_proposals, cl_num_concurrent_proposals = num_concurrent_proposals,
      cl_nodes = nodes, cl_reconfig = reconfig, cl_leader_election_latch = election_latch,
      cl_finished_latch = finished_latch, cl_latest_proposal_id = 0, cl_responses = [],
      cl_pending_proposals = [], cl_current_leader = 0, cl_state = LeaderElection,
      cl_current_config = initial_config, cl_num_timed_out = 0, cl_leader_changes = [],
      cl_first_proposal_after_reconfig = None, cl_retry_proposals = [], cl_stop_ask = None\<rparr>"

definition propose_normal :: "u64 \<Rightarrow> 'p \<Rightarrow> 'p cl_out" where
  "propose_normal prop_id node = ClTell node (ProposalMsg (proposal_normal (put_u64 prop_id)))"

definition propose_reconfiguration :: "'p \<Rightarrow> 'p Client \<Rightarrow> 'p cl_handled" where
  "propose_reconfiguration node s = rbind (runwrap (cl_reconfig s)) (\<lambda>reconfig.
     Inr (s, [ClTell node (ProposalMsg (proposal_reconfiguration (put_u64 RECONFIG_ID) reconfig))]))"

text \<open>Sending one proposal and remembering it: the body of both loops of \<open>send_concurrent_proposals\<close>.\<close>

definition send_proposal :: "'p \<Rightarrow> u64 \<times> nat option \<Rightarrow> 'p Client \<Rightarrow> 'p cl_handled" where
  "send_proposal leader = (\<lambda>(prop_id, start_time) s.
     Inr (s\<lparr>cl_pending_proposals := AList.update prop_id start_time (cl_pending_proposals s)\<rparr>,
          [propose_normal prop_id leader, ClSchedule prop_id]))"

definition id_range :: "u64 \<Rightarrow> u64 \<Rightarrow> u64 list" where
  "id_range from to = map word_of_nat [unat from..<Suc (unat to)]"

definition send_concurrent_proposals :: "nat \<Rightarrow> 'p Client \<Rightarrow> 'p cl_handled" where
  "send_concurrent_proposals now s =
    (let num_inflight = word_of_nat (length (cl_pending_proposals s));
         available_n = cl_num_concurrent_proposals s - num_inflight
     in rbind (rassert (num_inflight \<le> cl_num_concurrent_proposals s)) (\<lambda>_.
        if num_inflight = cl_num_concurrent_proposals s \<or> cl_current_leader s = 0 then Inr (s, [])
        else rbind (runwrap (map_of (cl_nodes s) (cl_current_leader s))) (\<lambda>leader.
        if cl_retry_proposals s = [] then
          let from = cl_latest_proposal_id s + 1;
              i = cl_latest_proposal_id s + available_n;
              to = (if i > cl_num_proposals s then cl_num_proposals s else i)
          in if from > to then Inr (s, [])
             else let current_time = (if cl_num_concurrent_proposals s = 1 then Some now else None)
             in step_then (for_each (send_proposal leader) (map (\<lambda>prop_id. (prop_id, current_time)) (id_range from to)) s)
                  (\<lambda>s. Inr (s\<lparr>cl_latest_proposal_id := to\<rparr>, []))
        else
          let n = min (length (cl_retry_proposals s)) (unat available_n);
              retry_proposals = take n (cl_retry_proposals s);
              s = s\<lparr>cl_retry_proposals := drop n (cl_retry_proposals s)\<rparr>
          in for_each (send_proposal leader) retry_proposals s)))"

definition handle_normal_response :: "u64 \<Rightarrow> nat option \<Rightarrow> 'p Client \<Rightarrow> 'p cl_handled" where
  "handle_normal_response prop_id latency_res s =
    (let s = s\<lparr>cl_responses := AList.update prop_id latency_res (cl_responses s)\<rparr>;
         received_count = word_of_nat (length (cl_responses s))
     in if received_count = cl_num_proposals s \<and> cl_reconfig s = None then
          if cl_finished_latch s = 0 then Inl UnwrapNone
          else Inr (s\<lparr>cl_state := Finished, cl_finished_latch := cl_finished_latch s - 1\<rparr>, [ClFinishedLatch])
        else if received_count = cl_num_proposals s div 2 \<and> cl_reconfig s \<noteq> None then
          step_then (case map_of (cl_nodes s) (cl_current_leader s) of
              Some leader \<Rightarrow> propose_reconfiguration leader s
            | None \<Rightarrow> Inr (s, [])) (\<lambda>s.
          Inr (s\<lparr>cl_pending_proposals := AList.update RECONFIG_ID None (cl_pending_proposals s)\<rparr>,
               [ClSchedule RECONFIG_ID]))
        else Inr (s, []))"

text \<open>\<open>start_time.elapsed().expect(\<dots>)\<close> of a cached start time.\<close>

definition latency_of :: "nat \<Rightarrow> nat option \<Rightarrow> nat option rust" where
  "latency_of now start_time = (case start_time of
     None \<Rightarrow> Inr None
   | Some t \<Rightarrow> if t \<le> now then Inr (Some (now - t)) else Inl UnwrapNone)"

definition proposal_timeout :: "nat \<Rightarrow> u64 \<Rightarrow> 'p Client \<Rightarrow> 'p cl_handled" where
  "proposal_timeout now prop_id s =
    (if map_of (cl_responses s) prop_id \<noteq> None \<or> cl_state s = ReconfigurationElection then Inr (s, [])
     else if prop_id = RECONFIG_ID then
       step_then (case map_of (cl_nodes s) (cl_current_leader s) of
           Some leader \<Rightarrow> propose_reconfiguration leader s
         | None \<Rightarrow> Inr (s, [])) (\<lambda>s.
       rbind (runwrap (map_of (cl_pending_proposals s) prop_id)) (\<lambda>_. Inr (s, [ClSchedule prop_id])))
     else
       rbind (runwrap (map_of (cl_pending_proposals s) prop_id)) (\<lambda>start_time.
       rbind (latency_of now start_time) (\<lambda>latency.
       step_then (handle_normal_response prop_id latency
           (s\<lparr>cl_num_timed_out := cl_num_timed_out s + 1,
              cl_pending_proposals := AList.delete prop_id (cl_pending_proposals s)\<rparr>))
         (send_concurrent_proposals now))))"

definition hold_back :: "u64 \<Rightarrow> 'p Client \<Rightarrow> 'p cl_handled" where
  "hold_back i s = (case map_of (cl_pending_proposals s) i of
     Some start_time \<Rightarrow> Inr (s\<lparr>cl_pending_proposals := AList.delete i (cl_pending_proposals s),
         cl_retry_proposals := cl_retry_proposals s @ [(i, start_time)]\<rparr>, [ClCancel i])
   | None \<Rightarrow> rbind (rassert (map_of (cl_responses s) i \<noteq> None)) (\<lambda>_. Inr (s, [])))"

definition hold_back_proposals :: "u64 \<Rightarrow> u64 \<Rightarrow> 'p Client \<Rightarrow> 'p cl_handled" where
  "hold_back_proposals from to s = for_each hold_back (id_range from to) s"

definition deserialise_response :: "Response getter" where
  "deserialise_response = gbind get_u64 (\<lambda>n.
     if n = RECONFIG_ID then gbind get_u64s (\<lambda>config. gret (ResponseReconfiguration config))
     else gret (ResponseNormal n))"

definition send_stop :: "'p Client \<Rightarrow> 'p cl_out list" where
  "send_stop s = map (\<lambda>(_, ap). ClTellStop ap ClientStop) (cl_nodes s)"

definition reply_stop_ask :: "'p Client \<Rightarrow> 'p cl_handled" where
  "reply_stop_ask s =
    (let v = sort_key fst (filter (\<lambda>(_, latency). latency \<noteq> None) (cl_responses s));
         meta_results = \<lparr>mr_num_timed_out = cl_num_timed_out s, mr_latencies = map (\<lambda>(_, latency). the latency) v\<rparr>
     in rbind (runwrap (cl_stop_ask s)) (\<lambda>ask.
        Inr (s\<lparr>cl_responses := [], cl_stop_ask := None\<rparr>, [ClReplyStop ask meta_results])))"

fun client_receive_local :: "nat \<Rightarrow> LocalClientMessage \<Rightarrow> 'p Client \<Rightarrow> 'p cl_handled" where
  "client_receive_local now ClientRun s =
    rbind (rassert (cl_current_leader s \<noteq> 0)) (\<lambda>_. send_concurrent_proposals now (s\<lparr>cl_state := Running\<rparr>))"
| "client_receive_local now (ClientStopAsk a) s =
    Inr (s\<lparr>cl_pending_proposals := [], cl_stop_ask := Some a\<rparr>,
         map (\<lambda>(prop_id, _). ClCancel prop_id) (cl_pending_proposals s) @ send_stop s)"

definition handle_first_leader :: "nat \<Rightarrow> u64 \<Rightarrow> 'p Client \<Rightarrow> 'p cl_handled" where
  "handle_first_leader now pid s =
    (if pid \<notin> set (cl_current_config s) then Inr (s, [])
     else case cl_state s of
       LeaderElection \<Rightarrow>
         let s = s\<lparr>cl_current_leader := pid\<rparr>
         in if cl_leader_election_latch s = 0 then Inr (s, [])
            else Inr (s\<lparr>cl_leader_election_latch := cl_leader_election_latch s - 1\<rparr>, [ClElectionLatch])
     | ReconfigurationElection \<Rightarrow>
         let s = (if cl_current_leader s \<noteq> pid
                  then s\<lparr>cl_current_leader := pid, cl_leader_changes := cl_leader_changes s @ [pid]\<rparr> else s);
             s = s\<lparr>cl_state := Running\<rparr>;
             s = (if cl_retry_proposals s = []
                  then s\<lparr>cl_first_proposal_after_reconfig := Some (cl_latest_proposal_id s)\<rparr> else s)
         in send_concurrent_proposals now s
     | _ \<Rightarrow> Inr (s, []))"

definition handle_normal :: "nat \<Rightarrow> u64 \<Rightarrow> u64 \<Rightarrow> 'p Client \<Rightarrow> 'p cl_handled" where
  "handle_normal now latest_leader prop_id s = (case map_of (cl_pending_proposals s) prop_id of
     None \<Rightarrow> Inr (s, [])
   | Some start_time \<Rightarrow>
       rbind (latency_of now start_time) (\<lambda>latency.
       let s = s\<lparr>cl_pending_proposals := AList.delete prop_id (cl_pending_proposals s)\<rparr>;
           s = (if latest_leader \<in> set (cl_current_config s) \<and> cl_current_leader s \<noteq> latest_leader
                   \<and> cl_state s \<noteq> ReconfigurationElection
                then s\<lparr>cl_current_leader := latest_leader,
                       cl_leader_changes := cl_leader_changes s @ [latest_leader]\<rparr> else s)
       in step_then (Inr (s, [ClCancel prop_id])) (\<lambda>s.
          step_then (handle_normal_response prop_id latency s) (\<lambda>s.
          if cl_state s \<noteq> ReconfigurationElection then send_concurrent_proposals now s else Inr (s, [])))))"

definition handle_reconfiguration :: "nat \<Rightarrow> u64 \<Rightarrow> u64 list \<Rightarrow> 'p Client \<Rightarrow> 'p cl_handled" where
  "handle_reconfiguration now latest_leader new_config s =
    (case map_of (cl_pending_proposals s) RECONFIG_ID of
       None \<Rightarrow> Inr (s, [])
     | Some _ \<Rightarrow>
       step_then (Inr (s\<lparr>cl_pending_proposals := AList.delete RECONFIG_ID (cl_pending_proposals s)\<rparr>,
                       [ClCancel RECONFIG_ID])) (\<lambda>s.
       if word_of_nat (length (cl_responses s)) = cl_num_proposals s then
         if cl_finished_latch s = 0 then Inl UnwrapNone
         else Inr (s\<lparr>cl_state := Finished, cl_finished_latch := cl_finished_latch s - 1\<rparr>, [ClFinishedLatch])
       else
         let leader_changed = (cl_current_leader s \<noteq> latest_leader);
             s = s\<lparr>cl_reconfig := None, cl_current_config := new_config, cl_current_leader := latest_leader\<rparr>
         in if cl_current_leader s = 0 then Inr (s\<lparr>cl_state := ReconfigurationElection\<rparr>, [])
            else step_then (send_concurrent_proposals now (s\<lparr>cl_state := Running\<rparr>)) (\<lambda>s.
              Inr (if leader_changed then s\<lparr>cl_leader_changes := cl_leader_changes s @ [latest_leader]\<rparr> else s, []))))"

definition handle_proposal_resp :: "nat \<Rightarrow> ProposalResp \<Rightarrow> 'p Client \<Rightarrow> 'p cl_handled" where
  "handle_proposal_resp now pr s =
    (if cl_state s = Finished \<or> cl_state s = LeaderElection then Inr (s, [])
     else case deserialise_response (presp_data pr) of
       Inl e \<Rightarrow> Inl PanicCall
     | Inr (ResponseNormal prop_id, _) \<Rightarrow> handle_normal now (presp_latest_leader pr) prop_id s
     | Inr (ResponseReconfiguration new_config, _) \<Rightarrow> handle_reconfiguration now (presp_latest_leader pr) new_config s)"

definition handle_pending_reconfiguration :: "nat \<Rightarrow> bytes \<Rightarrow> 'p Client \<Rightarrow> 'p cl_handled" where
  "handle_pending_reconfiguration now data s =
    (case get_u64 data of
       Inl e \<Rightarrow> Inl PanicCall
     | Inr (dropped_proposal, _) \<Rightarrow>
       (case cl_state s of
          Running \<Rightarrow>
            if cl_reconfig s \<noteq> None
            then step_then (hold_back_proposals dropped_proposal (cl_latest_proposal_id s) s)
                   (\<lambda>s. Inr (s\<lparr>cl_state := ReconfigurationElection\<rparr>, []))
            else (case cl_first_proposal_after_reconfig s of
                Some first_id \<Rightarrow> step_then (hold_back_proposals dropped_proposal first_id s)
                                   (send_concurrent_proposals now)
              | None \<Rightarrow> Inl PanicCall)
        | ReconfigurationElection \<Rightarrow> hold_back_proposals dropped_proposal (cl_latest_proposal_id s) s
        | _ \<Rightarrow> Inr (s, [])))"

fun client_receive_abcast :: "nat \<Rightarrow> AtomicBroadcastMsg \<Rightarrow> 'p Client \<Rightarrow> 'p cl_handled" where
  "client_receive_abcast now (FirstLeader pid) s = handle_first_leader now pid s"
| "client_receive_abcast now (ProposalRespMsg pr) s = handle_proposal_resp now pr s"
| "client_receive_abcast now (PendingReconfiguration data) s = handle_pending_reconfiguration now data s"
| "client_receive_abcast now (ProposalMsg _) s = Inr (s, [])"

fun client_receive_stop :: "StopMsg \<Rightarrow> 'p Client \<Rightarrow> 'p cl_handled" where
  "client_receive_stop (PeerStop pid) s =
    (if map_of (cl_nodes s) pid = None then Inl PanicCall
     else let s = s\<lparr>cl_nodes := AList.delete pid (cl_nodes s)\<rparr>
          in if cl_nodes s = [] then reply_stop_ask s else Inr (s, []))"
| "client_receive_stop ClientStop s = Inr (s, [])"

datatype cl_in =
    ClLocal LocalClientMessage
  | ClAbcast AtomicBroadcastMsg
  | ClStop StopMsg
  | ClTimeout u64

fun client_step :: "nat \<Rightarrow> cl_in \<Rightarrow> 'p Client \<Rightarrow> 'p cl_handled" where
  "client_step now (ClLocal m) s = client_receive_local now m s"
| "client_step now (ClAbcast m) s = client_receive_abcast now m s"
| "client_step now (ClStop m) s = client_receive_stop m s"
| "client_step now (ClTimeout prop_id) s = proposal_timeout now prop_id s"

subsection \<open>Ranges of ids\<close>

lemma id_range_props:
  "set (id_range a b) = {a..b}" "distinct (id_range a b)" "length (id_range a b) = Suc (unat b) - unat a"
proof -
  have *: "word_of_nat i \<in> {a..b} \<and> unat (word_of_nat i :: u64) = i" if "i \<in> {unat a..unat b}" for i
  proof -
    have "i < 2 ^ 64"
      using that le_less_trans [OF _ unat_u64_less [of b], of i] by simp
    then show ?thesis
      using that by (simp add: word_le_nat_alt)
  qed
  have "x \<in> word_of_nat ` {unat a..unat b}" if "x \<in> {a..b}" for x
    using that by (intro image_eqI [of _ _ "unat x"]) (simp_all add: word_le_nat_alt)
  then show "set (id_range a b) = {a..b}"
    using * by (auto simp: id_range_def atLeastLessThanSuc_atLeastAtMost simp del: upt_Suc)
  have "inj_on (word_of_nat :: nat \<Rightarrow> u64) {unat a..unat b}"
    using * by (metis inj_onI)
  then show "distinct (id_range a b)"
    by (simp add: id_range_def distinct_map atLeastLessThanSuc_atLeastAtMost del: upt_Suc)
  show "length (id_range a b) = Suc (unat b) - unat a"
    by (simp add: id_range_def del: upt_Suc)
qed

lemma card_ids: "card {1..n :: u64} = unat n"
  using distinct_card [OF id_range_props(2) [of 1 n]] id_range_props(1,3) [of 1 n] by simp

lemma ids_append:
  assumes "unat a \<le> unat b" "unat b < 2 ^ 64 - 1"
  shows "id_range 1 a @ id_range (a + 1) b = id_range 1 b"
proof -
  have "unat (a + 1) = Suc (unat a)"
    using assms by (intro unat_Suc_u64) simp
  moreover obtain k where "unat b = unat a + k"
    using assms(1) le_Suc_ex by blast
  ultimately show ?thesis
    using upt_add_eq_append [of 1 "Suc (unat a)" k] by (simp add: id_range_def flip: map_append del: upt_Suc)
qed

lemma for_each_send:
  assumes "distinct (map fst ps)" "fst ` set ps \<inter> fst ` set (cl_pending_proposals s) = {}"
  shows "for_each (send_proposal leader) ps s = Inr (s\<lparr>cl_pending_proposals := cl_pending_proposals s @ ps\<rparr>,
     concat (map (\<lambda>(i, t). [propose_normal i leader, ClSchedule i]) ps))"
  using assms
proof (induction ps arbitrary: s)
  case (Cons p ps)
  obtain i t where p: "p = (i, t)"
    by (cases p)
  have new: "AList.update i t al = al @ [(i, t)]" if "i \<notin> fst ` set al" for al :: "(u64 \<times> nat option) list"
    using that by (induction al) auto
  then have "send_proposal leader p s = Inr (s\<lparr>cl_pending_proposals := cl_pending_proposals s @ [p]\<rparr>,
      [propose_normal i leader, ClSchedule i])"
    using Cons.prems(2) p by (simp add: send_proposal_def)
  moreover have "fst ` set ps \<inter> fst ` set (cl_pending_proposals s @ [p]) = {}"
    using Cons.prems by auto
  ultimately show ?case
    using Cons.IH [of "s\<lparr>cl_pending_proposals := cl_pending_proposals s @ [p]\<rparr>"] Cons.prems(1) p by simp
qed simp

subsection \<open>The window of proposals\<close>

abbreviation keys :: "('a \<times> 'b) list \<Rightarrow> 'a set" where
  "keys l \<equiv> fst ` set l"

text \<open>Every id up to the latest is in flight, answered, or held back for a retry, and in exactly one of these; at most
  the configured number of proposals is in flight. Id 0 in flight is the reconfiguration.\<close>

definition window :: "'p Client \<Rightarrow> bool" where
  "window s \<longleftrightarrow>
     distinct (map fst (cl_pending_proposals s)) \<and> distinct (map fst (cl_responses s)) \<and>
     distinct (map fst (cl_retry_proposals s)) \<and>
     keys (cl_pending_proposals s) \<inter> keys (cl_responses s) = {} \<and>
     keys (cl_pending_proposals s) \<inter> keys (cl_retry_proposals s) = {} \<and>
     keys (cl_responses s) \<inter> keys (cl_retry_proposals s) = {} \<and>
     (keys (cl_pending_proposals s) - {0}) \<union> keys (cl_responses s) \<union> keys (cl_retry_proposals s)
       = {1..cl_latest_proposal_id s} \<and>
     length (cl_pending_proposals s) \<le> unat (cl_num_concurrent_proposals s) \<and>
     cl_latest_proposal_id s \<le> cl_num_proposals s \<and>
     (0 \<in> keys (cl_pending_proposals s) \<longrightarrow> cl_reconfig s \<noteq> None)"

definition sizes_ok :: "'p Client \<Rightarrow> bool" where
  "sizes_ok s \<longleftrightarrow> 0 < cl_num_proposals s \<and> 0 < cl_num_concurrent_proposals s \<and>
     unat (cl_num_proposals s) + unat (cl_num_concurrent_proposals s) < 2 ^ 64 - 1"

lemma window_unaffected [simp]:
  "window (s\<lparr>cl_state := x0\<rparr>) = window s"
  "window (s\<lparr>cl_current_leader := x1\<rparr>) = window s"
  "window (s\<lparr>cl_leader_changes := x2\<rparr>) = window s"
  "window (s\<lparr>cl_num_timed_out := x3\<rparr>) = window s"
  "window (s\<lparr>cl_first_proposal_after_reconfig := x4\<rparr>) = window s"
  "window (s\<lparr>cl_current_config := x5\<rparr>) = window s"
  "window (s\<lparr>cl_finished_latch := x6\<rparr>) = window s"
  "window (s\<lparr>cl_leader_election_latch := x7\<rparr>) = window s"
  by (simp_all add: window_def)

lemma sizes_unaffected [simp]:
  "sizes_ok (s\<lparr>cl_state := x0\<rparr>) = sizes_ok s"
  "sizes_ok (s\<lparr>cl_current_leader := x1\<rparr>) = sizes_ok s"
  "sizes_ok (s\<lparr>cl_leader_changes := x2\<rparr>) = sizes_ok s"
  "sizes_ok (s\<lparr>cl_num_timed_out := x3\<rparr>) = sizes_ok s"
  "sizes_ok (s\<lparr>cl_first_proposal_after_reconfig := x4\<rparr>) = sizes_ok s"
  "sizes_ok (s\<lparr>cl_current_config := x5\<rparr>) = sizes_ok s"
  "sizes_ok (s\<lparr>cl_finished_latch := x6\<rparr>) = sizes_ok s"
  "sizes_ok (s\<lparr>cl_leader_election_latch := x7\<rparr>) = sizes_ok s"
  "sizes_ok (s\<lparr>cl_reconfig := x8\<rparr>) = sizes_ok s" "sizes_ok (s\<lparr>cl_pending_proposals := x9\<rparr>) = sizes_ok s"
  "sizes_ok (s\<lparr>cl_retry_proposals := x10\<rparr>) = sizes_ok s"
  by (simp_all add: sizes_ok_def)

lemma windowD:
  assumes "window s"
  shows "distinct (map fst (cl_pending_proposals s))" "distinct (map fst (cl_responses s))"
    "distinct (map fst (cl_retry_proposals s))"
    "keys (cl_pending_proposals s) \<inter> keys (cl_responses s) = {}"
    "keys (cl_pending_proposals s) \<inter> keys (cl_retry_proposals s) = {}"
    "keys (cl_responses s) \<inter> keys (cl_retry_proposals s) = {}"
    "(keys (cl_pending_proposals s) - {0}) \<union> keys (cl_responses s) \<union> keys (cl_retry_proposals s)
       = {1..cl_latest_proposal_id s}"
    "length (cl_pending_proposals s) \<le> unat (cl_num_concurrent_proposals s)"
    "cl_latest_proposal_id s \<le> cl_num_proposals s"
    "0 \<in> keys (cl_pending_proposals s) \<Longrightarrow> cl_reconfig s \<noteq> None"
  by (use assms in \<open>simp_all only: window_def simp_thms\<close>)

lemma length_keys: "distinct (map fst l) \<Longrightarrow> length l = card (keys l)"
  using distinct_card [of "map fst l"] by simp

lemma zero_notin_ids: "(0 :: u64) \<notin> {1..n}"
  by simp

lemma window_zero:
  assumes "window s"
  shows "0 \<notin> keys (cl_responses s)" "0 \<notin> keys (cl_retry_proposals s)"
  using windowD(7) [OF assms] zero_notin_ids [of "cl_latest_proposal_id s"] by blast+

lemma part_full: "P \<inter> R = {} \<Longrightarrow> R \<inter> T = {} \<Longrightarrow> P - Z \<union> R \<union> T = I \<Longrightarrow> R = I \<Longrightarrow> P - Z = {} \<and> T = {}"
  by blast

lemma part_move: "P \<union> R \<union> T = I \<Longrightarrow> T = A \<union> B \<Longrightarrow> P \<union> A \<union> R \<union> B = I"
  by blast

lemma disjoint_sub: "A \<subseteq> T \<Longrightarrow> P \<inter> T = {} \<Longrightarrow> P \<inter> A = {}"
  by blast

lemma part_new:
  "P \<subseteq> insert z I \<Longrightarrow> R \<subseteq> I \<Longrightarrow> I \<inter> J = {} \<Longrightarrow> z \<notin> J \<Longrightarrow> P \<inter> J = {} \<and> J \<inter> R = {}"
  by blast

lemma window_count:
  assumes "window s"
  shows "length (cl_responses s) \<le> unat (cl_latest_proposal_id s)"
    and "length (cl_responses s) = unat (cl_num_proposals s) \<Longrightarrow>
      keys (cl_pending_proposals s) \<subseteq> {0} \<and> cl_retry_proposals s = [] \<and> cl_latest_proposal_id s = cl_num_proposals s"
proof -
  note w = windowD [OF assms]
  have len: "length (cl_responses s) = card (keys (cl_responses s))"
    by (rule length_keys [OF w(2)])
  have sub: "keys (cl_responses s) \<subseteq> {1..cl_latest_proposal_id s}"
    using w(7) by blast
  show le: "length (cl_responses s) \<le> unat (cl_latest_proposal_id s)"
    using len card_mono [OF _ sub] by (simp add: card_ids)
  assume all: "length (cl_responses s) = unat (cl_num_proposals s)"
  then have eq: "unat (cl_latest_proposal_id s) = unat (cl_num_proposals s)"
    using le w(9) by (simp add: word_le_nat_alt)
  then have "keys (cl_responses s) = {1..cl_latest_proposal_id s}"
    using card_subset_eq [OF _ sub] len all by (simp add: card_ids)
  then have "keys (cl_pending_proposals s) - {0} = {} \<and> keys (cl_retry_proposals s) = {}"
    using part_full [OF w(4) w(6) w(7)] by blast
  then show "keys (cl_pending_proposals s) \<subseteq> {0} \<and> cl_retry_proposals s = []
      \<and> cl_latest_proposal_id s = cl_num_proposals s"
    using eq by (simp add: word_unat_eq_iff)
qed

lemma ids_split:
  assumes "unat a \<le> unat b" "unat b < 2 ^ 64 - 1"
  shows "{1..a} \<union> {a + 1..b} = {1..b :: u64}" "{1..a} \<inter> {a + 1..b :: u64} = {}" "0 \<notin> {a + 1..b :: u64}"
proof -
  have app: "id_range 1 a @ id_range (a + 1) b = id_range 1 b"
    using assms by (rule ids_append)
  then show "{1..a} \<union> {a + 1..b} = {1..b :: u64}"
    by (metis id_range_props(1) set_append)
  show "{1..a} \<inter> {a + 1..b :: u64} = {}"
    using app id_range_props(1,2) by (metis distinct_append)
  have "{a + 1..b} \<subseteq> {1..b}"
    using \<open>{1..a} \<union> {a + 1..b} = {1..b}\<close> by blast
  then show "0 \<notin> {a + 1..b :: u64}"
    using zero_notin_ids by blast
qed

definition extended :: "'p Client \<Rightarrow> (u64 \<times> nat option) list \<Rightarrow> u64 \<Rightarrow> (u64 \<times> nat option) list \<Rightarrow> 'p Client" where
  "extended s ps l' r' = s\<lparr>cl_pending_proposals := cl_pending_proposals s @ ps, cl_latest_proposal_id := l',
     cl_retry_proposals := r'\<rparr>"

definition send_outs :: "'p Client \<Rightarrow> (u64 \<times> nat option) list \<Rightarrow> 'p cl_out list" where
  "send_outs s ps = concat (map (\<lambda>(i, t). [propose_normal i (the (map_of (cl_nodes s) (cl_current_leader s))),
     ClSchedule i]) ps)"

lemma extended_none [simp]: "extended s [] (cl_latest_proposal_id s) (cl_retry_proposals s) = s" "send_outs s [] = []"
  by (simp_all add: extended_def send_outs_def)

lemma window_extend:
  assumes w: "window s" and "distinct (map fst ps)" "distinct (map fst r')"
    and "0 \<notin> keys ps" "keys (cl_pending_proposals s) \<inter> keys ps = {}" "keys ps \<inter> keys (cl_responses s) = {}"
    and "keys (cl_pending_proposals s) \<inter> keys r' = {}" "keys ps \<inter> keys r' = {}" "keys (cl_responses s) \<inter> keys r' = {}"
    and "(keys (cl_pending_proposals s) - {0}) \<union> keys ps \<union> keys (cl_responses s) \<union> keys r' = {1..l'}"
    and "length (cl_pending_proposals s) + length ps \<le> unat (cl_num_concurrent_proposals s)"
    and "l' \<le> cl_num_proposals s"
  shows "window (extended s ps l' r')"
proof -
  have "keys (cl_pending_proposals s @ ps) - {0} = (keys (cl_pending_proposals s) - {0}) \<union> keys ps"
    using assms(4) by auto
  then show ?thesis
    using assms windowD [OF w] unfolding window_def extended_def by (simp add: image_Un Int_Un_distrib Int_Un_distrib2 Un_ac)
qed

lemma inflight:
  assumes "window s"
  shows "unat (word_of_nat (length (cl_pending_proposals s)) :: u64) = length (cl_pending_proposals s)"
    and "word_of_nat (length (cl_pending_proposals s)) \<le> cl_num_concurrent_proposals s"
    and "(word_of_nat (length (cl_pending_proposals s)) = cl_num_concurrent_proposals s)
      = (length (cl_pending_proposals s) = unat (cl_num_concurrent_proposals s))"
    and "unat (cl_num_concurrent_proposals s - word_of_nat (length (cl_pending_proposals s)))
      = unat (cl_num_concurrent_proposals s) - length (cl_pending_proposals s)"
proof -
  note le = windowD(8) [OF assms]
  show len: "unat (word_of_nat (length (cl_pending_proposals s)) :: u64) = length (cl_pending_proposals s)"
    using le_less_trans [OF le unat_u64_less] by (intro unat_of_nat_u64) simp
  then show "word_of_nat (length (cl_pending_proposals s)) \<le> cl_num_concurrent_proposals s"
    using le by (simp add: word_le_nat_alt)
  then show "unat (cl_num_concurrent_proposals s - word_of_nat (length (cl_pending_proposals s)))
      = unat (cl_num_concurrent_proposals s) - length (cl_pending_proposals s)"
    using len by (simp add: unat_sub)
  show "(word_of_nat (length (cl_pending_proposals s)) = cl_num_concurrent_proposals s)
      = (length (cl_pending_proposals s) = unat (cl_num_concurrent_proposals s))"
    using len by (simp add: word_unat_eq_iff)
qed

lemma latest_Suc:
  assumes "window s" "sizes_ok s"
  shows "unat (cl_latest_proposal_id s + 1) = Suc (unat (cl_latest_proposal_id s))"
  using windowD(9) [OF assms(1)] assms(2) by (intro unat_Suc_u64) (simp add: sizes_ok_def word_le_nat_alt)

text \<open>Retrying held-back proposals.\<close>

lemma send_retry:
  assumes w: "window s" and room: "length (cl_pending_proposals s) < unat (cl_num_concurrent_proposals s)"
    and l: "cl_current_leader s \<noteq> 0" "cl_current_leader s \<in> keys (cl_nodes s)" and r: "cl_retry_proposals s \<noteq> []"
    and n: "n = min (length (cl_retry_proposals s))
      (unat (cl_num_concurrent_proposals s) - length (cl_pending_proposals s))"
  shows "send_concurrent_proposals now s
      = Inr (extended s (take n (cl_retry_proposals s)) (cl_latest_proposal_id s) (drop n (cl_retry_proposals s)),
             send_outs s (take n (cl_retry_proposals s)))"
    and "window (extended s (take n (cl_retry_proposals s)) (cl_latest_proposal_id s) (drop n (cl_retry_proposals s)))"
proof -
  note wd = windowD [OF w]
  let ?t = "take n (cl_retry_proposals s)" and ?d = "drop n (cl_retry_proposals s)"
  have td: "keys (cl_retry_proposals s) = keys ?t \<union> keys ?d" "distinct (map fst (?t @ ?d))"
    using wd(3) by (simp_all flip: image_Un set_append)
  have sub: "keys ?t \<subseteq> keys (cl_retry_proposals s)" "keys ?d \<subseteq> keys (cl_retry_proposals s)"
    using td(1) by blast+
  obtain leader where leader: "map_of (cl_nodes s) (cl_current_leader s) = Some leader"
    using l(2) by (metis map_of_eq_None_iff not_None_eq)
  have dt: "distinct (map fst ?t)"
    using td(2) by (metis map_append distinct_append)
  have disj: "keys ?t \<inter> keys (cl_pending_proposals s) = {}"
    using sub(1) wd(5) by blast
  have "for_each (send_proposal leader) ?t (s\<lparr>cl_retry_proposals := ?d\<rparr>)
      = Inr (extended s ?t (cl_latest_proposal_id s) ?d, send_outs s ?t)"
    using for_each_send [of ?t "s\<lparr>cl_retry_proposals := ?d\<rparr>" leader, OF dt] disj leader
    by (simp add: extended_def send_outs_def)
  then show "send_concurrent_proposals now s
      = Inr (extended s ?t (cl_latest_proposal_id s) ?d, send_outs s ?t)"
    using inflight [OF w] room l(1) r n leader
    by (simp add: send_concurrent_proposals_def Let_def rassert_def)
  have un: "keys (cl_pending_proposals s) - {0} \<union> keys ?t \<union> keys (cl_responses s) \<union> keys ?d
      = {1..cl_latest_proposal_id s}"
    by (rule part_move [OF wd(7) td(1)])
  show "window (extended s ?t (cl_latest_proposal_id s) ?d)"
  proof (rule window_extend [OF w dt])
    show "distinct (map fst ?d)" "keys ?t \<inter> keys ?d = {}"
      using td(2) unfolding map_append distinct_append set_map by blast+
    show "0 \<notin> keys ?t"
      using sub(1) window_zero(2) [OF w] by (rule contra_subsetD)
    show "keys (cl_pending_proposals s) \<inter> keys ?t = {}" "keys (cl_pending_proposals s) \<inter> keys ?d = {}"
      by (rule disjoint_sub [OF sub(1) wd(5)], rule disjoint_sub [OF sub(2) wd(5)])
    show "keys ?t \<inter> keys (cl_responses s) = {}" "keys (cl_responses s) \<inter> keys ?d = {}"
      using disjoint_sub [OF sub(1) wd(6)] disjoint_sub [OF sub(2) wd(6)] by (simp_all only: Int_commute)
    show "length (cl_pending_proposals s) + length ?t \<le> unat (cl_num_concurrent_proposals s)"
      using n room by simp
  qed (rule un, rule wd(9))
qed

text \<open>Sending new proposals: as many as fit into the window, or all that are left.\<close>

lemma send_new:
  assumes w: "window s" and z: "sizes_ok s"
    and room: "length (cl_pending_proposals s) < unat (cl_num_concurrent_proposals s)"
    and l: "cl_current_leader s \<noteq> 0" "cl_current_leader s \<in> keys (cl_nodes s)" and r: "cl_retry_proposals s = []"
  obtains ps l' where "send_concurrent_proposals now s = Inr (extended s ps l' [], send_outs s ps)"
    "window (extended s ps l' [])" "map fst ps = id_range (cl_latest_proposal_id s + 1) l'"
    "unat (cl_latest_proposal_id s) \<le> unat l'"
    "length (cl_pending_proposals s) + length ps = unat (cl_num_concurrent_proposals s) \<or> l' = cl_num_proposals s"
proof -
  note wd = windowD [OF w]
  let ?av = "cl_num_concurrent_proposals s - word_of_nat (length (cl_pending_proposals s))"
  let ?lat = "cl_latest_proposal_id s" and ?np = "cl_num_proposals s" and ?len = "length (cl_pending_proposals s)"
  define to where "to = (if ?lat + ?av > ?np then ?np else ?lat + ?av)"
  define ps where "ps = map (\<lambda>i. (i, if cl_num_concurrent_proposals s = 1 then Some now else None)) (id_range (?lat + 1) to)"
  have av: "unat (?lat + ?av) = unat ?lat + (unat (cl_num_concurrent_proposals s) - ?len)"
  proof -
    have "unat ?lat + unat ?av < 2 ^ 64"
      using inflight(4) [OF w] wd(9) z unfolding sizes_ok_def word_le_nat_alt by linarith
    then show ?thesis
      using unat_add_u64 inflight(4) [OF w] by simp
  qed
  have to: "unat to = min (unat ?np) (unat ?lat + (unat (cl_num_concurrent_proposals s) - ?len))" "unat ?lat \<le> unat to"
    using av wd(9) by (auto simp: to_def word_less_nat_alt word_le_nat_alt)
  have le: "unat to \<le> unat ?np" "unat to < 2 ^ 64 - 1"
    using to z by (auto simp: sizes_ok_def)
  note split = ids_split [OF to(2) le(2)]
  have ps: "map fst ps = id_range (?lat + 1) to" "keys ps = {?lat + 1..to}" "length ps = unat to - unat ?lat"
    using id_range_props [of "?lat + 1" to] latest_Suc [OF w z] by (simp_all add: ps_def comp_def image_image)
  have sub: "keys (cl_pending_proposals s) \<subseteq> insert 0 {1..?lat}" "keys (cl_responses s) \<subseteq> {1..?lat}"
    using wd(7) by blast+
  have disj: "keys (cl_pending_proposals s) \<inter> keys ps = {}" "keys ps \<inter> keys (cl_responses s) = {}" "0 \<notin> keys ps"
    unfolding ps(2) using part_new [OF sub(1) sub(2) split(2,3)] split(3) by blast+
  have un: "keys (cl_pending_proposals s) - {0} \<union> keys ps \<union> keys (cl_responses s) \<union> keys ([] :: (u64 \<times> nat option) list)
      = {1..to}"
    using wd(7) split(1) r unfolding ps(2) by auto
  have win: "window (extended s ps to [])"
  proof (rule window_extend [OF w _ _ disj(3) disj(1,2) _ _ _ un])
    show "?len + length ps \<le> unat (cl_num_concurrent_proposals s)"
      using ps(3) to room by linarith
    show "to \<le> ?np"
      using le(1) by (simp add: word_le_nat_alt)
  qed (simp_all add: ps(1) id_range_props(2))
  obtain leader where leader: "map_of (cl_nodes s) (cl_current_leader s) = Some leader"
    using l(2) by (metis map_of_eq_None_iff not_None_eq)
  have each: "for_each (send_proposal leader) ps s = Inr (s\<lparr>cl_pending_proposals := cl_pending_proposals s @ ps\<rparr>, send_outs s ps)"
    using for_each_send [of ps s leader] ps(1) id_range_props(2) disj(1) leader
    by (simp add: send_outs_def inf.commute)
  have none: "ps = []" if "to < ?lat + 1"
    using that ps(3) latest_Suc [OF w z] by (simp add: word_less_nat_alt)
  have send: "send_concurrent_proposals now s = (if to < ?lat + 1 then Inr (s, [])
      else step_then (for_each (send_proposal leader) ps s) (\<lambda>s. Inr (s\<lparr>cl_latest_proposal_id := to\<rparr>, [])))"
    using inflight [OF w] room l(1) r leader
    by (simp add: send_concurrent_proposals_def Let_def rassert_def to_def ps_def)
  have "send_concurrent_proposals now s = Inr (extended s ps to [], send_outs s ps)"
  proof (cases "to < ?lat + 1")
    case True
    then have "to = ?lat" "ps = []"
      using to(2) none latest_Suc [OF w z] by (simp_all add: word_less_nat_alt word_unat_eq_iff)
    then show ?thesis
      using send True r extended_none [of s] by simp
  next
    case False
    then show ?thesis
      using send each r by (simp add: extended_def)
  qed
  moreover have "?len + length ps = unat (cl_num_concurrent_proposals s) \<or> to = ?np"
    using to(1) ps(3) room by (auto simp: word_unat_eq_iff)
  ultimately show thesis
    using that win ps(1) to(2) by blast
qed

lemma send_proposals:
  assumes w: "window s" and z: "sizes_ok s" and l: "cl_current_leader s \<noteq> 0 \<longrightarrow> cl_current_leader s \<in> keys (cl_nodes s)"
  obtains ps l' r' where "send_concurrent_proposals now s = Inr (extended s ps l' r', send_outs s ps)"
    "window (extended s ps l' r')" "unat (cl_latest_proposal_id s) \<le> unat l'"
    "cl_retry_proposals s = [] \<Longrightarrow> r' = [] \<and> map fst ps = id_range (cl_latest_proposal_id s + 1) l'"
    "cl_retry_proposals s = [] \<Longrightarrow> cl_current_leader s \<noteq> 0 \<Longrightarrow>
      length (cl_pending_proposals s) + length ps = unat (cl_num_concurrent_proposals s) \<or> l' = cl_num_proposals s"
proof -
  have none: "id_range (cl_latest_proposal_id s + 1) (cl_latest_proposal_id s) = []"
    using latest_Suc [OF w z] id_range_props(3) [of "cl_latest_proposal_id s + 1" "cl_latest_proposal_id s"] by simp
  consider "length (cl_pending_proposals s) = unat (cl_num_concurrent_proposals s) \<or> cl_current_leader s = 0"
    | "length (cl_pending_proposals s) < unat (cl_num_concurrent_proposals s)" "cl_current_leader s \<noteq> 0"
      "cl_retry_proposals s \<noteq> []"
    | "length (cl_pending_proposals s) < unat (cl_num_concurrent_proposals s)" "cl_current_leader s \<noteq> 0"
      "cl_retry_proposals s = []"
    using windowD(8) [OF w] by linarith
  then show thesis
  proof cases
    case 1
    then have "send_concurrent_proposals now s = Inr (s, [])"
      using inflight(2,3) [OF w] by (auto simp: send_concurrent_proposals_def Let_def rassert_def)
    then show thesis
      using that [of "[]" "cl_latest_proposal_id s" "cl_retry_proposals s"] w none 1 by auto
  next
    case 2
    then show thesis
      using send_retry [OF w 2(1,2) _ 2(3) refl] l that by blast
  next
    case 3
    then obtain ps l' where "send_concurrent_proposals now s = Inr (extended s ps l' [], send_outs s ps)"
      "window (extended s ps l' [])" "map fst ps = id_range (cl_latest_proposal_id s + 1) l'"
      "unat (cl_latest_proposal_id s) \<le> unat l'"
      "length (cl_pending_proposals s) + length ps = unat (cl_num_concurrent_proposals s) \<or> l' = cl_num_proposals s"
      using send_new [OF w z 3(1,2) _ 3(3), of now] l by blast
    then show thesis
      using that by blast
  qed
qed

subsection \<open>The invariant of a run\<close>

definition client_inv :: "'p Client \<Rightarrow> bool" where
  "client_inv s \<longleftrightarrow> window s \<and> sizes_ok s \<and> set (cl_current_config s) \<subseteq> keys (cl_nodes s) - {0} \<and>
     (cl_current_leader s \<noteq> 0 \<longrightarrow> cl_current_leader s \<in> keys (cl_nodes s)) \<and>
     (if cl_state s = Finished
      then cl_pending_proposals s = [] \<and> length (cl_responses s) = unat (cl_num_proposals s) \<and> cl_finished_latch s = 0
      else (cl_reconfig s = None \<longrightarrow> length (cl_responses s) < unat (cl_num_proposals s)) \<and> cl_finished_latch s = 1) \<and>
     (cl_state s = LeaderElection \<longrightarrow> cl_latest_proposal_id s = 0 \<and> cl_pending_proposals s = []) \<and>
     (\<forall>f. cl_first_proposal_after_reconfig s = Some f \<longrightarrow> f \<le> cl_latest_proposal_id s)"

lemma client_invD:
  assumes "client_inv s"
  shows "window s" "sizes_ok s" "set (cl_current_config s) \<subseteq> keys (cl_nodes s) - {0}"
    "cl_current_leader s \<noteq> 0 \<longrightarrow> cl_current_leader s \<in> keys (cl_nodes s)"
    "if cl_state s = Finished
      then cl_pending_proposals s = [] \<and> length (cl_responses s) = unat (cl_num_proposals s) \<and> cl_finished_latch s = 0
      else (cl_reconfig s = None \<longrightarrow> length (cl_responses s) < unat (cl_num_proposals s)) \<and> cl_finished_latch s = 1"
    "cl_state s = LeaderElection \<longrightarrow> cl_latest_proposal_id s = 0 \<and> cl_pending_proposals s = []"
    "\<forall>f. cl_first_proposal_after_reconfig s = Some f \<longrightarrow> f \<le> cl_latest_proposal_id s"
  by - (insert assms, unfold client_inv_def, (elim conjE, assumption)+)

lemma inv_send:
  assumes i: "client_inv s" and le: "cl_state s \<noteq> LeaderElection"
  obtains ps l' r' where "send_concurrent_proposals now s = Inr (extended s ps l' r', send_outs s ps)"
    "client_inv (extended s ps l' r')" "unat (cl_latest_proposal_id s) \<le> unat l'"
    "cl_retry_proposals s = [] \<Longrightarrow> r' = [] \<and> map fst ps = id_range (cl_latest_proposal_id s + 1) l'"
    "cl_retry_proposals s = [] \<Longrightarrow> cl_current_leader s \<noteq> 0 \<Longrightarrow>
      length (cl_pending_proposals s) + length ps = unat (cl_num_concurrent_proposals s) \<or> l' = cl_num_proposals s"
proof -
  note d = client_invD [OF i]
  obtain ps l' r' where r: "send_concurrent_proposals now s = Inr (extended s ps l' r', send_outs s ps)"
    "window (extended s ps l' r')" "unat (cl_latest_proposal_id s) \<le> unat l'"
    "cl_retry_proposals s = [] \<Longrightarrow> r' = [] \<and> map fst ps = id_range (cl_latest_proposal_id s + 1) l'"
    "cl_retry_proposals s = [] \<Longrightarrow> cl_current_leader s \<noteq> 0 \<Longrightarrow>
      length (cl_pending_proposals s) + length ps = unat (cl_num_concurrent_proposals s) \<or> l' = cl_num_proposals s"
    using send_proposals [OF d(1,2,4), of now] by blast
  have "ps = []" if "cl_state s = Finished"
  proof -
    have all: "cl_retry_proposals s = []" "cl_latest_proposal_id s = cl_num_proposals s"
      using window_count(2) [OF d(1)] d(5) that by simp_all
    have "unat l' \<le> unat (cl_num_proposals s)"
      using windowD(9) [OF r(2)] by (simp add: extended_def word_le_nat_alt)
    then have "length (map fst ps) = 0"
      using r(3,4) all latest_Suc [OF d(1,2)] id_range_props(3) [of "cl_latest_proposal_id s + 1" l'] by simp
    then show ?thesis
      by simp
  qed
  then have "client_inv (extended s ps l' r')"
    using r(2,3) d le unfolding client_inv_def
    by (auto simp: extended_def sizes_ok_def word_le_nat_alt intro: order_trans)
  then show thesis
    using that r by blast
qed

text \<open>An answered proposal moves from the window to the responses.\<close>

definition answered :: "u64 \<Rightarrow> nat option \<Rightarrow> 'p Client \<Rightarrow> 'p Client" where
  "answered i latency s = s\<lparr>cl_pending_proposals := AList.delete i (cl_pending_proposals s),
     cl_responses := AList.update i latency (cl_responses s)\<rparr>"

lemma keys_delete: "keys (AList.delete k l) = keys l - {k}"
  using AList.delete_keys [of k l] by (metis list.set_map set_removeAll)

lemma length_delete: "distinct (map fst l) \<Longrightarrow> k \<in> keys l \<Longrightarrow> Suc (length (AList.delete k l)) = length l"
  by (metis keys_delete card_Suc_Diff1 finite_imageI List.finite_set length_keys AList.distinct_delete)

lemma length_update_new: "distinct (map fst l) \<Longrightarrow> k \<notin> keys l \<Longrightarrow> length (AList.update k v l) = Suc (length l)"
  using length_keys [of l] length_keys [of "AList.update k v l"] AList.distinct_update [of l k v]
  by (simp add: AList.dom_update)

lemma part_answer:
  "P \<inter> R = {} \<Longrightarrow> P \<inter> T = {} \<Longrightarrow> R \<inter> T = {} \<Longrightarrow> P - {z} \<union> R \<union> T = I \<Longrightarrow> x \<in> P \<Longrightarrow> x \<noteq> z \<Longrightarrow>
   (P - {x}) \<inter> ({x} \<union> R) = {} \<and> (P - {x}) \<inter> T = {} \<and> ({x} \<union> R) \<inter> T = {} \<and> P - {x} - {z} \<union> ({x} \<union> R) \<union> T = I"
  by blast

lemma window_answered:
  assumes w: "window s" and i: "i \<in> keys (cl_pending_proposals s)" "i \<noteq> 0"
  shows "window (answered i latency s)"
    and "length (cl_responses (answered i latency s)) = Suc (length (cl_responses s))"
    and "Suc (length (cl_pending_proposals (answered i latency s))) = length (cl_pending_proposals s)"
proof -
  note d = windowD [OF w]
  have new: "i \<notin> keys (cl_responses s)"
    using i(1) d(4) by (metis disjoint_iff)
  show "length (cl_responses (answered i latency s)) = Suc (length (cl_responses s))"
    using length_update_new [OF d(2) new] by (simp add: answered_def)
  show len: "Suc (length (cl_pending_proposals (answered i latency s))) = length (cl_pending_proposals s)"
    using length_delete [OF d(1) i(1)] by (simp add: answered_def)
  have "length (AList.delete i (cl_pending_proposals s)) \<le> unat (cl_num_concurrent_proposals s)"
    using len d(8) by (simp add: answered_def)
  then show "window (answered i latency s)"
    using part_answer [OF d(4,5,6,7) i] d AList.distinct_delete [OF d(1), of i]
      AList.distinct_update [OF d(2), of i latency]
    by (simp add: window_def answered_def keys_delete AList.dom_update)
qed

definition finishes :: "'p cl_out list \<Rightarrow> nat" where
  "finishes out = length (filter (\<lambda>o'. case o' of ClFinishedLatch \<Rightarrow> True | _ \<Rightarrow> False) out)"

lemma finishes_simps [simp]:
  "finishes [] = 0" "finishes (a @ b) = finishes a + finishes b" "finishes [ClFinishedLatch] = 1"
  "finishes [ClTell n m] = 0" "finishes [ClSchedule i] = 0" "finishes [ClCancel i] = 0" "finishes [ClElectionLatch] = 0"
  "finishes (send_outs s ps) = 0" "finishes (ClCancel i # b) = finishes b" "finishes (ClTell n m # b) = finishes b"
  by (induction ps) (auto simp: finishes_def send_outs_def propose_normal_def)

text \<open>The proposals of ordinary entries among the outputs.\<close>

definition proposed :: "'p cl_out list \<Rightarrow> Proposal list" where
  "proposed out = List.map_filter (\<lambda>o'. case o' of
     ClTell n (ProposalMsg p) \<Rightarrow> if prop_reconfig p = None then Some p else None | _ \<Rightarrow> None) out"

lemma proposed_simps [simp]:
  "proposed [] = []" "proposed (a @ b) = proposed a @ proposed b" "proposed [ClFinishedLatch] = []"
  "proposed [ClSchedule i] = []" "proposed [ClCancel i] = []" "proposed [ClElectionLatch] = []"
  "proposed (ClCancel i # b) = proposed b"
  "proposed (send_outs s ps) = map (\<lambda>i. proposal_normal (put_u64 i)) (map fst ps)"
  by (induction ps) (auto simp: proposed_def send_outs_def propose_normal_def proposal_normal_def map_filter_append
      List.map_filter_simps)

lemma length_update_le: "length (AList.update k v l) \<le> Suc (length l)"
  by (induction l) auto

lemma part_zero: "P \<inter> R = {} \<Longrightarrow> z \<notin> R \<Longrightarrow> ({z} \<union> P) \<inter> R = {}" "{z} \<union> P - {z} = P - {z}"
  by blast+

lemma no_keys: "keys l \<subseteq> {z} \<Longrightarrow> z \<notin> keys l \<Longrightarrow> l = []"
  by (cases l) auto

lemma window_reconfig:
  assumes w: "window s" and "cl_reconfig s \<noteq> None"
    "length (cl_pending_proposals s) < unat (cl_num_concurrent_proposals s)"
  shows "window (s\<lparr>cl_pending_proposals := AList.update 0 t (cl_pending_proposals s)\<rparr>)"
proof -
  note d = windowD [OF w]
  have "keys (AList.update 0 t (cl_pending_proposals s)) = {0} \<union> keys (cl_pending_proposals s)"
    by (rule AList.dom_update)
  moreover have "length (AList.update 0 t (cl_pending_proposals s)) \<le> unat (cl_num_concurrent_proposals s)"
    using length_update_le [of 0 t "cl_pending_proposals s"] assms(3) by linarith
  ultimately show ?thesis
    using part_zero(1) [OF d(4) window_zero(1) [OF w]] part_zero(1) [OF d(5) window_zero(2) [OF w]]
      part_zero(2) [of 0 "keys (cl_pending_proposals s)"] d AList.distinct_update [OF d(1), of 0 t] assms(2)
    unfolding window_def by simp
qed

lemma response_counted:
  assumes i: "client_inv s" and st: "cl_state s = Running \<or> cl_state s = ReconfigurationElection"
    and p: "p \<in> keys (cl_pending_proposals s)" "p \<noteq> 0"
  obtains s' out where
    "handle_normal_response p latency (s\<lparr>cl_pending_proposals := AList.delete p (cl_pending_proposals s)\<rparr>) = Inr (s', out)"
    "client_inv s'" "cl_state s' = cl_state s \<or> cl_state s' = Finished"
    "finishes out + cl_finished_latch s' = cl_finished_latch s" "cl_num_proposals s' = cl_num_proposals s"
    "cl_num_concurrent_proposals s' = cl_num_concurrent_proposals s"
    "cl_reconfig s = None \<Longrightarrow> proposed out = [] \<and> cl_reconfig s' = None \<and> cl_retry_proposals s' = cl_retry_proposals s
       \<and> cl_latest_proposal_id s' = cl_latest_proposal_id s \<and> cl_current_leader s' = cl_current_leader s
       \<and> cl_first_proposal_after_reconfig s' = cl_first_proposal_after_reconfig s"
proof -
  note d = client_invD [OF i]
  let ?s = "answered p latency s"
  have w: "window ?s" "length (cl_responses ?s) = Suc (length (cl_responses s))"
    "Suc (length (cl_pending_proposals ?s)) = length (cl_pending_proposals s)"
    using window_answered [OF d(1) p] by simp_all
  have latch: "cl_finished_latch s = 1" "cl_reconfig s = None \<longrightarrow> length (cl_responses s) < unat (cl_num_proposals s)"
    using d(5) st by auto
  have same: "cl_num_proposals ?s = cl_num_proposals s" "cl_reconfig ?s = cl_reconfig s" "cl_nodes ?s = cl_nodes s"
    "cl_finished_latch ?s = 1" "cl_state ?s = cl_state s" "cl_current_leader ?s = cl_current_leader s"
    "cl_retry_proposals ?s = cl_retry_proposals s" "cl_latest_proposal_id ?s = cl_latest_proposal_id s"
    "cl_num_concurrent_proposals ?s = cl_num_concurrent_proposals s"
    "cl_first_proposal_after_reconfig ?s = cl_first_proposal_after_reconfig s"
    using latch by (simp_all add: answered_def)
  have "length (cl_responses ?s) \<le> unat (cl_num_proposals s)"
    using window_count(1) [OF w(1)] windowD(9) [OF w(1)] same(1) by (simp add: word_le_nat_alt)
  then have cnt: "unat (word_of_nat (length (cl_responses ?s)) :: u64) = length (cl_responses ?s)"
    using le_less_trans [OF _ unat_u64_less [of "cl_num_proposals s"]] by (intro unat_of_nat_u64) simp
  have upd: "cl_responses ?s = AList.update p latency (cl_responses s)"
    by (simp add: answered_def)
  have word: "(word_of_nat (length (cl_responses ?s)) = cl_num_proposals s) = (length (cl_responses ?s) = unat (cl_num_proposals s))"
    using cnt by (simp add: word_unat_eq_iff)
  note hnr = handle_normal_response_def [of p latency "s\<lparr>cl_pending_proposals := AList.delete p (cl_pending_proposals s)\<rparr>"]
  consider (finish) "length (cl_responses ?s) = unat (cl_num_proposals s)" "cl_reconfig s = None"
    | (half) rc where "word_of_nat (length (cl_responses ?s)) = cl_num_proposals s div 2" "cl_reconfig s = Some rc"
    | (other) "\<not> (length (cl_responses ?s) = unat (cl_num_proposals s) \<and> cl_reconfig s = None)"
      "\<not> (word_of_nat (length (cl_responses ?s)) = cl_num_proposals s div 2 \<and> cl_reconfig s \<noteq> None)"
    by (metis not_None_eq)
  then show thesis
  proof cases
    case finish
    have "keys (cl_pending_proposals ?s) \<subseteq> {0}" "0 \<notin> keys (cl_pending_proposals ?s)"
      using window_count(2) [OF w(1)] windowD(10) [OF w(1)] finish same(1,2) by metis+
    then have "cl_pending_proposals ?s = []"
      by (rule no_keys)
    moreover have "handle_normal_response p latency (s\<lparr>cl_pending_proposals := AList.delete p (cl_pending_proposals s)\<rparr>)
        = Inr (?s\<lparr>cl_state := Finished, cl_finished_latch := 0\<rparr>, [ClFinishedLatch])"
      using finish word latch(1) by (simp add: hnr Let_def answered_def)
    ultimately show thesis
      using that [of "?s\<lparr>cl_state := Finished, cl_finished_latch := 0\<rparr>"] w(1) finish d latch(1) same
      unfolding client_inv_def window_def sizes_ok_def answered_def by simp
  next
    case half
    let ?t = "?s\<lparr>cl_pending_proposals := AList.update 0 None (cl_pending_proposals ?s)\<rparr>"
    obtain out where out: "handle_normal_response p latency (s\<lparr>cl_pending_proposals := AList.delete p (cl_pending_proposals s)\<rparr>)
        = Inr (?t, out)" "finishes out = 0"
      using half by (cases "map_of (cl_nodes s) (cl_current_leader s)")
        (auto simp: hnr Let_def answered_def propose_reconfiguration_def)
    have "window ?t"
      using window_reconfig [OF w(1)] w(3) windowD(8) [OF d(1)] half same(2) by (simp add: answered_def)
    then have "client_inv ?t"
      using d half st same unfolding client_inv_def sizes_ok_def by (auto simp: answered_def)
    then show thesis
      using that [of ?t out] out half latch(1) same by simp
  next
    case other
    then have "handle_normal_response p latency (s\<lparr>cl_pending_proposals := AList.delete p (cl_pending_proposals s)\<rparr>)
        = Inr (?s, [])"
      using word by (auto simp: hnr Let_def answered_def)
    moreover have "client_inv ?s"
      using d other w(1,2) st same \<open>length (cl_responses ?s) \<le> unat (cl_num_proposals s)\<close>
      unfolding client_inv_def sizes_ok_def by (auto simp: answered_def)
    ultimately show thesis
      using that [of ?s "[]"] latch(1) same by simp
  qed
qed

text \<open>Holding back: proposals that are in flight wait for a retry.\<close>

lemma part_hold:
  "P \<inter> R = {} \<Longrightarrow> P \<inter> T = {} \<Longrightarrow> R \<inter> T = {} \<Longrightarrow> P - {z} \<union> R \<union> T = I \<Longrightarrow> x \<in> P \<Longrightarrow> x \<noteq> z \<Longrightarrow>
   (P - {x}) \<inter> R = {} \<and> (P - {x}) \<inter> (T \<union> {x}) = {} \<and> R \<inter> (T \<union> {x}) = {} \<and> P - {x} - {z} \<union> R \<union> (T \<union> {x}) = I"
  by blast

lemma window_hold:
  assumes w: "window s" and i: "i \<in> keys (cl_pending_proposals s)" "i \<noteq> 0"
  shows "window (s\<lparr>cl_pending_proposals := AList.delete i (cl_pending_proposals s),
    cl_retry_proposals := cl_retry_proposals s @ [(i, t)]\<rparr>)"
proof -
  note d = windowD [OF w]
  have "i \<notin> keys (cl_retry_proposals s)"
    using i(1) d(5) by (metis disjoint_iff)
  then have "distinct (map fst (cl_retry_proposals s @ [(i, t)]))"
    using d(3) by simp
  moreover have "keys (cl_retry_proposals s @ [(i, t)]) = keys (cl_retry_proposals s) \<union> {i}"
    by simp
  moreover have "length (AList.delete i (cl_pending_proposals s)) \<le> unat (cl_num_concurrent_proposals s)"
    using AList.length_delete_le [of i "cl_pending_proposals s"] d(8) by linarith
  ultimately show ?thesis
    using part_hold [OF d(4,5,6,7) i] d AList.distinct_delete [OF d(1), of i]
    unfolding window_def by (simp add: keys_delete)
qed

lemma map_of_keys: "k \<in> keys l \<Longrightarrow> \<exists>v. map_of l k = Some v" "k \<notin> keys l \<Longrightarrow> map_of l k = None"
  by (metis map_of_eq_None_iff not_None_eq)+

lemma part_where: "P - {z} \<union> R \<union> T = I \<Longrightarrow> x \<in> I \<Longrightarrow> x \<notin> T \<Longrightarrow> x \<noteq> z \<Longrightarrow> x \<in> P \<or> x \<in> R"
  by blast

lemma hold_back_window:
  assumes "window s" "distinct is" "set is \<subseteq> {1..cl_latest_proposal_id s}" "set is \<inter> keys (cl_retry_proposals s) = {}"
  shows "\<exists>P T out. for_each hold_back is s = Inr (s\<lparr>cl_pending_proposals := P, cl_retry_proposals := T\<rparr>, out)
    \<and> window (s\<lparr>cl_pending_proposals := P, cl_retry_proposals := T\<rparr>) \<and> finishes out = 0"
  using assms
proof (induction "is" arbitrary: s)
  case Nil
  then show ?case
    by - (rule exI [of _ "cl_pending_proposals s"], rule exI [of _ "cl_retry_proposals s"], rule exI [of _ "[]"], simp)
next
  case (Cons i js)
  have i: "i \<in> {1..cl_latest_proposal_id s}" "i \<notin> keys (cl_retry_proposals s)" "i \<noteq> 0"
    using Cons.prems(3,4) zero_notin_ids by auto
  show ?case
  proof (cases "i \<in> keys (cl_pending_proposals s)")
    case True
    then obtain t where t: "map_of (cl_pending_proposals s) i = Some t"
      using map_of_keys(1) by metis
    let ?s = "s\<lparr>cl_pending_proposals := AList.delete i (cl_pending_proposals s),
      cl_retry_proposals := cl_retry_proposals s @ [(i, t)]\<rparr>"
    have "window ?s" "set js \<subseteq> {1..cl_latest_proposal_id ?s}" "set js \<inter> keys (cl_retry_proposals ?s) = {}"
      using window_hold [OF Cons.prems(1) True i(3)] Cons.prems(2-4) by auto
    then obtain P T out where "for_each hold_back js ?s = Inr (?s\<lparr>cl_pending_proposals := P, cl_retry_proposals := T\<rparr>, out)"
      "window (?s\<lparr>cl_pending_proposals := P, cl_retry_proposals := T\<rparr>)" "finishes out = 0"
      using Cons.IH [of ?s] Cons.prems(2) by auto
    moreover have "hold_back i s = Inr (?s, [ClCancel i])"
      using t by (simp add: hold_back_def)
    ultimately show ?thesis
      by - (rule exI [of _ P], rule exI [of _ T], rule exI [of _ "ClCancel i # out"], simp)
  next
    case False
    then have "i \<in> keys (cl_responses s)"
      using part_where [OF windowD(7) [OF Cons.prems(1)] i] by blast
    then have "hold_back i s = Inr (s, [])"
      using map_of_keys(2) [OF False] map_of_keys(1) [of i "cl_responses s"] by (auto simp: hold_back_def rassert_def)
    moreover obtain P T out where "for_each hold_back js s = Inr (s\<lparr>cl_pending_proposals := P, cl_retry_proposals := T\<rparr>, out)"
      "window (s\<lparr>cl_pending_proposals := P, cl_retry_proposals := T\<rparr>)" "finishes out = 0"
      using Cons.IH [of s] Cons.prems by auto
    ultimately show ?thesis
      by - (rule exI [of _ P], rule exI [of _ T], rule exI [of _ out], simp)
  qed
qed

subsection \<open>Every step keeps the invariant\<close>

definition outcome :: "'p Client \<Rightarrow> 'p cl_handled \<Rightarrow> bool" where
  "outcome s r \<longleftrightarrow> (\<exists>s' out. r = Inr (s', out) \<and> client_inv s' \<and> finishes out + cl_finished_latch s' = cl_finished_latch s
     \<and> cl_num_proposals s' = cl_num_proposals s \<and> cl_num_concurrent_proposals s' = cl_num_concurrent_proposals s)"

lemma outcome_Inr:
  "client_inv s' \<Longrightarrow> finishes out + cl_finished_latch s' = cl_finished_latch s \<Longrightarrow> cl_num_proposals s' = cl_num_proposals s \<Longrightarrow>
   cl_num_concurrent_proposals s' = cl_num_concurrent_proposals s \<Longrightarrow> outcome s (Inr (s', out))"
  by (simp add: outcome_def)

lemma outcome_from:
  assumes "outcome t r" "cl_finished_latch t = cl_finished_latch s" "cl_num_proposals t = cl_num_proposals s"
    "cl_num_concurrent_proposals t = cl_num_concurrent_proposals s"
  shows "outcome s r"
  using assms unfolding outcome_def by simp

lemma outcome_then:
  assumes "outcome s m" "\<And>s1 out. m = Inr (s1, out) \<Longrightarrow> client_inv s1 \<Longrightarrow> outcome s1 (f s1)"
  shows "outcome s (step_then m f)"
proof -
  obtain s1 o1 where m: "m = Inr (s1, o1)" "client_inv s1" "finishes o1 + cl_finished_latch s1 = cl_finished_latch s"
    "cl_num_proposals s1 = cl_num_proposals s" "cl_num_concurrent_proposals s1 = cl_num_concurrent_proposals s"
    using assms(1) by (auto simp: outcome_def)
  obtain s2 o2 where "f s1 = Inr (s2, o2)" "client_inv s2" "finishes o2 + cl_finished_latch s2 = cl_finished_latch s1"
    "cl_num_proposals s2 = cl_num_proposals s1" "cl_num_concurrent_proposals s2 = cl_num_concurrent_proposals s1"
    using assms(2) [OF m(1,2)] by (auto simp: outcome_def)
  then show ?thesis
    using m by (simp add: outcome_def)
qed

lemma outcome_cancel: "outcome s (f t) \<Longrightarrow> outcome s (step_then (Inr (t, [ClCancel p])) f)"
  by (auto simp: outcome_def)

lemma outcome_send:
  assumes "client_inv s" "cl_state s \<noteq> LeaderElection"
  shows "outcome s (send_concurrent_proposals now s)"
proof -
  obtain ps l' r' where "send_concurrent_proposals now s = Inr (extended s ps l' r', send_outs s ps)"
    "client_inv (extended s ps l' r')"
    using inv_send [OF assms, of now] by blast
  then show ?thesis
    by (simp add: outcome_def extended_def)
qed

text \<open>What the environment may do: the clock does not go back, timers fire for pending proposals, responses can be
  decoded and name known nodes, and a reconfiguration announces only proposals that are not already held
  back.\<close>

definition clock_ok :: "nat \<Rightarrow> 'p Client \<Rightarrow> bool" where
  "clock_ok now s \<longleftrightarrow> (\<forall>(i, t)\<in>set (cl_pending_proposals s). case t of None \<Rightarrow> True | Some start \<Rightarrow> start \<le> now)"

fun client_allowed :: "nat \<times> cl_in \<Rightarrow> 'p Client \<Rightarrow> bool" where
  "client_allowed (now, ClLocal ClientRun) s \<longleftrightarrow> cl_state s = LeaderElection \<and> cl_current_leader s \<noteq> 0"
| "client_allowed (now, ClLocal (ClientStopAsk a)) s \<longleftrightarrow> False"
| "client_allowed (now, ClAbcast (FirstLeader pid)) s \<longleftrightarrow> True"
| "client_allowed (now, ClAbcast (ProposalRespMsg pr)) s \<longleftrightarrow> clock_ok now s \<and>
    (case deserialise_response (presp_data pr) of
       Inl e \<Rightarrow> False
     | Inr (ResponseNormal i, _) \<Rightarrow> True
     | Inr (ResponseReconfiguration config, _) \<Rightarrow> set config \<subseteq> keys (cl_nodes s) - {0} \<and>
         (presp_latest_leader pr = 0 \<or> presp_latest_leader pr \<in> keys (cl_nodes s)))"
| "client_allowed (now, ClAbcast (PendingReconfiguration data)) s \<longleftrightarrow>
    (case get_u64 data of
       Inl e \<Rightarrow> False
     | Inr (d, _) \<Rightarrow> d \<noteq> 0 \<and>
         (cl_state s = Running \<and> cl_reconfig s = None \<longrightarrow> cl_first_proposal_after_reconfig s \<noteq> None) \<and>
         (\<forall>(i, t)\<in>set (cl_retry_proposals s). i < d))"
| "client_allowed (now, ClAbcast (ProposalMsg p)) s \<longleftrightarrow> True"
| "client_allowed (now, ClStop m) s \<longleftrightarrow> False"
| "client_allowed (now, ClTimeout i) s \<longleftrightarrow> i \<in> keys (cl_pending_proposals s) \<and> clock_ok now s"

lemma latency_known:
  assumes "clock_ok now s" "map_of (cl_pending_proposals s) i = Some t"
  shows "\<exists>latency. latency_of now t = Inr latency"
  using assms(1) map_of_SomeD [OF assms(2)] by (auto simp: clock_ok_def latency_of_def split: option.splits)

lemma inv_more:
  assumes "client_inv s"
  shows "client_inv (s\<lparr>cl_num_timed_out := n\<rparr>)" "client_inv (s\<lparr>cl_leader_changes := ls\<rparr>)"
    "pid \<in> keys (cl_nodes s) \<Longrightarrow> client_inv (s\<lparr>cl_current_leader := pid\<rparr>)"
  using assms by (simp_all add: client_inv_def)

lemma outcome_response:
  assumes "client_inv s" "cl_state s = Running \<or> cl_state s = ReconfigurationElection"
    "p \<in> keys (cl_pending_proposals s)" "p \<noteq> 0"
  shows "outcome s (step_then
      (handle_normal_response p latency (s\<lparr>cl_pending_proposals := AList.delete p (cl_pending_proposals s)\<rparr>))
      (\<lambda>s. if cl_state s \<noteq> ReconfigurationElection then send_concurrent_proposals now s else Inr (s, [])))"
    and "cl_state s = Running \<Longrightarrow> outcome s (step_then
      (handle_normal_response p latency (s\<lparr>cl_pending_proposals := AList.delete p (cl_pending_proposals s)\<rparr>))
      (send_concurrent_proposals now))"
proof -
  obtain s' out where r:
    "handle_normal_response p latency (s\<lparr>cl_pending_proposals := AList.delete p (cl_pending_proposals s)\<rparr>) = Inr (s', out)"
    "client_inv s'" "cl_state s' = cl_state s \<or> cl_state s' = Finished"
    "finishes out + cl_finished_latch s' = cl_finished_latch s" "cl_num_proposals s' = cl_num_proposals s"
    "cl_num_concurrent_proposals s' = cl_num_concurrent_proposals s"
    using response_counted [OF assms, of latency] by blast
  have m: "outcome s (Inr (s', out))"
    using r(2,4,5,6) by (rule outcome_Inr)
  have snd: "outcome s' (if cl_state s' \<noteq> ReconfigurationElection then send_concurrent_proposals now s' else Inr (s', []))"
    using outcome_send [OF r(2), of now] r(2,3) assms(2) by (auto intro: outcome_Inr)
  show "outcome s (step_then
      (handle_normal_response p latency (s\<lparr>cl_pending_proposals := AList.delete p (cl_pending_proposals s)\<rparr>))
      (\<lambda>s. if cl_state s \<noteq> ReconfigurationElection then send_concurrent_proposals now s else Inr (s, [])))"
    unfolding r(1) by (rule outcome_then [OF m]) (use snd in simp)
  show "outcome s (step_then
      (handle_normal_response p latency (s\<lparr>cl_pending_proposals := AList.delete p (cl_pending_proposals s)\<rparr>))
      (send_concurrent_proposals now))" if "cl_state s = Running"
    unfolding r(1) by (rule outcome_then [OF m]) (use snd r(3) that in auto)
qed

lemma outcome_timeout:
  assumes i: "client_inv s" and p: "p \<in> keys (cl_pending_proposals s)" and c: "clock_ok now s"
  shows "outcome s (proposal_timeout now p s)"
proof -
  note d = client_invD [OF i]
  obtain t where t: "map_of (cl_pending_proposals s) p = Some t"
    using map_of_keys(1) [OF p] by blast
  have st: "cl_state s = Running \<or> cl_state s = ReconfigurationElection"
    using d(5,6) p by (cases "cl_state s") auto
  have new: "map_of (cl_responses s) p = None"
    using windowD(4) [OF d(1)] p by (metis disjoint_iff map_of_keys(2))
  show ?thesis
  proof (cases "cl_state s = ReconfigurationElection")
    case True
    then show ?thesis
      using i by (simp add: proposal_timeout_def outcome_Inr)
  next
    case run: False
    show ?thesis
    proof (cases "p = 0")
      case True
      then obtain rc where "cl_reconfig s = Some rc"
        using windowD(10) [OF d(1)] p by blast
      then show ?thesis
        using True run new t i
        by (cases "map_of (cl_nodes s) (cl_current_leader s)")
          (simp_all add: proposal_timeout_def outcome_def propose_reconfiguration_def)
    next
      case False
      obtain latency where l: "latency_of now t = Inr latency"
        using latency_known [OF c t] by blast
      have "outcome (s\<lparr>cl_num_timed_out := cl_num_timed_out s + 1\<rparr>) (proposal_timeout now p s)"
        using outcome_response(2) [OF inv_more(1) [OF i, of "cl_num_timed_out s + 1"], of p latency now] run st p False new t l
        by (simp add: proposal_timeout_def)
      then show ?thesis
        by (simp add: outcome_def)
    qed
  qed
qed

lemma outcome_first_leader:
  assumes i: "client_inv s"
  shows "outcome s (handle_first_leader now pid s)"
proof (cases "pid \<in> set (cl_current_config s)")
  case False
  then show ?thesis
    using i by (simp add: handle_first_leader_def outcome_Inr)
next
  case True
  then have pid: "pid \<in> keys (cl_nodes s)"
    using client_invD(3) [OF i] by blast
  show ?thesis
  proof (cases "cl_state s")
    case LeaderElection
    then show ?thesis
      using True inv_more(3) [OF i pid] by (auto simp: handle_first_leader_def Let_def outcome_def client_inv_def)
  next
    case ReconfigurationElection
    let ?s = "(if cl_current_leader s \<noteq> pid
      then s\<lparr>cl_current_leader := pid, cl_leader_changes := cl_leader_changes s @ [pid]\<rparr> else s)\<lparr>cl_state := Running\<rparr>"
    let ?t = "if cl_retry_proposals ?s = [] then ?s\<lparr>cl_first_proposal_after_reconfig := Some (cl_latest_proposal_id ?s)\<rparr> else ?s"
    have "client_inv ?t"
      using i pid ReconfigurationElection by (simp add: client_inv_def)
    then have "outcome ?t (send_concurrent_proposals now ?t)"
      by (rule outcome_send) simp
    then have "outcome s (send_concurrent_proposals now ?t)"
      by (rule outcome_from) simp_all
    then show ?thesis
      using True ReconfigurationElection by (simp add: handle_first_leader_def Let_def del: if_split)
  qed (use True i in \<open>simp_all add: handle_first_leader_def outcome_Inr\<close>)
qed

text \<open>A response may name a new leader of the current configuration.\<close>

definition with_leader :: "u64 \<Rightarrow> 'p Client \<Rightarrow> 'p Client" where
  "with_leader ldr s =
    (if ldr \<in> set (cl_current_config s) \<and> cl_current_leader s \<noteq> ldr \<and> cl_state s \<noteq> ReconfigurationElection
     then s\<lparr>cl_current_leader := ldr, cl_leader_changes := cl_leader_changes s @ [ldr]\<rparr> else s)"

lemma with_leader_same [simp]:
  "cl_state (with_leader ldr s) = cl_state s" "cl_pending_proposals (with_leader ldr s) = cl_pending_proposals s"
  "cl_finished_latch (with_leader ldr s) = cl_finished_latch s" "cl_num_proposals (with_leader ldr s) = cl_num_proposals s"
  "cl_num_concurrent_proposals (with_leader ldr s) = cl_num_concurrent_proposals s"
  "cl_latest_proposal_id (with_leader ldr s) = cl_latest_proposal_id s"
  by (simp_all add: with_leader_def)

lemma with_leader_inv: "client_inv s \<Longrightarrow> client_inv (with_leader ldr s)"
  using client_invD(3) [of s] by (auto simp: client_inv_def with_leader_def)

lemma handle_normal_Some:
  assumes "map_of (cl_pending_proposals s) p = Some t" "latency_of now t = Inr latency"
  shows "handle_normal now ldr p s =
    step_then (Inr ((with_leader ldr s)\<lparr>cl_pending_proposals := AList.delete p (cl_pending_proposals s)\<rparr>, [ClCancel p]))
      (\<lambda>s. step_then (handle_normal_response p latency s)
        (\<lambda>s. if cl_state s \<noteq> ReconfigurationElection then send_concurrent_proposals now s else Inr (s, [])))"
proof -
  have "(with_leader ldr s)\<lparr>cl_pending_proposals := AList.delete p (cl_pending_proposals s)\<rparr> =
      (let s = s\<lparr>cl_pending_proposals := AList.delete p (cl_pending_proposals s)\<rparr>
       in if ldr \<in> set (cl_current_config s) \<and> cl_current_leader s \<noteq> ldr \<and> cl_state s \<noteq> ReconfigurationElection
          then s\<lparr>cl_current_leader := ldr, cl_leader_changes := cl_leader_changes s @ [ldr]\<rparr> else s)"
    by (simp add: Let_def with_leader_def)
  then show ?thesis
    using assms unfolding handle_normal_def Let_def by (simp only: option.case rbind_Inr)
qed

lemma outcome_normal:
  assumes i: "client_inv s" and c: "clock_ok now s" and p: "p \<noteq> 0"
  shows "outcome s (handle_normal now ldr p s)"
proof (cases "map_of (cl_pending_proposals s) p")
  case None
  then show ?thesis
    using i by (simp add: handle_normal_def outcome_Inr)
next
  case (Some t)
  note d = client_invD [OF i]
  have key: "p \<in> keys (cl_pending_proposals s)"
    using Some map_of_keys(2) by fastforce
  have st: "cl_state s = Running \<or> cl_state s = ReconfigurationElection"
    using d(5,6) key by (cases "cl_state s") auto
  obtain latency where l: "latency_of now t = Inr latency"
    using latency_known [OF c Some] by blast
  let ?F = "\<lambda>s. if cl_state s \<noteq> ReconfigurationElection then send_concurrent_proposals now s else Inr (s, [])"
  let ?t = "(with_leader ldr s)\<lparr>cl_pending_proposals := AList.delete p (cl_pending_proposals (with_leader ldr s))\<rparr>"
  have "outcome (with_leader ldr s) (step_then (handle_normal_response p latency ?t) ?F)"
    using with_leader_inv [OF i] by (rule outcome_response(1)) (use st key p in auto)
  then have "outcome s (step_then (handle_normal_response p latency ?t) ?F)"
    by (rule outcome_from) simp_all
  then show ?thesis
    using outcome_cancel handle_normal_Some [OF Some l] by simp
qed

lemma part_drop: "P \<inter> R = {} \<Longrightarrow> (P - {z}) \<inter> R = {}"
  by blast

lemma window_drop_reconfig:
  assumes w: "window s"
  shows "window (s\<lparr>cl_pending_proposals := AList.delete 0 (cl_pending_proposals s)\<rparr>)"
    and "window (s\<lparr>cl_pending_proposals := AList.delete 0 (cl_pending_proposals s), cl_reconfig := rc\<rparr>)"
proof -
  note d = windowD [OF w]
  have keys: "keys (AList.delete 0 (cl_pending_proposals s)) = keys (cl_pending_proposals s) - {0}"
    by (rule keys_delete)
  moreover have "keys (cl_pending_proposals s) - {0} - {0} = keys (cl_pending_proposals s) - {0}"
    "(keys (cl_pending_proposals s) - {0}) \<inter> keys (cl_responses s) = {}"
    "(keys (cl_pending_proposals s) - {0}) \<inter> keys (cl_retry_proposals s) = {}"
    using part_drop [OF d(4), of 0] part_drop [OF d(5), of 0] by simp_all
  moreover have "length (AList.delete 0 (cl_pending_proposals s)) \<le> unat (cl_num_concurrent_proposals s)"
    using AList.length_delete_le [of 0 "cl_pending_proposals s"] d(8) by linarith
  ultimately show "window (s\<lparr>cl_pending_proposals := AList.delete 0 (cl_pending_proposals s)\<rparr>)"
    "window (s\<lparr>cl_pending_proposals := AList.delete 0 (cl_pending_proposals s), cl_reconfig := rc\<rparr>)"
    using d AList.distinct_delete [OF d(1), of 0] unfolding window_def by simp_all
qed

lemma outcome_reconfiguration:
  assumes i: "client_inv s" and cfg: "set config \<subseteq> keys (cl_nodes s) - {0}" "ldr = 0 \<or> ldr \<in> keys (cl_nodes s)"
  shows "outcome s (handle_reconfiguration now ldr config s)"
proof (cases "map_of (cl_pending_proposals s) 0")
  case None
  then show ?thesis
    using i by (simp add: handle_reconfiguration_def outcome_Inr)
next
  case (Some t)
  note d = client_invD [OF i]
  let ?p = "AList.delete 0 (cl_pending_proposals s)"
  have st: "cl_state s \<noteq> Finished" "cl_state s \<noteq> LeaderElection" "cl_finished_latch s = 1"
    using d(5,6) Some by (auto split: if_splits)
  have le: "length (cl_responses s) \<le> unat (cl_num_proposals s)"
    using window_count(1) [OF d(1)] windowD(9) [OF d(1)] by (simp add: word_le_nat_alt)
  then have cnt: "(word_of_nat (length (cl_responses s)) = cl_num_proposals s) = (length (cl_responses s) = unat (cl_num_proposals s))"
    using le_less_trans [OF le unat_u64_less] by (auto simp: word_unat_eq_iff)
  show ?thesis
  proof (cases "length (cl_responses s) = unat (cl_num_proposals s)")
    case True
    have "keys ?p \<subseteq> {0}" "0 \<notin> keys ?p"
      using window_count(2) [OF d(1) True] unfolding keys_delete by blast+
    then have "?p = []"
      by (rule no_keys)
    then have "client_inv (s\<lparr>cl_pending_proposals := ?p, cl_state := Finished, cl_finished_latch := 0\<rparr>)"
      using window_drop_reconfig(1) [OF d(1)] d True by (simp add: client_inv_def)
    then show ?thesis
      using Some cnt True st by (simp add: handle_reconfiguration_def outcome_def)
  next
    case False
    let ?s = "s\<lparr>cl_pending_proposals := ?p, cl_reconfig := None, cl_current_config := config, cl_current_leader := ldr\<rparr>"
    have inv: "client_inv (?s\<lparr>cl_state := Running\<rparr>)" "client_inv (?s\<lparr>cl_state := ReconfigurationElection\<rparr>)"
      using window_drop_reconfig(2) [OF d(1), of None] d(2,7) st(3) False le cfg by (auto simp: client_inv_def)
    have "outcome (?s\<lparr>cl_state := Running\<rparr>) (step_then (send_concurrent_proposals now (?s\<lparr>cl_state := Running\<rparr>))
        (\<lambda>s'. Inr (if cl_current_leader s \<noteq> ldr then s'\<lparr>cl_leader_changes := cl_leader_changes s' @ [ldr]\<rparr> else s', [])))"
      by (rule outcome_then [OF outcome_send [OF inv(1)]]) (auto intro!: outcome_Inr inv_more(2))
    then have "outcome s (step_then (send_concurrent_proposals now (?s\<lparr>cl_state := Running\<rparr>))
        (\<lambda>s'. Inr (if cl_current_leader s \<noteq> ldr then s'\<lparr>cl_leader_changes := cl_leader_changes s' @ [ldr]\<rparr> else s', [])))"
      by (simp add: outcome_def)
    then show ?thesis
      using Some cnt False st inv(2) by (auto simp: handle_reconfiguration_def Let_def outcome_def simp del: split_paired_All)
  qed
qed

lemma outcome_hold_back:
  assumes i: "client_inv s" and st: "cl_state s = Running \<or> cl_state s = ReconfigurationElection"
    and "d \<noteq> 0" "to \<le> cl_latest_proposal_id s" "\<forall>(i, t)\<in>set (cl_retry_proposals s). i < d"
  shows "outcome s (hold_back_proposals d to s)"
    and "hold_back_proposals d to s = Inr (s', out) \<Longrightarrow> cl_state s' = cl_state s"
proof -
  note iv = client_invD [OF i]
  have "set (id_range d to) \<subseteq> {1..cl_latest_proposal_id s}"
    using assms(3,4) by (auto simp: id_range_props(1) word_neq_0_conv word_less_nat_alt word_le_nat_alt)
  moreover have "set (id_range d to) \<inter> keys (cl_retry_proposals s) = {}"
    using assms(5) by (force simp: id_range_props(1))
  ultimately obtain P T out' where r:
    "for_each hold_back (id_range d to) s = Inr (s\<lparr>cl_pending_proposals := P, cl_retry_proposals := T\<rparr>, out')"
    "window (s\<lparr>cl_pending_proposals := P, cl_retry_proposals := T\<rparr>)" "finishes out' = 0"
    using hold_back_window [OF iv(1) id_range_props(2)] by metis
  have "client_inv (s\<lparr>cl_pending_proposals := P, cl_retry_proposals := T\<rparr>)"
    using r(2) iv st unfolding client_inv_def by auto
  then show "outcome s (hold_back_proposals d to s)"
    using r by (simp add: hold_back_proposals_def outcome_def)
  show "hold_back_proposals d to s = Inr (s', out) \<Longrightarrow> cl_state s' = cl_state s"
    using r(1) by (auto simp: hold_back_proposals_def)
qed

lemma outcome_pending_reconfiguration:
  assumes i: "client_inv s" and a: "client_allowed (now, ClAbcast (PendingReconfiguration data)) s"
  shows "outcome s (handle_pending_reconfiguration now data s)"
proof -
  note iv = client_invD [OF i]
  obtain d rest where d: "get_u64 data = Inr (d, rest)" "d \<noteq> 0"
    "cl_state s = Running \<and> cl_reconfig s = None \<longrightarrow> cl_first_proposal_after_reconfig s \<noteq> None"
    "\<forall>(i, t)\<in>set (cl_retry_proposals s). i < d"
    using a by (auto split: sum.splits prod.splits)
  show ?thesis
  proof (cases "cl_state s")
    case Running
    then have st: "cl_state s = Running \<or> cl_state s = ReconfigurationElection"
      by simp
    show ?thesis
    proof (cases "cl_reconfig s")
      case None
      then obtain f where f: "cl_first_proposal_after_reconfig s = Some f"
        using d(3) Running by auto
      have "outcome s (step_then (hold_back_proposals d f s) (send_concurrent_proposals now))"
      proof (rule outcome_then)
        show "outcome s (hold_back_proposals d f s)"
          using iv(7) f by (intro outcome_hold_back(1) [OF i st d(2) _ d(4)]) blast
        show "outcome s1 (send_concurrent_proposals now s1)" if "hold_back_proposals d f s = Inr (s1, out)" "client_inv s1" for s1 out
          using outcome_hold_back(2) [OF i st d(2) _ d(4) that(1)] iv(7) f Running by (intro outcome_send that(2)) simp
      qed
      then show ?thesis
        using Running None d(1) f by (simp add: handle_pending_reconfiguration_def)
    next
      case (Some rc)
      have "outcome s (step_then (hold_back_proposals d (cl_latest_proposal_id s) s)
          (\<lambda>s. Inr (s\<lparr>cl_state := ReconfigurationElection\<rparr>, [])))"
      proof (rule outcome_then)
        show "outcome s (hold_back_proposals d (cl_latest_proposal_id s) s)"
          by (rule outcome_hold_back(1) [OF i st d(2) _ d(4)]) simp
        show "outcome s1 (Inr (s1\<lparr>cl_state := ReconfigurationElection\<rparr>, []))"
          if "hold_back_proposals d (cl_latest_proposal_id s) s = Inr (s1, out)" "client_inv s1" for s1 out
          using outcome_hold_back(2) [OF i st d(2) _ d(4) that(1)] that(2) Running
          by (intro outcome_Inr) (auto simp: client_inv_def)
      qed
      then show ?thesis
        using Running Some d(1) by (simp add: handle_pending_reconfiguration_def)
    qed
  next
    case ReconfigurationElection
    then show ?thesis
      using d(1) outcome_hold_back(1) [OF i _ d(2) order_refl d(4)] by (simp add: handle_pending_reconfiguration_def)
  qed (use d(1) i in \<open>simp_all add: handle_pending_reconfiguration_def outcome_Inr\<close>)
qed

lemma response_normal_nonzero: "deserialise_response data = Inr (ResponseNormal p, rest) \<Longrightarrow> p \<noteq> 0"
  by (auto simp: deserialise_response_def gbind_eq_Inr split: if_splits)

lemma outcome_resp:
  assumes i: "client_inv s" and a: "client_allowed (now, ClAbcast (ProposalRespMsg pr)) s"
  shows "outcome s (handle_proposal_resp now pr s)"
proof (cases "cl_state s = Finished \<or> cl_state s = LeaderElection")
  case True
  then show ?thesis
    using i by (simp add: handle_proposal_resp_def outcome_Inr)
next
  case False
  obtain resp rest where r: "deserialise_response (presp_data pr) = Inr (resp, rest)"
    using a by (cases "deserialise_response (presp_data pr)") auto
  show ?thesis
  proof (cases resp)
    case (ResponseNormal p)
    then show ?thesis
      using False r a outcome_normal [OF i, of now p] response_normal_nonzero [of "presp_data pr" p rest]
      by (simp add: handle_proposal_resp_def)
  next
    case (ResponseReconfiguration config)
    then show ?thesis
      using False r a outcome_reconfiguration [OF i, of config "presp_latest_leader pr" now]
      by (simp add: handle_proposal_resp_def)
  qed
qed

lemma client_step_safe:
  assumes i: "client_inv s" and a: "client_allowed (now, e) s"
  shows "outcome s (client_step now e s)"
proof (cases e)
  case (ClLocal m)
  show ?thesis
  proof (cases m)
    case ClientRun
    have "client_inv (s\<lparr>cl_state := Running\<rparr>)"
      using client_invD [OF i] a ClLocal ClientRun by (simp add: client_inv_def)
    then have "outcome (s\<lparr>cl_state := Running\<rparr>) (send_concurrent_proposals now (s\<lparr>cl_state := Running\<rparr>))"
      by (rule outcome_send) simp
    then show ?thesis
      using a ClLocal ClientRun by (simp add: outcome_def rassert_def)
  qed (use a ClLocal in simp)
next
  case (ClAbcast m)
  then show ?thesis
    using a outcome_first_leader [OF i] outcome_resp [OF i] outcome_pending_reconfiguration [OF i] i
    by (cases m) (auto simp del: client_allowed.simps intro: outcome_Inr)
next
  case (ClTimeout p)
  then show ?thesis
    using a outcome_timeout [OF i] by simp
qed (use a in simp)

interpretation client: safe_component client_allowed "\<lambda>(now, e). client_step now e"
  "\<lambda>(s :: 'p Client) out. client_inv s \<and> finishes out + cl_finished_latch s = 1
     \<and> cl_num_proposals s = np \<and> cl_num_concurrent_proposals s = nc" for np nc
proof
  fix s :: "'p Client" and out :: "'p cl_out list" and x :: "nat \<times> cl_in"
  assume inv: "client_inv s \<and> finishes out + cl_finished_latch s = 1 \<and> cl_num_proposals s = np \<and> cl_num_concurrent_proposals s = nc"
    and a: "client_allowed x s"
  obtain now e where x: "x = (now, e)"
    by (cases x)
  obtain s' out' where "client_step now e s = Inr (s', out')" "client_inv s'"
    "finishes out' + cl_finished_latch s' = cl_finished_latch s" "cl_num_proposals s' = cl_num_proposals s"
    "cl_num_concurrent_proposals s' = cl_num_concurrent_proposals s"
    using client_step_safe [of s now e] inv a x by (auto simp: outcome_def)
  then show "\<exists>s' out'. (case x of (now, e) \<Rightarrow> client_step now e) s = Inr (s', out') \<and> client_inv s'
      \<and> finishes (out @ out') + cl_finished_latch s' = 1 \<and> cl_num_proposals s' = np \<and> cl_num_concurrent_proposals s' = nc"
    using inv x by (intro exI [of _ s'] exI [of _ out']) simp
qed

lemma fresh_client_inv:
  assumes "0 < np" "0 < nc" "unat np + unat nc < 2 ^ 64 - 1" "set config \<subseteq> keys nodes - {0}"
  shows "client_inv (client_with config np nc nodes reconfig latch 1)"
  using assms by (simp add: client_inv_def window_def sizes_ok_def client_with_def word_less_nat_alt)


subsection \<open>Without a reconfiguration\<close>

text \<open>A client that is not to reconfigure proposes every id once and in order, and keeps its window full.\<close>

abbreviation proposals_upto :: "u64 \<Rightarrow> Proposal list" where
  "proposals_upto latest \<equiv> map (\<lambda>i. proposal_normal (put_u64 i)) (id_range 1 latest)"

definition steady :: "'p Client \<Rightarrow> bool" where
  "steady s \<longleftrightarrow> cl_reconfig s = None \<and> cl_retry_proposals s = [] \<and> cl_first_proposal_after_reconfig s = None \<and>
     cl_state s \<noteq> ReconfigurationElection \<and>
     (cl_state s = Running \<longrightarrow> cl_current_leader s \<noteq> 0)"

definition busy :: "'p Client \<Rightarrow> bool" where
  "busy s \<longleftrightarrow> (cl_state s = Running \<longrightarrow>
     length (cl_pending_proposals s) = unat (cl_num_concurrent_proposals s) \<or> cl_latest_proposal_id s = cl_num_proposals s)"

text \<open>From a steady state a step proposes exactly the ids between the old and the new latest one.\<close>

definition goes_on :: "'p Client \<Rightarrow> 'p cl_handled \<Rightarrow> bool" where
  "goes_on s r \<longleftrightarrow> (\<exists>s' out. r = Inr (s', out) \<and> steady s' \<and> busy s' \<and>
     proposals_upto (cl_latest_proposal_id s) @ proposed out = proposals_upto (cl_latest_proposal_id s'))"

lemma goes_on_Inr: "steady s' \<Longrightarrow> busy s' \<Longrightarrow> proposed out = [] \<Longrightarrow> cl_latest_proposal_id s' = cl_latest_proposal_id s \<Longrightarrow>
   goes_on s (Inr (s', out))"
  by (simp add: goes_on_def)

lemma goes_on_after:
  "goes_on s1 (f s1) \<Longrightarrow> proposed out = [] \<Longrightarrow> cl_latest_proposal_id s1 = cl_latest_proposal_id s \<Longrightarrow>
   goes_on s (step_then (Inr (s1, out)) f)"
  by (auto simp: goes_on_def)

lemma id_range_append:
  assumes "unat a \<le> unat b" "unat b < 2 ^ 64 - 1"
  shows "id_range 1 a @ id_range (a + 1) b = id_range 1 b"
proof -
  have "unat (a + 1) = Suc (unat a)"
    using assms by (subst unat_add_lem [THEN iffD1]) simp_all
  then have "[1..<Suc (unat a)] @ [unat (a + 1)..<Suc (unat b)] = [1..<Suc (unat b)]"
    using upt_add_eq_append [of 1 "Suc (unat a)" "unat b - unat a"] assms(1) by simp
  then show ?thesis
    by (simp add: id_range_def flip: map_append)
qed

lemma goes_on_send:
  assumes i: "client_inv s" and st: "steady s" "cl_state s \<noteq> LeaderElection"
  shows "goes_on s (send_concurrent_proposals now s)"
proof -
  have retry: "cl_retry_proposals s = []"
    using st by (simp add: steady_def)
  obtain ps l' r' where r: "send_concurrent_proposals now s = Inr (extended s ps l' r', send_outs s ps)"
    "client_inv (extended s ps l' r')" "unat (cl_latest_proposal_id s) \<le> unat l'"
    "r' = []" "map fst ps = id_range (cl_latest_proposal_id s + 1) l'"
    "cl_current_leader s \<noteq> 0 \<Longrightarrow>
      length (cl_pending_proposals s) + length ps = unat (cl_num_concurrent_proposals s) \<or> l' = cl_num_proposals s"
    using inv_send [OF i st(2), of now] retry by metis
  have "l' \<le> cl_num_proposals s"
    using windowD(9) [OF client_invD(1) [OF r(2)]] by (simp add: extended_def)
  then have "unat l' < 2 ^ 64 - 1"
    using client_invD(2) [OF i] by (simp add: sizes_ok_def word_le_nat_alt)
  then have "proposals_upto (cl_latest_proposal_id s) @ proposed (send_outs s ps) = proposals_upto l'"
    using id_range_append [OF r(3)] r(5) by (simp flip: map_append)
  then show ?thesis
    using r(1,4,6) st unfolding goes_on_def
    by (intro exI [of _ "extended s ps l' r'"] exI [of _ "send_outs s ps"])
      (auto simp: extended_def steady_def busy_def)
qed


lemma goes_on_response:
  assumes i: "client_inv s" and st: "steady s" "cl_state s = Running"
    and p: "p \<in> keys (cl_pending_proposals s)" "p \<noteq> 0"
  shows "goes_on s (step_then
      (handle_normal_response p latency (s\<lparr>cl_pending_proposals := AList.delete p (cl_pending_proposals s)\<rparr>))
      (send_concurrent_proposals now))"
    and "goes_on s (step_then
      (handle_normal_response p latency (s\<lparr>cl_pending_proposals := AList.delete p (cl_pending_proposals s)\<rparr>))
      (\<lambda>s. if cl_state s \<noteq> ReconfigurationElection then send_concurrent_proposals now s else Inr (s, [])))"
proof -
  obtain s' out where r:
    "handle_normal_response p latency (s\<lparr>cl_pending_proposals := AList.delete p (cl_pending_proposals s)\<rparr>) = Inr (s', out)"
    "client_inv s'" "cl_state s' = cl_state s \<or> cl_state s' = Finished" "proposed out = []"
    "cl_reconfig s' = None" "cl_retry_proposals s' = cl_retry_proposals s"
    "cl_latest_proposal_id s' = cl_latest_proposal_id s" "cl_current_leader s' = cl_current_leader s"
    "cl_first_proposal_after_reconfig s' = cl_first_proposal_after_reconfig s"
    using response_counted [OF i _ p, of latency] st unfolding steady_def by metis
  have s': "steady s'" "cl_state s' \<noteq> LeaderElection" "cl_state s' \<noteq> ReconfigurationElection"
    using st r(3,5,6,8,9) by (auto simp: steady_def)
  note send = goes_on_send [OF r(2) s'(1,2), of now]
  show "goes_on s (step_then
      (handle_normal_response p latency (s\<lparr>cl_pending_proposals := AList.delete p (cl_pending_proposals s)\<rparr>))
      (send_concurrent_proposals now))"
    unfolding r(1) by (rule goes_on_after) (use send r(4,7) in simp_all)
  show "goes_on s (step_then
      (handle_normal_response p latency (s\<lparr>cl_pending_proposals := AList.delete p (cl_pending_proposals s)\<rparr>))
      (\<lambda>s. if cl_state s \<noteq> ReconfigurationElection then send_concurrent_proposals now s else Inr (s, [])))"
    unfolding r(1) by (rule goes_on_after) (use send s'(3) r(4,7) in simp_all)
qed

lemma steady_more:
  "steady (s\<lparr>cl_num_timed_out := n\<rparr>) = steady s" "steady (s\<lparr>cl_leader_changes := ls\<rparr>) = steady s"
  "steady s \<Longrightarrow> pid \<noteq> 0 \<Longrightarrow> steady (s\<lparr>cl_current_leader := pid\<rparr>)"
  by (auto simp: steady_def)

lemma goes_on_timeout:
  assumes i: "client_inv s" and st: "steady s" and p: "p \<in> keys (cl_pending_proposals s)" and c: "clock_ok now s"
  shows "goes_on s (proposal_timeout now p s)"
proof -
  note d = client_invD [OF i] and w = windowD [OF client_invD(1) [OF i]]
  have run: "cl_state s = Running"
    using d(5,6) p st by (cases "cl_state s") (auto simp: steady_def)
  have p0: "p \<noteq> 0"
    using w(10) p st by (auto simp: steady_def)
  have "p \<notin> keys (cl_responses s)"
    using w(4) p by blast
  then have "map_of (cl_responses s) p = None"
    by (rule map_of_keys(2))
  moreover obtain t where t: "map_of (cl_pending_proposals s) p = Some t"
    using map_of_keys(1) [OF p] by blast
  moreover obtain latency where "latency_of now t = Inr latency"
    using latency_known [OF c t] by blast
  moreover have "goes_on (s\<lparr>cl_num_timed_out := cl_num_timed_out s + 1\<rparr>) (step_then
      (handle_normal_response p latency (s\<lparr>cl_num_timed_out := cl_num_timed_out s + 1,
        cl_pending_proposals := AList.delete p (cl_pending_proposals s)\<rparr>)) (send_concurrent_proposals now))" for latency
    using goes_on_response(1) [OF inv_more(1) [OF i], of "cl_num_timed_out s + 1" p latency now] st p p0 run
    by (simp add: steady_more)
  ultimately show ?thesis
    using run p0 by (simp add: proposal_timeout_def runwrap_def goes_on_def)
qed


lemma goes_on_normal:
  assumes i: "client_inv s" and st: "steady s" "busy s" and c: "clock_ok now s" and p: "p \<noteq> 0"
  shows "goes_on s (handle_normal now ldr p s)"
proof (cases "map_of (cl_pending_proposals s) p")
  case None
  then show ?thesis
    using st by (simp add: handle_normal_def goes_on_Inr)
next
  case (Some t)
  note d = client_invD [OF i]
  have key: "p \<in> keys (cl_pending_proposals s)"
    using Some map_of_keys(2) by fastforce
  have run: "cl_state s = Running"
    using d(5,6) key st by (cases "cl_state s") (auto simp: steady_def)
  obtain latency where l: "latency_of now t = Inr latency"
    using latency_known [OF c Some] by blast
  let ?t = "with_leader ldr s"
  have "steady ?t"
    using st(1) d(3) by (auto simp: steady_def with_leader_def)
  then have "goes_on ?t (step_then
      (handle_normal_response p latency (?t\<lparr>cl_pending_proposals := AList.delete p (cl_pending_proposals ?t)\<rparr>))
      (\<lambda>s. if cl_state s \<noteq> ReconfigurationElection then send_concurrent_proposals now s else Inr (s, [])))"
    using goes_on_response(2) [OF with_leader_inv [OF i]] run key p by simp
  then show ?thesis
    unfolding handle_normal_Some [OF Some l] by (intro goes_on_after) (simp_all add: goes_on_def)
qed

lemma goes_on_resp:
  assumes i: "client_inv s" and st: "steady s" "busy s" and a: "client_allowed (now, ClAbcast (ProposalRespMsg pr)) s"
  shows "goes_on s (handle_proposal_resp now pr s)"
proof (cases "cl_state s = Finished \<or> cl_state s = LeaderElection")
  case True
  then show ?thesis
    using st by (simp add: handle_proposal_resp_def goes_on_Inr)
next
  case False
  obtain r rest where r: "deserialise_response (presp_data pr) = Inr (r, rest)"
    using a by (auto split: sum.splits)
  show ?thesis
  proof (cases r)
    case (ResponseNormal p)
    then show ?thesis
      using False r a goes_on_normal [OF i st, of now p] response_normal_nonzero [of "presp_data pr" p rest]
      by (simp add: handle_proposal_resp_def)
  next
    case (ResponseReconfiguration config)
    have "map_of (cl_pending_proposals s) RECONFIG_ID = None"
      using windowD(10) [OF client_invD(1) [OF i]] st(1) map_of_keys(2) by (fastforce simp: steady_def)
    then show ?thesis
      using False r ResponseReconfiguration st by (simp add: handle_proposal_resp_def handle_reconfiguration_def goes_on_Inr)
  qed
qed

lemma client_step_goes_on:
  assumes i: "client_inv s" and st: "steady s" "busy s" and a: "client_allowed (now, e) s"
  shows "goes_on s (client_step now e s)"
proof (cases e)
  case (ClLocal m)
  show ?thesis
  proof (cases m)
    case ClientRun
    have run: "cl_state s = LeaderElection" "cl_current_leader s \<noteq> 0"
      using a ClLocal ClientRun by simp_all
    have "client_inv (s\<lparr>cl_state := Running\<rparr>)" "steady (s\<lparr>cl_state := Running\<rparr>)"
      using client_invD [OF i] run st by (simp_all add: client_inv_def steady_def)
    then have "goes_on (s\<lparr>cl_state := Running\<rparr>) (send_concurrent_proposals now (s\<lparr>cl_state := Running\<rparr>))"
      by (rule goes_on_send) simp
    then show ?thesis
      using run ClLocal ClientRun by (simp add: goes_on_def rassert_def)
  qed (use a ClLocal in simp)
next
  case (ClAbcast m)
  show ?thesis
  proof (cases m)
    case (FirstLeader pid)
    then show ?thesis
      using ClAbcast st by (cases "cl_state s") (auto simp: handle_first_leader_def Let_def steady_def busy_def goes_on_def)
  next
    case (PendingReconfiguration data)
    obtain d rest where d: "get_u64 data = Inr (d, rest)"
      using a ClAbcast PendingReconfiguration by (auto split: sum.splits)
    then have "cl_state s \<noteq> Running" "cl_state s \<noteq> ReconfigurationElection"
      using a ClAbcast PendingReconfiguration st by (auto simp: steady_def)
    then show ?thesis
      using ClAbcast PendingReconfiguration st d
      by (cases "cl_state s") (auto simp: handle_pending_reconfiguration_def goes_on_Inr)
  qed (use ClAbcast st a goes_on_resp [OF i st] in \<open>auto simp del: client_allowed.simps intro: goes_on_Inr\<close>)
next
  case (ClTimeout p)
  then show ?thesis
    using a goes_on_timeout [OF i st(1)] by simp
qed (use a in simp)

interpretation steady_client: safe_component client_allowed "\<lambda>(now, e). client_step now e"
  "\<lambda>(s :: 'p Client) out. (client_inv s \<and> finishes out + cl_finished_latch s = 1
     \<and> cl_num_proposals s = np \<and> cl_num_concurrent_proposals s = nc) \<and> steady s \<and> busy s
     \<and> proposed out = proposals_upto (cl_latest_proposal_id s)" for np nc
proof
  fix s :: "'p Client" and out :: "'p cl_out list" and x :: "nat \<times> cl_in"
  assume inv: "(client_inv s \<and> finishes out + cl_finished_latch s = 1 \<and> cl_num_proposals s = np
      \<and> cl_num_concurrent_proposals s = nc) \<and> steady s \<and> busy s \<and> proposed out = proposals_upto (cl_latest_proposal_id s)"
    and a: "client_allowed x s"
  obtain s' out' where s': "(case x of (now, e) \<Rightarrow> client_step now e) s = Inr (s', out')"
    "client_inv s' \<and> finishes (out @ out') + cl_finished_latch s' = 1 \<and> cl_num_proposals s' = np
      \<and> cl_num_concurrent_proposals s' = nc"
    using client.safe [OF conjunct1 [OF inv] a] by blast
  have "steady s' \<and> busy s' \<and> proposed (out @ out') = proposals_upto (cl_latest_proposal_id s')"
    using client_step_goes_on [of s "fst x" "snd x"] inv a s'(1) by (simp add: goes_on_def case_prod_beta)
  then show "\<exists>s' out'. (case x of (now, e) \<Rightarrow> client_step now e) s = Inr (s', out') \<and> (client_inv s'
      \<and> finishes (out @ out') + cl_finished_latch s' = 1 \<and> cl_num_proposals s' = np \<and> cl_num_concurrent_proposals s' = nc)
      \<and> steady s' \<and> busy s' \<and> proposed (out @ out') = proposals_upto (cl_latest_proposal_id s')"
    using s' by blast
qed


subsection \<open>What a run of the client guarantees\<close>

lemma client_run_facts:
  fixes nodes :: "(u64 \<times> 'p) list"
  assumes run: "reach client_allowed (\<lambda>(now, e). client_step now e) (client_with config np nc nodes reconfig latch 1) s out"
    and sizes: "0 < np" "0 < nc" "unat np + unat nc < 2 ^ 64 - 1" "set config \<subseteq> keys nodes - {0}"
  shows "(keys (cl_pending_proposals s) - {0}) \<union> keys (cl_responses s) \<union> keys (cl_retry_proposals s)
      = {1..cl_latest_proposal_id s}"
    and "keys (cl_pending_proposals s) \<inter> keys (cl_responses s) = {}" "keys (cl_pending_proposals s) \<inter> keys (cl_retry_proposals s) = {}"
      "keys (cl_responses s) \<inter> keys (cl_retry_proposals s) = {}"
    and "length (cl_pending_proposals s) \<le> unat nc" "cl_latest_proposal_id s \<le> np"
    and "finishes out = (if cl_state s = Finished then 1 else 0)"
    and "cl_state s = Finished \<Longrightarrow> cl_pending_proposals s = [] \<and> keys (cl_responses s) = {1..np}"
    and "client_allowed (now, e) s \<Longrightarrow> \<exists>s' out'. client_step now e s = Inr (s', out')"
proof -
  have fresh: "client_inv (client_with config np nc nodes reconfig latch 1) \<and> finishes ([] :: 'p cl_out list) +
      cl_finished_latch (client_with config np nc nodes reconfig latch 1) = 1 \<and>
      cl_num_proposals (client_with config np nc nodes reconfig latch 1) = np \<and>
      cl_num_concurrent_proposals (client_with config np nc nodes reconfig latch 1) = nc"
    using fresh_client_inv [OF sizes] by (simp add: client_with_def)
  have inv: "client_inv s" "finishes out + cl_finished_latch s = 1" "cl_num_proposals s = np"
    "cl_num_concurrent_proposals s = nc"
    using client.reach_inv [OF run fresh] by blast+
  note d = client_invD [OF inv(1)] and w = windowD [OF client_invD(1) [OF inv(1)]]
  show "(keys (cl_pending_proposals s) - {0}) \<union> keys (cl_responses s) \<union> keys (cl_retry_proposals s)
      = {1..cl_latest_proposal_id s}"
    by (rule w(7))
  show "keys (cl_pending_proposals s) \<inter> keys (cl_responses s) = {}" "keys (cl_pending_proposals s) \<inter> keys (cl_retry_proposals s) = {}"
      "keys (cl_responses s) \<inter> keys (cl_retry_proposals s) = {}"
    by (rule w)+
  show "length (cl_pending_proposals s) \<le> unat nc" "cl_latest_proposal_id s \<le> np"
    using w(8,9) inv by simp_all
  show "finishes out = (if cl_state s = Finished then 1 else 0)"
    using d(5) inv(2) by (auto split: if_splits)
  show "cl_pending_proposals s = [] \<and> keys (cl_responses s) = {1..np}" if "cl_state s = Finished"
    using d(5) that window_count(2) [OF d(1)] w(7) inv(3) by simp
  show "\<exists>s' out'. client_step now e s = Inr (s', out')" if "client_allowed (now, e) s"
    using client.no_panic [OF run fresh that] by simp
qed

text \<open>C13: In every state that a fresh client reaches, with or without a reconfiguration, the ids up to the latest one are
  divided exactly among the proposals in flight, the answered ones and those held back for a retry; at
  most the configured number is in flight; the finished latch has been counted down once if the experiment has
  finished and not at all before, which happens only when all proposals are answered and nothing is in flight; and
  no input the environment may give next makes the client panic.\<close>

theorem client_window:
  fixes nodes :: "(u64 \<times> 'p) list"
  assumes "reach client_allowed (\<lambda>(now, e). client_step now e) (client_with config np nc nodes reconfig latch 1) s out"
    and "0 < np" "0 < nc" "unat np + unat nc < 2 ^ 64 - 1" "set config \<subseteq> keys nodes - {0}"
  shows "(keys (cl_pending_proposals s) - {0}) \<union> keys (cl_responses s) \<union> keys (cl_retry_proposals s)
      = {1..cl_latest_proposal_id s} \<and>
    keys (cl_pending_proposals s) \<inter> keys (cl_responses s) = {} \<and>
    keys (cl_pending_proposals s) \<inter> keys (cl_retry_proposals s) = {} \<and>
    keys (cl_responses s) \<inter> keys (cl_retry_proposals s) = {} \<and>
    length (cl_pending_proposals s) \<le> unat nc \<and> cl_latest_proposal_id s \<le> np \<and>
    finishes out = (if cl_state s = Finished then 1 else 0) \<and>
    (cl_state s = Finished \<longrightarrow> cl_pending_proposals s = [] \<and> keys (cl_responses s) = {1..np}) \<and>
    (\<forall>now e. client_allowed (now, e) s \<longrightarrow> (\<exists>s' out'. client_step now e s = Inr (s', out')))"
  by (intro conjI allI; (rule impI, rule client_run_facts [OF assms], assumption | rule client_run_facts [OF assms]))

definition example_run :: "(nat \<times> cl_in) list" where
  "example_run = [(0, ClAbcast (FirstLeader 2)), (0, ClLocal ClientRun),
     (1, ClAbcast (ProposalRespMsg \<lparr>presp_data = put_u64 1, presp_latest_leader = 1\<rparr>)), (2, ClTimeout 2)]"

theorem client_window_witness:
  "\<exists>s out. run_inputs (\<lambda>(now, e). client_step now e) example_run (client_with [1, 2] 3 2 [(1, ()), (2, ())] None 1 1) = Inr (s, out)
     \<and> length (cl_pending_proposals s) \<le> 2"
proof -
  let ?s0 = "client_with [1, 2] 3 2 [(1, ()), (2, ())] None 1 1"
  have "case run_inputs (\<lambda>(now, e). client_step now e) example_run ?s0 of Inl e \<Rightarrow> False | Inr _ \<Rightarrow> True"
    by code_simp
  then obtain s out where r: "run_inputs (\<lambda>(now, e). client_step now e) example_run ?s0 = Inr (s, out)"
    by (auto split: sum.splits)
  have "all_allowed client_allowed (\<lambda>(now, e). client_step now e) example_run ?s0"
    by code_simp
  then have "reach client_allowed (\<lambda>(now, e). client_step now e) ?s0 s out"
    using r by (rule run_reaches)
  from client_window [OF this] r show ?thesis
    by simp
qed

lemma steady_run_facts:
  fixes nodes :: "(u64 \<times> 'p) list"
  assumes run: "reach client_allowed (\<lambda>(now, e). client_step now e) (client_with config np nc nodes None latch 1) s out"
    and sizes: "0 < np" "0 < nc" "unat np + unat nc < 2 ^ 64 - 1" "set config \<subseteq> keys nodes - {0}"
  shows "proposed out = map (\<lambda>i. proposal_normal (put_u64 i)) (id_range 1 (cl_latest_proposal_id s))"
    and "cl_state s = Running \<Longrightarrow> length (cl_pending_proposals s) = unat nc \<or> cl_latest_proposal_id s = np"
    and "cl_state s = Running \<Longrightarrow> cl_pending_proposals s \<noteq> []"
    and "cl_state s = Finished \<Longrightarrow> cl_latest_proposal_id s = np"
proof -
  let ?s0 = "client_with config np nc nodes None latch 1"
  have fresh: "(client_inv ?s0 \<and> finishes ([] :: 'p cl_out list) + cl_finished_latch ?s0 = 1 \<and>
      cl_num_proposals ?s0 = np \<and> cl_num_concurrent_proposals ?s0 = nc) \<and> steady ?s0 \<and> busy ?s0 \<and>
      proposed ([] :: 'p cl_out list) = proposals_upto (cl_latest_proposal_id ?s0)"
    using fresh_client_inv [OF sizes] by (simp add: client_with_def steady_def busy_def id_range_def)
  have inv: "client_inv s" "cl_num_proposals s = np" "cl_num_concurrent_proposals s = nc" "steady s" "busy s"
    "proposed out = proposals_upto (cl_latest_proposal_id s)"
    using steady_client.reach_inv [OF run fresh] by blast+
  note d = client_invD [OF inv(1)] and w = windowD [OF client_invD(1) [OF inv(1)]]
  show "proposed out = map (\<lambda>i. proposal_normal (put_u64 i)) (id_range 1 (cl_latest_proposal_id s))"
    by (rule inv(6))
  show full: "length (cl_pending_proposals s) = unat nc \<or> cl_latest_proposal_id s = np" if "cl_state s = Running"
    using inv that by (simp add: busy_def)
  show "cl_pending_proposals s \<noteq> []" if st: "cl_state s = Running"
  proof
    assume none: "cl_pending_proposals s = []"
    have "0 < unat nc"
      using sizes(2) by (simp add: word_less_nat_alt)
    then have "cl_latest_proposal_id s = np"
      using full [OF st] none by simp
    then have "keys (cl_responses s) = {1..np}"
      using w(7) none inv(4) by (simp add: steady_def)
    then have "length (cl_responses s) = unat np"
      using length_keys [OF w(2)] by (simp add: card_ids)
    then show False
      using d(5) st inv(2,4) by (simp add: steady_def)
  qed
  show "cl_latest_proposal_id s = np" if "cl_state s = Finished"
    using window_count(2) [OF d(1)] d(5) that inv(2) by simp
qed

text \<open>C14: A client without a reconfiguration proposes the ids 1, 2, 3 and so on, each exactly once and in this order, and while it
  runs it keeps the full number of proposals in flight until the last id has been proposed; so while it runs, some
  proposal is in flight whose answer or timeout makes it continue.\<close>

theorem client_proposes_in_order:
  fixes nodes :: "(u64 \<times> 'p) list"
  assumes "reach client_allowed (\<lambda>(now, e). client_step now e) (client_with config np nc nodes None latch 1) s out"
    and "0 < np" "0 < nc" "unat np + unat nc < 2 ^ 64 - 1" "set config \<subseteq> keys nodes - {0}"
  shows "proposed out = map (\<lambda>i. proposal_normal (put_u64 i)) (id_range 1 (cl_latest_proposal_id s)) \<and>
    (cl_state s = Running \<longrightarrow> cl_pending_proposals s \<noteq> [] \<and>
      (length (cl_pending_proposals s) = unat nc \<or> cl_latest_proposal_id s = np)) \<and>
    (cl_state s = Finished \<longrightarrow> cl_latest_proposal_id s = np)"
  using steady_run_facts [OF assms] by blast

theorem client_proposes_in_order_witness:
  "\<exists>s out. run_inputs (\<lambda>(now, e). client_step now e) example_run (client_with [1, 2] 3 2 [(1, ()), (2, ())] None 1 1) = Inr (s, out)
     \<and> proposed out = map (\<lambda>i. proposal_normal (put_u64 i)) [1, 2, 3]"
proof -
  let ?s0 = "client_with [1, 2] 3 2 [(1, ()), (2, ())] None 1 1"
  have "case run_inputs (\<lambda>(now, e). client_step now e) example_run ?s0 of Inl e \<Rightarrow> False | Inr (s, _) \<Rightarrow> cl_latest_proposal_id s = 3"
    by code_simp
  then obtain s out where r: "run_inputs (\<lambda>(now, e). client_step now e) example_run ?s0 = Inr (s, out)" "cl_latest_proposal_id s = 3"
    by (auto split: sum.splits)
  have "all_allowed client_allowed (\<lambda>(now, e). client_step now e) example_run ?s0"
    by code_simp
  then have reach: "reach client_allowed (\<lambda>(now, e). client_step now e) ?s0 s out"
    using r(1) by (rule run_reaches)
  have "id_range 1 3 = [1, 2, 3]"
    by code_simp
  then show ?thesis
    using client_proposes_in_order [OF reach] r by simp
qed

text \<open>C15: While it waits for the leader of a new configuration, a client that is told of a dropped proposal it already
  holds back for a retry fails its assertion: the announcement of a second leader that dropped the same proposal stops
  the client.\<close>

theorem held_back_twice_panics:
  fixes nodes :: "(u64 \<times> 'p) list"
  assumes run: "reach client_allowed (\<lambda>(now, e). client_step now e) (client_with config np nc nodes reconfig latch 1) s out"
    and sizes: "0 < np" "0 < nc" "unat np + unat nc < 2 ^ 64 - 1" "set config \<subseteq> keys nodes - {0}"
    and st: "cl_state s = ReconfigurationElection"
    and d: "d \<in> keys (cl_retry_proposals s)"
  shows "client_step now (ClAbcast (PendingReconfiguration (put_u64 d))) s = Inl AssertFailed"
proof -
  have "client_inv (client_with config np nc nodes reconfig latch 1) \<and> finishes ([] :: 'p cl_out list) +
      cl_finished_latch (client_with config np nc nodes reconfig latch 1) = 1 \<and>
      cl_num_proposals (client_with config np nc nodes reconfig latch 1) = np \<and>
      cl_num_concurrent_proposals (client_with config np nc nodes reconfig latch 1) = nc"
    using fresh_client_inv [OF sizes] by (simp add: client_with_def)
  then have "client_inv s"
    using client.reach_inv [OF run] by blast
  note w = windowD [OF client_invD(1) [OF this]]
  have "d \<notin> keys (cl_pending_proposals s)" "d \<notin> keys (cl_responses s)"
    using w(5,6) d by blast+
  then have "map_of (cl_pending_proposals s) d = None" "map_of (cl_responses s) d = None"
    by (metis map_of_keys(2))+
  then have "hold_back d s = Inl AssertFailed"
    by (simp add: hold_back_def rassert_def)
  moreover have "d \<in> {1..cl_latest_proposal_id s}"
    using w(7) d by blast
  then have "id_range d (cl_latest_proposal_id s) = d # map word_of_nat [Suc (unat d)..<Suc (unat (cl_latest_proposal_id s))]"
    by (simp add: id_range_def upt_conv_Cons word_le_nat_alt del: upt_Suc)
  ultimately have "hold_back_proposals d (cl_latest_proposal_id s) s = Inl AssertFailed"
    by (simp add: hold_back_proposals_def)
  then show ?thesis
    using st get_put_u64 [of d "[]"] by (simp add: handle_pending_reconfiguration_def)
qed

definition hold_back_run :: "(nat \<times> cl_in) list" where
  "hold_back_run = [(0, ClAbcast (FirstLeader 1)), (0, ClLocal ClientRun),
     (1, ClAbcast (ProposalRespMsg \<lparr>presp_data = put_u64 1, presp_latest_leader = 1\<rparr>)),
     (2, ClAbcast (ProposalRespMsg \<lparr>presp_data = put_u64 2, presp_latest_leader = 2\<rparr>)),
     (3, ClAbcast (PendingReconfiguration (put_u64 3)))]"

theorem held_back_twice_panics_witness:
  "\<exists>s out. run_inputs (\<lambda>(now, e). client_step now e) hold_back_run
      (client_with [1, 2] 4 2 [(1, ()), (2, ()), (3, ())] (Some ([1, 3], [])) 1 1) = Inr (s, out)
    \<and> client_step 4 (ClAbcast (PendingReconfiguration (put_u64 3))) s = Inl AssertFailed"
proof -
  let ?s0 = "client_with [1, 2] 4 2 [(1, ()), (2, ()), (3, ())] (Some ([1, 3], [])) 1 1"
  have "case run_inputs (\<lambda>(now, e). client_step now e) hold_back_run ?s0 of Inl e \<Rightarrow> False
    | Inr (s, _) \<Rightarrow> cl_state s = ReconfigurationElection \<and> 3 \<in> keys (cl_retry_proposals s)"
    by code_simp
  then obtain s out where r: "run_inputs (\<lambda>(now, e). client_step now e) hold_back_run ?s0 = Inr (s, out)"
    "cl_state s = ReconfigurationElection" "3 \<in> keys (cl_retry_proposals s)"
    by (auto split: sum.splits)
  have "all_allowed client_allowed (\<lambda>(now, e). client_step now e) hold_back_run ?s0"
    by code_simp
  then have "reach client_allowed (\<lambda>(now, e). client_step now e) ?s0 s out"
    using r(1) by (rule run_reaches)
  from held_back_twice_panics [OF this _ _ _ _ r(2,3)] r(1) show ?thesis
    by simp
qed

end
