(* ===== verification/File_Memory.thy ===== *)
theory File_Memory
  imports Byte_Buffer
begin

text \<open>
  Files and memory maps as the disk storage uses them. A file is its length and its bytes; writing at a position
  overwrites and extends it, bytes never written are zero (\<open>set_len\<close>). A memory map of a file shows the first
  bytes of it, up to the length the file had when it was mapped: writing to the file is seen through the map, but a
  file that grows later is not mapped further. Slices out of range are \<open>None\<close> for \<open>get\<close> and a panic for an index.
\<close>

record Mem =
  mem_len :: nat
  mem_at :: "nat \<Rightarrow> u8"

definition mem_zero :: "nat \<Rightarrow> Mem" where
  "mem_zero n = \<lparr>mem_len = n, mem_at = (\<lambda>_. 0)\<rparr>"

definition mem_slice :: "Mem \<Rightarrow> nat \<Rightarrow> nat \<Rightarrow> bytes" where
  "mem_slice m start stop = map (mem_at m) [start..<stop]"

definition mem_write :: "nat \<Rightarrow> bytes \<Rightarrow> Mem \<Rightarrow> Mem" where
  "mem_write pos bs m = \<lparr>mem_len = max (mem_len m) (pos + length bs),
     mem_at = (\<lambda>i. if pos \<le> i \<and> i < pos + length bs then bs ! (i - pos) else mem_at m i)\<rparr>"

text \<open>\<open>m.get(start..stop)\<close>, \<open>(&mut m[start..stop]).write_all(bs)\<close> on the mapped part.\<close>

definition map_get :: "nat \<Rightarrow> nat \<Rightarrow> nat \<Rightarrow> Mem \<Rightarrow> bytes option" where
  "map_get mapped start stop m = (if start \<le> stop \<and> stop \<le> mapped then Some (mem_slice m start stop) else None)"

definition map_put :: "nat \<Rightarrow> nat \<Rightarrow> nat \<Rightarrow> bytes \<Rightarrow> Mem \<Rightarrow> Mem rust" where
  "map_put mapped start stop bs m =
    (if \<not> (start \<le> stop \<and> stop \<le> mapped) then Inl IndexOutOfRange
     else if length bs > stop - start then Inl UnwrapNone
     else Inr (mem_write start bs m))"

definition from_be_bytes :: "bytes \<Rightarrow> u64 rust" where
  "from_be_bytes bs = (if length bs = 8 then Inr (word_of_nat (be_nat bs)) else Inl UnwrapNone)"

record FileMmap =
  fm_file :: Mem
  fm_pos :: nat
  fm_mapped :: nat

definition file_mmap :: "nat \<Rightarrow> FileMmap" where
  "file_mmap n = \<lparr>fm_file = mem_zero n, fm_pos = 0, fm_mapped = n\<rparr>"

definition file_write :: "bytes \<Rightarrow> FileMmap \<Rightarrow> FileMmap" where
  "file_write bs f = f\<lparr>fm_file := mem_write (fm_pos f) bs (fm_file f), fm_pos := fm_pos f + length bs\<rparr>"

text \<open>Loops that may panic.\<close>

primrec rfold :: "('a \<Rightarrow> 's \<Rightarrow> 's rust) \<Rightarrow> 'a list \<Rightarrow> 's \<Rightarrow> 's rust" where
  "rfold f [] s = Inr s"
| "rfold f (x # xs) s = rbind (f x s) (rfold f xs)"

primrec rmap :: "('a \<Rightarrow> 'b rust) \<Rightarrow> 'a list \<Rightarrow> 'b list rust" where
  "rmap f [] = Inr []"
| "rmap f (x # xs) = rbind (f x) (\<lambda>y. rbind (rmap f xs) (\<lambda>ys. Inr (y # ys)))"

lemma rfold_append: "rfold f (xs @ ys) s = rbind (rfold f xs s) (rfold f ys)"
  by (induction xs arbitrary: s) (auto simp: rbind_def split: sum.splits)

lemma rmap_Inr: "(\<And>x. x \<in> set xs \<Longrightarrow> f x = Inr (g x)) \<Longrightarrow> rmap f xs = Inr (map g xs)"
  by (induction xs) auto

subsection \<open>Reading after writing\<close>

lemma length_slice [simp]: "length (mem_slice m a b) = b - a"
  by (simp add: mem_slice_def)

lemma slice_empty [simp]: "mem_slice m a a = []"
  by (simp add: mem_slice_def)

lemma slice_append: "a \<le> b \<Longrightarrow> b \<le> c \<Longrightarrow> mem_slice m a c = mem_slice m a b @ mem_slice m b c"
  using upt_add_eq_append [of a b "c - b"] by (simp add: mem_slice_def)

lemma slice_write_other:
  "b \<le> p \<or> p + length bs \<le> a \<Longrightarrow> mem_slice (mem_write p bs m) a b = mem_slice m a b"
  by (auto simp: mem_slice_def mem_write_def)

lemma slice_write_same: "mem_slice (mem_write p bs m) p (p + length bs) = bs"
  by (rule nth_equalityI) (simp_all add: mem_slice_def mem_write_def)

lemma slice_write_end:
  "mem_slice m 0 p = old \<Longrightarrow> mem_slice (mem_write p bs m) 0 (p + length bs) = old @ bs"
  using slice_append [of 0 p "p + length bs" "mem_write p bs m"]
  by (simp add: slice_write_same slice_write_other)

lemma slice_take: "mem_slice m 0 n = xs \<Longrightarrow> k \<le> n \<Longrightarrow> mem_slice m 0 k = take k xs"
  using slice_append [of 0 k n m] by auto

lemma slice_infix:
  assumes "mem_slice m 0 n = pre @ xs @ post"
  shows "mem_slice m (length pre) (length pre + length xs) = xs"
proof -
  have n: "n = length pre + length xs + length post"
    using arg_cong [OF assms, of length] by simp
  have "mem_slice m 0 n = mem_slice m 0 (length pre) @ mem_slice m (length pre) (length pre + length xs) @
      mem_slice m (length pre + length xs) n"
    using slice_append [of 0 "length pre" n m] slice_append [of "length pre" "length pre + length xs" n m] n by simp
  then show ?thesis
    using assms by (metis append_eq_append_conv diff_add_inverse diff_zero length_slice)
qed

lemma from_be_put [simp]: "from_be_bytes (put_u64 w) = Inr w"
  by (simp add: from_be_bytes_def put_u64_def be_nat_be_bytes)

lemma file_write_simps [simp]:
  "fm_mapped (file_write bs f) = fm_mapped f" "fm_pos (file_write bs f) = fm_pos f + length bs"
  "fm_file (file_write bs f) = mem_write (fm_pos f) bs (fm_file f)"
  by (simp_all add: file_write_def)

lemma map_put_8: "stop = start + 8 \<Longrightarrow> stop \<le> mapped \<Longrightarrow> map_put mapped start stop (put_u64 w) m = Inr (mem_write start (put_u64 w) m)"
  by (simp add: map_put_def)

end
