(* ===== verification/Disk_Storage.thy ===== *)
theory Disk_Storage
  imports File_Memory
begin

text \<open>
  The disk storage of a Raft log (\<open>DiskStorageCore\<close> of \<open>atomic_broadcast/storage.rs\<close>): a log file of length-prefixed
  entries, a file that maps a log index to the byte offset of its entry, and memory-mapped fields for
  the hard state and the first and last index. Entries, their index and term, their protobuf form and
  \<open>limit_size\<close> belong to the \<open>raft\<close> crate and are parameters. Input and output does not fail here: the code
  passes such an error on.
\<close>

record 'e entry_api =
  en_index :: "'e \<Rightarrow> u64"
  en_term :: "'e \<Rightarrow> u64"
  en_write_to_bytes :: "'e \<Rightarrow> bytes"
  en_parse_from_bytes :: "bytes \<Rightarrow> 'e option"

record SnapshotMetadata =
  sm_index :: u64
  sm_term :: u64

record HardState =
  hs_term :: u64
  hs_vote :: u64
  hs_commit :: u64

datatype storage_error = Compacted | Unavailable

type_synonym 'a store_result = "(storage_error + 'a) rust"

record 'c DiskStorageCore =
  ds_pending_conf_state :: "'c option"
  ds_pending_conf_state_start_index :: "u64 option"
  ds_conf_state :: 'c
  ds_hard_state :: Mem
  ds_log :: FileMmap
  ds_offset :: FileMmap
  ds_raft_metadata :: Mem
  ds_num_entries :: u64
  ds_snapshot_metadata :: SnapshotMetadata

definition TERM_INDEX :: "nat \<times> nat" where "TERM_INDEX = (0, 8)"
definition VOTE_INDEX :: "nat \<times> nat" where "VOTE_INDEX = (8, 16)"
definition COMMIT_INDEX :: "nat \<times> nat" where "COMMIT_INDEX = (16, 24)"
definition FIRST_INDEX_IS_SET :: "nat \<times> nat" where "FIRST_INDEX_IS_SET = (0, 1)"
definition FIRST_INDEX :: "nat \<times> nat" where "FIRST_INDEX = (1, 9)"
definition LAST_INDEX_IS_SET :: "nat \<times> nat" where "LAST_INDEX_IS_SET = (9, 10)"
definition LAST_INDEX :: "nat \<times> nat" where "LAST_INDEX = (10, 18)"
definition FILE_SIZE :: nat where "FILE_SIZE = 20971520"

text \<open>A field of a memory map that is mapped completely.\<close>

definition put_field :: "nat \<times> nat \<Rightarrow> bytes \<Rightarrow> Mem \<Rightarrow> Mem rust" where
  "put_field field bs m = map_put (mem_len m) (fst field) (snd field) bs m"

definition get_field :: "nat \<times> nat \<Rightarrow> Mem \<Rightarrow> bytes option" where
  "get_field field m = map_get (mem_len m) (fst field) (snd field) m"

definition disk_new :: "'c \<Rightarrow> 'c DiskStorageCore" where
  "disk_new conf = \<lparr>ds_pending_conf_state = None, ds_pending_conf_state_start_index = None, ds_conf_state = conf,
     ds_hard_state = mem_zero 24, ds_log = file_mmap FILE_SIZE, ds_offset = file_mmap FILE_SIZE,
     ds_raft_metadata = mem_zero 18, ds_num_entries = 0, ds_snapshot_metadata = \<lparr>sm_index = 0, sm_term = 0\<rparr>\<rparr>"

definition disk_new_with_conf_state :: "'c \<Rightarrow> 'c \<Rightarrow> 'c DiskStorageCore rust" where
  "disk_new_with_conf_state conf_new conf =
    (let store = (disk_new conf_new)\<lparr>ds_conf_state := conf, ds_snapshot_metadata := \<lparr>sm_index = 1, sm_term = 1\<rparr>\<rparr>
     in rbind (put_field TERM_INDEX (put_u64 1) (ds_hard_state store)) (\<lambda>hs.
        rbind (put_field COMMIT_INDEX (put_u64 1) hs) (\<lambda>hs. Inr (store\<lparr>ds_hard_state := hs\<rparr>))))"

definition read_hard_state_field :: "nat \<times> nat \<Rightarrow> 'c DiskStorageCore \<Rightarrow> u64 rust" where
  "read_hard_state_field field d = rbind (runwrap (get_field field (ds_hard_state d))) from_be_bytes"

definition get_hard_state :: "'c DiskStorageCore \<Rightarrow> HardState rust" where
  "get_hard_state d =
    rbind (read_hard_state_field TERM_INDEX d) (\<lambda>term.
    rbind (read_hard_state_field COMMIT_INDEX d) (\<lambda>commit.
    rbind (read_hard_state_field VOTE_INDEX d) (\<lambda>vote.
    Inr \<lparr>hs_term = term, hs_vote = vote, hs_commit = commit\<rparr>)))"

definition set_raft_metadata :: "nat \<times> nat \<Rightarrow> u64 \<Rightarrow> 'c DiskStorageCore \<Rightarrow> 'c DiskStorageCore rust" where
  "set_raft_metadata field v d =
    rbind (rassert (field = FIRST_INDEX \<or> field = LAST_INDEX)) (\<lambda>_.
    rbind (if field = FIRST_INDEX then put_field FIRST_INDEX_IS_SET [1] (ds_raft_metadata d)
           else if field = LAST_INDEX then put_field LAST_INDEX_IS_SET [1] (ds_raft_metadata d)
           else Inl PanicCall) (\<lambda>m.
    rbind (put_field field (put_u64 v) m) (\<lambda>m. Inr (d\<lparr>ds_raft_metadata := m\<rparr>))))"

definition get_raft_metadata :: "nat \<times> nat \<Rightarrow> 'c DiskStorageCore \<Rightarrow> u64 option rust" where
  "get_raft_metadata field d =
    (let flag = (if field = FIRST_INDEX then Some FIRST_INDEX_IS_SET
                 else if field = LAST_INDEX then Some LAST_INDEX_IS_SET else None)
     in case flag of
       None \<Rightarrow> Inl PanicCall
     | Some is_set \<Rightarrow>
         rbind (runwrap (get_field is_set (ds_raft_metadata d))) (\<lambda>bit.
         rbind (rget bit 0) (\<lambda>b.
         if b = 0 then Inr None
         else rbind (runwrap (get_field field (ds_raft_metadata d))) (\<lambda>bytes.
              rbind (from_be_bytes bytes) (\<lambda>v. Inr (Some v))))))"

definition first_index :: "'c DiskStorageCore \<Rightarrow> u64 rust" where
  "first_index d = rbind (get_raft_metadata FIRST_INDEX d) (\<lambda>v. case v of
     Some index \<Rightarrow> Inr index | None \<Rightarrow> Inr (sm_index (ds_snapshot_metadata d) + 1))"

definition last_index :: "'c DiskStorageCore \<Rightarrow> u64 rust" where
  "last_index d = rbind (get_raft_metadata LAST_INDEX d) (\<lambda>v. case v of
     Some index \<Rightarrow> Inr index | None \<Rightarrow> Inr (sm_index (ds_snapshot_metadata d)))"

definition get_log_offset :: "u64 \<Rightarrow> 'c DiskStorageCore \<Rightarrow> u64 rust" where
  "get_log_offset log_index d =
    (let start = log_index * 8; stop = start + 8
     in rbind (runwrap (map_get (fm_mapped (ds_offset d)) (unat start) (unat stop) (fm_file (ds_offset d))))
          from_be_bytes)"

definition get_entry :: "'e entry_api \<Rightarrow> u64 \<Rightarrow> 'c DiskStorageCore \<Rightarrow> 'e rust" where
  "get_entry api index d =
    rbind (get_log_offset index d) (\<lambda>start.
    let stop = start + 8
    in rbind (runwrap (map_get (fm_mapped (ds_log d)) (unat start) (unat stop) (fm_file (ds_log d)))) (\<lambda>entry_len.
       rbind (from_be_bytes entry_len) (\<lambda>des_entry_len.
       case map_get (fm_mapped (ds_log d)) (unat stop) (unat (stop + des_entry_len)) (fm_file (ds_log d)) of
         None \<Rightarrow> Inl PanicCall
       | Some entry \<Rightarrow> runwrap (en_parse_from_bytes api entry))))"

text \<open>The body of the loop of \<open>append_entries\<close>: the entry behind its length in the log file, its position in the
  offset file.\<close>

definition write_entry :: "'e entry_api \<Rightarrow> u64 \<Rightarrow> nat \<times> 'e \<Rightarrow> 'c DiskStorageCore \<Rightarrow> 'c DiskStorageCore rust" where
  "write_entry api from_log_index = (\<lambda>(i, e) d.
     let current_offset = word_of_nat (fm_pos (ds_log d)) :: u64;
         ser_entry = en_write_to_bytes api e;
         log = file_write ser_entry (file_write (put_u64 (word_of_nat (length ser_entry))) (ds_log d));
         start = (from_log_index + word_of_nat i) * 8;
         stop = start + 8
     in rbind (map_put (fm_mapped (ds_offset d)) (unat start) (unat stop) (put_u64 current_offset) (fm_file (ds_offset d)))
          (\<lambda>offset. Inr (d\<lparr>ds_log := log, ds_offset := (ds_offset d)\<lparr>fm_file := offset\<rparr>\<rparr>)))"

definition append_entries :: "'e entry_api \<Rightarrow> 'e list \<Rightarrow> u64 \<Rightarrow> 'c DiskStorageCore \<Rightarrow> 'c DiskStorageCore rust" where
  "append_entries api entries from_log_index d =
    rbind (if from_log_index \<ge> ds_num_entries d then Inr (fm_pos (ds_log d))
           else rbind (get_log_offset from_log_index d) (\<lambda>offset. Inr (unat offset))) (\<lambda>pos.
    let d = d\<lparr>ds_log := (ds_log d)\<lparr>fm_pos := pos\<rparr>\<rparr>
    in rbind (rget entries 0) (\<lambda>first_entry.
       rbind (rfold (write_entry api from_log_index) (enumerate 0 entries) d) (\<lambda>d.
       rbind (if from_log_index = 0 then set_raft_metadata FIRST_INDEX (en_index api first_entry) d else Inr d) (\<lambda>d.
       let num_removed_entries = ds_num_entries d - from_log_index;
           d = d\<lparr>ds_num_entries := ds_num_entries d + word_of_nat (length entries) - num_removed_entries\<rparr>
       in set_raft_metadata LAST_INDEX (en_index api (last entries)) d))))"

definition append_log :: "'e entry_api \<Rightarrow> 'e list \<Rightarrow> 'c DiskStorageCore \<Rightarrow> 'c DiskStorageCore rust" where
  "append_log api entries d = (case entries of
     [] \<Rightarrow> Inr d
   | e # _ \<Rightarrow>
       rbind (first_index d) (\<lambda>first_index.
       if first_index > en_index api e then Inl PanicCall
       else rbind (last_index d) (\<lambda>last_index.
         if last_index + 1 < en_index api e then Inl PanicCall
         else append_entries api entries (en_index api e - first_index) d)))"

definition set_conf_state :: "'c \<Rightarrow> ('c \<times> u64) option \<Rightarrow> 'c DiskStorageCore \<Rightarrow> 'c DiskStorageCore" where
  "set_conf_state cs pending_membership_change d =
    (let d = d\<lparr>ds_conf_state := cs\<rparr>
     in case pending_membership_change of
          Some (cs, idx) \<Rightarrow> d\<lparr>ds_pending_conf_state := Some cs, ds_pending_conf_state_start_index := Some idx\<rparr>
        | None \<Rightarrow> d)"

definition set_hard_state :: "u64 \<Rightarrow> u64 \<Rightarrow> 'c DiskStorageCore \<Rightarrow> 'c DiskStorageCore rust" where
  "set_hard_state commit term d =
    rbind (put_field TERM_INDEX (put_u64 term) (ds_hard_state d)) (\<lambda>hs.
    rbind (put_field COMMIT_INDEX (put_u64 commit) hs) (\<lambda>hs. Inr (d\<lparr>ds_hard_state := hs\<rparr>)))"

definition initial_state :: "'c DiskStorageCore \<Rightarrow> (HardState \<times> 'c) rust" where
  "initial_state d = rbind (get_hard_state d) (\<lambda>hs. Inr (hs, ds_conf_state d))"

definition disk_entries ::
  "'e entry_api \<Rightarrow> (u64 option \<Rightarrow> 'e list \<Rightarrow> 'e list) \<Rightarrow> u64 \<Rightarrow> u64 \<Rightarrow> u64 option \<Rightarrow> 'c DiskStorageCore \<Rightarrow> 'e list store_result"
where
  "disk_entries api limit_size low high max_size d =
    rbind (first_index d) (\<lambda>first_index.
    if low < first_index then Inr (Inl Compacted)
    else rbind (last_index d) (\<lambda>last_index.
      if high > last_index + 1 then Inl PanicCall
      else let lo = low - first_index; hi = high - first_index
           in rbind (rmap (\<lambda>i. get_entry api i d) (map word_of_nat [unat lo..<unat hi])) (\<lambda>ents.
              Inr (Inr (limit_size max_size ents)))))"

definition disk_term :: "'e entry_api \<Rightarrow> u64 \<Rightarrow> 'c DiskStorageCore \<Rightarrow> u64 store_result" where
  "disk_term api idx d =
    (if idx = sm_index (ds_snapshot_metadata d) then Inr (Inr (sm_term (ds_snapshot_metadata d)))
     else rbind (first_index d) (\<lambda>offset.
       if idx < offset then Inr (Inl Compacted)
       else let log_index = idx - offset
            in if log_index \<ge> ds_num_entries d then Inr (Inl Unavailable)
               else rbind (get_entry api log_index d) (\<lambda>e. Inr (Inr (en_term api e)))))"


subsection \<open>The bytes of a log\<close>

definition frame :: "'e entry_api \<Rightarrow> 'e \<Rightarrow> bytes" where
  "frame api e = put_u64 (word_of_nat (length (en_write_to_bytes api e))) @ en_write_to_bytes api e"

definition log_bytes :: "'e entry_api \<Rightarrow> 'e list \<Rightarrow> bytes" where
  "log_bytes api xs = concat (map (frame api) xs)"

definition position :: "'e entry_api \<Rightarrow> 'e list \<Rightarrow> nat \<Rightarrow> nat" where
  "position api xs i = length (log_bytes api (take i xs))"

lemma log_bytes_simps [simp]: "log_bytes api [] = []" "log_bytes api (xs @ ys) = log_bytes api xs @ log_bytes api ys"
  "log_bytes api (x # xs) = frame api x @ log_bytes api xs"
  by (simp_all add: log_bytes_def)

lemma log_bytes_split:
  assumes "i < length xs"
  shows "log_bytes api xs = log_bytes api (take i xs) @ frame api (xs ! i) @ log_bytes api (drop (Suc i) xs)"
  using arg_cong [OF id_take_nth_drop [OF assms], of "log_bytes api"] by simp

lemma position_append:
  "i < length xs \<Longrightarrow> position api (xs @ ys) i = position api xs i" "position api (xs @ ys) (length xs) = length (log_bytes api xs)"
  by (simp_all add: position_def)

lemma position_le: "position api xs k \<le> length (log_bytes api xs)"
proof -
  have "log_bytes api (take k xs) @ log_bytes api (drop k xs) = log_bytes api xs"
    by (simp flip: log_bytes_simps(2))
  then show ?thesis
    unfolding position_def by (metis le_add1 length_append)
qed

text \<open>The two files hold a log: its bytes stand at the beginning of the log file, the cursor behind them, and the
  offset file has the position of every entry.\<close>

definition written :: "'e entry_api \<Rightarrow> 'e list \<Rightarrow> 'c DiskStorageCore \<Rightarrow> bool" where
  "written api xs d \<longleftrightarrow>
     fm_mapped (ds_log d) = FILE_SIZE \<and> fm_mapped (ds_offset d) = FILE_SIZE \<and>
     fm_pos (ds_log d) = length (log_bytes api xs) \<and>
     mem_slice (fm_file (ds_log d)) 0 (length (log_bytes api xs)) = log_bytes api xs \<and>
     (\<forall>i<length xs. mem_slice (fm_file (ds_offset d)) (8 * i) (8 * i + 8) = put_u64 (word_of_nat (position api xs i)))"

lemma unat_times_8:
  assumes "8 * n + 8 \<le> FILE_SIZE"
  shows "unat (word_of_nat n * 8 :: u64) = 8 * n" "unat (word_of_nat n * 8 + 8 :: u64) = 8 * n + 8"
proof -
  have "n < 2 ^ 64"
    using assms by (simp add: FILE_SIZE_def)
  then show m: "unat (word_of_nat n * 8 :: u64) = 8 * n"
    using assms by (subst unat_mult_u64) (simp_all add: FILE_SIZE_def)
  show "unat (word_of_nat n * 8 + 8 :: u64) = 8 * n + 8"
    using assms m by (subst unat_add_u64) (simp_all add: FILE_SIZE_def)
qed

lemma write_entry_written:
  assumes w: "written api ys d" and n: "from + word_of_nat i = word_of_nat (length ys)"
    and room: "8 * Suc (length ys) \<le> FILE_SIZE"
  shows "\<exists>l f. write_entry api from (i, e) d = Inr (d\<lparr>ds_log := l, ds_offset := f\<rparr>) \<and>
    written api (ys @ [e]) (d\<lparr>ds_log := l, ds_offset := f\<rparr>)"
proof -
  let ?n = "length ys" and ?pos = "length (log_bytes api ys)"
  let ?bs = "en_write_to_bytes api e"
  let ?l = "file_write ?bs (file_write (put_u64 (word_of_nat (length ?bs))) (ds_log d))"
  let ?f = "(ds_offset d)\<lparr>fm_file := mem_write (8 * ?n) (put_u64 (word_of_nat ?pos)) (fm_file (ds_offset d))\<rparr>"
  have eq: "write_entry api from (i, e) d = Inr (d\<lparr>ds_log := ?l, ds_offset := ?f\<rparr>)"
    using w room unat_times_8 [of ?n]
    by (simp add: write_entry_def Let_def written_def map_put_8 n del: distrib_right_numeral)
  have pre: "mem_slice (mem_write ?pos (put_u64 (word_of_nat (length ?bs))) (fm_file (ds_log d))) 0 (?pos + 8)
      = log_bytes api ys @ put_u64 (word_of_nat (length ?bs))"
    using slice_write_end [of "fm_file (ds_log d)" ?pos "log_bytes api ys" "put_u64 (word_of_nat (length ?bs))"] w
    by (simp add: written_def)
  have log: "mem_slice (fm_file ?l) 0 (length (log_bytes api (ys @ [e]))) = log_bytes api (ys @ [e])"
    using slice_write_end [OF pre, of ?bs] w by (simp add: written_def frame_def ac_simps)
  have "mem_slice (fm_file ?f) (8 * j) (8 * j + 8) = put_u64 (word_of_nat (position api (ys @ [e]) j))"
    if "j < length (ys @ [e])" for j
  proof (cases "j = ?n")
    case True
    then show ?thesis
      using slice_write_same [of "8 * ?n" "put_u64 (word_of_nat ?pos)" "fm_file (ds_offset d)"] by (simp add: position_append)
  next
    case False
    then have "j < ?n"
      using that by simp
    then show ?thesis
      using w by (simp add: slice_write_other position_append written_def)
  qed
  then have "written api (ys @ [e]) (d\<lparr>ds_log := ?l, ds_offset := ?f\<rparr>)"
    using log w unfolding written_def by (simp add: frame_def)
  then show ?thesis
    using eq by blast
qed

lemma write_entries_written:
  assumes "written api ys d" "unat from + i = length ys" "8 * (length ys + length es) \<le> FILE_SIZE"
  shows "\<exists>l f. rfold (write_entry api from) (enumerate i es) d = Inr (d\<lparr>ds_log := l, ds_offset := f\<rparr>) \<and>
    written api (ys @ es) (d\<lparr>ds_log := l, ds_offset := f\<rparr>)"
  using assms
proof (induction es arbitrary: i ys d)
  case Nil
  then show ?case
    by (intro exI [of _ "ds_log d"] exI [of _ "ds_offset d"]) simp
next
  case (Cons e es)
  have "from + word_of_nat i = word_of_nat (unat from + i)"
    by simp
  then have "from + word_of_nat i = word_of_nat (length ys)"
    by (simp only: Cons.prems(2))
  then obtain l f where e: "write_entry api from (i, e) d = Inr (d\<lparr>ds_log := l, ds_offset := f\<rparr>)"
    "written api (ys @ [e]) (d\<lparr>ds_log := l, ds_offset := f\<rparr>)"
    using write_entry_written [OF Cons.prems(1), of "from" i e] Cons.prems(3) by auto
  obtain l' f' where "rfold (write_entry api from) (enumerate (Suc i) es) (d\<lparr>ds_log := l, ds_offset := f\<rparr>)
      = Inr (d\<lparr>ds_log := l', ds_offset := f'\<rparr>)" "written api (ys @ e # es) (d\<lparr>ds_log := l', ds_offset := f'\<rparr>)"
    using Cons.IH [OF e(2), of "Suc i"] Cons.prems(2,3) by auto
  then show ?case
    using e(1) by (intro exI [of _ l'] exI [of _ f']) simp
qed

text \<open>Going back to an earlier entry forgets the later ones.\<close>

lemma seek_written:
  assumes w: "written api xs d" and k: "k \<le> length xs"
  shows "written api (take k xs) (d\<lparr>ds_log := (ds_log d)\<lparr>fm_pos := position api xs k\<rparr>\<rparr>)"
proof -
  have "log_bytes api (take k xs) @ log_bytes api (drop k xs) = log_bytes api xs"
    by (simp flip: log_bytes_simps(2))
  then have "take (position api xs k) (log_bytes api xs) = log_bytes api (take k xs)"
    unfolding position_def by (metis append_eq_conv_conj)
  then have "mem_slice (fm_file (ds_log d)) 0 (length (log_bytes api (take k xs))) = log_bytes api (take k xs)"
    using slice_take [OF _ position_le [of api xs k], of "fm_file (ds_log d)"] w by (simp add: written_def position_def)
  then show ?thesis
    using w k by (auto simp: written_def position_def min_def)
qed

lemma log_offset_read:
  assumes w: "written api xs d" and i: "i < length xs" and room: "8 * length xs \<le> FILE_SIZE"
  shows "get_log_offset (word_of_nat i) d = Inr (word_of_nat (position api xs i))"
proof -
  have "8 * i + 8 \<le> FILE_SIZE"
    using i room by linarith
  then show ?thesis
    using w i unat_times_8 [of i] by (simp add: get_log_offset_def map_get_def written_def)
qed

lemma entry_read:
  assumes w: "written api xs d" and i: "i < length xs" and room: "8 * length xs \<le> FILE_SIZE"
    and fits: "position api xs (Suc i) \<le> FILE_SIZE"
    and parse: "en_parse_from_bytes api (en_write_to_bytes api (xs ! i)) = Some (xs ! i)"
  shows "get_entry api (word_of_nat i) d = Inr (xs ! i)"
proof -
  let ?bs = "en_write_to_bytes api (xs ! i)" and ?p = "position api xs i"
  have "mem_slice (fm_file (ds_log d)) 0 (length (log_bytes api xs)) =
      log_bytes api (take i xs) @ frame api (xs ! i) @ log_bytes api (drop (Suc i) xs)"
    using w log_bytes_split [OF i] by (simp add: written_def)
  then have s: "mem_slice (fm_file (ds_log d)) ?p (?p + length (frame api (xs ! i))) = frame api (xs ! i)"
    unfolding position_def by (rule slice_infix)
  have "frame api (xs ! i) = mem_slice (fm_file (ds_log d)) ?p (?p + 8) @ mem_slice (fm_file (ds_log d)) (?p + 8) (?p + 8 + length ?bs)"
    using slice_append [of ?p "?p + 8" "?p + 8 + length ?bs" "fm_file (ds_log d)"] s by (simp add: frame_def ac_simps)
  then have parts: "mem_slice (fm_file (ds_log d)) ?p (?p + 8) = put_u64 (word_of_nat (length ?bs))"
    "mem_slice (fm_file (ds_log d)) (?p + 8) (?p + 8 + length ?bs) = ?bs"
    by (simp_all add: frame_def append_eq_append_conv)
  have "position api xs (Suc i) = ?p + 8 + length ?bs"
    using i by (simp add: position_def take_Suc_conv_app_nth frame_def)
  then have le: "?p + 8 + length ?bs \<le> FILE_SIZE"
    using fits by simp
  have u: "unat (word_of_nat ?p :: u64) = ?p" "unat (word_of_nat ?p + 8 :: u64) = ?p + 8"
    "unat (word_of_nat ?p + 8 + word_of_nat (length ?bs) :: u64) = ?p + 8 + length ?bs"
  proof -
    show p: "unat (word_of_nat ?p :: u64) = ?p"
      using le by (intro unat_of_nat_u64) (simp add: FILE_SIZE_def)
    show p8: "unat (word_of_nat ?p + 8 :: u64) = ?p + 8"
      using le p by (subst unat_add_u64) (simp_all add: FILE_SIZE_def)
    have "unat (word_of_nat (length ?bs) :: u64) = length ?bs"
      using le by (intro unat_of_nat_u64) (simp add: FILE_SIZE_def)
    then show "unat (word_of_nat ?p + 8 + word_of_nat (length ?bs) :: u64) = ?p + 8 + length ?bs"
      using le p8 by (subst unat_add_u64) (simp_all add: FILE_SIZE_def)
  qed
  show ?thesis
    using log_offset_read [OF w i room] parts u le w parse
    by (simp add: get_entry_def map_get_def Let_def written_def)
qed


subsection \<open>The metadata\<close>

lemmas field_defs = FIRST_INDEX_def LAST_INDEX_def FIRST_INDEX_IS_SET_def LAST_INDEX_IS_SET_def
  TERM_INDEX_def COMMIT_INDEX_def VOTE_INDEX_def

text \<open>The metadata memory with the two optional indices it shows.\<close>

definition shows_indices :: "u64 option \<Rightarrow> u64 option \<Rightarrow> Mem \<Rightarrow> bool" where
  "shows_indices a b m \<longleftrightarrow> mem_len m = 18 \<and>
     (case a of None \<Rightarrow> mem_at m 0 = 0 | Some v \<Rightarrow> mem_at m 0 \<noteq> 0 \<and> mem_slice m 1 9 = put_u64 v) \<and>
     (case b of None \<Rightarrow> mem_at m 9 = 0 | Some v \<Rightarrow> mem_at m 9 \<noteq> 0 \<and> mem_slice m 10 18 = put_u64 v)"

lemma put_field_fits: "fst f \<le> snd f \<Longrightarrow> snd f \<le> mem_len m \<Longrightarrow> length bs = snd f - fst f \<Longrightarrow>
    put_field f bs m = Inr (mem_write (fst f) bs m)"
  by (simp add: put_field_def map_put_def)

lemma get_field_slice: "fst f \<le> snd f \<Longrightarrow> snd f \<le> mem_len m \<Longrightarrow> get_field f m = Some (mem_slice m (fst f) (snd f))"
  by (simp add: get_field_def map_get_def)

lemma mem_len_write: "p + length bs \<le> mem_len m \<Longrightarrow> mem_len (mem_write p bs m) = mem_len m"
  by (simp add: mem_write_def)

lemma slice_after_write: "b = a + length bs \<Longrightarrow> mem_slice (mem_write a bs m) a b = bs"
  by (simp add: slice_write_same)

lemmas field_io = put_field_fits get_field_slice mem_len_write slice_after_write slice_write_other

lemma get_metadata_eq:
  assumes "mem_len (ds_raft_metadata d) = 18"
  shows "get_raft_metadata FIRST_INDEX d = (if mem_at (ds_raft_metadata d) 0 = 0 then Inr None
      else rbind (from_be_bytes (mem_slice (ds_raft_metadata d) 1 9)) (\<lambda>v. Inr (Some v)))"
    "get_raft_metadata LAST_INDEX d = (if mem_at (ds_raft_metadata d) 9 = 0 then Inr None
      else rbind (from_be_bytes (mem_slice (ds_raft_metadata d) 10 18)) (\<lambda>v. Inr (Some v)))"
proof -
  have "mem_slice (ds_raft_metadata d) 0 1 = [mem_at (ds_raft_metadata d) 0]"
    "mem_slice (ds_raft_metadata d) 9 10 = [mem_at (ds_raft_metadata d) 9]"
    by (simp_all add: mem_slice_def upt_rec)
  then show "get_raft_metadata FIRST_INDEX d = (if mem_at (ds_raft_metadata d) 0 = 0 then Inr None
      else rbind (from_be_bytes (mem_slice (ds_raft_metadata d) 1 9)) (\<lambda>v. Inr (Some v)))"
    "get_raft_metadata LAST_INDEX d = (if mem_at (ds_raft_metadata d) 9 = 0 then Inr None
      else rbind (from_be_bytes (mem_slice (ds_raft_metadata d) 10 18)) (\<lambda>v. Inr (Some v)))"
    using assms by (simp_all add: get_raft_metadata_def field_defs get_field_slice rget_def)
qed

lemma get_metadata_shown:
  assumes "shows_indices a b (ds_raft_metadata d)"
  shows "get_raft_metadata FIRST_INDEX d = Inr a" "get_raft_metadata LAST_INDEX d = Inr b"
  using assms by (auto simp: shows_indices_def get_metadata_eq split: option.splits)

lemma mem_at_write: "i < p \<or> p + length bs \<le> i \<Longrightarrow> mem_at (mem_write p bs m) i = mem_at m i"
  "mem_at (mem_write p (b # bs) m) p = b"
  by (auto simp: mem_write_def)

lemma set_first:
  assumes "shows_indices a b (ds_raft_metadata d)"
  shows "\<exists>m. set_raft_metadata FIRST_INDEX v d = Inr (d\<lparr>ds_raft_metadata := m\<rparr>) \<and> shows_indices (Some v) b m"
proof -
  let ?m = "mem_write 1 (put_u64 v) (mem_write 0 [1] (ds_raft_metadata d))"
  have len: "mem_len (ds_raft_metadata d) = 18"
    using assms by (simp add: shows_indices_def)
  have "set_raft_metadata FIRST_INDEX v d = Inr (d\<lparr>ds_raft_metadata := ?m\<rparr>)"
    using len by (simp add: set_raft_metadata_def rassert_def field_defs field_io)
  moreover have "shows_indices (Some v) b ?m"
    using assms len by (simp add: shows_indices_def field_io mem_at_write split: option.splits)
  ultimately show ?thesis
    by blast
qed

lemma set_last:
  assumes "shows_indices a b (ds_raft_metadata d)"
  shows "\<exists>m. set_raft_metadata LAST_INDEX v d = Inr (d\<lparr>ds_raft_metadata := m\<rparr>) \<and> shows_indices a (Some v) m"
proof -
  let ?m = "mem_write 10 (put_u64 v) (mem_write 9 [1] (ds_raft_metadata d))"
  have len: "mem_len (ds_raft_metadata d) = 18"
    using assms by (simp add: shows_indices_def)
  have "set_raft_metadata LAST_INDEX v d = Inr (d\<lparr>ds_raft_metadata := ?m\<rparr>)"
    using len by (simp add: set_raft_metadata_def rassert_def field_defs field_io)
  moreover have "shows_indices a (Some v) ?m"
    using assms len by (simp add: shows_indices_def field_io mem_at_write split: option.splits)
  ultimately show ?thesis
    by blast
qed

lemma fresh_indices: "shows_indices None None (mem_zero 18)"
  by (simp add: shows_indices_def mem_zero_def)

subsection \<open>The log a storage holds\<close>

text \<open>\<open>stored api xs d\<close>: the storage represents the log \<open>xs\<close>, whose indices start behind the snapshot.\<close>

definition stored :: "'e entry_api \<Rightarrow> 'e list \<Rightarrow> 'c DiskStorageCore \<Rightarrow> bool" where
  "stored api xs d \<longleftrightarrow> written api xs d \<and>
     unat (ds_num_entries d) = length xs \<and> 8 * length xs \<le> FILE_SIZE \<and> length (log_bytes api xs) < 2 ^ 64 \<and>
     (\<forall>i<length xs. unat (en_index api (xs ! i)) = Suc (unat (sm_index (ds_snapshot_metadata d)) + i)) \<and>
     Suc (unat (sm_index (ds_snapshot_metadata d)) + length xs) < 2 ^ 64 \<and>
     (if xs = [] then shows_indices None None (ds_raft_metadata d)
      else shows_indices (Some (en_index api (hd xs))) (Some (en_index api (last xs))) (ds_raft_metadata d))"

lemma storedD:
  assumes "stored api xs d"
  shows "written api xs d" "unat (ds_num_entries d) = length xs" "8 * length xs \<le> FILE_SIZE"
    "length (log_bytes api xs) < 2 ^ 64"
    "i < length xs \<Longrightarrow> unat (en_index api (xs ! i)) = Suc (unat (sm_index (ds_snapshot_metadata d)) + i)"
    "Suc (unat (sm_index (ds_snapshot_metadata d)) + length xs) < 2 ^ 64"
    "if xs = [] then shows_indices None None (ds_raft_metadata d)
      else shows_indices (Some (en_index api (hd xs))) (Some (en_index api (last xs))) (ds_raft_metadata d)"
  using assms by (simp_all add: stored_def)

lemma stored_fresh: "stored api [] (disk_new conf)"
  using fresh_indices
  by (simp add: stored_def written_def disk_new_def file_mmap_def FILE_SIZE_def)

text \<open>The first and last index, as numbers.\<close>

lemma stored_indices:
  assumes s: "stored api xs d"
  obtains f l where "first_index d = Inr f" "last_index d = Inr l"
    "unat f = Suc (unat (sm_index (ds_snapshot_metadata d)))"
    "unat l = unat (sm_index (ds_snapshot_metadata d)) + length xs" "unat (l + 1) = Suc (unat l)"
proof (cases "xs = []")
  case True
  then have "first_index d = Inr (sm_index (ds_snapshot_metadata d) + 1)" "last_index d = Inr (sm_index (ds_snapshot_metadata d))"
    using storedD(7) [OF s] by (simp_all add: get_metadata_shown first_index_def last_index_def)
  moreover have "unat (sm_index (ds_snapshot_metadata d) + 1) = Suc (unat (sm_index (ds_snapshot_metadata d)))"
    using storedD(6) [OF s] by (intro unat_Suc_u64) simp
  ultimately show thesis
    using that [of "sm_index (ds_snapshot_metadata d) + 1" "sm_index (ds_snapshot_metadata d)"] True by simp
next
  case False
  then have "first_index d = Inr (en_index api (hd xs))" "last_index d = Inr (en_index api (last xs))"
    using storedD(7) [OF s] by (simp_all add: get_metadata_shown first_index_def last_index_def)
  moreover have "unat (en_index api (hd xs)) = Suc (unat (sm_index (ds_snapshot_metadata d)))"
    using storedD(5) [OF s, of 0] False by (simp add: hd_conv_nth)
  moreover have l: "unat (en_index api (last xs)) = unat (sm_index (ds_snapshot_metadata d)) + length xs"
    using storedD(5) [OF s, of "length xs - 1"] False by (simp add: last_conv_nth)
  moreover have "unat (en_index api (last xs) + 1) = Suc (unat (en_index api (last xs)))"
    using storedD(6) [OF s] l by (simp add: unat_Suc_u64)
  ultimately show thesis
    using that by blast
qed


text \<open>Where a batch of entries goes, and what the log is afterwards. A batch is good when its indices are consecutive
  and leave no gap, and there is room for the offsets.\<close>

definition batch_at :: "'e entry_api \<Rightarrow> SnapshotMetadata \<Rightarrow> 'e list \<Rightarrow> nat" where
  "batch_at api snap es = unat (en_index api (hd es)) - Suc (unat (sm_index snap))"

definition batch_ok :: "'e entry_api \<Rightarrow> 'e list \<Rightarrow> bool" where
  "batch_ok api es \<longleftrightarrow> es \<noteq> [] \<and> (\<forall>i<length es. unat (en_index api (es ! i)) = unat (en_index api (hd es)) + i)"

definition room :: "'e entry_api \<Rightarrow> SnapshotMetadata \<Rightarrow> 'e list \<Rightarrow> bool" where
  "room api snap xs \<longleftrightarrow> 8 * length xs \<le> FILE_SIZE \<and> length (log_bytes api xs) < 2 ^ 64 \<and>
     Suc (unat (sm_index snap) + length xs) < 2 ^ 64"

text \<open>The position the log file is set to.\<close>

lemma append_position:
  assumes s: "stored api xs d" and k: "k \<le> length xs"
  shows "(if word_of_nat k \<ge> ds_num_entries d then Inr (fm_pos (ds_log d))
      else rbind (get_log_offset (word_of_nat k) d) (\<lambda>offset. Inr (unat offset))) = Inr (position api xs k)"
proof -
  note st = storedD [OF s]
  have kn: "unat (word_of_nat k :: u64) = k"
    using k st(3) by (intro unat_of_nat_u64) (simp add: FILE_SIZE_def)
  show ?thesis
  proof (cases "k = length xs")
    case True
    then show ?thesis
      using st(1,2) kn by (simp add: word_le_nat_alt written_def position_def)
  next
    case False
    then have "k < length xs"
      using k by simp
    moreover have "unat (word_of_nat (position api xs k) :: u64) = position api xs k"
      using position_le [of api xs k] st(4) by (intro unat_of_nat_u64) linarith
    ultimately show ?thesis
      using log_offset_read [OF st(1) _ st(3)] st(2) kn by (simp add: word_le_nat_alt)
  qed
qed

lemma append_entries_written:
  assumes s: "stored api xs d" and k: "k \<le> length xs" and es: "es \<noteq> []"
    and fits: "8 * (k + length es) \<le> FILE_SIZE"
  obtains l f m where "append_entries api es (word_of_nat k) d = Inr (d\<lparr>ds_log := l, ds_offset := f,
        ds_raft_metadata := m, ds_num_entries := word_of_nat (k + length es)\<rparr>)"
    "written api (take k xs @ es) (d\<lparr>ds_log := l, ds_offset := f\<rparr>)"
    "shows_indices (Some (en_index api (if k = 0 then hd es else hd xs))) (Some (en_index api (last es))) m"
proof -
  note st = storedD [OF s]
  have kn: "unat (word_of_nat k :: u64) = k"
    using k st(3) by (intro unat_of_nat_u64) (simp add: FILE_SIZE_def)
  let ?d = "d\<lparr>ds_log := (ds_log d)\<lparr>fm_pos := position api xs k\<rparr>\<rparr>"
  obtain l f where lf: "rfold (write_entry api (word_of_nat k)) (enumerate 0 es) ?d = Inr (d\<lparr>ds_log := l, ds_offset := f\<rparr>)"
    "written api (take k xs @ es) (d\<lparr>ds_log := l, ds_offset := f\<rparr>)"
    using write_entries_written [OF seek_written [OF st(1) k], of "word_of_nat k" 0 es] kn fits k by auto
  define d1 where "d1 = d\<lparr>ds_log := l, ds_offset := f\<rparr>"
  have e0: "rget es 0 = Inr (hd es)"
    using es by (simp add: rget_def hd_conv_nth)
  obtain m1 b where m1: "(if word_of_nat k = (0 :: u64) then set_raft_metadata FIRST_INDEX (en_index api (hd es)) d1 else Inr d1)
      = Inr (d1\<lparr>ds_raft_metadata := m1\<rparr>)"
    "shows_indices (Some (en_index api (if k = 0 then hd es else hd xs))) b m1"
  proof (cases "k = 0")
    case True
    obtain a b where "shows_indices a b (ds_raft_metadata d1)"
      using st(7) by (cases "xs = []") (auto simp: d1_def)
    then show thesis
      using that set_first [of a b d1 "en_index api (hd es)"] True by auto
  next
    case False
    then have "xs \<noteq> []" "word_of_nat k \<noteq> (0 :: u64)"
      using k kn by auto
    then show thesis
      using that [of "ds_raft_metadata d1" "Some (en_index api (last xs))"] st(7) False by (simp add: d1_def)
  qed
  define d2 where "d2 = d1\<lparr>ds_raft_metadata := m1, ds_num_entries := word_of_nat (k + length es)\<rparr>"
  obtain m where m: "set_raft_metadata LAST_INDEX (en_index api (last es)) d2 = Inr (d2\<lparr>ds_raft_metadata := m\<rparr>)"
    "shows_indices (Some (en_index api (if k = 0 then hd es else hd xs))) (Some (en_index api (last es))) m"
    using set_last [of _ b d2 "en_index api (last es)"] m1(2) by (auto simp: d2_def)
  have num: "ds_num_entries (d1\<lparr>ds_raft_metadata := m1\<rparr>) + word_of_nat (length es)
      - (ds_num_entries (d1\<lparr>ds_raft_metadata := m1\<rparr>) - word_of_nat k) = word_of_nat (k + length es)"
    by simp
  have "append_entries api es (word_of_nat k) d = Inr (d2\<lparr>ds_raft_metadata := m\<rparr>)"
    by (simp only: append_entries_def append_position [OF s k] rbind_Inr Let_def e0 lf(1) d1_def [symmetric] m1(1) num
        d2_def [symmetric] m(1))
  then show thesis
    by (intro that [OF _ lf(2) m(2)]) (simp add: d2_def d1_def)
qed


lemma word_unat_eq: "w = word_of_nat (unat w)"
  for w :: u64
  by simp

definition extend_log :: "'e entry_api \<Rightarrow> SnapshotMetadata \<Rightarrow> 'e list \<Rightarrow> 'e list \<Rightarrow> 'e list" where
  "extend_log api snap xs es = take (batch_at api snap es) xs @ es"

definition fits :: "'e entry_api \<Rightarrow> SnapshotMetadata \<Rightarrow> 'e list \<Rightarrow> 'e list \<Rightarrow> bool" where
  "fits api snap xs es \<longleftrightarrow> batch_ok api es \<and> Suc (unat (sm_index snap)) \<le> unat (en_index api (hd es)) \<and>
     batch_at api snap es \<le> length xs \<and> room api snap (extend_log api snap xs es)"

lemma append_log_stored:
  assumes s: "stored api xs d"
    and fit: "fits api (ds_snapshot_metadata d) xs es"
  obtains d' where "append_log api es d = Inr d'" "stored api (extend_log api (ds_snapshot_metadata d) xs es) d'"
    "ds_snapshot_metadata d' = ds_snapshot_metadata d" "ds_hard_state d' = ds_hard_state d" "ds_conf_state d' = ds_conf_state d"
proof -
  note st = storedD [OF s]
  have es: "batch_ok api es"
    and k: "Suc (unat (sm_index (ds_snapshot_metadata d))) \<le> unat (en_index api (hd es))"
      "batch_at api (ds_snapshot_metadata d) es \<le> length xs"
    and r: "room api (ds_snapshot_metadata d) (take (batch_at api (ds_snapshot_metadata d) es) xs @ es)"
    using fit by (simp_all add: fits_def extend_log_def)
  let ?k = "batch_at api (ds_snapshot_metadata d) es" and ?snap = "sm_index (ds_snapshot_metadata d)"
  obtain f' l' where ix: "first_index d = Inr f'" "last_index d = Inr l'" "unat f' = Suc (unat ?snap)"
    "unat l' = unat ?snap + length xs" "unat (l' + 1) = Suc (unat l')"
    using stored_indices [OF s] by blast
  have ne: "es \<noteq> []"
    using es by (simp add: batch_ok_def)
  have fits: "8 * (?k + length es) \<le> FILE_SIZE" "length (log_bytes api (take ?k xs @ es)) < 2 ^ 64"
    "Suc (unat ?snap + (?k + length es)) < 2 ^ 64"
    using r k(2) by (simp_all add: room_def)
  have e: "unat (en_index api (hd es)) = Suc (unat ?snap) + ?k"
    using k(1) by (simp add: batch_at_def)
  have "unat (en_index api (hd es) - f') = ?k"
    using e ix(3) by (simp add: unat_sub_if')
  then have diff: "en_index api (hd es) - f' = word_of_nat ?k"
    using word_unat_eq [of "en_index api (hd es) - f'"] by simp
  obtain l f m where a: "append_entries api es (word_of_nat ?k) d = Inr (d\<lparr>ds_log := l, ds_offset := f,
        ds_raft_metadata := m, ds_num_entries := word_of_nat (?k + length es)\<rparr>)"
    "written api (take ?k xs @ es) (d\<lparr>ds_log := l, ds_offset := f\<rparr>)"
    "shows_indices (Some (en_index api (if ?k = 0 then hd es else hd xs))) (Some (en_index api (last es))) m"
    using append_entries_written [OF s k(2) ne fits(1)] by blast
  let ?d = "d\<lparr>ds_log := l, ds_offset := f, ds_raft_metadata := m, ds_num_entries := word_of_nat (?k + length es)\<rparr>"
  have "append_log api es d = Inr ?d"
    using a(1) ix e k(2) diff ne by (cases es) (simp_all add: append_log_def word_less_nat_alt)
  moreover have "unat (en_index api ((take ?k xs @ es) ! i)) = Suc (unat ?snap + i)" if "i < length (take ?k xs @ es)" for i
  proof (cases "i < ?k")
    case True
    then show ?thesis
      using st(5) [of i] k(2) by (simp add: nth_append)
  next
    case False
    then show ?thesis
      using es e that k(2) by (simp add: nth_append batch_ok_def)
  qed
  moreover have "unat (word_of_nat (?k + length es) :: u64) = ?k + length es"
    using fits(1) by (intro unat_of_nat_u64) (simp add: FILE_SIZE_def)
  moreover have "hd (take ?k xs @ es) = (if ?k = 0 then hd es else hd xs)"
    using k(2) by (cases xs) (auto simp: take_Cons')
  ultimately have "stored api (take ?k xs @ es) ?d"
    using a(2,3) fits ne k(2) unfolding stored_def by (simp add: written_def)
  then show thesis
    using that \<open>append_log api es d = Inr ?d\<close> by (simp add: extend_log_def)
qed

subsection \<open>Reading\<close>

definition readable :: "'e entry_api \<Rightarrow> 'e list \<Rightarrow> bool" where
  "readable api xs \<longleftrightarrow> length (log_bytes api xs) \<le> FILE_SIZE \<and>
     (\<forall>e\<in>set xs. en_parse_from_bytes api (en_write_to_bytes api e) = Some e)"

lemma stored_entry:
  assumes s: "stored api xs d" and r: "readable api xs" and i: "i < length xs"
  shows "get_entry api (word_of_nat i) d = Inr (xs ! i)"
  using entry_read [OF storedD(1) [OF s] i storedD(3) [OF s]] position_le [of api xs "Suc i"] r i by (auto simp: readable_def)

text \<open>The answers of an abstract log \<open>xs\<close> behind a snapshot.\<close>

definition log_entries :: "u64 \<Rightarrow> 'e list \<Rightarrow> u64 \<Rightarrow> u64 \<Rightarrow> 'e list store_result" where
  "log_entries snap xs low high =
    (if unat low \<le> unat snap then Inr (Inl Compacted)
     else if unat high > unat snap + length xs + 1 then Inl PanicCall
     else Inr (Inr (take (unat high - unat low) (drop (unat low - Suc (unat snap)) xs))))"

definition log_term :: "'e entry_api \<Rightarrow> SnapshotMetadata \<Rightarrow> 'e list \<Rightarrow> u64 \<Rightarrow> u64 store_result" where
  "log_term api snap xs idx =
    (if idx = sm_index snap then Inr (Inr (sm_term snap))
     else if unat idx < unat (sm_index snap) then Inr (Inl Compacted)
     else if unat idx > unat (sm_index snap) + length xs then Inr (Inl Unavailable)
     else Inr (Inr (en_term api (xs ! (unat idx - Suc (unat (sm_index snap)))))))"

lemma entries_stored:
  assumes s: "stored api xs d" and r: "readable api xs" and hi: "unat (sm_index (ds_snapshot_metadata d)) < unat high"
  shows "disk_entries api limit low high max_size d =
    rbind (log_entries (sm_index (ds_snapshot_metadata d)) xs low high)
      (\<lambda>res. Inr (case res of Inl e \<Rightarrow> Inl e | Inr ents \<Rightarrow> Inr (limit max_size ents)))"
proof -
  let ?snap = "sm_index (ds_snapshot_metadata d)"
  obtain f l where ix: "first_index d = Inr f" "last_index d = Inr l" "unat f = Suc (unat ?snap)"
    "unat l = unat ?snap + length xs" "unat (l + 1) = Suc (unat l)"
    using stored_indices [OF s] by blast
  have "unat (high - f) = unat high - Suc (unat ?snap)"
    using hi ix(3) by (simp add: unat_sub_if')
  moreover have "unat (low - f) = unat low - Suc (unat ?snap)" if "\<not> unat low < unat f"
    using that ix(3) by (simp add: unat_sub_if')
  moreover have "rmap (\<lambda>i. get_entry api i d) (map word_of_nat [a..<b]) = Inr (take (b - a) (drop a xs))" if b: "b \<le> length xs" for a b
  proof -
    have "rmap (\<lambda>i. get_entry api i d) (map word_of_nat [a..<b]) = Inr (map (\<lambda>i :: u64. xs ! unat i) (map word_of_nat [a..<b]))"
    proof (rule rmap_Inr)
      fix w :: u64
      assume "w \<in> set (map word_of_nat [a..<b])"
      then obtain i where i: "w = word_of_nat i" "i < length xs"
        using b by auto
      moreover from this have "unat w = i"
        using storedD(3) [OF s] by (simp add: FILE_SIZE_def)
      ultimately show "get_entry api w d = Inr (xs ! unat w)"
        using stored_entry [OF s r] by simp
    qed
    moreover have "map (\<lambda>i. xs ! unat i) (map word_of_nat [a..<b] :: u64 list) = map ((!) xs) [a..<b]"
      using b storedD(3) [OF s] by (simp add: FILE_SIZE_def)
    moreover have "map ((!) xs) [a..<b] = take (b - a) (drop a xs)"
      using b by (intro nth_equalityI) auto
    ultimately show ?thesis
      by simp
  qed
  ultimately show ?thesis
    using ix hi by (auto simp: disk_entries_def log_entries_def word_less_nat_alt Let_def)
qed

lemma term_stored:
  assumes s: "stored api xs d" and r: "readable api xs"
  shows "disk_term api idx d = log_term api (ds_snapshot_metadata d) xs idx"
proof -
  let ?snap = "sm_index (ds_snapshot_metadata d)"
  obtain f where ix: "first_index d = Inr f" "unat f = Suc (unat ?snap)"
    using stored_indices [OF s] by blast
  show ?thesis
  proof (cases "unat idx < unat f")
    case True
    then show ?thesis
      using ix by (auto simp: disk_term_def log_term_def word_less_nat_alt word_unat_eq_iff)
  next
    case False
    then have u: "unat (idx - f) = unat idx - Suc (unat ?snap)"
      using ix(2) by (simp add: unat_sub_if')
    have e: "idx - f = word_of_nat (unat idx - Suc (unat ?snap))"
      unfolding u [symmetric] by (rule word_unat_eq)
    have "get_entry api (idx - f) d = Inr (xs ! (unat idx - Suc (unat ?snap)))" if "unat idx \<le> unat ?snap + length xs"
      unfolding e by (rule stored_entry [OF s r]) (use that False ix(2) in simp)
    moreover have "idx \<noteq> ?snap"
      using False ix(2) by auto
    ultimately show ?thesis
      using False ix storedD(2) [OF s] u by (auto simp: disk_term_def log_term_def word_less_nat_alt word_le_nat_alt Let_def)
  qed
qed


subsection \<open>A log store\<close>

text \<open>The contract of a store that holds a log: a batch that fits extends what is held. Sequences of batches
  follow.\<close>

fun all_fit :: "('l \<Rightarrow> 'b \<Rightarrow> bool) \<Rightarrow> ('l \<Rightarrow> 'b \<Rightarrow> 'l) \<Rightarrow> 'l \<Rightarrow> 'b list \<Rightarrow> bool" where
  "all_fit fit grow xs [] = True"
| "all_fit fit grow xs (es # ess) = (fit xs es \<and> all_fit fit grow (grow xs es) ess)"

locale log_store =
  fixes append :: "'b \<Rightarrow> 's \<Rightarrow> 's rust"
    and holds :: "'l \<Rightarrow> 's \<Rightarrow> bool"
    and fit :: "'l \<Rightarrow> 'b \<Rightarrow> bool"
    and grow :: "'l \<Rightarrow> 'b \<Rightarrow> 'l"
  assumes append_holds: "holds xs s \<Longrightarrow> fit xs es \<Longrightarrow> \<exists>s'. append es s = Inr s' \<and> holds (grow xs es) s'"
begin

lemma appends_hold:
  "holds xs s \<Longrightarrow> all_fit fit grow xs ess \<Longrightarrow> \<exists>s'. rfold append ess s = Inr s' \<and> holds (foldl grow xs ess) s'"
proof (induction ess arbitrary: xs s)
  case (Cons es ess)
  then obtain s1 where "append es s = Inr s1" "holds (grow xs es) s1"
    using append_holds [of xs s es] by auto
  then show ?case
    using Cons.IH [of "grow xs es" s1] Cons.prems(2) by simp
qed simp

end

interpretation disk: log_store "append_log api" "\<lambda>xs d. stored api xs d \<and> ds_snapshot_metadata d = snap" "fits api snap"
  "extend_log api snap" for api snap
proof
  fix xs es d
  assume "stored api xs d \<and> ds_snapshot_metadata d = snap" "fits api snap xs es"
  then show "\<exists>d'. append_log api es d = Inr d' \<and> stored api (extend_log api snap xs es) d' \<and> ds_snapshot_metadata d' = snap"
    using append_log_stored [of api xs d es] by metis
qed

definition conf_snapshot :: SnapshotMetadata where
  "conf_snapshot = \<lparr>sm_index = 1, sm_term = 1\<rparr>"

lemma fresh_conf_stored:
  "\<exists>d. disk_new_with_conf_state c0 c = Inr d \<and> stored api [] d \<and> ds_snapshot_metadata d = conf_snapshot \<and> ds_conf_state d = c"
  using fresh_indices
  by (simp add: disk_new_with_conf_state_def Let_def disk_new_def field_defs field_io mem_zero_def stored_def written_def
      file_mmap_def FILE_SIZE_def conf_snapshot_def)


subsection \<open>Beyond the memory map\<close>

lemma entry_beyond_map:
  assumes w: "written api xs d" and i: "i < length xs" and room: "8 * length xs \<le> FILE_SIZE"
    and far: "FILE_SIZE < position api xs (Suc i)" "position api xs (Suc i) < 2 ^ 64"
  shows "\<exists>p. get_entry api (word_of_nat i) d = Inl p"
proof -
  let ?bs = "en_write_to_bytes api (xs ! i)" and ?p = "position api xs i"
  have next_pos: "position api xs (Suc i) = ?p + 8 + length ?bs"
    using i by (simp add: position_def take_Suc_conv_app_nth frame_def)
  have u: "unat (word_of_nat ?p :: u64) = ?p" "unat (word_of_nat (length ?bs) :: u64) = length ?bs"
    using far(2) next_pos by simp_all
  then have u8: "unat (word_of_nat ?p + 8 :: u64) = ?p + 8"
    "unat (word_of_nat ?p + 8 + word_of_nat (length ?bs) :: u64) = ?p + 8 + length ?bs"
    using far(2) next_pos by (simp_all add: unat_add_u64)
  have "mem_slice (fm_file (ds_log d)) 0 (length (log_bytes api xs)) =
      log_bytes api (take i xs) @ put_u64 (word_of_nat (length ?bs)) @ (?bs @ log_bytes api (drop (Suc i) xs))"
    using w log_bytes_split [OF i] by (simp add: written_def frame_def)
  from slice_infix [OF this] have "mem_slice (fm_file (ds_log d)) ?p (?p + 8) = put_u64 (word_of_nat (length ?bs))"
    by (simp add: position_def)
  then show ?thesis
    using log_offset_read [OF w i room] u u8 w far(1) next_pos
    by (auto simp: get_entry_def map_get_def written_def Let_def)
qed

subsection \<open>The hard state\<close>

text \<open>The hard state memory with commit and term; the vote is still that of the fresh file.\<close>

definition holds_hard :: "'c \<Rightarrow> u64 \<times> u64 \<Rightarrow> 'c DiskStorageCore \<Rightarrow> bool" where
  "holds_hard c = (\<lambda>(commit, term) d. ds_conf_state d = c \<and> mem_len (ds_hard_state d) = 24 \<and>
     mem_slice (ds_hard_state d) 0 8 = put_u64 term \<and> mem_slice (ds_hard_state d) 8 16 = put_u64 0 \<and>
     mem_slice (ds_hard_state d) 16 24 = put_u64 commit)"

lemma initial_state_hard:
  "holds_hard c (commit, term) d \<Longrightarrow> initial_state d = Inr (\<lparr>hs_term = term, hs_vote = 0, hs_commit = commit\<rparr>, c)"
  by (simp add: holds_hard_def initial_state_def get_hard_state_def read_hard_state_field_def field_defs get_field_slice)

lemma fresh_hard: "\<exists>d. disk_new_with_conf_state c0 c = Inr d \<and> holds_hard c (1, 1) d"
proof -
  have "mem_slice (mem_zero 24) 8 16 = put_u64 0"
    by code_simp
  then show ?thesis
    by (simp add: disk_new_with_conf_state_def Let_def disk_new_def field_defs field_io holds_hard_def)
      (simp add: mem_zero_def field_io)
qed

text \<open>It is a store too, in which every write replaces what was held.\<close>

interpretation hard: log_store "\<lambda>(commit, term). set_hard_state commit term" "holds_hard c" "\<lambda>_ _. True" "\<lambda>_ new. new" for c
proof
  fix old new :: "u64 \<times> u64" and d
  assume "holds_hard c old d"
  then show "\<exists>d'. (case new of (commit, term) \<Rightarrow> set_hard_state commit term) d = Inr d' \<and> holds_hard c new d'"
    by (cases old, cases new) (simp add: holds_hard_def set_hard_state_def field_defs field_io)
qed

lemma hard_fits: "all_fit (\<lambda>_ _. True) (\<lambda>_ new. new) old xs" "foldl (\<lambda>_ new. new) old (xs @ [x]) = x"
  by (induction xs arbitrary: old) auto

text \<open>What a store that holds a log answers, in terms of the log.\<close>

definition reads_as :: "'e entry_api \<Rightarrow> 'e list \<Rightarrow> 'c DiskStorageCore \<Rightarrow> bool" where
  "reads_as api xs d \<longleftrightarrow> first_index d = Inr 2 \<and> last_index d = Inr (word_of_nat (Suc (length xs))) \<and>
    (\<forall>idx. disk_term api idx d = log_term api conf_snapshot xs idx) \<and>
    (\<forall>limit low high max_size. 1 < high \<longrightarrow> disk_entries api limit low high max_size d =
       rbind (log_entries 1 xs low high) (\<lambda>res. Inr (case res of Inl e \<Rightarrow> Inl e | Inr ents \<Rightarrow> Inr (limit max_size ents))))"

lemma stored_reads:
  assumes "stored api xs d" "ds_snapshot_metadata d = conf_snapshot" "readable api xs"
  shows "reads_as api xs d"
proof -
  obtain f l where ix: "first_index d = Inr f" "last_index d = Inr l" "unat f = 2" "unat l = Suc (length xs)"
  proof (rule stored_indices [OF assms(1)])
    fix f l
    assume "first_index d = Inr f" "last_index d = Inr l"
      "unat f = Suc (unat (sm_index (ds_snapshot_metadata d)))"
      "unat l = unat (sm_index (ds_snapshot_metadata d)) + length xs"
    then show thesis
      using that [of f l] assms(2) by (simp add: conf_snapshot_def)
  qed
  have "f = 2" "l = word_of_nat (Suc (length xs))"
    using ix(3,4) word_unat_eq [of f] word_unat_eq [of l] by simp_all
  moreover have "disk_term api idx d = log_term api conf_snapshot xs idx" for idx
    using term_stored [OF assms(1) assms(3)] assms(2) by simp
  moreover have "disk_entries api limit low high max_size d =
       rbind (log_entries 1 xs low high) (\<lambda>res. Inr (case res of Inl e \<Rightarrow> Inl e | Inr ents \<Rightarrow> Inr (limit max_size ents)))"
    if "1 < high" for limit low high max_size
    using entries_stored [OF assms(1) assms(3), of high limit low max_size] assms(2) that
    by (simp add: conf_snapshot_def word_less_nat_alt)
  ultimately show ?thesis
    unfolding reads_as_def by (intro conjI allI impI) (simp_all only: ix(1,2))
qed

subsection \<open>Properties\<close>

text \<open>C18: The disk storage refines an abstract log. Starting from \<open>new_with_conf_state\<close>, every sequence of batches whose
  indices are consecutive and leave no gap is appended without a panic, overwriting the tail where a batch starts
  inside the log; afterwards first and last index, the term of every index and every range of entries are those of
  the abstract log, with the error for compacted and unavailable indices and the panic for a range that ends
  beyond the log, as long as the log fits the 20 MiB of the memory maps.\<close>

theorem disk_refines_log:
  assumes "all_fit (fits api conf_snapshot) (extend_log api conf_snapshot) [] ess"
    and "xs = foldl (extend_log api conf_snapshot) [] ess" "readable api xs"
  shows "\<exists>d0 d. disk_new_with_conf_state c0 c = Inr d0 \<and> rfold (append_log api) ess d0 = Inr d \<and>
    first_index d = Inr 2 \<and> last_index d = Inr (word_of_nat (Suc (length xs))) \<and>
    (\<forall>idx. disk_term api idx d = log_term api conf_snapshot xs idx) \<and>
    (\<forall>limit low high max_size. 1 < high \<longrightarrow> disk_entries api limit low high max_size d =
       rbind (log_entries 1 xs low high) (\<lambda>res. Inr (case res of Inl e \<Rightarrow> Inl e | Inr ents \<Rightarrow> Inr (limit max_size ents))))"
proof -
  obtain d0 where d0: "disk_new_with_conf_state c0 c = Inr d0" "stored api [] d0" "ds_snapshot_metadata d0 = conf_snapshot"
    using fresh_conf_stored [of c0 c api] by (elim exE conjE)
  obtain d where d: "rfold (append_log api) ess d0 = Inr d" "stored api xs d" "ds_snapshot_metadata d = conf_snapshot"
    using disk.appends_hold [of api "[]" d0 conf_snapshot ess] d0 assms(1,2) by auto
  show ?thesis
    using d0(1) d(1) stored_reads [OF d(2,3) assms(3)] unfolding reads_as_def by blast
qed

definition example_api :: "(u64 \<times> u64) entry_api" where
  "example_api = \<lparr>en_index = fst, en_term = snd, en_write_to_bytes = (\<lambda>(i, t). put_u64 i @ put_u64 t),
     en_parse_from_bytes = (\<lambda>bs. case gbind get_u64 (\<lambda>i. gbind get_u64 (\<lambda>t. gret (i, t))) bs of
        Inr (e, []) \<Rightarrow> Some e | _ \<Rightarrow> None)\<rparr>"

lemma example_api_parse: "en_parse_from_bytes example_api (en_write_to_bytes example_api e) = Some e"
  using get_put_u64 [of "snd e" "[]"] by (cases e) (simp add: example_api_def codec_simps)

lemma example_log_bytes: "length (log_bytes example_api xs) = 24 * length xs"
  by (induction xs) (auto simp: frame_def example_api_def)

theorem disk_refines_log_witness:
  "\<exists>d0 d. disk_new_with_conf_state () () = Inr d0 \<and>
     rfold (append_log example_api) [[(2, 2), (3, 3), (4, 3)], [(3, 4)]] d0 = Inr d \<and>
     disk_term example_api 3 d = Inr (Inr 4) \<and> disk_term example_api 4 d = Inr (Inl Unavailable) \<and> last_index d = Inr 3"
proof -
  have "all_fit (fits example_api conf_snapshot) (extend_log example_api conf_snapshot) []
      [[(2, 2), (3, 3), (4, 3)], [(3, 4)]]"
    by (simp add: fits_def batch_ok_def room_def example_log_bytes extend_log_def batch_at_def FILE_SIZE_def conf_snapshot_def)
      (simp add: example_api_def frame_def nth_Cons split: nat.splits)
  moreover have "[(2, 2), (3, 4)] = foldl (extend_log example_api conf_snapshot) [] [[(2, 2), (3, 3), (4, 3)], [(3, 4)]]"
    by (simp add: extend_log_def batch_at_def conf_snapshot_def example_api_def)
  moreover have "readable example_api [(2, 2), (3, 4)]"
    by (simp add: readable_def example_api_parse example_log_bytes FILE_SIZE_def del: log_bytes_simps)
  ultimately obtain d0 d where "disk_new_with_conf_state () () = Inr d0"
    "rfold (append_log example_api) [[(2, 2), (3, 3), (4, 3)], [(3, 4)]] d0 = Inr d"
    "last_index d = Inr (word_of_nat (Suc (length [(2 :: u64, 2 :: u64), (3, 4)])))"
    "\<forall>idx. disk_term example_api idx d = log_term example_api conf_snapshot [(2, 2), (3, 4)] idx"
    using disk_refines_log [of example_api "[[(2, 2), (3, 3), (4, 3)], [(3, 4)]]" "[(2, 2), (3, 4)]" "()" "()"] by blast
  moreover have "log_term example_api conf_snapshot [(2, 2), (3, 4)] 3 = Inr (Inr 4)"
    "log_term example_api conf_snapshot [(2, 2), (3, 4)] 4 = Inr (Inl Unavailable)"
    by (simp_all add: log_term_def conf_snapshot_def example_api_def)
  ultimately show ?thesis
    by (intro exI [of _ d0] exI [of _ d]) simp
qed

text \<open>C19: A log that outgrows the memory map is not refused: the batch that goes beyond 20 MiB is appended and the last index
  moves, because the file grows, but reading its last entry panics, because the map does not.\<close>

theorem log_beyond_map_unreadable:
  assumes "stored api xs d" "fits api (ds_snapshot_metadata d) xs es"
    and "FILE_SIZE < length (log_bytes api (extend_log api (ds_snapshot_metadata d) xs es))"
  shows "\<exists>d'. append_log api es d = Inr d' \<and> last_index d' = Inr (en_index api (last es)) \<and>
    (\<exists>p. disk_term api (en_index api (last es)) d' = Inl p)"
proof -
  let ?snap = "ds_snapshot_metadata d"
  define ys where "ys = extend_log api ?snap xs es"
  obtain d' where d': "append_log api es d = Inr d'" "stored api ys d'" "ds_snapshot_metadata d' = ?snap"
    using append_log_stored [OF assms(1,2)] unfolding ys_def by blast
  have ne: "es \<noteq> []" "ys \<noteq> []" "last ys = last es"
    using assms(2) by (auto simp: fits_def batch_ok_def ys_def extend_log_def)
  define i where "i = length ys - 1"
  have i: "i < length ys" "Suc i = length ys"
    using ne(2) by (simp_all add: i_def)
  have last: "unat (en_index api (last es)) = Suc (unat (sm_index ?snap) + i)"
    using storedD(5) [OF d'(2) i(1)] d'(3) ne by (simp add: last_conv_nth i_def)
  obtain f where f: "first_index d' = Inr f" "unat f = Suc (unat (sm_index ?snap))"
    using stored_indices [OF d'(2)] d'(3) by auto
  have li: "last_index d' = Inr (en_index api (last es))"
    using storedD(7) [OF d'(2)] ne by (simp add: last_index_def get_metadata_shown)
  have diff: "unat (en_index api (last es) - f) = i"
    using last f(2) by (simp add: unat_sub_if')
  then have e: "en_index api (last es) - f = word_of_nat i"
    using word_unat_eq [of "en_index api (last es) - f"] by simp
  obtain p where "get_entry api (word_of_nat i) d' = Inl p"
    using entry_beyond_map [OF storedD(1) [OF d'(2)] i(1) storedD(3) [OF d'(2)]] assms(3) storedD(4) [OF d'(2)] i(2)
    by (auto simp: position_def ys_def [symmetric])
  then have "disk_term api (en_index api (last es)) d' = Inl p"
    using f last d'(3) storedD(2) [OF d'(2)] i(1) e diff
    by (auto simp: disk_term_def word_less_nat_alt word_le_nat_alt Let_def)
  then show ?thesis
    using d'(1) li by blast
qed

definition large_api :: "(u64 \<times> u64) entry_api" where
  "large_api = example_api\<lparr>en_write_to_bytes := (\<lambda>_. replicate FILE_SIZE 0)\<rparr>"

theorem log_beyond_map_unreadable_witness:
  "\<exists>d'. append_log large_api [(1, 1)] (disk_new ()) = Inr d' \<and> last_index d' = Inr 1 \<and>
    (\<exists>p. disk_term large_api 1 d' = Inl p)"
proof -
  have "stored large_api [] (disk_new ())"
    by (rule stored_fresh)
  moreover have "fits large_api (ds_snapshot_metadata (disk_new ())) [] [(1, 1)]"
    by (simp add: fits_def batch_ok_def room_def extend_log_def batch_at_def FILE_SIZE_def disk_new_def frame_def)
      (simp add: large_api_def example_api_def FILE_SIZE_def)
  moreover have "FILE_SIZE < length (log_bytes large_api (extend_log large_api (ds_snapshot_metadata (disk_new ())) [] [(1, 1)]))"
    by (simp add: extend_log_def frame_def large_api_def)
  ultimately show ?thesis
    using log_beyond_map_unreadable [of large_api "[]" "disk_new ()" "[(1, 1)]"] by (simp add: large_api_def example_api_def)
qed

text \<open>The hard state that is written is read back, except for the vote: no operation writes it, so what a node reads
  is always the zero of the fresh file.\<close>

theorem hard_state_roundtrip:
  "\<exists>d0 d. disk_new_with_conf_state c0 c = Inr d0 \<and>
    initial_state d0 = Inr (\<lparr>hs_term = 1, hs_vote = 0, hs_commit = 1\<rparr>, c) \<and>
    rfold (\<lambda>(commit, term). set_hard_state commit term) (hss @ [(commit, term)]) d0 = Inr d \<and>
    initial_state d = Inr (\<lparr>hs_term = term, hs_vote = 0, hs_commit = commit\<rparr>, c)"
proof -
  obtain d0 where d0: "disk_new_with_conf_state c0 c = Inr d0" "holds_hard c (1, 1) d0"
    using fresh_hard [of c0 c] by (elim exE conjE)
  obtain d where "rfold (\<lambda>(commit, term). set_hard_state commit term) (hss @ [(commit, term)]) d0 = Inr d"
    "holds_hard c (commit, term) d"
    using hard.appends_hold [OF d0(2) hard_fits(1), of "hss @ [(commit, term)]"] hard_fits(2) by auto
  then show ?thesis
    using d0(1) initial_state_hard [OF d0(2)] initial_state_hard [of c commit "term" d]
    by (intro exI [of _ d0] exI [of _ d] conjI) simp_all
qed

end
