(* ===== verification/Raft_Replica.thy ===== *)
theory Raft_Replica
  imports Communicator Disk_Storage Stop_Protocol
begin

text \<open>
  The Raft replica (\<open>raft.rs\<close>, \<open>RaftReplica\<close>): it drives a node of the \<open>raft\<close> crate by its timers, persists and sends
  what the node hands out, applies what is committed and answers the client. The node, its entries, messages and
  configuration changes belong to that crate: they are the type parameters and the fields of \<open>raft_api\<close>. A call
  of the crate reads the node's store, which is the replica's to write: a clone of the store shares it. The
  store itself is an implementation of the trait \<open>RaftStorage\<close>, the record \<open>store_api\<close>.
\<close>

datatype RaftReconfigurationPolicy = ReplaceLeader | ReplaceFollower

datatype ReconfigurationState = ReconfigNone | ReconfigPending | ReconfigFinished | ReconfigRemoved

datatype State = Election | Running

datatype RaftCompMsg =
    RaftLeader bool u64
  | RaftForwardReconfig u64 "u64 list \<times> u64 list"
  | RaftKillComponents nat

datatype RaftReplicaMsg = Propose Proposal | Stop nat

text \<open>An operation of the store returns a result; \<open>Inl\<close> is its error.\<close>

record ('e, 'c, 'st) store_api =
  st_append_log :: "'e list \<Rightarrow> 'st \<Rightarrow> (unit + 'st) rust"
  st_set_conf_state :: "'c \<Rightarrow> ('c \<times> u64) option \<Rightarrow> 'st \<Rightarrow> 'st"
  st_set_hard_state :: "u64 \<Rightarrow> u64 \<Rightarrow> 'st \<Rightarrow> (unit + 'st) rust"
  st_clear :: "'st \<Rightarrow> (unit + 'st) rust"

definition expect_ok :: "(unit + 'a) rust \<Rightarrow> 'a rust" where
  "expect_ok r = rbind r (\<lambda>res. case res of Inl _ \<Rightarrow> Inl UnwrapNone | Inr x \<Rightarrow> Inr x)"

lemma expect_ok_eq: "expect_ok r = Inr x \<longleftrightarrow> r = Inr (Inr x)"
  by (cases r) (auto simp: expect_ok_def split: sum.splits)

text \<open>The implementation of the trait for \<open>DiskStorage\<close>, which passes every call on to its core.\<close>

definition disk_store_api ::
  "'e entry_api \<Rightarrow> ('c DiskStorageCore \<Rightarrow> (unit + 'c DiskStorageCore) rust) \<Rightarrow> ('e, 'c, 'c DiskStorageCore) store_api" where
  "disk_store_api api clear_dir =
    \<lparr>st_append_log = (\<lambda>es d. rbind (append_log api es d) (\<lambda>d. Inr (Inr d))),
     st_set_conf_state = set_conf_state,
     st_set_hard_state = (\<lambda>commit term d. rbind (set_hard_state commit term d) (\<lambda>d. Inr (Inr d))),
     st_clear = clear_dir\<rparr>"

record ('e, 'm, 'x) Ready =
  rd_entries :: "'e list"
  rd_snapshot_is_default :: bool
  rd_messages :: "'m list"
  rd_committed_entries :: "'e list option"
  rd_rest :: 'x

datatype ConfChangeType = BeginMembershipChange | FinalizeMembershipChange | OtherChange

record ('n, 'st, 'e, 'm, 'cc, 'c, 'x) raft_api =
  ra_entry :: "'e entry_api"
  ra_data :: "'e \<Rightarrow> bytes"
  ra_is_conf_change :: "'e \<Rightarrow> bool"
  ra_conf_change :: "bytes \<Rightarrow> 'cc option"   \<comment> \<open>\<open>merge_from_bytes\<close>\<close>
  ra_change_type :: "'cc \<Rightarrow> ConfChangeType"
  ra_id :: "'n \<Rightarrow> u64"
  ra_leader_id :: "'n \<Rightarrow> u64"
  ra_is_leader :: "'n \<Rightarrow> bool"   \<comment> \<open>\<open>raft.state == StateRole::Leader\<close>\<close>
  ra_voters :: "'n \<Rightarrow> u64 list"   \<comment> \<open>the set of voters, in the order of its iteration\<close>
  ra_conf_state :: "'n \<Rightarrow> 'c"   \<comment> \<open>\<open>ConfState::from\<close> of the configuration\<close>
  ra_is_in_membership_change :: "'n \<Rightarrow> bool"
  ra_campaign :: "'st \<Rightarrow> 'n \<Rightarrow> 'n"
  ra_tick :: "'st \<Rightarrow> 'n \<Rightarrow> 'n"
  ra_step :: "'m \<Rightarrow> 'st \<Rightarrow> 'n \<Rightarrow> 'n"
  ra_propose :: "bytes \<Rightarrow> 'st \<Rightarrow> 'n \<Rightarrow> 'n option"
  ra_propose_membership_change :: "u64 list \<times> u64 list \<Rightarrow> 'st \<Rightarrow> 'n \<Rightarrow> 'n option"
  ra_begin_membership_change :: "'cc \<Rightarrow> 'st \<Rightarrow> 'n \<Rightarrow> 'n option"
  ra_finalize_membership_change :: "'cc \<Rightarrow> 'st \<Rightarrow> 'n \<Rightarrow> 'n option"
  ra_has_ready :: "'st \<Rightarrow> 'n \<Rightarrow> bool"
  ra_ready :: "'st \<Rightarrow> 'n \<Rightarrow> ('e, 'm, 'x) Ready \<times> 'n"
  ra_advance :: "('e, 'm, 'x) Ready \<Rightarrow> 'st \<Rightarrow> 'n \<Rightarrow> 'n"

text \<open>What the configuration file and the random generator provide.\<close>

record raft_conf =
  cf_tick_period :: u64
  cf_election_timeout :: u64
  cf_initial_election_factor :: u64
  cf_gen_range :: "u64 \<Rightarrow> u64 \<Rightarrow> u64"

record ('n, 'st) RaftReplica =
  rr_state :: State
  rr_raw :: 'n
  rr_store :: 'st
  rr_timers :: bool
  rr_reconfig_state :: ReconfigurationState
  rr_current_leader :: u64
  rr_reconfig_policy :: RaftReconfigurationPolicy
  rr_num_peers :: nat
  rr_stopped :: bool
  rr_stopped_peers :: "u64 set"
  rr_hb_proposals :: "Proposal list"
  rr_max_inflight :: nat
  rr_stop_ask :: "nat option"

datatype 'm rr_out =
    RrTrigger "'m CommunicatorMsg"
  | RrSupervisor RaftCompMsg
  | RrReplyStop nat
  | RrScheduleCampaign u64   \<comment> \<open>after so many milliseconds\<close>

type_synonym ('n, 'st, 'm) rr_handled = "(('n, 'st) RaftReplica, 'm rr_out) handled"

definition raft_replica_with ::
  "'n \<Rightarrow> 'st \<Rightarrow> RaftReconfigurationPolicy \<Rightarrow> nat \<Rightarrow> nat \<Rightarrow> ('n, 'st) RaftReplica" where
  "raft_replica_with raw store policy num_peers max_inflight =
    \<lparr>rr_state = Election, rr_raw = raw, rr_store = store, rr_timers = False, rr_reconfig_state = ReconfigNone,
     rr_current_leader = 0, rr_reconfig_policy = policy, rr_num_peers = num_peers, rr_stopped = False,
     rr_stopped_peers = {}, rr_hb_proposals = [], rr_max_inflight = max_inflight, rr_stop_ask = None\<rparr>"

definition start_timers :: "('n, 'st) RaftReplica \<Rightarrow> ('n, 'st) RaftReplica" where
  "start_timers s = s\<lparr>rr_timers := True\<rparr>"

definition stop_timers :: "('n, 'st) RaftReplica \<Rightarrow> ('n, 'st) RaftReplica" where
  "stop_timers s = s\<lparr>rr_timers := False\<rparr>"

definition on_kill ::
  "('e, 'c, 'st) store_api \<Rightarrow> ('n, 'st) RaftReplica \<Rightarrow> ('n, 'st, 'm) rr_handled" where
  "on_kill sapi s = (let s = stop_timers s in
     rbind (expect_ok (st_clear sapi (rr_store s))) (\<lambda>st. Inr (s\<lparr>rr_store := st\<rparr>, [])))"

definition try_campaign_leader ::
  "('n, 'st, 'e, 'm, 'cc, 'c, 'x) raft_api \<Rightarrow> ('n, 'st) RaftReplica \<Rightarrow> ('n, 'st, 'm) rr_handled" where
  "try_campaign_leader api s =
    (if ra_leader_id api (rr_raw s) = 0 \<and> rr_state s = Election
     then Inr (s\<lparr>rr_raw := ra_campaign api (rr_store s) (rr_raw s)\<rparr>, [])
     else Inr (s, []))"

subsection \<open>Proposals\<close>

text \<open>The voters that replace the current ones when the leader, or one of its followers, is to go.\<close>

definition replace_leader :: "u64 \<Rightarrow> u64 list \<Rightarrow> u64 list \<Rightarrow> u64 list" where
  "replace_leader leader_pid nodes current_config =
    (let add_nodes = filter (\<lambda>pid. pid \<notin> set current_config) nodes
     in filter (\<lambda>pid. pid \<noteq> leader_pid) current_config @ add_nodes)"

definition replace_follower :: "u64 \<Rightarrow> u64 list \<Rightarrow> u64 list \<Rightarrow> u64 list rust" where
  "replace_follower my_pid nodes current_config =
    (let add_nodes = filter (\<lambda>pid. pid \<notin> set current_config) nodes
     in case filter (\<lambda>pid. pid \<noteq> my_pid) current_config of
          [] \<Rightarrow> Inl UnwrapNone
        | follower_pid # _ \<Rightarrow> Inr (filter (\<lambda>pid. pid \<noteq> follower_pid) current_config @ add_nodes))"

definition new_configuration ::
  "RaftReconfigurationPolicy \<Rightarrow> u64 \<Rightarrow> u64 \<Rightarrow> u64 list \<times> u64 list \<Rightarrow> u64 list \<Rightarrow> (u64 list \<times> u64 list) rust" where
  "new_configuration policy leader_pid my_pid reconfig current_config =
    (case policy of
       ReplaceLeader \<Rightarrow> Inr (replace_leader leader_pid (fst reconfig) current_config, [])
     | ReplaceFollower \<Rightarrow>
         if leader_pid \<notin> set (fst reconfig)
         then rbind (replace_follower my_pid (fst reconfig) current_config) (\<lambda>voters. Inr (voters, []))
         else Inr reconfig)"

definition propose_reconfig ::
  "('n, 'st, 'e, 'm, 'cc, 'c, 'x) raft_api \<Rightarrow> u64 list \<times> u64 list \<Rightarrow> ('n, 'st) RaftReplica \<Rightarrow> ('n, 'st, 'm) rr_handled" where
  "propose_reconfig api reconfig s =
    (if rr_reconfig_state s = ReconfigNone
     then let leader_pid = ra_leader_id api (rr_raw s); my_pid = ra_id api (rr_raw s)
          in if leader_pid \<noteq> my_pid then Inr (s, [RrSupervisor (RaftForwardReconfig leader_pid reconfig)])
             else rbind (new_configuration (rr_reconfig_policy s) leader_pid my_pid reconfig (ra_voters api (rr_raw s)))
               (\<lambda>new_config.
               rbind (runwrap (ra_propose_membership_change api new_config (rr_store s) (rr_raw s))) (\<lambda>raw.
               Inr (s\<lparr>rr_raw := raw, rr_reconfig_state := ReconfigPending\<rparr>, [])))
     else Inr (s, []))"

definition raft_propose ::
  "('n, 'st, 'e, 'm, 'cc, 'c, 'x) raft_api \<Rightarrow> Proposal \<Rightarrow> ('n, 'st) RaftReplica \<Rightarrow> ('n, 'st, 'm) rr_handled" where
  "raft_propose api proposal s =
    (if ra_leader_id api (rr_raw s) = 0 then Inr (s\<lparr>rr_hb_proposals := rr_hb_proposals s @ [proposal]\<rparr>, [])
     else case prop_reconfig proposal of
       Some reconfig \<Rightarrow> propose_reconfig api reconfig s
     | None \<Rightarrow> rbind (case ra_propose api (prop_data proposal) (rr_store s) (rr_raw s) of
                 None \<Rightarrow> Inl PanicCall | Some raw \<Rightarrow> Inr raw) (\<lambda>raw. Inr (s\<lparr>rr_raw := raw\<rparr>, [])))"

definition raft_tick ::
  "('n, 'st, 'e, 'm, 'cc, 'c, 'x) raft_api \<Rightarrow> ('n, 'st) RaftReplica \<Rightarrow> ('n, 'st, 'm) rr_handled" where
  "raft_tick api s =
    (let s = s\<lparr>rr_raw := ra_tick api (rr_store s) (rr_raw s)\<rparr>;
         leader = ra_leader_id api (rr_raw s)
     in if leader \<noteq> 0
        then step_then (for_each (raft_propose api) (rr_hb_proposals s) (s\<lparr>rr_hb_proposals := []\<rparr>)) (\<lambda>s.
          if leader \<noteq> rr_current_leader s
          then let s = s\<lparr>rr_current_leader := leader\<rparr>;
                   notify_client = (rr_state s = Election)
               in Inr (s\<lparr>rr_state := Running\<rparr>, [RrSupervisor (RaftLeader notify_client leader)])
          else Inr (s, []))
        else Inr (s, []))"

subsection \<open>What the node hands out\<close>

definition campaign_timeout :: "raft_conf \<Rightarrow> u64 rust" where
  "campaign_timeout conf =
    (if cf_initial_election_factor conf = 0 \<or> cf_tick_period conf = 0 then Inl PanicCall
     else let ticks = (cf_election_timeout conf div cf_initial_election_factor conf) div cf_tick_period conf
          in if \<not> ticks < 2 * ticks then Inl PanicCall
             else Inr (cf_gen_range conf ticks (2 * ticks) * cf_tick_period conf))"

definition raft_reconfig_response :: "u64 list \<Rightarrow> bytes" where
  "raft_reconfig_response voters = put_u64 RECONFIG_ID @ put_u64s voters"

definition begin_change ::
  "('n, 'st, 'e, 'm, 'cc, 'c, 'x) raft_api \<Rightarrow> 'cc \<Rightarrow> ('n, 'st) RaftReplica \<Rightarrow> ('n, 'st, 'm) rr_handled" where
  "begin_change api cc s =
    rbind (runwrap (ra_begin_membership_change api cc (rr_store s) (rr_raw s))) (\<lambda>raw.
    rbind (rassert (ra_is_in_membership_change api raw)) (\<lambda>_. Inr (s\<lparr>rr_raw := raw\<rparr>, [])))"

definition finalize_change ::
  "raft_conf \<Rightarrow> ('n, 'st, 'e, 'm, 'cc, 'c, 'x) raft_api \<Rightarrow> ('e, 'c, 'st) store_api \<Rightarrow> 'cc \<Rightarrow> ('n, 'st) RaftReplica
    \<Rightarrow> ('n, 'st, 'm) rr_handled" where
  "finalize_change conf api sapi cc s =
    rbind (runwrap (ra_finalize_membership_change api cc (rr_store s) (rr_raw s))) (\<lambda>raw.
    let s = s\<lparr>rr_raw := raw\<rparr>;
        current_voters = ra_voters api raw;
        s = (if ra_id api raw \<notin> set current_voters
             then (stop_timers s)\<lparr>rr_reconfig_state := ReconfigRemoved\<rparr>
             else s\<lparr>rr_reconfig_state := ReconfigFinished\<rparr>);
        leader = ra_leader_id api raw
    in step_then
      (if leader = 0
       then let s = s\<lparr>rr_state := Election\<rparr>
            in if rr_reconfig_state s \<noteq> ReconfigRemoved
               then rbind (campaign_timeout conf) (\<lambda>timeout. Inr (s, [RrScheduleCampaign timeout]))
               else Inr (s, [])
       else Inr (s, [])) (\<lambda>s.
      Inr (s\<lparr>rr_store := st_set_conf_state sapi (ra_conf_state api raw) None (rr_store s)\<rparr>,
        [RrTrigger (CommProposalResponse (proposal_resp_with (raft_reconfig_response current_voters) leader))])))"

definition apply_committed ::
  "raft_conf \<Rightarrow> ('n, 'st, 'e, 'm, 'cc, 'c, 'x) raft_api \<Rightarrow> ('e, 'c, 'st) store_api \<Rightarrow> 'e \<Rightarrow> ('n, 'st) RaftReplica
    \<Rightarrow> ('n, 'st, 'm) rr_handled" where
  "apply_committed conf api sapi entry s =
    (if ra_data api entry = [] then Inr (s, [])
     else if ra_is_conf_change api entry
     then if rr_reconfig_state s = ReconfigRemoved \<or> rr_reconfig_state s = ReconfigFinished then Inr (s, [])
          else rbind (runwrap (ra_conf_change api (ra_data api entry))) (\<lambda>cc.
            case ra_change_type api cc of
              BeginMembershipChange \<Rightarrow> begin_change api cc s
            | FinalizeMembershipChange \<Rightarrow> finalize_change conf api sapi cc s
            | OtherChange \<Rightarrow> Inl PanicCall)
     else if ra_is_leader api (rr_raw s)
     then Inr (s, [RrTrigger (CommProposalResponse
                     (proposal_resp_with (ra_data api entry) (ra_id api (rr_raw s))))])
     else Inr (s, []))"

definition apply_all ::
  "raft_conf \<Rightarrow> ('n, 'st, 'e, 'm, 'cc, 'c, 'x) raft_api \<Rightarrow> ('e, 'c, 'st) store_api \<Rightarrow> 'e list option \<Rightarrow> ('n, 'st) RaftReplica
    \<Rightarrow> ('n, 'st, 'm) rr_handled" where
  "apply_all conf api sapi committed s = (case committed of
     None \<Rightarrow> Inr (s, [])
   | Some entries \<Rightarrow>
       step_then (for_each (apply_committed conf api sapi) entries s) (\<lambda>s.
         if entries = [] then Inr (s, [])
         else let last_committed = last entries
              in rbind (expect_ok (st_set_hard_state sapi (en_index (ra_entry api) last_committed)
                          (en_term (ra_entry api) last_committed) (rr_store s))) (\<lambda>st.
                 Inr (s\<lparr>rr_store := st\<rparr>, []))))"

definition on_ready ::
  "raft_conf \<Rightarrow> ('n, 'st, 'e, 'm, 'cc, 'c, 'x) raft_api \<Rightarrow> ('e, 'c, 'st) store_api \<Rightarrow> ('n, 'st) RaftReplica
    \<Rightarrow> ('n, 'st, 'm) rr_handled" where
  "on_ready conf api sapi s =
    (if \<not> ra_has_ready api (rr_store s) (rr_raw s) then Inr (s, [])
     else let (ready, raw) = ra_ready api (rr_store s) (rr_raw s);
              s = s\<lparr>rr_raw := raw\<rparr>
          in rbind (st_append_log sapi (rd_entries ready) (rr_store s)) (\<lambda>res. case res of
               Inl _ \<Rightarrow> Inr (s, [])
             | Inr st \<Rightarrow>
                 if \<not> rd_snapshot_is_default ready then Inl PanicCall
                 else step_then (Inr (s\<lparr>rr_store := st\<rparr>, map (\<lambda>m. RrTrigger (CommRawRaftMsg m)) (rd_messages ready)))
                   (\<lambda>s. step_then (apply_all conf api sapi (rd_committed_entries ready) s) (\<lambda>s.
                     Inr (s\<lparr>rr_raw := ra_advance api (ready\<lparr>rd_messages := [], rd_committed_entries := None\<rparr>)
                              (rr_store s) (rr_raw s)\<rparr>, [])))))"

subsection \<open>Messages\<close>

fun raft_replica_receive_local ::
  "('n, 'st, 'e, 'm, 'cc, 'c, 'x) raft_api \<Rightarrow> RaftReplicaMsg \<Rightarrow> ('n, 'st) RaftReplica \<Rightarrow> ('n, 'st, 'm) rr_handled" where
  "raft_replica_receive_local api (Propose p) s =
     (if rr_reconfig_state s \<noteq> ReconfigRemoved then raft_propose api p s else Inr (s, []))"
| "raft_replica_receive_local api (Stop ask) s =
     (let s' = (stop_timers s)\<lparr>rr_stopped := True\<rparr>;
          out = [RrTrigger (CommSendStop (ra_id api (rr_raw s)) True)]
      in if card (rr_stopped_peers s) = rr_num_peers s then Inr (s', out @ [RrReplyStop ask])
         else Inr (s'\<lparr>rr_stop_ask := Some ask\<rparr>, out))"

fun replica_handle ::
  "('n, 'st, 'e, 'm, 'cc, 'c, 'x) raft_api \<Rightarrow> 'm AtomicBroadcastCompMsg \<Rightarrow> ('n, 'st) RaftReplica
    \<Rightarrow> ('n, 'st, 'm) rr_handled" where
  "replica_handle api (CompRawRaftMsg rm) s =
     (if \<not> rr_stopped s \<and> rr_reconfig_state s \<noteq> ReconfigRemoved
      then Inr (s\<lparr>rr_raw := ra_step api rm (rr_store s) (rr_raw s)\<rparr>, []) else Inr (s, []))"
| "replica_handle api (CompStopMsg from_pid) s =
     (if from_pid \<in> rr_stopped_peers s then Inl AssertFailed
      else let s = s\<lparr>rr_stopped_peers := insert from_pid (rr_stopped_peers s)\<rparr>
           in if card (rr_stopped_peers s) = rr_num_peers s \<and> rr_stopped s
              then rbind (runwrap (rr_stop_ask s)) (\<lambda>ask. Inr (s\<lparr>rr_stop_ask := None\<rparr>, [RrReplyStop ask]))
              else Inr (s, []))"
| "replica_handle api (CompRawPaxosMsg _) s = Inr (s, [])"

datatype 'm rr_in =
    RrStart
  | RrLocal RaftReplicaMsg
  | RrComm "'m AtomicBroadcastCompMsg"
  | RrTickTimer
  | RrReadyTimer
  | RrCampaignTimer

text \<open>The periodic timers fire only while they are scheduled.\<close>

fun raft_replica_step ::
  "raft_conf \<Rightarrow> ('n, 'st, 'e, 'm, 'cc, 'c, 'x) raft_api \<Rightarrow> ('e, 'c, 'st) store_api \<Rightarrow> 'm rr_in \<Rightarrow> ('n, 'st) RaftReplica
    \<Rightarrow> ('n, 'st, 'm) rr_handled" where
  "raft_replica_step conf api sapi RrStart s = Inr (start_timers s, [])"
| "raft_replica_step conf api sapi (RrLocal m) s = raft_replica_receive_local api m s"
| "raft_replica_step conf api sapi (RrComm m) s = replica_handle api m s"
| "raft_replica_step conf api sapi RrTickTimer s = (if rr_timers s then raft_tick api s else Inr (s, []))"
| "raft_replica_step conf api sapi RrReadyTimer s = (if rr_timers s then on_ready conf api sapi s else Inr (s, []))"
| "raft_replica_step conf api sapi RrCampaignTimer s = try_campaign_leader api s"


subsection \<open>What the steps leave alone\<close>

definition proposed_from :: "('n, 'st) RaftReplica \<Rightarrow> ('n, 'st) RaftReplica \<Rightarrow> bool" where
  "proposed_from s s' \<longleftrightarrow> rr_state s' = rr_state s \<and> rr_store s' = rr_store s \<and> rr_timers s' = rr_timers s \<and>
     rr_current_leader s' = rr_current_leader s \<and> rr_num_peers s' = rr_num_peers s \<and> rr_stopped s' = rr_stopped s \<and>
     rr_stopped_peers s' = rr_stopped_peers s \<and> rr_stop_ask s' = rr_stop_ask s \<and>
     (rr_reconfig_state s' = rr_reconfig_state s \<or>
      rr_reconfig_state s = ReconfigNone \<and> rr_reconfig_state s' = ReconfigPending)"

definition is_forward :: "'m rr_out \<Rightarrow> bool" where
  "is_forward x = (case x of RrSupervisor (RaftForwardReconfig _ _) \<Rightarrow> True | _ \<Rightarrow> False)"

lemma proposed_refl: "proposed_from s s"
  by (simp add: proposed_from_def)

lemma proposed_trans: "proposed_from s t \<Longrightarrow> proposed_from t u \<Longrightarrow> proposed_from s u"
  unfolding proposed_from_def by auto

lemma propose_effect:
  "raft_propose api p s = Inr (s', out) \<Longrightarrow> proposed_from s s' \<and> list_all is_forward out"
  by (auto simp: raft_propose_def propose_reconfig_def proposed_from_def is_forward_def Let_def panic_simps
      split: if_splits option.splits)

lemma proposes_effect:
  assumes "for_each (raft_propose api) ps s = Inr (s', out)"
  shows "proposed_from s s' \<and> list_all is_forward out"
proof -
  have "proposed_from s s' \<and> list_all is_forward ([] @ out)"
  proof (rule for_each_invariant [OF _ _ assms])
    show "proposed_from s s \<and> list_all is_forward []"
      by (simp add: proposed_refl)
    show "proposed_from s u \<and> list_all is_forward (h @ out)"
      if "proposed_from s t \<and> list_all is_forward h" "raft_propose api p t = Inr (u, out)" for h p t u out
      using propose_effect [OF that(2)] that(1) by (auto intro: proposed_trans)
  qed
  then show ?thesis
    by simp
qed

definition applied_from :: "('n, 'st) RaftReplica \<Rightarrow> ('n, 'st) RaftReplica \<Rightarrow> bool" where
  "applied_from s s' \<longleftrightarrow> rr_current_leader s' = rr_current_leader s \<and> rr_num_peers s' = rr_num_peers s \<and>
     rr_stopped s' = rr_stopped s \<and> rr_stopped_peers s' = rr_stopped_peers s \<and> rr_stop_ask s' = rr_stop_ask s \<and>
     rr_hb_proposals s' = rr_hb_proposals s"

definition is_response :: "'m rr_out \<Rightarrow> bool" where
  "is_response x = (case x of RrTrigger (CommProposalResponse _) \<Rightarrow> True | RrScheduleCampaign _ \<Rightarrow> True | _ \<Rightarrow> False)"

definition reconfigured :: "('n, 'st) RaftReplica \<Rightarrow> bool" where
  "reconfigured s \<longleftrightarrow> rr_reconfig_state s = ReconfigFinished \<or> rr_reconfig_state s = ReconfigRemoved"

definition reconfig_step :: "('n, 'st) RaftReplica \<Rightarrow> ('n, 'st) RaftReplica \<Rightarrow> bool" where
  "reconfig_step s s' \<longleftrightarrow> rr_state s' = rr_state s \<and> rr_reconfig_state s' = rr_reconfig_state s \<or>
     \<not> reconfigured s \<and> reconfigured s'"

lemma begin_effect:
  "begin_change api cc s = Inr (s', out) \<Longrightarrow> applied_from s s' \<and> out = [] \<and> reconfig_step s s' \<and> rr_store s' = rr_store s"
  by (auto simp: begin_change_def applied_from_def reconfig_step_def panic_simps)

text \<open>The state after the configuration has been finalised, before the store hears of it.\<close>

definition finalized :: "('n, 'st, 'e, 'm, 'cc, 'c, 'x) raft_api \<Rightarrow> 'n \<Rightarrow> ('n, 'st) RaftReplica \<Rightarrow> ('n, 'st) RaftReplica" where
  "finalized api raw s = (let removed = (ra_id api raw \<notin> set (ra_voters api raw)) in
     s\<lparr>rr_raw := raw, rr_timers := rr_timers s \<and> \<not> removed,
       rr_reconfig_state := if removed then ReconfigRemoved else ReconfigFinished,
       rr_state := if ra_leader_id api raw = 0 then Election else rr_state s\<rparr>)"

lemma finalized_fields [simp]:
  "applied_from s (finalized api raw s)" "reconfigured (finalized api raw s)" "rr_store (finalized api raw s) = rr_store s"
  "rr_raw (finalized api raw s) = raw"
  by (simp_all add: finalized_def applied_from_def reconfigured_def Let_def)

lemma finalize_change_eq:
  "finalize_change conf api sapi cc s =
    rbind (runwrap (ra_finalize_membership_change api cc (rr_store s) (rr_raw s))) (\<lambda>raw.
    let s' = finalized api raw s;
        s'' = s'\<lparr>rr_store := st_set_conf_state sapi (ra_conf_state api raw) None (rr_store s)\<rparr>;
        response = RrTrigger (CommProposalResponse
          (proposal_resp_with (raft_reconfig_response (ra_voters api raw)) (ra_leader_id api raw)))
    in if ra_leader_id api raw = 0 \<and> ra_id api raw \<in> set (ra_voters api raw)
       then rbind (campaign_timeout conf) (\<lambda>timeout. Inr (s'', [RrScheduleCampaign timeout, response]))
       else Inr (s'', [response]))"
  unfolding finalize_change_def finalized_def
  by (rule arg_cong2 [where f = rbind, OF refl], intro ext, cases s, cases "campaign_timeout conf")
    (simp_all add: stop_timers_def Let_def)

lemma finalize_effect:
  assumes "finalize_change conf api sapi cc s = Inr (s', out)"
  shows "applied_from s s'" "list_all is_response out" "reconfigured s'"
    "\<exists>c. rr_store s' = st_set_conf_state sapi c None (rr_store s)"
proof -
  obtain raw where s': "s' = (finalized api raw s)\<lparr>rr_store := st_set_conf_state sapi (ra_conf_state api raw) None (rr_store s)\<rparr>"
    and out: "list_all is_response out"
    using assms by (auto simp: finalize_change_eq is_response_def Let_def panic_simps split: if_splits)
  show "applied_from s s'" "reconfigured s'"
    using finalized_fields(1) [of s api raw] finalized_fields(2) [of api raw s] unfolding s' applied_from_def reconfigured_def by simp_all
  show "list_all is_response out" "\<exists>c. rr_store s' = st_set_conf_state sapi c None (rr_store s)"
    using out by (auto simp: s')
qed

lemma apply_cases:
  assumes "apply_committed conf api sapi e s = Inr (s', out)"
  shows "s' = s \<and> (out = [] \<or> (\<exists>pr. out = [RrTrigger (CommProposalResponse pr)])) \<or>
    \<not> reconfigured s \<and> ((\<exists>cc. begin_change api cc s = Inr (s', out)) \<or> (\<exists>cc. finalize_change conf api sapi cc s = Inr (s', out)))"
proof (cases "ra_is_conf_change api e \<and> ra_data api e \<noteq> [] \<and> \<not> reconfigured s")
  case True
  then obtain cc where "(case ra_change_type api cc of BeginMembershipChange \<Rightarrow> begin_change api cc s
      | FinalizeMembershipChange \<Rightarrow> finalize_change conf api sapi cc s | OtherChange \<Rightarrow> Inl PanicCall) = Inr (s', out)"
    using assms by (auto simp: apply_committed_def reconfigured_def panic_simps)
  then show ?thesis
    using True by (cases "ra_change_type api cc") auto
next
  case False
  then show ?thesis
    using assms by (auto simp: apply_committed_def reconfigured_def split: if_splits)
qed

lemma apply_effect:
  assumes "apply_committed conf api sapi e s = Inr (s', out)"
  shows "applied_from s s' \<and> list_all is_response out \<and> (reconfigured s \<longrightarrow> s' = s) \<and> reconfig_step s s' \<and>
    (rr_store s' = rr_store s \<or> (\<exists>c. rr_store s' = st_set_conf_state sapi c None (rr_store s)))"
  using apply_cases [OF assms]
proof (elim disjE conjE exE)
  fix cc
  assume "\<not> reconfigured s" "finalize_change conf api sapi cc s = Inr (s', out)"
  then show ?thesis
    using finalize_effect [of conf api sapi cc s s' out] by (simp add: reconfig_step_def)
qed (auto simp: applied_from_def reconfig_step_def is_response_def dest: begin_effect)

lemma applied_refl: "applied_from s s" "reconfig_step s s"
  by (simp_all add: applied_from_def reconfig_step_def)

lemma applied_trans: "applied_from s t \<Longrightarrow> applied_from t u \<Longrightarrow> applied_from s u"
  unfolding applied_from_def by auto

lemma reconfig_step_trans:
  "reconfig_step s t \<Longrightarrow> reconfig_step t u \<Longrightarrow> reconfig_step s u"
  unfolding reconfig_step_def reconfigured_def by auto

lemma applies_effect:
  assumes "for_each (apply_committed conf api sapi) es s = Inr (s', out)"
  shows "applied_from s s' \<and> reconfig_step s s' \<and> list_all is_response out"
proof -
  have "applied_from s s' \<and> reconfig_step s s' \<and> list_all is_response ([] @ out)"
  proof (rule for_each_invariant [OF _ _ assms])
    show "applied_from s s \<and> reconfig_step s s \<and> list_all is_response []"
      by (simp add: applied_refl)
    show "applied_from s u \<and> reconfig_step s u \<and> list_all is_response (h @ out)"
      if "applied_from s t \<and> reconfig_step s t \<and> list_all is_response h" "apply_committed conf api sapi e t = Inr (u, out)"
      for h e t u out
      using apply_effect [OF that(2)] that(1) by (auto intro: applied_trans reconfig_step_trans)
  qed
  then show ?thesis
    by simp
qed

lemma frame_updates [simp]:
  "applied_from s (t\<lparr>rr_raw := r\<rparr>) = applied_from s t" "applied_from s (t\<lparr>rr_store := st\<rparr>) = applied_from s t"
  "applied_from (s\<lparr>rr_raw := r\<rparr>) t = applied_from s t" "applied_from (s\<lparr>rr_store := st\<rparr>) t = applied_from s t"
  "reconfig_step s (t\<lparr>rr_raw := r\<rparr>) = reconfig_step s t" "reconfig_step s (t\<lparr>rr_store := st\<rparr>) = reconfig_step s t"
  "reconfig_step (s\<lparr>rr_raw := r\<rparr>) t = reconfig_step s t" "reconfig_step (s\<lparr>rr_store := st\<rparr>) t = reconfig_step s t"
  by (simp_all add: applied_from_def reconfig_step_def reconfigured_def)

lemma apply_all_effect:
  assumes "apply_all conf api sapi committed s = Inr (s', out)"
  shows "applied_from s s' \<and> reconfig_step s s' \<and> list_all is_response out"
  using assms applied_refl [of s]
  by (auto simp: apply_all_def Let_def panic_simps split: option.splits if_splits dest!: applies_effect)

text \<open>The last part of \<open>on_ready\<close>, once the entries are in the store.\<close>

definition after_append ::
  "raft_conf \<Rightarrow> ('n, 'st, 'e, 'm, 'cc, 'c, 'x) raft_api \<Rightarrow> ('e, 'c, 'st) store_api \<Rightarrow> ('e, 'm, 'x) Ready \<Rightarrow> ('n, 'st) RaftReplica
    \<Rightarrow> ('n, 'st, 'm) rr_handled" where
  "after_append conf api sapi ready s =
    (if \<not> rd_snapshot_is_default ready then Inl PanicCall
     else step_then (Inr (s, map (\<lambda>m. RrTrigger (CommRawRaftMsg m)) (rd_messages ready)))
       (\<lambda>s. step_then (apply_all conf api sapi (rd_committed_entries ready) s) (\<lambda>s.
         Inr (s\<lparr>rr_raw := ra_advance api (ready\<lparr>rd_messages := [], rd_committed_entries := None\<rparr>)
                  (rr_store s) (rr_raw s)\<rparr>, []))))"

lemma on_ready_eq:
  "on_ready conf api sapi s =
    (if \<not> ra_has_ready api (rr_store s) (rr_raw s) then Inr (s, [])
     else let (ready, raw) = ra_ready api (rr_store s) (rr_raw s)
          in rbind (st_append_log sapi (rd_entries ready) (rr_store s)) (\<lambda>res. case res of
               Inl _ \<Rightarrow> Inr (s\<lparr>rr_raw := raw\<rparr>, [])
             | Inr st \<Rightarrow> after_append conf api sapi ready (s\<lparr>rr_raw := raw, rr_store := st\<rparr>)))"
  unfolding on_ready_def after_append_def Let_def by simp

lemma on_ready_cases:
  assumes "on_ready conf api sapi s = Inr (s', out)"
  obtains (idle) "s' = s" "out = []" "\<not> ra_has_ready api (rr_store s) (rr_raw s)"
  | (failed) ready raw e where "ra_has_ready api (rr_store s) (rr_raw s)" "ra_ready api (rr_store s) (rr_raw s) = (ready, raw)"
      "st_append_log sapi (rd_entries ready) (rr_store s) = Inr (Inl e)" "s' = s\<lparr>rr_raw := raw\<rparr>" "out = []"
  | (persisted) ready raw st where "ra_has_ready api (rr_store s) (rr_raw s)" "ra_ready api (rr_store s) (rr_raw s) = (ready, raw)"
      "st_append_log sapi (rd_entries ready) (rr_store s) = Inr (Inr st)"
      "after_append conf api sapi ready (s\<lparr>rr_raw := raw, rr_store := st\<rparr>) = Inr (s', out)"
proof (cases "ra_has_ready api (rr_store s) (rr_raw s)")
  case ready: True
  obtain rd raw where r: "ra_ready api (rr_store s) (rr_raw s) = (rd, raw)"
    by (cases "ra_ready api (rr_store s) (rr_raw s)")
  obtain res where res: "st_append_log sapi (rd_entries rd) (rr_store s) = Inr res"
    using assms ready r by (auto simp: on_ready_eq panic_simps)
  show ?thesis
    using assms ready r res failed [OF ready r] persisted [OF ready r] by (cases res) (auto simp: on_ready_eq)
qed (use assms idle in \<open>simp add: on_ready_eq\<close>)

definition is_ready_out :: "'m rr_out \<Rightarrow> bool" where
  "is_ready_out x = (is_response x \<or> (case x of RrTrigger (CommRawRaftMsg _) \<Rightarrow> True | _ \<Rightarrow> False))"

lemma after_append_cases:
  assumes "after_append conf api sapi ready s = Inr (s', out)"
  obtains t resp where "apply_all conf api sapi (rd_committed_entries ready) s = Inr (t, resp)"
    "s' = t\<lparr>rr_raw := ra_advance api (ready\<lparr>rd_messages := [], rd_committed_entries := None\<rparr>) (rr_store t) (rr_raw t)\<rparr>"
    "out = map (\<lambda>m. RrTrigger (CommRawRaftMsg m)) (rd_messages ready) @ resp"
  using assms by (auto simp: after_append_def panic_simps split: if_splits)

lemma on_ready_effect:
  assumes "on_ready conf api sapi s = Inr (s', out)"
  shows "applied_from s s' \<and> reconfig_step s s' \<and> list_all is_ready_out out"
  using assms
proof (cases rule: on_ready_cases)
  case (persisted ready raw st)
  from persisted(4) obtain t resp where t:
    "apply_all conf api sapi (rd_committed_entries ready) (s\<lparr>rr_raw := raw, rr_store := st\<rparr>) = Inr (t, resp)"
    "s' = t\<lparr>rr_raw := ra_advance api (ready\<lparr>rd_messages := [], rd_committed_entries := None\<rparr>) (rr_store t) (rr_raw t)\<rparr>"
    "out = map (\<lambda>m. RrTrigger (CommRawRaftMsg m)) (rd_messages ready) @ resp"
    by (rule after_append_cases)
  have "list_all is_ready_out (map (\<lambda>m. RrTrigger (CommRawRaftMsg m)) (rd_messages ready))"
    by (simp add: list_all_iff is_ready_out_def)
  moreover have "list_all is_ready_out resp"
    using apply_all_effect [OF t(1)] by (auto simp: list_all_iff is_ready_out_def)
  ultimately show ?thesis
    using apply_all_effect [OF t(1)] by (simp add: t(2,3))
qed (simp_all add: applied_refl)

text \<open>A tick: the node's own, the held-back proposals, and the news of a leader.\<close>

definition ticked :: "('n, 'st, 'e, 'm, 'cc, 'c, 'x) raft_api \<Rightarrow> ('n, 'st) RaftReplica \<Rightarrow> ('n, 'st) RaftReplica" where
  "ticked api s = s\<lparr>rr_raw := ra_tick api (rr_store s) (rr_raw s)\<rparr>"

definition led_by :: "u64 \<Rightarrow> ('n, 'st) RaftReplica \<Rightarrow> ('n, 'st) RaftReplica" where
  "led_by leader s = s\<lparr>rr_current_leader := leader, rr_state := Running\<rparr>"

lemma tick_eq:
  "raft_tick api s =
    (let leader = ra_leader_id api (rr_raw (ticked api s))
     in if leader = 0 then Inr (ticked api s, [])
        else step_then (for_each (raft_propose api) (rr_hb_proposals s) ((ticked api s)\<lparr>rr_hb_proposals := []\<rparr>)) (\<lambda>t.
          if leader \<noteq> rr_current_leader t
          then Inr (led_by leader t, [RrSupervisor (RaftLeader (rr_state t = Election) leader)])
          else Inr (t, [])))"
  unfolding raft_tick_def ticked_def led_by_def Let_def by (simp cong: if_cong)

lemma tick_cases:
  assumes "raft_tick api s = Inr (s', out)"
  obtains (none) "ra_leader_id api (rr_raw (ticked api s)) = 0" "s' = ticked api s" "out = []"
  | (leader) t o1 where "ra_leader_id api (rr_raw (ticked api s)) \<noteq> 0"
      "for_each (raft_propose api) (rr_hb_proposals s) ((ticked api s)\<lparr>rr_hb_proposals := []\<rparr>) = Inr (t, o1)"
      "if ra_leader_id api (rr_raw (ticked api s)) \<noteq> rr_current_leader s
       then s' = led_by (ra_leader_id api (rr_raw (ticked api s))) t \<and>
         out = o1 @ [RrSupervisor (RaftLeader (rr_state s = Election) (ra_leader_id api (rr_raw (ticked api s))))]
       else s' = t \<and> out = o1"
proof (cases "ra_leader_id api (rr_raw (ticked api s)) = 0")
  case True
  then have "s' = ticked api s" "out = []"
    using assms by (simp_all add: tick_eq)
  then show ?thesis
    by (rule none [OF True])
next
  case False
  let ?l = "ra_leader_id api (rr_raw (ticked api s))"
  obtain t o1 o2 where t: "for_each (raft_propose api) (rr_hb_proposals s) ((ticked api s)\<lparr>rr_hb_proposals := []\<rparr>) = Inr (t, o1)"
    and end_: "(if ?l \<noteq> rr_current_leader t
      then Inr (led_by ?l t, [RrSupervisor (RaftLeader (rr_state t = Election) ?l)]) else Inr (t, [])) = (Inr (s', o2) :: panic + _)"
    and out: "out = o1 @ o2"
    using assms False unfolding tick_eq Let_def step_then_eq_Inr if_not_P [OF False] by (elim exE conjE)
  have "proposed_from ((ticked api s)\<lparr>rr_hb_proposals := []\<rparr>) t"
    using proposes_effect [OF t] by simp
  then have "rr_current_leader t = rr_current_leader s" "rr_state t = rr_state s"
    by (simp_all add: proposed_from_def ticked_def)
  then show ?thesis
    using leader [OF False t] end_ out by (cases "?l = rr_current_leader s") simp_all
qed

end
