(* ===== verification/Raft_Run.thy ===== *)
theory Raft_Run
  imports Raft_Replica "HOL-Library.Multiset"
begin

text \<open>
  Runs of the Raft replica: the stop protocol, the news of leaders, the reconfiguration, what becomes of proposals, and
  what is on disk when the replica uses the disk storage.
\<close>

subsection \<open>The stop protocol\<close>

definition rr_stop_of :: "'m rr_in \<Rightarrow> nat option" where
  "rr_stop_of i = (case i of RrLocal (Stop ask) \<Rightarrow> Some ask | _ \<Rightarrow> None)"

definition rr_peer_of :: "'m rr_in \<Rightarrow> u64 option" where
  "rr_peer_of i = (case i of RrComm (CompStopMsg pid) \<Rightarrow> Some pid | _ \<Rightarrow> None)"

definition rr_reply_of :: "'m rr_out \<Rightarrow> nat option" where
  "rr_reply_of x = (case x of RrReplyStop ask \<Rightarrow> Some ask | _ \<Rightarrow> None)"

definition rr_leader_of :: "'m rr_out \<Rightarrow> (bool \<times> u64) option" where
  "rr_leader_of x = (case x of RrSupervisor (RaftLeader b l) \<Rightarrow> Some (b, l) | _ \<Rightarrow> None)"

lemma map_filter_none: "(\<And>x. x \<in> set xs \<Longrightarrow> f x = None) \<Longrightarrow> List.map_filter f xs = []"
  by (induction xs) (simp_all add: map_filter_simps)

lemma forward_out: "is_forward x \<Longrightarrow> rr_reply_of x = None \<and> rr_leader_of x = None"
  by (cases x) (simp_all add: is_forward_def rr_reply_of_def rr_leader_of_def split: RaftCompMsg.splits)

lemma ready_out: "is_ready_out x \<Longrightarrow> rr_reply_of x = None \<and> rr_leader_of x = None"
  by (cases x) (simp_all add: is_ready_out_def is_response_def rr_reply_of_def rr_leader_of_def)

lemma forward_outs:
  "list_all is_forward out \<Longrightarrow> List.map_filter rr_reply_of out = [] \<and> List.map_filter rr_leader_of out = []"
  by (auto intro!: map_filter_none simp: list_all_iff forward_out)

lemma ready_outs:
  "list_all is_ready_out out \<Longrightarrow> List.map_filter rr_reply_of out = [] \<and> List.map_filter rr_leader_of out = []"
  by (auto intro!: map_filter_none simp: list_all_iff ready_out)

definition same_stop :: "('n, 'st) RaftReplica \<Rightarrow> ('n, 'st) RaftReplica \<Rightarrow> bool" where
  "same_stop s s' \<longleftrightarrow> rr_num_peers s' = rr_num_peers s \<and> rr_stopped s' = rr_stopped s \<and>
     rr_stopped_peers s' = rr_stopped_peers s \<and> rr_stop_ask s' = rr_stop_ask s"

lemma same_stop_intros:
  "proposed_from s t \<Longrightarrow> same_stop s t" "applied_from s t \<Longrightarrow> same_stop s t" "same_stop s s"
  by (simp_all add: same_stop_def proposed_from_def applied_from_def)

lemma tick_effect:
  assumes "raft_tick api s = Inr (s', out)"
  shows "same_stop s s' \<and> List.map_filter rr_reply_of out = [] \<and> rr_store s' = rr_store s \<and>
    (reconfigured s' = reconfigured s) \<and> (reconfigured s \<longrightarrow> rr_reconfig_state s' = rr_reconfig_state s)"
  using assms
proof (cases rule: tick_cases)
  case (leader t o1)
  have "proposed_from ((ticked api s)\<lparr>rr_hb_proposals := []\<rparr>) t" "List.map_filter rr_reply_of o1 = []"
    using proposes_effect [OF leader(2)] forward_outs by auto
  then show ?thesis
    using leader(3)
    by (auto simp: proposed_from_def ticked_def led_by_def same_stop_def reconfigured_def map_filter_append map_filter_simps rr_reply_of_def
        split: if_splits)
qed (simp_all add: ticked_def same_stop_def reconfigured_def map_filter_simps)

lemma step_other_effect:
  assumes "rr_stop_of i = None" "rr_peer_of i = None" "raft_replica_step conf api sapi i s = Inr (s', out)"
  shows "same_stop s s' \<and> List.map_filter rr_reply_of out = []"
proof (cases i)
  case (RrLocal m)
  with assms(1) obtain p where "m = Propose p"
    by (cases m) (auto simp: rr_stop_of_def)
  with RrLocal assms(3) have "raft_propose api p s = Inr (s', out) \<or> s' = s \<and> out = []"
    by (auto split: if_splits)
  then show ?thesis
    using propose_effect [of api p s s' out] forward_outs [of out]
    by (auto simp: same_stop_intros map_filter_simps)
next
  case (RrComm m)
  with assms(2,3) show ?thesis
    by (cases m) (auto simp: rr_peer_of_def same_stop_def map_filter_simps split: if_splits)
next
  case RrTickTimer
  with assms(3) tick_effect [of api s s' out] show ?thesis
    by (auto simp: same_stop_intros map_filter_simps split: if_splits)
next
  case RrReadyTimer
  with assms(3) on_ready_effect [of conf api sapi s s' out] ready_outs [of out] show ?thesis
    by (auto simp: same_stop_intros map_filter_simps split: if_splits)
qed (use assms(3) in \<open>auto simp: start_timers_def try_campaign_leader_def same_stop_def map_filter_simps split: if_splits\<close>)

interpretation rr_stop: stop_effects "raft_replica_step conf api sapi" rr_num_peers rr_stopped_peers rr_stopped rr_stop_ask
  "\<lambda>_. True" rr_stop_of rr_peer_of rr_reply_of
  for conf and api :: "('n, 'st, 'e, 'm, 'cc, 'c, 'x) raft_api" and sapi
proof
  show "rr_peer_of i = None" if "rr_stop_of i = Some a" for i :: "'m rr_in" and a
    using that by (auto simp: rr_stop_of_def rr_peer_of_def split: rr_in.splits)
next
  fix i :: "'m rr_in" and a and s s' :: "('n, 'st) RaftReplica" and out
  assume "rr_stop_of i = Some a" and run: "raft_replica_step conf api sapi i s = Inr (s', out)"
  then have "i = RrLocal (Stop a)"
    by (auto simp: rr_stop_of_def split: rr_in.splits RaftReplicaMsg.splits)
  then show "True \<and> rr_num_peers s' = rr_num_peers s \<and> rr_stopped_peers s' = rr_stopped_peers s \<and> rr_stopped s' \<and>
      rr_stop_ask s' = (if card (rr_stopped_peers s) = rr_num_peers s then rr_stop_ask s else Some a) \<and>
      List.map_filter rr_reply_of out = (if card (rr_stopped_peers s) = rr_num_peers s then [a] else [])"
    using run by (auto simp: stop_timers_def rr_reply_of_def map_filter_simps Let_def split: if_splits)
next
  fix i :: "'m rr_in" and p and s s' :: "('n, 'st) RaftReplica" and out
  assume "rr_peer_of i = Some p" "p \<notin> rr_stopped_peers s" and run: "raft_replica_step conf api sapi i s = Inr (s', out)"
  then have "i = RrComm (CompStopMsg p)"
    by (auto simp: rr_peer_of_def split: rr_in.splits AtomicBroadcastCompMsg.splits)
  then show "True \<and> rr_num_peers s' = rr_num_peers s \<and> rr_stopped s' = rr_stopped s \<and>
      rr_stopped_peers s' = insert p (rr_stopped_peers s) \<and>
      (if rr_stopped s \<and> card (insert p (rr_stopped_peers s)) = rr_num_peers s
       then rr_stop_ask s' = None \<and> List.map_filter rr_reply_of out = [the (rr_stop_ask s)]
       else rr_stop_ask s' = rr_stop_ask s \<and> List.map_filter rr_reply_of out = [])"
    using run by (cases "rr_stop_ask s") (auto simp: rr_reply_of_def map_filter_simps Let_def split: if_splits)
next
  fix i :: "'m rr_in" and s s' :: "('n, 'st) RaftReplica" and out
  assume "rr_stop_of i = None" "rr_peer_of i = None" "raft_replica_step conf api sapi i s = Inr (s', out)"
  from step_other_effect [OF this]
  show "True \<and> rr_num_peers s' = rr_num_peers s \<and> rr_stopped s' = rr_stopped s \<and> rr_stopped_peers s' = rr_stopped_peers s \<and>
      rr_stop_ask s' = rr_stop_ask s \<and> List.map_filter rr_reply_of out = []"
    by (simp add: same_stop_def)
qed

subsection \<open>News of leaders\<close>

definition leader_news :: "'m rr_out list \<Rightarrow> (bool \<times> u64) list" where
  "leader_news out = List.map_filter rr_leader_of out"

lemma leader_news_append [simp]: "leader_news (xs @ ys) = leader_news xs @ leader_news ys" "leader_news [] = []"
  by (simp_all add: leader_news_def map_filter_append map_filter_simps)

definition leader_inv :: "'m rr_out list \<Rightarrow> ('n, 'st) RaftReplica \<Rightarrow> bool" where
  "leader_inv h s \<longleftrightarrow> rr_current_leader s = last (0 # map snd (leader_news h)) \<and>
     length (filter fst (leader_news h)) + (if rr_state s = Election then 1 else 0) \<le> (if reconfigured s then 2 else 1) \<and>
     (\<not> reconfigured s \<longrightarrow> (if rr_state s = Election then leader_news h = []
        else \<exists>l ls. leader_news h = (True, l) # ls \<and> filter fst ls = []))"

text \<open>All steps but the tick send no such news and change the state only by a reconfiguration.\<close>

definition no_news :: "('n, 'st) RaftReplica \<Rightarrow> ('n, 'st) RaftReplica \<Rightarrow> 'm rr_out list \<Rightarrow> bool" where
  "no_news s s' out \<longleftrightarrow> leader_news out = [] \<and> rr_current_leader s' = rr_current_leader s \<and>
     (rr_state s' = rr_state s \<and> reconfigured s' = reconfigured s \<or> \<not> reconfigured s \<and> reconfigured s')"

lemma leader_inv_no_news: "leader_inv h s \<Longrightarrow> no_news s s' out \<Longrightarrow> leader_inv (h @ out) s'"
  by (auto simp: leader_inv_def no_news_def split: if_splits)

lemma step_no_news:
  assumes "i \<noteq> RrTickTimer" "raft_replica_step conf api sapi i s = Inr (s', out)"
  shows "no_news s s' out"
proof (cases "s' = s \<and> out = []")
  case True
  then show ?thesis
    by (simp add: no_news_def)
next
  case changed: False
  show ?thesis
  proof (cases i)
    case (RrLocal m)
    then show ?thesis
    proof (cases m)
      case (Propose p)
      then have "raft_propose api p s = Inr (s', out)"
        using assms(2) RrLocal changed by (auto split: if_splits)
      then show ?thesis
        using propose_effect [of api p s s' out] forward_outs [of out]
        by (auto simp: no_news_def leader_news_def proposed_from_def reconfigured_def)
    next
      case (Stop a)
      then show ?thesis
        using assms(2) RrLocal
        by (auto simp: no_news_def leader_news_def rr_leader_of_def map_filter_simps stop_timers_def reconfigured_def Let_def
            split: if_splits)
    qed
  next
    case (RrComm m)
    then show ?thesis
      using assms(2)
      by (cases m) (auto simp: no_news_def leader_news_def rr_leader_of_def map_filter_simps reconfigured_def Let_def panic_simps
          split: if_splits)
  next
    case RrReadyTimer
    then have "on_ready conf api sapi s = Inr (s', out)"
      using assms(2) changed by (auto split: if_splits)
    then show ?thesis
      using on_ready_effect [of conf api sapi s s' out] ready_outs [of out]
      by (auto simp: no_news_def leader_news_def applied_from_def reconfig_step_def reconfigured_def)
  qed (use assms changed in \<open>auto simp: no_news_def reconfigured_def start_timers_def try_campaign_leader_def split: if_splits\<close>)
qed

lemma leader_inv_tick:
  assumes "leader_inv h s" "raft_tick api s = Inr (s', out)"
  shows "leader_inv (h @ out) s'"
  using assms(2)
proof (cases rule: tick_cases)
  case none
  then show ?thesis
    using assms(1) by (simp add: leader_inv_def ticked_def reconfigured_def)
next
  case (leader t o1)
  have t: "rr_state t = rr_state s" "rr_current_leader t = rr_current_leader s" "reconfigured t = reconfigured s"
    "leader_news o1 = []"
    using proposes_effect [OF leader(2)] forward_outs [of o1]
    by (auto simp: proposed_from_def ticked_def reconfigured_def leader_news_def)
  show ?thesis
  proof (cases "ra_leader_id api (rr_raw (ticked api s)) = rr_current_leader s")
    case True
    then show ?thesis
      using leader(3) assms(1) t by (simp add: leader_inv_def)
  next
    case False
    then show ?thesis
      using leader(3) assms(1) t
      by (auto simp: leader_inv_def led_by_def reconfigured_def leader_news_def rr_leader_of_def map_filter_simps map_filter_append
          split: if_splits)
  qed
qed

lemma leader_inv_step:
  "leader_inv h s \<Longrightarrow> raft_replica_step conf api sapi i s = Inr (s', out) \<Longrightarrow> leader_inv (h @ out) s'"
  using leader_inv_tick [of h s api s' out] leader_inv_no_news [of h s s' out] step_no_news [of i conf api sapi s s' out]
  by (cases "i = RrTickTimer") (auto split: if_splits)

subsection \<open>A finished reconfiguration\<close>

lemma propose_reconfigured:
  "raft_propose api p s = Inr (s', out) \<Longrightarrow> reconfigured s \<Longrightarrow> rr_reconfig_state s' = rr_reconfig_state s"
  using propose_effect [of api p s s' out] by (auto simp: proposed_from_def reconfigured_def)

lemma step_reconfigured:
  assumes "raft_replica_step conf api sapi i s = Inr (s', out)" "reconfigured s"
  shows "rr_reconfig_state s' = rr_reconfig_state s"
proof (cases i)
  case (RrLocal m)
  then show ?thesis
    using assms propose_reconfigured [of api _ s s' out] by (cases m) (auto simp: stop_timers_def Let_def split: if_splits)
next
  case (RrComm m)
  then show ?thesis
    using assms by (cases m) (auto simp: Let_def panic_simps split: if_splits)
next
  case RrTickTimer
  then show ?thesis
    using assms tick_effect [of api s s' out] by (auto split: if_splits)
next
  case RrReadyTimer
  then show ?thesis
    using assms on_ready_effect [of conf api sapi s s' out] by (auto simp: reconfig_step_def split: if_splits)
qed (use assms in \<open>auto simp: start_timers_def try_campaign_leader_def split: if_splits\<close>)

text \<open>The crate's operations on the membership, exchanged for others.\<close>

definition with_membership ::
  "(u64 list \<times> u64 list \<Rightarrow> 'st \<Rightarrow> 'n \<Rightarrow> 'n option) \<Rightarrow> ('cc \<Rightarrow> 'st \<Rightarrow> 'n \<Rightarrow> 'n option) \<Rightarrow> ('cc \<Rightarrow> 'st \<Rightarrow> 'n \<Rightarrow> 'n option) \<Rightarrow>
    ('n, 'st, 'e, 'm, 'cc, 'c, 'x) raft_api \<Rightarrow> ('n, 'st, 'e, 'm, 'cc, 'c, 'x) raft_api" where
  "with_membership f g h api = api\<lparr>ra_propose_membership_change := f, ra_begin_membership_change := g,
     ra_finalize_membership_change := h\<rparr>"

lemma propose_any_membership:
  "reconfigured s \<Longrightarrow> raft_propose (with_membership f g h api) p s = raft_propose api p s"
  by (auto simp: raft_propose_def propose_reconfig_def with_membership_def reconfigured_def split: option.splits)

lemma proposes_any_membership:
  "reconfigured s \<Longrightarrow> for_each (raft_propose (with_membership f g h api)) ps s = for_each (raft_propose api) ps s"
proof (rule for_each_cong_inv [where I = reconfigured])
  show "reconfigured s'" if "reconfigured s" "raft_propose (with_membership f g h api) p s = Inr (s', out)" for p s s' out
    using that propose_reconfigured [of "with_membership f g h api"] by (auto simp: reconfigured_def)
qed (auto simp: propose_any_membership)

lemma applies_any_membership:
  "reconfigured s \<Longrightarrow>
    for_each (apply_committed conf (with_membership f g h api) sapi) es s = for_each (apply_committed conf api sapi) es s"
proof (rule for_each_cong_inv [where I = reconfigured])
  show "apply_committed conf (with_membership f g h api) sapi e s = apply_committed conf api sapi e s" if "reconfigured s" for e s
    using that by (auto simp: apply_committed_def with_membership_def reconfigured_def)
  show "reconfigured s'" if "reconfigured s" "apply_committed conf (with_membership f g h api) sapi e s = Inr (s', out)" for e s s' out
    using apply_effect [OF that(2)] that(1) by simp
qed

lemma after_append_any_membership:
  assumes "reconfigured s"
  shows "after_append conf (with_membership f g h api) sapi ready s = after_append conf api sapi ready s"
proof -
  have entry: "ra_entry (with_membership f g h api) = ra_entry api"
    by (simp add: with_membership_def)
  have "apply_all conf (with_membership f g h api) sapi committed s = apply_all conf api sapi committed s" for committed
    unfolding apply_all_def applies_any_membership [OF assms] entry by (rule refl)
  moreover have "ra_advance (with_membership f g h api) = ra_advance api"
    by (simp add: with_membership_def)
  ultimately show ?thesis
    by (simp add: after_append_def)
qed

lemma step_any_membership:
  assumes "reconfigured s"
  shows "raft_replica_step conf (with_membership f g h api) sapi i s = raft_replica_step conf api sapi i s"
proof (cases i)
  case (RrLocal m)
  then show ?thesis
    using assms by (cases m) (simp_all add: propose_any_membership, simp add: with_membership_def)
next
  case (RrComm m)
  then show ?thesis
    by (cases m) (simp_all add: with_membership_def)
next
  case RrTickTimer
  have "ticked (with_membership f g h api) s = ticked api s" "reconfigured ((ticked api s)\<lparr>rr_hb_proposals := []\<rparr>)"
    "ra_leader_id (with_membership f g h api) = ra_leader_id api"
    using assms by (simp_all add: ticked_def with_membership_def reconfigured_def)
  then show ?thesis
    using RrTickTimer by (simp add: tick_eq proposes_any_membership Let_def)
next
  case RrReadyTimer
  have same: "ra_has_ready (with_membership f g h api) = ra_has_ready api" "ra_ready (with_membership f g h api) = ra_ready api"
    by (simp_all add: with_membership_def)
  have "reconfigured (s\<lparr>rr_raw := raw, rr_store := st\<rparr>)" for raw st
    using assms by (simp add: reconfigured_def)
  then have "on_ready conf (with_membership f g h api) sapi s = on_ready conf api sapi s"
    unfolding on_ready_eq same by (simp add: after_append_any_membership)
  then show ?thesis
    using RrReadyTimer by simp
next
  case RrCampaignTimer
  then show ?thesis
    by (simp add: try_campaign_leader_def with_membership_def)
qed simp

subsection \<open>A replica that is no longer part of the configuration\<close>

definition is_schedule :: "'m rr_out \<Rightarrow> bool" where
  "is_schedule x = (case x of RrScheduleCampaign _ \<Rightarrow> True | _ \<Rightarrow> False)"

text \<open>Only a replica that stays in the configuration has scheduled a campaign, and one that is removed has no timers.\<close>

definition removed_inv :: "'m rr_out list \<Rightarrow> ('n, 'st) RaftReplica \<Rightarrow> bool" where
  "removed_inv h s \<longleftrightarrow> (rr_reconfig_state s = ReconfigFinished \<or> list_all (Not \<circ> is_schedule) h) \<and>
     (rr_reconfig_state s = ReconfigRemoved \<longrightarrow> \<not> rr_timers s)"

lemma removed_inv_apply:
  assumes "removed_inv h s" "apply_committed conf api sapi e s = Inr (s', out)"
  shows "removed_inv (h @ out) s'"
  using apply_cases [OF assms(2)]
proof (elim disjE conjE exE)
  fix cc
  assume "\<not> reconfigured s" "finalize_change conf api sapi cc s = Inr (s', out)"
  then show ?thesis
    using assms(1)
    by (auto simp: finalize_change_eq finalized_def removed_inv_def reconfigured_def is_schedule_def Let_def panic_simps
        split: if_splits)
next
  fix cc
  assume "\<not> reconfigured s" "begin_change api cc s = Inr (s', out)"
  then show ?thesis
    using assms(1) by (auto simp: begin_change_def removed_inv_def panic_simps)
qed (use assms(1) in \<open>auto simp: removed_inv_def is_schedule_def\<close>)

lemma removed_inv_updates [simp]:
  "removed_inv h (s\<lparr>rr_raw := r\<rparr>) = removed_inv h s" "removed_inv h (s\<lparr>rr_store := st\<rparr>) = removed_inv h s"
  by (simp_all add: removed_inv_def)

lemma removed_inv_outs: "removed_inv h s \<Longrightarrow> list_all (Not \<circ> is_schedule) out \<Longrightarrow> removed_inv (h @ out) s"
  by (auto simp: removed_inv_def)

lemma apply_all_cases:
  assumes "apply_all conf api sapi committed s = Inr (s', out)"
  obtains (nothing) "s' = s" "out = []"
  | (applied) es t st where "committed = Some es" "for_each (apply_committed conf api sapi) es s = Inr (t, out)"
      "s' = t\<lparr>rr_store := st\<rparr>"
      "st_set_hard_state sapi (en_index (ra_entry api) (last es)) (en_term (ra_entry api) (last es)) (rr_store t) = Inr (Inr st)"
proof (cases "committed = None \<or> committed = Some []")
  case True
  then have "s' = s" "out = []"
    using assms by (auto simp: apply_all_def)
  then show ?thesis
    by (rule nothing)
next
  case False
  then obtain es where es: "committed = Some es" "es \<noteq> []"
    by (cases committed) auto
  obtain t st where "for_each (apply_committed conf api sapi) es s = Inr (t, out)" "s' = t\<lparr>rr_store := st\<rparr>"
    "expect_ok (st_set_hard_state sapi (en_index (ra_entry api) (last es)) (en_term (ra_entry api) (last es)) (rr_store t)) = Inr st"
    using assms es by (auto simp: apply_all_def Let_def panic_simps)
  then show ?thesis
    using applied [OF es(1)] unfolding expect_ok_eq by metis
qed

lemma removed_inv_apply_all:
  assumes "removed_inv h s" "apply_all conf api sapi committed s = Inr (s', out)"
  shows "removed_inv (h @ out) s'"
  using assms(2)
proof (cases rule: apply_all_cases)
  case (applied es t st)
  have "removed_inv (h @ out) t"
    by (rule for_each_invariant [where P = removed_inv, OF removed_inv_apply assms(1) applied(2)])
  then show ?thesis
    by (simp add: applied(3))
qed (use assms(1) in simp)

lemma removed_inv_on_ready:
  assumes "removed_inv h s" "on_ready conf api sapi s = Inr (s', out)"
  shows "removed_inv (h @ out) s'"
  using assms(2)
proof (cases rule: on_ready_cases)
  case (persisted ready raw st)
  from persisted(4) obtain t resp where t:
    "apply_all conf api sapi (rd_committed_entries ready) (s\<lparr>rr_raw := raw, rr_store := st\<rparr>) = Inr (t, resp)"
    "s' = t\<lparr>rr_raw := ra_advance api (ready\<lparr>rd_messages := [], rd_committed_entries := None\<rparr>) (rr_store t) (rr_raw t)\<rparr>"
    "out = map (\<lambda>m. RrTrigger (CommRawRaftMsg m)) (rd_messages ready) @ resp"
    by (rule after_append_cases)
  have "removed_inv (h @ map (\<lambda>m. RrTrigger (CommRawRaftMsg m)) (rd_messages ready)) (s\<lparr>rr_raw := raw, rr_store := st\<rparr>)"
    using assms(1) by (simp add: removed_inv_outs list_all_iff is_schedule_def)
  from removed_inv_apply_all [OF this t(1)] show ?thesis
    by (simp add: t(2,3))
qed (use assms(1) in simp_all)

lemma removed_inv_proposed:
  assumes "removed_inv h s" "proposed_from s s'" "list_all is_forward out"
  shows "removed_inv (h @ out) s'"
proof -
  have "list_all (Not \<circ> is_schedule) out"
    using assms(3) by (auto simp: list_all_iff is_forward_def is_schedule_def split: rr_out.splits)
  then show ?thesis
    using assms(1,2) by (auto simp: removed_inv_def proposed_from_def)
qed

lemma removed_inv_step:
  assumes "removed_inv h s" "i \<noteq> RrStart" "raft_replica_step conf api sapi i s = Inr (s', out)"
  shows "removed_inv (h @ out) s'"
proof (cases i)
  case (RrLocal m)
  then show ?thesis
  proof (cases m)
    case (Propose p)
    then show ?thesis
      using assms RrLocal propose_effect [of api p s s' out] removed_inv_proposed [of h s s' out] by (auto split: if_splits)
  next
    case (Stop a)
    then show ?thesis
      using assms RrLocal by (auto simp: removed_inv_def stop_timers_def is_schedule_def Let_def split: if_splits)
  qed
next
  case (RrComm m)
  then show ?thesis
    using assms by (cases m) (auto simp: removed_inv_def is_schedule_def Let_def panic_simps split: if_splits)
next
  case RrReadyTimer
  then show ?thesis
    using assms removed_inv_on_ready [of h s conf api sapi s' out] by (auto split: if_splits)
next
  case RrTickTimer
  show ?thesis
  proof (cases "rr_timers s")
    case True
    then have "raft_tick api s = Inr (s', out)"
      using RrTickTimer assms(3) by simp
    then show ?thesis
    proof (cases rule: tick_cases)
      case none
      then show ?thesis
        using assms(1) by (simp add: ticked_def)
    next
      case (leader t o1)
      have "removed_inv h ((ticked api s)\<lparr>rr_hb_proposals := []\<rparr>)"
        using assms(1) by (simp add: ticked_def removed_inv_def)
      then have "removed_inv (h @ o1) t"
        using proposes_effect [OF leader(2)] removed_inv_proposed by blast
      then show ?thesis
        using leader(3) by (auto simp: led_by_def removed_inv_def is_schedule_def split: if_splits)
    qed
  qed (use RrTickTimer assms in auto)
qed (use assms in \<open>auto simp: try_campaign_leader_def split: if_splits\<close>)

lemma removed_step:
  assumes "rr_reconfig_state s = ReconfigRemoved" "\<not> rr_timers s" "i \<noteq> RrStart" "i \<noteq> RrCampaignTimer"
    "raft_replica_step conf api sapi i s = Inr (s', out)"
  shows "rr_reconfig_state s' = ReconfigRemoved \<and> \<not> rr_timers s' \<and> rr_raw s' = rr_raw s \<and> rr_store s' = rr_store s \<and>
    set out \<subseteq> {RrTrigger (CommSendStop (ra_id api (rr_raw s)) True)} \<union> range RrReplyStop"
proof (cases i)
  case (RrLocal m)
  then show ?thesis
    using assms by (cases m) (auto simp: stop_timers_def Let_def split: if_splits)
next
  case (RrComm m)
  then show ?thesis
    using assms by (cases m) (auto simp: Let_def panic_simps split: if_splits)
qed (use assms in auto)

subsection \<open>No proposal is lost or duplicated\<close>

definition normal_data_of :: "Proposal \<Rightarrow> bytes option" where
  "normal_data_of p = (if prop_reconfig p = None then Some (prop_data p) else None)"

definition rr_normal_of :: "'m rr_in \<Rightarrow> bytes option" where
  "rr_normal_of i = (case i of RrLocal (Propose p) \<Rightarrow> normal_data_of p | _ \<Rightarrow> None)"

text \<open>A journal of the node: the data it was given by \<open>propose\<close>, which no other operation of the crate changes.\<close>

definition journals :: "('n, 'st, 'e, 'm, 'cc, 'c, 'x) raft_api \<Rightarrow> ('n \<Rightarrow> bytes list) \<Rightarrow> bool" where
  "journals api journal \<longleftrightarrow>
     (\<forall>d st n n'. ra_propose api d st n = Some n' \<longrightarrow> journal n' = journal n @ [d]) \<and>
     (\<forall>st n. journal (ra_campaign api st n) = journal n) \<and> (\<forall>st n. journal (ra_tick api st n) = journal n) \<and>
     (\<forall>m st n. journal (ra_step api m st n) = journal n) \<and> (\<forall>st n. journal (snd (ra_ready api st n)) = journal n) \<and>
     (\<forall>rd st n. journal (ra_advance api rd st n) = journal n) \<and>
     (\<forall>c st n n'. ra_propose_membership_change api c st n = Some n' \<longrightarrow> journal n' = journal n) \<and>
     (\<forall>c st n n'. ra_begin_membership_change api c st n = Some n' \<longrightarrow> journal n' = journal n) \<and>
     (\<forall>c st n n'. ra_finalize_membership_change api c st n = Some n' \<longrightarrow> journal n' = journal n)"

lemma journalsD:
  assumes "journals api journal"
  shows "ra_propose api d st n = Some n' \<Longrightarrow> journal n' = journal n @ [d]"
    "journal (ra_campaign api st n) = journal n" "journal (ra_tick api st n) = journal n" "journal (ra_step api m st n) = journal n"
    "journal (snd (ra_ready api st n)) = journal n" "journal (ra_advance api rd st n) = journal n"
    "ra_propose_membership_change api c st n = Some n' \<Longrightarrow> journal n' = journal n"
    "ra_begin_membership_change api cc st n = Some n' \<Longrightarrow> journal n' = journal n"
    "ra_finalize_membership_change api cc st n = Some n' \<Longrightarrow> journal n' = journal n"
  using assms unfolding journals_def by (simp_all del: split_paired_All)

text \<open>The ordinary proposals a replica is responsible for: those the node has and those held back.\<close>

definition accounted :: "('n \<Rightarrow> bytes list) \<Rightarrow> ('n, 'st) RaftReplica \<Rightarrow> bytes multiset" where
  "accounted journal s = mset (journal (rr_raw s)) + mset (List.map_filter normal_data_of (rr_hb_proposals s))"

lemma accounted_propose:
  assumes "journals api journal" "raft_propose api p s = Inr (s', out)"
  shows "accounted journal s' = accounted journal s + mset (List.map_filter normal_data_of [p])"
proof (cases "ra_leader_id api (rr_raw s) = 0")
  case True
  then show ?thesis
    using assms(2) by (auto simp: raft_propose_def accounted_def map_filter_append)
next
  case leader: False
  show ?thesis
  proof (cases "prop_reconfig p")
    case None
    then obtain raw where "ra_propose api (prop_data p) (rr_store s) (rr_raw s) = Some raw" "s' = s\<lparr>rr_raw := raw\<rparr>"
      using assms(2) leader by (auto simp: raft_propose_def panic_simps split: option.splits)
    then show ?thesis
      using journalsD(1) [OF assms(1)] None by (simp add: accounted_def normal_data_of_def map_filter_simps)
  next
    case (Some r)
    then have "journal (rr_raw s') = journal (rr_raw s) \<and> rr_hb_proposals s' = rr_hb_proposals s"
      using assms(2) leader journalsD(7) [OF assms(1)]
      by (auto simp: raft_propose_def propose_reconfig_def runwrap_def Let_def panic_simps split: if_splits option.splits)
    then show ?thesis
      using Some by (simp add: accounted_def normal_data_of_def map_filter_simps)
  qed
qed

lemma accounted_proposes:
  assumes "journals api journal"
  shows "for_each (raft_propose api) ps s = Inr (s', out) \<Longrightarrow>
    accounted journal s' = accounted journal s + mset (List.map_filter normal_data_of ps)"
proof (induction ps arbitrary: s out)
  case (Cons p ps)
  then obtain t o1 o2 where "raft_propose api p s = Inr (t, o1)" "for_each (raft_propose api) ps t = Inr (s', o2)"
    by (auto simp: panic_simps)
  then show ?case
    using accounted_propose [OF assms] Cons.IH map_filter_append [of normal_data_of "[p]" ps] by (simp add: ac_simps)
qed (simp add: map_filter_simps)

lemma accounted_tick:
  assumes "journals api journal" "raft_tick api s = Inr (s', out)"
  shows "accounted journal s' = accounted journal s"
  using assms(2)
proof (cases rule: tick_cases)
  case none
  then show ?thesis
    using journalsD(3) [OF assms(1)] by (simp add: accounted_def ticked_def)
next
  case (leader t o1)
  have "accounted journal t = accounted journal s"
    using accounted_proposes [OF assms(1) leader(2)] journalsD(3) [OF assms(1)]
    by (simp add: accounted_def ticked_def map_filter_simps)
  then show ?thesis
    using leader(3) by (auto simp: accounted_def led_by_def split: if_splits)
qed

lemma journal_apply:
  assumes "journals api journal" "apply_committed conf api sapi e s = Inr (s', out)"
  shows "journal (rr_raw s') = journal (rr_raw s)"
  using apply_cases [OF assms(2)]
proof (elim disjE conjE exE)
  fix cc
  assume "finalize_change conf api sapi cc s = Inr (s', out)"
  then obtain raw where "ra_finalize_membership_change api cc (rr_store s) (rr_raw s) = Some raw" "rr_raw s' = raw"
    by (auto simp: finalize_change_eq runwrap_def Let_def panic_simps split: option.splits if_splits)
  then show ?thesis
    using journalsD(9) [OF assms(1)] by simp
next
  fix cc
  assume "begin_change api cc s = Inr (s', out)"
  then obtain raw where "ra_begin_membership_change api cc (rr_store s) (rr_raw s) = Some raw" "rr_raw s' = raw"
    by (auto simp: begin_change_def runwrap_def panic_simps split: option.splits)
  then show ?thesis
    using journalsD(8) [OF assms(1)] by simp
qed simp_all

lemma accounted_on_ready:
  assumes "journals api journal" "on_ready conf api sapi s = Inr (s', out)"
  shows "accounted journal s' = accounted journal s"
proof -
  have hb: "rr_hb_proposals s' = rr_hb_proposals s"
    using on_ready_effect [OF assms(2)] by (simp add: applied_from_def)
  have "journal (rr_raw s') = journal (rr_raw s)"
    using assms(2)
  proof (cases rule: on_ready_cases)
    case (failed ready raw e)
    then show ?thesis
      using journalsD(5) [OF assms(1), of "rr_store s" "rr_raw s"] by simp
  next
    case (persisted ready raw st)
    from persisted(4) obtain t resp where t:
      "apply_all conf api sapi (rd_committed_entries ready) (s\<lparr>rr_raw := raw, rr_store := st\<rparr>) = Inr (t, resp)"
      "s' = t\<lparr>rr_raw := ra_advance api (ready\<lparr>rd_messages := [], rd_committed_entries := None\<rparr>) (rr_store t) (rr_raw t)\<rparr>"
      by (rule after_append_cases)
    from t(1) have "journal (rr_raw t) = journal raw"
    proof (cases rule: apply_all_cases)
      case (applied es u st')
      have "journal (rr_raw u) = journal raw"
        using for_each_invariant [where P = "\<lambda>_ u. journal (rr_raw u) = journal raw" and h = "[]", OF _ _ applied(2)]
          journal_apply [OF assms(1), of conf sapi] by simp
      then show ?thesis
        by (simp add: applied(3))
    qed simp
    then show ?thesis
      using persisted(2) journalsD(5) [OF assms(1), of "rr_store s" "rr_raw s"] journalsD(6) [OF assms(1)] t(2) by simp
  qed simp
  then show ?thesis
    by (simp add: accounted_def hb)
qed

lemma accounted_step:
  assumes "journals api journal" "raft_replica_step conf api sapi i s = Inr (s', out)" "rr_reconfig_state s \<noteq> ReconfigRemoved"
  shows "accounted journal s' = accounted journal s + mset (List.map_filter rr_normal_of [i])"
proof (cases i)
  case (RrLocal m)
  then show ?thesis
    using assms(2,3) accounted_propose [OF assms(1), of _ s s' out]
    by (cases m) (auto simp: rr_normal_of_def map_filter_simps accounted_def stop_timers_def Let_def split: if_splits option.splits)
next
  case (RrComm m)
  then show ?thesis
    using assms(2) journalsD(4) [OF assms(1)]
    by (cases m) (auto simp: rr_normal_of_def map_filter_simps accounted_def Let_def panic_simps split: if_splits)
next
  case RrTickTimer
  then show ?thesis
    using assms(2) accounted_tick [OF assms(1), of s s' out] by (auto simp: rr_normal_of_def map_filter_simps split: if_splits)
next
  case RrReadyTimer
  then show ?thesis
    using assms(2) accounted_on_ready [OF assms(1), of conf sapi s s' out]
    by (auto simp: rr_normal_of_def map_filter_simps split: if_splits)
qed (use assms(2) journalsD(2) [OF assms(1)] in
    \<open>auto simp: rr_normal_of_def map_filter_simps accounted_def start_timers_def try_campaign_leader_def split: if_splits\<close>)

lemma accounted_run:
  assumes "journals api journal"
  shows "for_each (raft_replica_step conf api sapi) is s = Inr (s', out) \<Longrightarrow> rr_reconfig_state s' \<noteq> ReconfigRemoved \<Longrightarrow>
    accounted journal s' = accounted journal s + mset (List.map_filter rr_normal_of is)"
proof (induction "is" arbitrary: s' out rule: rev_induct)
  case (snoc i "is")
  obtain t o1 o2 where t: "for_each (raft_replica_step conf api sapi) is s = Inr (t, o1)" "raft_replica_step conf api sapi i t = Inr (s', o2)"
    using snoc.prems(1) by (auto simp: for_each_append panic_simps)
  have "rr_reconfig_state t \<noteq> ReconfigRemoved"
    using step_reconfigured [OF t(2)] snoc.prems(2) by (auto simp: reconfigured_def)
  then show ?case
    using snoc.IH [OF t(1)] accounted_step [OF assms t(2)] by (simp add: map_filter_append ac_simps)
qed (simp add: map_filter_simps)

subsection \<open>What is on disk\<close>

text \<open>The batches of entries that the node hands out in a run, in order.\<close>

definition ready_batch :: "('n, 'st, 'e, 'm, 'cc, 'c, 'x) raft_api \<Rightarrow> 'm rr_in \<Rightarrow> ('n, 'st) RaftReplica \<Rightarrow> 'e list list" where
  "ready_batch api i s = (case i of
     RrReadyTimer \<Rightarrow> if rr_timers s \<and> ra_has_ready api (rr_store s) (rr_raw s)
       then filter (\<lambda>es. es \<noteq> []) [rd_entries (fst (ra_ready api (rr_store s) (rr_raw s)))] else []
   | _ \<Rightarrow> [])"

fun batches ::
  "raft_conf \<Rightarrow> ('n, 'st, 'e, 'm, 'cc, 'c, 'x) raft_api \<Rightarrow> ('e, 'c, 'st) store_api \<Rightarrow> 'm rr_in list \<Rightarrow> ('n, 'st) RaftReplica
    \<Rightarrow> 'e list list" where
  "batches conf api sapi [] s = []"
| "batches conf api sapi (i # is) s = (case raft_replica_step conf api sapi i s of
     Inl _ \<Rightarrow> [] | Inr (s', _) \<Rightarrow> ready_batch api i s @ batches conf api sapi is s')"

definition log_on_disk :: "'e entry_api \<Rightarrow> SnapshotMetadata \<Rightarrow> 'e list \<Rightarrow> 'c DiskStorageCore \<Rightarrow> bool" where
  "log_on_disk eapi snap xs d \<longleftrightarrow> stored eapi xs d \<and> ds_snapshot_metadata d = snap"

lemma log_on_disk_updates [simp]:
  "log_on_disk eapi snap xs (set_conf_state c p d) = log_on_disk eapi snap xs d"
  "log_on_disk eapi snap xs (d\<lparr>ds_hard_state := m\<rparr>) = log_on_disk eapi snap xs d"
  by (simp_all add: log_on_disk_def set_conf_state_def stored_def written_def Let_def split: option.split)

lemma disk_set_hard: "set_hard_state commit term d = Inr d' \<Longrightarrow> log_on_disk eapi snap xs d' = log_on_disk eapi snap xs d"
  by (auto simp: set_hard_state_def panic_simps)

lemma disk_apply_all:
  assumes "apply_all conf api (disk_store_api eapi clear_dir) committed s = Inr (s', out)" "log_on_disk eapi snap xs (rr_store s)"
  shows "log_on_disk eapi snap xs (rr_store s')"
  using assms(1)
proof (cases rule: apply_all_cases)
  case (applied es t st)
  have "log_on_disk eapi snap xs (rr_store t)"
  proof (rule for_each_invariant [where P = "\<lambda>_ t. log_on_disk eapi snap xs (rr_store t)" and h = "[]", OF _ assms(2) applied(2)])
    show "log_on_disk eapi snap xs (rr_store u)"
      if "log_on_disk eapi snap xs (rr_store t)" "apply_committed conf api (disk_store_api eapi clear_dir) e t = Inr (u, out)" for e t u out
      using apply_effect [OF that(2)] that(1) by (auto simp: disk_store_api_def)
  qed
  then show ?thesis
    using applied(3,4) disk_set_hard [of _ _ _ _ eapi snap xs] by (auto simp: disk_store_api_def panic_simps)
qed (use assms(2) in simp)

lemma disk_on_ready:
  assumes "on_ready conf api (disk_store_api eapi clear_dir) s = Inr (s', out)" "log_on_disk eapi snap xs (rr_store s)"
    and bs: "bs = (if ra_has_ready api (rr_store s) (rr_raw s)
      then filter (\<lambda>es. es \<noteq> []) [rd_entries (fst (ra_ready api (rr_store s) (rr_raw s)))] else [])"
    and fit: "all_fit (fits eapi snap) (extend_log eapi snap) xs bs"
  shows "log_on_disk eapi snap (foldl (extend_log eapi snap) xs bs) (rr_store s')"
  using assms(1)
proof (cases rule: on_ready_cases)
  case idle
  then show ?thesis
    using assms(2) bs by simp
next
  case (failed ready raw e)
  then show ?thesis
    by (auto simp: disk_store_api_def panic_simps)
next
  case (persisted ready raw st)
  have st: "append_log eapi (rd_entries ready) (rr_store s) = Inr st"
    using persisted(3) by (auto simp: disk_store_api_def panic_simps)
  have "log_on_disk eapi snap (foldl (extend_log eapi snap) xs bs) st"
  proof (cases "rd_entries ready = []")
    case True
    then show ?thesis
      using st assms(2) bs persisted(1,2) by (simp add: append_log_def)
  next
    case False
    then show ?thesis
      using disk.append_holds [of eapi xs "rr_store s" snap "rd_entries ready"] st assms(2) fit bs persisted(1,2)
      by (auto simp: log_on_disk_def)
  qed
  moreover obtain t resp where "apply_all conf api (disk_store_api eapi clear_dir) (rd_committed_entries ready) (s\<lparr>rr_raw := raw, rr_store := st\<rparr>) = Inr (t, resp)"
    "rr_store s' = rr_store t"
    using persisted(4) by (rule after_append_cases) simp
  ultimately show ?thesis
    using disk_apply_all by (metis RaftReplica.select_convs(3) RaftReplica.update_convs(3) RaftReplica.surjective)
qed

lemma store_step:
  assumes "i \<noteq> RrReadyTimer" "raft_replica_step conf api sapi i s = Inr (s', out)"
  shows "rr_store s' = rr_store s"
proof (cases i)
  case (RrLocal m)
  then show ?thesis
    using assms propose_effect [of api _ s s' out]
    by (cases m) (auto simp: proposed_from_def stop_timers_def Let_def split: if_splits)
next
  case (RrComm m)
  then show ?thesis
    using assms by (cases m) (auto simp: Let_def panic_simps split: if_splits)
next
  case RrTickTimer
  then show ?thesis
    using assms tick_effect [of api s s' out] by (auto split: if_splits)
qed (use assms in \<open>auto simp: start_timers_def try_campaign_leader_def split: if_splits\<close>)

lemma all_fit_append:
  "all_fit fit grow xs (as @ bs) = (all_fit fit grow xs as \<and> all_fit fit grow (foldl grow xs as) bs)"
  by (induction as arbitrary: xs) auto

lemma disk_step:
  assumes "raft_replica_step conf api (disk_store_api eapi clear_dir) i s = Inr (s', out)" "log_on_disk eapi snap xs (rr_store s)"
    and "all_fit (fits eapi snap) (extend_log eapi snap) xs (ready_batch api i s)"
  shows "log_on_disk eapi snap (foldl (extend_log eapi snap) xs (ready_batch api i s)) (rr_store s')"
proof (cases "i = RrReadyTimer \<and> rr_timers s")
  case True
  show ?thesis
    by (rule disk_on_ready) (use True assms in \<open>auto simp: ready_batch_def\<close>)
next
  case False
  then have "ready_batch api i s = []"
    by (auto simp: ready_batch_def split: rr_in.splits)
  moreover have "rr_store s' = rr_store s"
    using False assms(1) store_step [OF _ assms(1)] by (cases "i = RrReadyTimer") auto
  ultimately show ?thesis
    using assms(2) by simp
qed

lemma disk_run:
  "for_each (raft_replica_step conf api (disk_store_api eapi clear_dir)) is s = Inr (s', out) \<Longrightarrow>
    log_on_disk eapi snap xs (rr_store s) \<Longrightarrow>
    all_fit (fits eapi snap) (extend_log eapi snap) xs (batches conf api (disk_store_api eapi clear_dir) is s) \<Longrightarrow>
    log_on_disk eapi snap (foldl (extend_log eapi snap) xs (batches conf api (disk_store_api eapi clear_dir) is s)) (rr_store s')"
proof (induction "is" arbitrary: s xs out)
  case (Cons i "is")
  obtain t o1 o2 where t: "raft_replica_step conf api (disk_store_api eapi clear_dir) i s = Inr (t, o1)"
    "for_each (raft_replica_step conf api (disk_store_api eapi clear_dir)) is t = Inr (s', o2)"
    using Cons.prems(1) by (auto simp: panic_simps)
  then show ?case
    using Cons.IH [OF t(2)] disk_step [OF t(1) Cons.prems(2)] Cons.prems(3) by (simp add: all_fit_append)
qed simp

lemma sends_only_when_ready:
  assumes "raft_replica_step conf api sapi i s = Inr (s', out)" "RrTrigger (CommRawRaftMsg m) \<in> set out"
  shows "i = RrReadyTimer"
proof (rule ccontr)
  assume other: "i \<noteq> RrReadyTimer"
  have forward: "\<not> list_all is_forward out"
    using assms(2) by (auto simp: list_all_iff is_forward_def intro!: bexI [of _ "RrTrigger (CommRawRaftMsg m)"])
  show False
  proof (cases i)
    case (RrLocal l)
    then show ?thesis
      using assms forward propose_effect [of api _ s s' out] by (cases l) (auto simp: Let_def split: if_splits)
  next
    case (RrComm c)
    then show ?thesis
      using assms by (cases c) (auto simp: Let_def panic_simps split: if_splits)
  next
    case RrTickTimer
    then have "rr_timers s" "raft_tick api s = Inr (s', out)"
      using assms by (auto split: if_splits)
    from this(2) show ?thesis
    proof (cases rule: tick_cases)
      case (leader t o1)
      then show ?thesis
        using proposes_effect [OF leader(2)] assms(2) by (auto simp: list_all_iff is_forward_def split: if_splits)
    qed (use assms(2) in simp)
  qed (use other assms in \<open>auto simp: try_campaign_leader_def split: if_splits\<close>)
qed

subsection \<open>A node for the witnesses\<close>

text \<open>Whoever sends a message is the leader; proposals are handed out as entries and committed at once.\<close>

record example_node =
  xn_leader :: u64
  xn_voters :: "u64 list"
  xn_journal :: "bytes list"
  xn_queue :: "(u64 \<times> u64) list"

definition example_raft :: "bool \<Rightarrow> (example_node, 'st, u64 \<times> u64, u64, u64, unit, unit) raft_api" where
  "example_raft commits = \<lparr>ra_entry = example_api, ra_data = (\<lambda>(i, t). put_u64 t), ra_is_conf_change = (\<lambda>(i, t). t = 9),
    ra_conf_change = (\<lambda>_. Some 0), ra_change_type = (\<lambda>_. FinalizeMembershipChange), ra_id = (\<lambda>_. 1), ra_leader_id = xn_leader,
    ra_is_leader = (\<lambda>n. xn_leader n = 1), ra_voters = xn_voters, ra_conf_state = (\<lambda>_. ()), ra_is_in_membership_change = (\<lambda>_. True),
    ra_campaign = (\<lambda>_ n. n), ra_tick = (\<lambda>_ n. n), ra_step = (\<lambda>m _ n. n\<lparr>xn_leader := m\<rparr>),
    ra_propose = (\<lambda>d _ n. Some (n\<lparr>xn_journal := xn_journal n @ [d],
       xn_queue := xn_queue n @ [(word_of_nat (length (xn_journal n)) + 2, 1)]\<rparr>)),
    ra_propose_membership_change = (\<lambda>c _ n. Some (n\<lparr>xn_voters := fst c, xn_queue := xn_queue n @ [(2, 9)]\<rparr>)),
    ra_begin_membership_change = (\<lambda>_ _ n. Some n),
    ra_finalize_membership_change = (\<lambda>_ _ n. Some (if xn_leader n \<in> set (xn_voters n) then n else n\<lparr>xn_leader := 0\<rparr>)),
    ra_has_ready = (\<lambda>_ n. xn_queue n \<noteq> []),
    ra_ready = (\<lambda>_ n. (\<lparr>rd_entries = xn_queue n, rd_snapshot_is_default = True, rd_messages = [7],
       rd_committed_entries = (if commits then Some (xn_queue n) else None), rd_rest = ()\<rparr>, n)),
    ra_advance = (\<lambda>_ _ n. n\<lparr>xn_queue := []\<rparr>)\<rparr>"

definition example_store :: "(u64 \<times> u64, unit, (u64 \<times> u64) list) store_api" where
  "example_store = \<lparr>st_append_log = (\<lambda>es st. Inr (Inr (st @ es))), st_set_conf_state = (\<lambda>_ _ st. st),
    st_set_hard_state = (\<lambda>_ _ st. Inr (Inr st)), st_clear = (\<lambda>st. Inr (Inr []))\<rparr>"

definition example_conf :: raft_conf where
  "example_conf = \<lparr>cf_tick_period = 10, cf_election_timeout = 1000, cf_initial_election_factor = 2, cf_gen_range = (\<lambda>a b. a)\<rparr>"

definition example_replica :: "'st \<Rightarrow> (example_node, 'st) RaftReplica" where
  "example_replica st = raft_replica_with \<lparr>xn_leader = 0, xn_voters = [1, 2, 3], xn_journal = [], xn_queue = []\<rparr> st ReplaceLeader 2 10"

lemma put_u64_nonempty: "put_u64 w \<noteq> []"
  using length_put(3) [of w] by (metis list.size(3) zero_neq_numeral)

lemmas example_defs = put_u64_nonempty example_raft_def example_store_def example_conf_def example_replica_def raft_replica_with_def
  start_timers_def stop_timers_def raft_tick_def raft_propose_def propose_reconfig_def new_configuration_def replace_leader_def
  on_ready_def apply_all_def apply_committed_def finalize_change_def campaign_timeout_def expect_ok_def proposal_resp_with_def

subsection \<open>Properties\<close>

text \<open>C33: the stop protocol of the Raft replica: in every run that does not panic in the \<open>raft\<close> crate, when each peer announces
  its stop at most once and the replica is asked to stop at most once, the ask is answered exactly once when all peers
  have announced theirs, and never before.\<close>

theorem raft_stop_protocol:
  assumes "for_each (raft_replica_step conf api sapi) is (raft_replica_with raw store policy num_peers max_inflight) = Inr (s, out)"
    and "distinct (List.map_filter rr_peer_of is)" "length (List.map_filter rr_peer_of is) \<le> num_peers"
    and "length (List.map_filter rr_stop_of is) \<le> 1"
  shows "List.map_filter rr_reply_of out =
      (if length (List.map_filter rr_peer_of is) = num_peers then List.map_filter rr_stop_of is else []) \<and>
    rr_stopped s = (List.map_filter rr_stop_of is \<noteq> []) \<and> rr_stopped_peers s = set (List.map_filter rr_peer_of is)"
proof -
  note defs = rr_stop.stop_state_def rr_stop.asks_def rr_stop.announced_def
  have "rr_stop.stop_state num_peers [] (raft_replica_with raw store policy num_peers max_inflight) []"
    by (simp add: defs raft_replica_with_def map_filter_simps)
  from rr_stop.stop_run_effect [OF this _ _ _ assms(1)] show ?thesis
    using assms(2-4) by (simp add: defs)
qed

theorem raft_stop_protocol_witness:
  "\<exists>s out. for_each (raft_replica_step example_conf (example_raft True) example_store)
      [RrStart, RrComm (CompStopMsg 2), RrTickTimer, RrLocal (Stop 5), RrComm (CompStopMsg 3)] (example_replica []) = Inr (s, out) \<and>
    List.map_filter rr_reply_of out = [5]"
proof -
  let ?is = "[RrStart, RrComm (CompStopMsg 2), RrTickTimer, RrLocal (Stop 5), RrComm (CompStopMsg 3)] :: u64 rr_in list"
  obtain s out where run: "for_each (raft_replica_step example_conf (example_raft True) example_store) ?is (example_replica []) = Inr (s, out)"
    by (simp add: example_defs Let_def)
  have "List.map_filter rr_peer_of ?is = [2, 3]" "List.map_filter rr_stop_of ?is = [5]"
    by (simp_all add: rr_peer_of_def rr_stop_of_def map_filter_simps)
  then show ?thesis
    using run raft_stop_protocol [OF run [unfolded example_replica_def]] by (intro exI conjI) auto
qed

text \<open>what a Raft replica tells of leaders in a run. Its current leader is the last it has told of (0 before the first);
  until a reconfiguration is finished exactly the first piece of news makes the supervisor notify the client; over
  its whole life the client is notified at most twice, the second time only after a reconfiguration.\<close>

theorem raft_leader_news:
  assumes "for_each (raft_replica_step conf api sapi) is (raft_replica_with raw store policy num_peers max_inflight) = Inr (s, out)"
  shows "rr_current_leader s = last (0 # map snd (leader_news out)) \<and>
    (\<not> reconfigured s \<longrightarrow> (if rr_state s = Election then leader_news out = []
       else \<exists>l ls. leader_news out = (True, l) # ls \<and> filter fst ls = [])) \<and>
    length (filter fst (leader_news out)) \<le> (if reconfigured s then 2 else 1)"
proof -
  have "leader_inv ([] @ out) s"
  proof (rule for_each_invariant [OF _ _ assms])
    show "leader_inv [] (raft_replica_with raw store policy num_peers max_inflight)"
      by (simp add: leader_inv_def raft_replica_with_def reconfigured_def)
  qed (rule leader_inv_step)
  then show ?thesis
    unfolding leader_inv_def append_Nil by linarith
qed

theorem raft_leader_news_witness:
  "\<exists>s out. for_each (raft_replica_step example_conf (example_raft True) example_store)
      [RrStart, RrTickTimer, RrComm (CompRawRaftMsg 2), RrTickTimer, RrComm (CompRawRaftMsg 1), RrTickTimer] (example_replica []) = Inr (s, out) \<and>
    leader_news out = [(True, 2), (False, 1)] \<and> rr_current_leader s = last (0 # map snd (leader_news out)) \<and> rr_current_leader s = 1"
proof -
  let ?is = "[RrStart, RrTickTimer, RrComm (CompRawRaftMsg 2), RrTickTimer, RrComm (CompRawRaftMsg 1), RrTickTimer] :: u64 rr_in list"
  obtain s out where run: "for_each (raft_replica_step example_conf (example_raft True) example_store) ?is (example_replica []) = Inr (s, out)"
    and news: "leader_news out = [(True, 2), (False, 1)]"
    by (simp add: example_defs Let_def leader_news_def rr_leader_of_def map_filter_simps)
  then show ?thesis
    using raft_leader_news [OF run [unfolded example_replica_def]] by (intro exI [of _ s] exI [of _ out]) simp
qed

text \<open>C31: a replica finishes one reconfiguration in its life. Once it has, the outcome (part of the configuration or removed) stays
  the same in every run, and the run does not depend on the crate's operations on the membership: whatever they are, it
  is the same run, so no further change is proposed, begun or finalised.\<close>

theorem raft_reconfigures_once:
  assumes "reconfigured s"
  shows "for_each (raft_replica_step conf (with_membership f g h api) sapi) is s = for_each (raft_replica_step conf api sapi) is s \<and>
    (\<forall>s' out. for_each (raft_replica_step conf api sapi) is s = Inr (s', out) \<longrightarrow> rr_reconfig_state s' = rr_reconfig_state s)"
proof
  show "for_each (raft_replica_step conf (with_membership f g h api) sapi) is s = for_each (raft_replica_step conf api sapi) is s"
  proof (rule for_each_cong_inv [where I = reconfigured])
    show "reconfigured s'" if "reconfigured s" "raft_replica_step conf (with_membership f g h api) sapi i s = Inr (s', out)" for i s s' out
      using step_reconfigured [OF that(2,1)] that(1) by (simp add: reconfigured_def)
  qed (simp_all add: step_any_membership assms)
  show "\<forall>s' out. for_each (raft_replica_step conf api sapi) is s = Inr (s', out) \<longrightarrow> rr_reconfig_state s' = rr_reconfig_state s"
  proof (intro allI impI)
    fix s' out
    assume run: "for_each (raft_replica_step conf api sapi) is s = Inr (s', out)"
    show "rr_reconfig_state s' = rr_reconfig_state s"
    proof (rule for_each_invariant [where P = "\<lambda>_ t. rr_reconfig_state t = rr_reconfig_state s" and h = "[]", OF _ refl run])
      show "rr_reconfig_state u = rr_reconfig_state s"
        if "rr_reconfig_state t = rr_reconfig_state s" "raft_replica_step conf api sapi i t = Inr (u, out)" for i t u out
        using step_reconfigured [OF that(2)] that(1) assms by (simp add: reconfigured_def)
    qed
  qed
qed

theorem raft_reconfigures_once_witness:
  "\<exists>s out. for_each (raft_replica_step example_conf (example_raft True) example_store)
      [RrStart, RrComm (CompRawRaftMsg 1), RrLocal (Propose (proposal_reconfiguration [] ([1, 2, 4], []))), RrReadyTimer]
      (example_replica []) = Inr (s, out) \<and>
    rr_reconfig_state s = ReconfigRemoved \<and>
    for_each (raft_replica_step example_conf (with_membership (\<lambda>_ _ _. None) (\<lambda>_ _ _. None) (\<lambda>_ _ _. None) (example_raft True)) example_store)
      [RrLocal (Propose (proposal_reconfiguration [] ([1, 2, 5], []))), RrReadyTimer] s =
    for_each (raft_replica_step example_conf (example_raft True) example_store)
      [RrLocal (Propose (proposal_reconfiguration [] ([1, 2, 5], []))), RrReadyTimer] s"
proof -
  obtain s out where run: "for_each (raft_replica_step example_conf (example_raft True) example_store)
      [RrStart, RrComm (CompRawRaftMsg 1), RrLocal (Propose (proposal_reconfiguration [] ([1, 2, 4], []))), RrReadyTimer]
      (example_replica []) = Inr (s, out)" and removed: "rr_reconfig_state s = ReconfigRemoved"
    by (simp add: example_defs Let_def proposal_reconfiguration_def)
  then have "reconfigured s"
    by (simp add: reconfigured_def)
  then show ?thesis
    using run removed raft_reconfigures_once by (intro exI [of _ s] exI [of _ out]) blast
qed

text \<open>C32: a replica that is no longer part of the configuration is silent. It has no timers and has never scheduled a campaign; from
  then on its node and its store do not change, and all it sends are the messages of the stop protocol.\<close>

theorem raft_removed_is_silent:
  assumes "for_each (raft_replica_step conf api sapi) (RrStart # is) (raft_replica_with raw store policy num_peers max_inflight) = Inr (s, out)"
    and "RrStart \<notin> set is" "rr_reconfig_state s = ReconfigRemoved"
    and "for_each (raft_replica_step conf api sapi) js s = Inr (s', out')" "RrStart \<notin> set js" "RrCampaignTimer \<notin> set js"
  shows "\<not> rr_timers s \<and> (\<forall>t. RrScheduleCampaign t \<notin> set out) \<and> rr_raw s' = rr_raw s \<and> rr_store s' = rr_store s \<and>
    set out' \<subseteq> {RrTrigger (CommSendStop (ra_id api (rr_raw s)) True)} \<union> range RrReplyStop"
proof -
  have run: "for_each (raft_replica_step conf api sapi) is (start_timers (raft_replica_with raw store policy num_peers max_inflight)) = Inr (s, out)"
    using assms(1) by (auto simp: panic_simps)
  have "removed_inv ([] @ out) s"
  proof (rule for_each_invariant [OF _ _ run])
    show "removed_inv [] (start_timers (raft_replica_with raw store policy num_peers max_inflight))"
      by (simp add: removed_inv_def start_timers_def raft_replica_with_def)
    show "removed_inv (h @ out) u" if "i \<in> set is" "removed_inv h t" "raft_replica_step conf api sapi i t = Inr (u, out)" for h i t u out
      using removed_inv_step [OF that(2) _ that(3)] that(1) assms(2) by auto
  qed
  then have inv: "\<not> rr_timers s" "\<forall>t. RrScheduleCampaign t \<notin> set out"
    using assms(3) by (auto simp: removed_inv_def list_all_iff is_schedule_def)
  let ?P = "\<lambda>h t. rr_reconfig_state t = ReconfigRemoved \<and> \<not> rr_timers t \<and> rr_raw t = rr_raw s \<and> rr_store t = rr_store s \<and>
    set h \<subseteq> {RrTrigger (CommSendStop (ra_id api (rr_raw s)) True)} \<union> range RrReplyStop"
  have "?P ([] @ out') s'"
  proof (rule for_each_invariant [where P = ?P, OF _ _ assms(4)])
    show "?P [] s"
      using inv assms(3) by simp
    show "?P (h @ out) u" if "i \<in> set js" "?P h t" "raft_replica_step conf api sapi i t = Inr (u, out)" for h i t u out
    proof -
      have "i \<noteq> RrStart" "i \<noteq> RrCampaignTimer"
        using that(1) assms(5,6) by auto
      with removed_step [of t i conf api sapi u out] that(2,3) show ?thesis
        by simp
    qed
  qed
  then show ?thesis
    using inv by simp
qed

theorem raft_removed_is_silent_witness:
  "\<exists>s out s' out'. for_each (raft_replica_step example_conf (example_raft True) example_store)
      (RrStart # [RrComm (CompRawRaftMsg 1), RrLocal (Propose (proposal_reconfiguration [] ([1, 2, 4], []))), RrReadyTimer])
      (example_replica []) = Inr (s, out) \<and>
    for_each (raft_replica_step example_conf (example_raft True) example_store)
      [RrComm (CompRawRaftMsg 2), RrTickTimer, RrLocal (Propose (proposal_normal [1])), RrReadyTimer, RrLocal (Stop 3)] s = Inr (s', out') \<and>
    rr_raw s' = rr_raw s \<and> out' = [RrTrigger (CommSendStop 1 True)]"
proof -
  let ?step = "raft_replica_step example_conf (example_raft True) example_store"
  let ?is = "[RrComm (CompRawRaftMsg 1), RrLocal (Propose (proposal_reconfiguration [] ([1, 2, 4], []))), RrReadyTimer] :: u64 rr_in list"
  let ?js = "[RrComm (CompRawRaftMsg 2), RrTickTimer, RrLocal (Propose (proposal_normal [1])), RrReadyTimer, RrLocal (Stop 3)] :: u64 rr_in list"
  obtain s out s' out' where run: "for_each ?step (RrStart # ?is) (example_replica []) = Inr (s, out)"
    "rr_reconfig_state s = ReconfigRemoved" "for_each ?step ?js s = Inr (s', out')" "out' = [RrTrigger (CommSendStop 1 True)]"
    by (simp add: example_defs Let_def proposal_reconfiguration_def)
  have "rr_raw s' = rr_raw s"
    using raft_removed_is_silent [OF run(1) [unfolded example_replica_def] _ run(2,3)] by simp
  then show ?thesis
    using run(1,3,4) by (intro exI [of _ s] exI [of _ out] exI [of _ s'] exI [of _ out'] conjI)
qed

text \<open>C30: no ordinary proposal is lost, invented or duplicated by the replica. With a journal of what the crate's node was given,
  as long as the replica is not removed, what it received is, as a multiset, what the node was given together with what is
  held back for want of a leader.\<close>

theorem raft_proposals_accounted:
  assumes "journals api journal" "journal raw = []" "rr_reconfig_state s \<noteq> ReconfigRemoved"
    and "for_each (raft_replica_step conf api sapi) is (raft_replica_with raw store policy num_peers max_inflight) = Inr (s, out)"
  shows "mset (List.map_filter rr_normal_of is) =
    mset (journal (rr_raw s)) + mset (List.map_filter normal_data_of (rr_hb_proposals s))"
  using accounted_run [OF assms(1,4,3)] assms(2) by (simp add: accounted_def raft_replica_with_def map_filter_simps)

theorem raft_proposals_accounted_witness:
  "\<exists>s out. for_each (raft_replica_step example_conf (example_raft True) example_store)
      [RrStart, RrLocal (Propose (proposal_normal [1])), RrComm (CompRawRaftMsg 1), RrLocal (Propose (proposal_normal [2])), RrTickTimer]
      (example_replica []) = Inr (s, out) \<and> xn_journal (rr_raw s) = [[2], [1]] \<and> {#[1], [2]#} = mset (xn_journal (rr_raw s))"
proof -
  let ?is = "[RrStart, RrLocal (Propose (proposal_normal [1])), RrComm (CompRawRaftMsg 1), RrLocal (Propose (proposal_normal [2])), RrTickTimer]
    :: u64 rr_in list"
  obtain s out where run: "for_each (raft_replica_step example_conf (example_raft True) example_store) ?is (example_replica []) = Inr (s, out)"
    and s: "rr_reconfig_state s = ReconfigNone" "rr_hb_proposals s = []" "xn_journal (rr_raw s) = [[2], [1]]"
    by (simp add: example_defs Let_def proposal_normal_def)
  have "journals (example_raft True :: (_, (u64 \<times> u64) list, _, _, _, _, _) raft_api) xn_journal"
    by (simp add: journals_def example_raft_def)
  from raft_proposals_accounted [OF this _ _ run [unfolded example_replica_def]]
  have "mset (List.map_filter rr_normal_of ?is) = mset (xn_journal (rr_raw s))"
    by (simp add: s map_filter_simps)
  moreover have "List.map_filter rr_normal_of ?is = [[1], [2]]"
    by (simp add: rr_normal_of_def normal_data_of_def proposal_normal_def map_filter_simps)
  ultimately show ?thesis
    using run s(3) by (intro exI [of _ s] exI [of _ out]) simp
qed

text \<open>Messages leave the replica only after the entries they may rest on are in the store: a step that sends a message of the
  node has appended the entries of the same \<open>Ready\<close> to the store without an error.\<close>

theorem raft_persists_before_sending:
  assumes "raft_replica_step conf api sapi i s = Inr (s', out)" "RrTrigger (CommRawRaftMsg m) \<in> set out"
  shows "\<exists>ready raw st. ra_ready api (rr_store s) (rr_raw s) = (ready, raw) \<and> m \<in> set (rd_messages ready) \<and>
    st_append_log sapi (rd_entries ready) (rr_store s) = Inr (Inr st)"
proof -
  have i: "i = RrReadyTimer"
    by (rule sends_only_when_ready [OF assms])
  then have "on_ready conf api sapi s = Inr (s', out)"
    using assms by (auto split: if_splits)
  then show ?thesis
  proof (cases rule: on_ready_cases)
    case (persisted ready raw st)
    from persisted(4) obtain t resp where t:
      "apply_all conf api sapi (rd_committed_entries ready) (s\<lparr>rr_raw := raw, rr_store := st\<rparr>) = Inr (t, resp)"
      "out = map (\<lambda>m. RrTrigger (CommRawRaftMsg m)) (rd_messages ready) @ resp"
      by (rule after_append_cases)
    have "RrTrigger (CommRawRaftMsg m) \<notin> set resp"
      using apply_all_effect [OF t(1)] by (auto simp: list_all_iff is_response_def)
    then show ?thesis
      using persisted assms(2) t(2) by auto
  qed (use assms(2) in simp_all)
qed

theorem raft_persists_before_sending_witness:
  "\<exists>s out s' out'. for_each (raft_replica_step example_conf (example_raft True) example_store)
      [RrStart, RrComm (CompRawRaftMsg 1), RrLocal (Propose (proposal_normal [1]))] (example_replica []) = Inr (s, out) \<and>
    raft_replica_step example_conf (example_raft True) example_store RrReadyTimer s = Inr (s', out') \<and>
    (\<exists>ready raw st. ra_ready (example_raft True) (rr_store s) (rr_raw s) = (ready, raw) \<and> 7 \<in> set (rd_messages ready) \<and>
      st_append_log example_store (rd_entries ready) (rr_store s) = Inr (Inr st))"
proof -
  obtain s out s' out' where run: "for_each (raft_replica_step example_conf (example_raft True) example_store)
      [RrStart, RrComm (CompRawRaftMsg 1), RrLocal (Propose (proposal_normal [1]))] (example_replica []) = Inr (s, out)"
    "raft_replica_step example_conf (example_raft True) example_store RrReadyTimer s = Inr (s', out')"
    "RrTrigger (CommRawRaftMsg 7) \<in> set out'"
    by (simp add: example_defs Let_def proposal_normal_def)
  show ?thesis
    using run(1,2) raft_persists_before_sending [OF run(2,3)] by (intro exI [of _ s] exI [of _ out] exI [of _ s'] exI [of _ out'] conjI)
qed

text \<open>C29: the replica and the disk storage together. After a run from a fresh disk storage, the storage answers as the log that the
  batches handed out by the node build up, the later ones overwriting the tails of the earlier; commits, configurations and
  all other steps leave it alone. The batches are to leave no gaps and to fit the 20 MiB of the memory maps.\<close>

theorem raft_log_on_disk:
  assumes "disk_new_with_conf_state c0 c = Inr d0"
    and "for_each (raft_replica_step conf api (disk_store_api eapi clear_dir)) is (raft_replica_with raw d0 policy num_peers max_inflight) = Inr (s, out)"
    and "bs = batches conf api (disk_store_api eapi clear_dir) is (raft_replica_with raw d0 policy num_peers max_inflight)"
    and "all_fit (fits eapi conf_snapshot) (extend_log eapi conf_snapshot) [] bs"
    and "readable eapi (foldl (extend_log eapi conf_snapshot) [] bs)"
  shows "reads_as eapi (foldl (extend_log eapi conf_snapshot) [] bs) (rr_store s)"
proof -
  have "log_on_disk eapi conf_snapshot [] (rr_store (raft_replica_with raw d0 policy num_peers max_inflight))"
    using fresh_conf_stored [of c0 c eapi] assms(1) by (auto simp: log_on_disk_def raft_replica_with_def)
  from disk_run [OF assms(2) this] show ?thesis
    using assms(3-5) stored_reads by (auto simp: log_on_disk_def)
qed

theorem raft_log_on_disk_witness:
  "\<exists>d0 s out. disk_new_with_conf_state () () = Inr d0 \<and>
    for_each (raft_replica_step example_conf (example_raft False) (disk_store_api example_api (\<lambda>d. Inr (Inr d))))
      [RrStart, RrComm (CompRawRaftMsg 1), RrLocal (Propose (proposal_normal [1])), RrReadyTimer] (example_replica d0) = Inr (s, out) \<and>
    last_index (rr_store s) = Inr 2 \<and> disk_term example_api 2 (rr_store s) = Inr (Inr 1)"
proof -
  let ?step = "raft_replica_step example_conf (example_raft False) (disk_store_api example_api (\<lambda>d. Inr (Inr d)))"
  let ?is = "[RrStart, RrComm (CompRawRaftMsg 1), RrLocal (Propose (proposal_normal [1])), RrReadyTimer] :: u64 rr_in list"
  obtain d0 where d0: "disk_new_with_conf_state () () = Inr d0" "stored example_api [] d0" "ds_snapshot_metadata d0 = conf_snapshot"
    using fresh_conf_stored [of "()" "()" example_api] by (elim exE conjE)
  have fit: "all_fit (fits example_api conf_snapshot) (extend_log example_api conf_snapshot) [] [[(2, 1)]]"
    by (simp add: fits_def batch_ok_def room_def example_log_bytes extend_log_def batch_at_def FILE_SIZE_def conf_snapshot_def)
      (simp add: example_api_def frame_def)
  then obtain d1 where d1: "append_log example_api [(2, 1)] d0 = Inr d1"
    using append_log_stored [OF d0(2), of "[(2, 1)]"] d0(3) by auto
  obtain s out where run: "for_each ?step ?is (example_replica d0) = Inr (s, out)"
    by (simp add: example_defs Let_def proposal_normal_def disk_store_api_def d1)
  have bs: "[[(2, 1)]] = batches example_conf (example_raft False) (disk_store_api example_api (\<lambda>d. Inr (Inr d))) ?is (example_replica d0)"
    by (simp add: example_defs Let_def proposal_normal_def disk_store_api_def d1 ready_batch_def)
  have log: "foldl (extend_log example_api conf_snapshot) [] [[(2, 1)]] = [(2, 1)]"
    by (simp add: extend_log_def)
  have "readable example_api [(2, 1)]"
    by (simp add: readable_def example_api_parse example_log_bytes FILE_SIZE_def del: log_bytes_simps)
  then have "reads_as example_api [(2, 1)] (rr_store s)"
    using raft_log_on_disk [OF d0(1) run [unfolded example_replica_def] bs [unfolded example_replica_def] fit] unfolding log by simp
  moreover have "log_term example_api conf_snapshot [(2, 1)] 2 = Inr (Inr 1)"
    by (simp add: log_term_def conf_snapshot_def example_api_def)
  ultimately show ?thesis
    using d0(1) run by (intro exI [of _ d0] exI [of _ s] exI [of _ out]) (simp add: reads_as_def)
qed

end
