(* ===== verification/Raft_Comp.thy ===== *)
theory Raft_Comp
  imports Raft_Run Partitioning_Actor
begin

text \<open>
  The Raft supervisor (\<open>raft.rs\<close>, \<open>RaftComp\<close>): it creates the replica and the communicator of an iteration, starts, stops
  and kills them, and takes proposals to where the leader is. The children are held as they were created; once started
  they run on their own and are reached by the outputs. \<open>'p\<close> is Kompact's \<open>ActorPath\<close>; what Kompact, the
  configuration file, the store's constructor and the \<open>raft\<close> crate provide are the fields of \<open>raft_env\<close>.
\<close>

text \<open>The fields of the crate's \<open>Config\<close> that the code sets.\<close>

record RaftConfig =
  rcf_id :: u64
  rcf_election_tick :: u64
  rcf_heartbeat_tick :: u64
  rcf_max_inflight_msgs :: u64
  rcf_max_size_per_msg :: u64
  rcf_batch_append :: bool
  rcf_pre_vote :: bool
  rcf_check_quorum :: bool

datatype raft_alias = RaftAlias string u64 u32   \<comment> \<open>\<open>format!("{}{}-{}", COMMUNICATOR, pid, iteration)\<close>\<close>

record ('p, 'n, 'st) raft_env =
  re_named :: "'p \<Rightarrow> raft_alias \<Rightarrow> 'p option"   \<comment> \<open>the named path of the same system, if the path is a named one\<close>
  re_path :: "'p getter"   \<comment> \<open>\<open>ActorPath::deserialise\<close>\<close>
  re_new_store :: "u64 \<Rightarrow> u64 list \<times> u64 list \<Rightarrow> 'st rust"   \<comment> \<open>\<open>S::new_with_conf_state\<close>, in the directory of that pid\<close>
  re_raw_node :: "RaftConfig \<Rightarrow> 'st \<Rightarrow> 'n option"   \<comment> \<open>\<open>RawNode::new\<close>\<close>
  re_validate :: "RaftConfig \<Rightarrow> bool"
  re_max_inflight :: u64
  re_election_timeout :: u64
  re_tick_period :: u64
  re_leader_hb_period :: u64
  re_max_batch_size :: u64
  re_pre_vote :: bool
  re_check_quorum :: bool

record ('p, 'n, 'st) RaftComp =
  rc_pid :: u64
  rc_initial_config :: "u64 list"
  rc_raft_replica :: "('n, 'st) RaftReplica option"
  rc_communicator :: "'p Communicator option"
  rc_peers :: "(u64 \<times> 'p) list"   \<comment> \<open>a hash map, listed in the order of its iteration\<close>
  rc_iteration_id :: u32
  rc_stopped :: bool
  rc_partitioning_actor :: "'p option"
  rc_cached_client :: "'p option"
  rc_current_leader :: u64
  rc_reconfig_policy :: RaftReconfigurationPolicy

datatype 'p rc_out =
    RcTellAbcast 'p AtomicBroadcastMsg
  | RcForward 'p 'p bytes   \<comment> \<open>to a path, with the original sender\<close>
  | RcPropose Proposal
  | RcStart
  | RcStopReplica
  | RcKill bool bool   \<comment> \<open>the replica, the communicator\<close>
  | RcReplyDone nat
  | RcTellInitAck 'p u32

type_synonym ('p, 'n, 'st) rc_handled = "(('p, 'n, 'st) RaftComp, 'p rc_out) handled"

definition raft_comp_with :: "u64 list \<Rightarrow> RaftReconfigurationPolicy \<Rightarrow> ('p, 'n, 'st) RaftComp" where
  "raft_comp_with initial_config reconfig_policy =
    \<lparr>rc_pid = 0, rc_initial_config = initial_config, rc_raft_replica = None, rc_communicator = None, rc_peers = [],
     rc_iteration_id = 0, rc_stopped = False, rc_partitioning_actor = None, rc_cached_client = None, rc_current_leader = 0,
     rc_reconfig_policy = reconfig_policy\<rparr>"

definition create_rawraft_config :: "('p, 'n, 'st) raft_env \<Rightarrow> u64 \<Rightarrow> RaftConfig rust" where
  "create_rawraft_config env pid =
    (if re_tick_period env = 0 then Inl PanicCall
     else let c = \<lparr>rcf_id = pid, rcf_election_tick = re_election_timeout env div re_tick_period env,
                   rcf_heartbeat_tick = re_leader_hb_period env div re_tick_period env,
                   rcf_max_inflight_msgs = re_max_inflight env, rcf_max_size_per_msg = re_max_batch_size env,
                   rcf_batch_append = True, rcf_pre_vote = re_pre_vote env, rcf_check_quorum = re_check_quorum env\<rparr>
          in rbind (rassert (re_validate env c)) (\<lambda>_. Inr c))"

fun communicator_paths :: "('p, 'n, 'st) raft_env \<Rightarrow> u32 \<Rightarrow> (u64 \<times> 'p) list \<Rightarrow> (u64 \<times> 'p) list rust" where
  "communicator_paths env iteration_id [] = Inr []"
| "communicator_paths env iteration_id ((pid, ap) # peers) =
    (case re_named env ap (RaftAlias ''communicator'' pid iteration_id) of
       None \<Rightarrow> Inl PanicCall
     | Some named_communicator \<Rightarrow>
         rbind (communicator_paths env iteration_id peers) (\<lambda>ps. Inr ((pid, named_communicator) # ps)))"

definition create_components :: "('p, 'n, 'st) raft_env \<Rightarrow> ('p, 'n, 'st) RaftComp \<Rightarrow> ('p, 'n, 'st) rc_handled" where
  "create_components env s =
    rbind (communicator_paths env (rc_iteration_id s) (rc_peers s)) (\<lambda>communicator_peers.
    rbind (re_new_store env (rc_pid s) (rc_initial_config s, [])) (\<lambda>store.
    rbind (create_rawraft_config env (rc_pid s)) (\<lambda>config.
    rbind (runwrap (re_raw_node env config store)) (\<lambda>raw_raft.
    rbind (runwrap (rc_cached_client s)) (\<lambda>client.
    let s = s\<lparr>rc_raft_replica := Some (raft_replica_with raw_raft store (rc_reconfig_policy s) (length (rc_peers s))
                 (unat (re_max_inflight env))),
              rc_communicator := Some (communicator_with (map_of communicator_peers) client)\<rparr>
    in rbind (runwrap (rc_partitioning_actor s)) (\<lambda>actor.
       Inr (s\<lparr>rc_partitioning_actor := None\<rparr>, [RcTellInitAck actor (rc_iteration_id s)])))))))"

definition start_components :: "('p, 'n, 'st) RaftComp \<Rightarrow> ('p, 'n, 'st) rc_handled" where
  "start_components s =
    rbind (runwrap (rc_raft_replica s)) (\<lambda>_. rbind (runwrap (rc_communicator s)) (\<lambda>_. Inr (s, [RcStart])))"

definition raft_stop_components :: "('p, 'n, 'st) RaftComp \<Rightarrow> ('p, 'n, 'st) rc_handled" where
  "raft_stop_components s = (let s = s\<lparr>rc_stopped := True\<rparr> in
     rbind (runwrap (rc_raft_replica s)) (\<lambda>_. Inr (s, [RcStopReplica])))"

definition raft_kill_components :: "nat \<Rightarrow> ('p, 'n, 'st) RaftComp \<Rightarrow> ('p, 'n, 'st) rc_handled" where
  "raft_kill_components ask s =
     Inr (s\<lparr>rc_raft_replica := None, rc_communicator := None\<rparr>,
       [RcKill (rc_raft_replica s \<noteq> None) (rc_communicator s \<noteq> None), RcReplyDone ask])"

fun raft_receive_local :: "RaftCompMsg \<Rightarrow> ('p, 'n, 'st) RaftComp \<Rightarrow> ('p, 'n, 'st) rc_handled" where
  "raft_receive_local (RaftLeader notify_client pid) s =
     step_then
       (if notify_client
        then rbind (runwrap (rc_cached_client s)) (\<lambda>client. Inr (s, [RcTellAbcast client (FirstLeader pid)]))
        else Inr (s, []))
       (\<lambda>s. Inr (s\<lparr>rc_current_leader := pid\<rparr>, []))"
| "raft_receive_local (RaftForwardReconfig leader_pid reconfig) s =
     (let s = s\<lparr>rc_current_leader := leader_pid\<rparr>;
          p = proposal_reconfiguration (put_u64 RECONFIG_ID) reconfig
      in rbind (runwrap (map_of (rc_peers s) leader_pid)) (\<lambda>path. Inr (s, [RcTellAbcast path (ProposalMsg p)])))"
| "raft_receive_local (RaftKillComponents ask) s = raft_kill_components ask s"

definition raft_receive_abcast :: "'p \<Rightarrow> bytes \<Rightarrow> ('p, 'n, 'st) RaftComp \<Rightarrow> ('p, 'n, 'st) rc_handled" where
  "raft_receive_abcast sender data s =
    (if \<not> rc_stopped s
     then if rc_current_leader s = rc_pid s \<or> rc_current_leader s = 0
          then (case deserialise_abcast data of
              Inl e \<Rightarrow> Inl UnwrapNone
            | Inr (ProposalMsg p, _) \<Rightarrow> rbind (runwrap (rc_raft_replica s)) (\<lambda>_. Inr (s, [RcPropose p]))
            | Inr _ \<Rightarrow> Inr (s, []))
          else if rc_current_leader s > 0
          then (case map_of (rc_peers s) (rc_current_leader s) of
              None \<Rightarrow> Inl PanicCall
            | Some leader \<Rightarrow> Inr (s, [RcForward leader sender data]))
          else Inr (s, [])
     else Inr (s, []))"

definition raft_peers :: "u64 \<Rightarrow> 'p list \<Rightarrow> (u64 \<times> 'p) list" where
  "raft_peers my_pid nodes =
     filter (\<lambda>(pid, _). pid \<noteq> my_pid) (map (\<lambda>(idx, ap). (word_of_nat idx + 1, ap)) (enumerate 0 nodes))"

definition raft_receive_init :: "('p, 'n, 'st) raft_env \<Rightarrow> 'p \<Rightarrow> 'p Init \<Rightarrow> ('p, 'n, 'st) RaftComp \<Rightarrow> ('p, 'n, 'st) rc_handled" where
  "raft_receive_init env sender init s =
    (let my_pid = ucast (init_pid init) :: u64 in
     rbind (runwrap (init_init_data init)) (\<lambda>ser_client.
     rbind (case re_path env ser_client of Inl e \<Rightarrow> Inl UnwrapNone | Inr (p, _) \<Rightarrow> Inr p) (\<lambda>client.
     create_components env (s\<lparr>rc_current_leader := 0, rc_iteration_id := init_init_id init, rc_cached_client := Some client,
       rc_peers := raft_peers my_pid (init_nodes init), rc_pid := my_pid, rc_partitioning_actor := Some sender,
       rc_stopped := False\<rparr>))))"

datatype 'p raft_net =
    RaftNetAbcast 'p bytes
  | RaftNetPartitioning 'p "'p PartitioningActorMsg"
  | RaftNetStop StopMsg
  | RaftNetDeserError
  | RaftNetUnknown

fun raft_receive_network ::
  "('p, 'n, 'st) raft_env \<Rightarrow> 'p raft_net \<Rightarrow> ('p, 'n, 'st) RaftComp \<Rightarrow> ('p, 'n, 'st) rc_handled" where
  "raft_receive_network env (RaftNetAbcast sender data) s = raft_receive_abcast sender data s"
| "raft_receive_network env (RaftNetPartitioning sender p) s = (case p of
     InitMsg init \<Rightarrow> raft_receive_init env sender init s
   | Run \<Rightarrow> start_components s
   | _ \<Rightarrow> Inr (s, []))"
| "raft_receive_network env (RaftNetStop m) s = (case m of
     ClientStop \<Rightarrow> rbind (rassert (\<not> rc_stopped s)) (\<lambda>_. raft_stop_components s)
   | PeerStop _ \<Rightarrow> Inr (s, []))"
| "raft_receive_network env RaftNetDeserError s = Inr (s, [])"
| "raft_receive_network env RaftNetUnknown s = Inl PanicCall"


subsection \<open>Peers\<close>

lemma raft_peers_snoc:
  "raft_peers my (nodes @ [ap]) =
    raft_peers my nodes @ (if word_of_nat (length nodes) + 1 = my then [] else [(word_of_nat (length nodes) + 1, ap)])"
  by (simp add: raft_peers_def enumerate_append_eq)

lemma raft_peers_get:
  assumes "length nodes < 2 ^ 32"
  shows "map_of (raft_peers my nodes) k =
    (if k \<noteq> my \<and> k \<noteq> 0 \<and> unat k \<le> length nodes then Some (nodes ! (unat k - 1)) else None)"
  using assms
proof (induction nodes rule: rev_induct)
  case Nil
  then show ?case
    by (simp add: raft_peers_def unat_gt_0)
next
  case (snoc ap nodes)
  have n: "unat (word_of_nat (length nodes) + 1 :: u64) = Suc (length nodes)"
    using snoc.prems by (simp add: unat_Suc_u64)
  have new: "map_of [(word_of_nat (length nodes) + 1 :: u64, ap)] k = (if unat k = Suc (length nodes) then Some ap else None)"
    using n by (auto simp: word_unat_eq_iff)
  have zero: "unat k = 0 \<longleftrightarrow> k = 0"
    by (simp add: unat_eq_zero)
  show ?case
  proof (cases "unat k = Suc (length nodes)")
    case True
    then have k: "k = word_of_nat (length nodes) + 1"
      using n by (simp add: word_unat_eq_iff)
    then show ?thesis
      using True snoc n by (auto simp: raft_peers_snoc map_add_def zero [symmetric])
  next
    case False
    then have "map_of (raft_peers my (nodes @ [ap])) k = map_of (raft_peers my nodes) k"
      using new by (auto simp: raft_peers_snoc map_add_def split: option.split if_splits)
    then show ?thesis
      using False snoc by (auto simp: nth_append zero [symmetric])
  qed
qed

lemma communicator_paths_get:
  "communicator_paths env it ps = Inr qs \<Longrightarrow>
    map_of qs k = (case map_of ps k of None \<Rightarrow> None | Some ap \<Rightarrow> re_named env ap (RaftAlias ''communicator'' k it))"
  by (induction ps arbitrary: qs) (auto simp: panic_simps split: option.splits)

lemma communicator_paths_named:
  "communicator_paths env it ps = Inr qs \<Longrightarrow> (k, ap) \<in> set ps \<Longrightarrow> re_named env ap (RaftAlias ''communicator'' k it) \<noteq> None"
  by (induction ps arbitrary: qs) (auto simp: panic_simps split: option.splits)

text \<open>What a component is after a successful \<open>Init\<close>.\<close>

lemma raft_receive_init_cases:
  assumes "raft_receive_init env sender init s = Inr (s', out)"
  obtains ser rest client paths store config raw where "init_init_data init = Some ser" "re_path env ser = Inr (client, rest)"
    "communicator_paths env (init_init_id init) (raft_peers (ucast (init_pid init)) (init_nodes init)) = Inr paths"
    "re_new_store env (ucast (init_pid init)) (rc_initial_config s, []) = Inr store"
    "create_rawraft_config env (ucast (init_pid init)) = Inr config" "re_raw_node env config store = Some raw"
    "s' = s\<lparr>rc_current_leader := 0, rc_iteration_id := init_init_id init, rc_cached_client := Some client,
       rc_peers := raft_peers (ucast (init_pid init)) (init_nodes init), rc_pid := ucast (init_pid init),
       rc_partitioning_actor := None, rc_stopped := False,
       rc_raft_replica := Some (raft_replica_with raw store (rc_reconfig_policy s)
         (length (raft_peers (ucast (init_pid init) :: u64) (init_nodes init))) (unat (re_max_inflight env))),
       rc_communicator := Some (communicator_with (map_of paths) client)\<rparr>"
    "out = [RcTellInitAck sender (init_init_id init)]"
proof -
  obtain ser client rest where 1: "init_init_data init = Some ser" "re_path env ser = Inr (client, rest)"
    using assms by (auto simp: raft_receive_init_def Let_def runwrap_def panic_simps split: option.splits sum.splits prod.splits)
  then have "create_components env (s\<lparr>rc_current_leader := 0, rc_iteration_id := init_init_id init, rc_cached_client := Some client,
       rc_peers := raft_peers (ucast (init_pid init)) (init_nodes init), rc_pid := ucast (init_pid init),
       rc_partitioning_actor := Some sender, rc_stopped := False\<rparr>) = Inr (s', out)"
    using assms by (simp add: raft_receive_init_def Let_def)
  then obtain paths store config raw where
    "communicator_paths env (init_init_id init) (raft_peers (ucast (init_pid init)) (init_nodes init)) = Inr paths"
    "re_new_store env (ucast (init_pid init)) (rc_initial_config s, []) = Inr store"
    "create_rawraft_config env (ucast (init_pid init)) = Inr config" "re_raw_node env config store = Some raw"
    "s' = s\<lparr>rc_current_leader := 0, rc_iteration_id := init_init_id init, rc_cached_client := Some client,
       rc_peers := raft_peers (ucast (init_pid init)) (init_nodes init), rc_pid := ucast (init_pid init),
       rc_partitioning_actor := None, rc_stopped := False,
       rc_raft_replica := Some (raft_replica_with raw store (rc_reconfig_policy s)
         (length (raft_peers (ucast (init_pid init) :: u64) (init_nodes init))) (unat (re_max_inflight env))),
       rc_communicator := Some (communicator_with (map_of paths) client)\<rparr>"
    "out = [RcTellInitAck sender (init_init_id init)]"
    by (cases s) (auto simp: create_components_def Let_def runwrap_def panic_simps split: option.splits)
  then show thesis
    using that 1 by blast
qed

subsection \<open>A replica and its supervisor\<close>

definition rr_supervisor_of :: "'m rr_out \<Rightarrow> RaftCompMsg option" where
  "rr_supervisor_of x = (case x of RrSupervisor m \<Rightarrow> Some m | _ \<Rightarrow> None)"

definition ordinary :: "Proposal \<Rightarrow> bool" where
  "ordinary p \<longleftrightarrow> prop_reconfig p = None"

definition rr_ordinary :: "'m rr_in \<Rightarrow> bool" where
  "rr_ordinary i = (case i of RrLocal (Propose p) \<Rightarrow> ordinary p | _ \<Rightarrow> True)"

text \<open>Without proposals to reconfigure, news of leaders is all a replica tells its supervisor.\<close>

definition news_only :: "'m rr_out list \<Rightarrow> ('n, 'st) RaftReplica \<Rightarrow> bool" where
  "news_only h s \<longleftrightarrow> list_all ordinary (rr_hb_proposals s) \<and>
     List.map_filter rr_supervisor_of h = map (\<lambda>(b, l). RaftLeader b l) (leader_news h)"

lemma ordinary_propose:
  "raft_propose api p s = Inr (s', out) \<Longrightarrow> ordinary p \<Longrightarrow> list_all ordinary (rr_hb_proposals s) \<Longrightarrow>
    out = [] \<and> list_all ordinary (rr_hb_proposals s')"
  by (auto simp: raft_propose_def ordinary_def panic_simps split: if_splits option.splits)

lemma ordinary_proposes:
  "for_each (raft_propose api) ps s = Inr (s', out) \<Longrightarrow> list_all ordinary ps \<Longrightarrow> list_all ordinary (rr_hb_proposals s) \<Longrightarrow>
    out = [] \<and> list_all ordinary (rr_hb_proposals s')"
proof (induction ps arbitrary: s out)
  case (Cons p ps)
  obtain t o1 o2 where "raft_propose api p s = Inr (t, o1)" "for_each (raft_propose api) ps t = Inr (s', o2)" "out = o1 @ o2"
    using Cons.prems(1) by (auto simp: panic_simps)
  then show ?case
    using Cons.IH [of t o2] Cons.prems(2,3) ordinary_propose [of api p s t o1] by auto
qed simp

lemma ready_supervisor: "list_all is_ready_out out \<Longrightarrow> List.map_filter rr_supervisor_of out = []"
proof (rule map_filter_none)
  show "rr_supervisor_of x = None" if "list_all is_ready_out out" "x \<in> set out" for x
    using that by (cases x) (auto simp: list_all_iff is_ready_out_def is_response_def rr_supervisor_of_def)
qed

lemma news_only_out:
  "news_only h s \<Longrightarrow> rr_hb_proposals s' = rr_hb_proposals s \<Longrightarrow> List.map_filter rr_supervisor_of out = [] \<Longrightarrow> leader_news out = []
    \<Longrightarrow> news_only (h @ out) s'"
  by (simp add: news_only_def map_filter_append)

lemma news_only_tick:
  assumes "news_only h s" "raft_tick api s = Inr (s', out)"
  shows "news_only (h @ out) s'"
  using assms(2)
proof (cases rule: tick_cases)
  case none
  then show ?thesis
    using assms(1) by (simp add: news_only_def ticked_def)
next
  case (leader t o1)
  have "o1 = []" "list_all ordinary (rr_hb_proposals t)"
    using ordinary_proposes [OF leader(2)] assms(1) by (simp_all add: news_only_def)
  then show ?thesis
    using leader(3) assms(1)
    by (auto simp: news_only_def led_by_def leader_news_def rr_leader_of_def rr_supervisor_of_def map_filter_append map_filter_simps
        split: if_splits)
qed

lemma news_only_step:
  assumes "news_only h s" "rr_ordinary i" "raft_replica_step conf api sapi i s = Inr (s', out)"
  shows "news_only (h @ out) s'"
proof (cases i)
  case (RrLocal m)
  then show ?thesis
  proof (cases m)
    case (Propose p)
    then show ?thesis
      using assms RrLocal ordinary_propose [of api p s s' out]
      by (auto simp: news_only_def rr_ordinary_def split: if_splits)
  next
    case (Stop a)
    then show ?thesis
      using assms(1,3) RrLocal
      by (auto simp: stop_timers_def rr_supervisor_of_def leader_news_def rr_leader_of_def map_filter_simps Let_def
          split: if_splits intro!: news_only_out)
  qed
next
  case (RrComm m)
  then show ?thesis
    using assms(1,3)
    by (cases m) (auto simp: news_only_def rr_supervisor_of_def leader_news_def rr_leader_of_def map_filter_append map_filter_simps
        Let_def panic_simps split: if_splits)
next
  case RrTickTimer
  then show ?thesis
    using assms news_only_tick [of h s api s' out] by (auto split: if_splits)
next
  case RrReadyTimer
  show ?thesis
  proof (cases "rr_timers s")
    case True
    then have "on_ready conf api sapi s = Inr (s', out)"
      using RrReadyTimer assms(3) by simp
    from on_ready_effect [OF this] show ?thesis
      using assms(1) ready_supervisor [of out] ready_outs [of out]
      by (intro news_only_out [of h s]) (auto simp: applied_from_def leader_news_def)
  qed (use RrReadyTimer assms in auto)
qed (use assms in \<open>auto simp: news_only_def start_timers_def try_campaign_leader_def split: if_splits\<close>)

lemma supervisor_hears:
  "rc_cached_client s = Some client \<Longrightarrow>
    for_each raft_receive_local (map (\<lambda>(b, l). RaftLeader b l) ls) s =
      Inr (s\<lparr>rc_current_leader := last (rc_current_leader s # map snd ls)\<rparr>,
        map (\<lambda>(b, l). RcTellAbcast client (FirstLeader l)) (filter fst ls))"
proof (induction ls arbitrary: s)
  case (Cons x ls)
  obtain b l where x: "x = (b, l)"
    by (cases x)
  show ?case
    using Cons.IH [of "s\<lparr>rc_current_leader := l\<rparr>"] Cons.prems by (cases b) (simp_all add: x)
qed simp

text \<open>An environment for the witnesses: paths are numbers, the communicator of a node is a hundred further.\<close>

definition raft_example_env :: "(nat, example_node, (u64 \<times> u64) list) raft_env" where
  "raft_example_env = \<lparr>re_named = (\<lambda>p _. Some (p + 100)), re_path = (\<lambda>bs. Inr (9, bs)), re_new_store = (\<lambda>_ _. Inr []),
    re_raw_node = (\<lambda>_ _. Some \<lparr>xn_leader = 0, xn_voters = [1, 2, 3], xn_journal = [], xn_queue = []\<rparr>), re_validate = (\<lambda>_. True),
    re_max_inflight = 10, re_election_timeout = 100, re_tick_period = 10, re_leader_hb_period = 20, re_max_batch_size = 1000,
    re_pre_vote = False, re_check_quorum = False\<rparr>"

definition example_init :: "nat Init" where
  "example_init = \<lparr>init_pid = 1, init_init_id = 4, init_nodes = [11, 12, 13], init_init_data = Some [0]\<rparr>"

lemma example_init_returns:
  "\<exists>s out. raft_receive_init raft_example_env 5 example_init (raft_comp_with [1, 2, 3] ReplaceLeader) = Inr (s, out)"
  by (simp add: raft_example_env_def example_init_def raft_receive_init_def raft_peers_def create_components_def create_rawraft_config_def
      rassert_def raft_comp_with_def Let_def)

subsection \<open>Properties\<close>

text \<open>the Raft supervisor knows and tells what its replica knows. When no reconfiguration is proposed, its handling of everything
  the replica tells it in a run succeeds, leaves it with the replica's current leader, and sends the client a
  \<open>FirstLeader\<close> for exactly the news marked so: at most one before a reconfiguration is finished.\<close>

theorem raft_supervisor_follows:
  assumes "for_each (raft_replica_step conf api sapi) is (raft_replica_with raw store policy num_peers max_inflight) = Inr (s, out)"
    and "list_all rr_ordinary is" "rc_cached_client c = Some client" "rc_current_leader c = 0"
  shows "\<exists>c' sent. for_each raft_receive_local (List.map_filter rr_supervisor_of out) c = Inr (c', sent) \<and>
    rc_current_leader c' = rr_current_leader s \<and>
    sent = map (\<lambda>(b, l). RcTellAbcast client (FirstLeader l)) (filter fst (leader_news out)) \<and>
    (\<not> reconfigured s \<longrightarrow> sent = (if leader_news out = [] then [] else [RcTellAbcast client (FirstLeader (snd (hd (leader_news out))))]))"
proof -
  have news: "news_only ([] @ out) s"
  proof (rule for_each_invariant [OF _ _ assms(1)])
    show "news_only [] (raft_replica_with raw store policy num_peers max_inflight)"
      by (simp add: news_only_def raft_replica_with_def map_filter_simps)
    show "news_only (h @ out) u" if "i \<in> set is" "news_only h t" "raft_replica_step conf api sapi i t = Inr (u, out)" for h i t u out
      using news_only_step [OF that(2) _ that(3)] that(1) assms(2) by (auto simp: list_all_iff)
  qed
  have "leader_inv ([] @ out) s"
  proof (rule for_each_invariant [OF _ _ assms(1)])
    show "leader_inv [] (raft_replica_with raw store policy num_peers max_inflight)"
      by (simp add: leader_inv_def raft_replica_with_def reconfigured_def)
  qed (rule leader_inv_step)
  then have inv: "rr_current_leader s = last (0 # map snd (leader_news out))"
    "\<not> reconfigured s \<Longrightarrow> leader_news out = [] \<or> (\<exists>l ls. leader_news out = (True, l) # ls \<and> filter fst ls = [])"
    by (auto simp: leader_inv_def split: if_splits)
  show ?thesis
    using supervisor_hears [OF assms(3), of "leader_news out"] news inv assms(4) by (auto simp: news_only_def)
qed

theorem raft_supervisor_follows_witness:
  "\<exists>s out c' sent. for_each (raft_replica_step example_conf (example_raft True) example_store)
      [RrStart, RrTickTimer, RrComm (CompRawRaftMsg 2), RrTickTimer] (example_replica []) = Inr (s, out) \<and>
    for_each raft_receive_local (List.map_filter rr_supervisor_of out)
      ((raft_comp_with [1, 2, 3] ReplaceLeader :: (nat, example_node, (u64 \<times> u64) list) RaftComp)\<lparr>rc_cached_client := Some 9\<rparr>) = Inr (c', sent) \<and>
    rc_current_leader c' = 2 \<and> sent = [RcTellAbcast 9 (FirstLeader 2)]"
proof -
  let ?is = "[RrStart, RrTickTimer, RrComm (CompRawRaftMsg 2), RrTickTimer] :: u64 rr_in list"
  let ?c = "(raft_comp_with [1, 2, 3] ReplaceLeader :: (nat, example_node, (u64 \<times> u64) list) RaftComp)\<lparr>rc_cached_client := Some 9\<rparr>"
  obtain s out where run: "for_each (raft_replica_step example_conf (example_raft True) example_store) ?is (example_replica []) = Inr (s, out)"
    and news: "leader_news out = [(True, 2)]" "rr_current_leader s = 2"
    by (simp add: example_defs Let_def leader_news_def rr_leader_of_def map_filter_simps)
  have "list_all rr_ordinary ?is" "rc_cached_client ?c = Some 9" "rc_current_leader ?c = 0"
    by (simp_all add: rr_ordinary_def raft_comp_with_def)
  from raft_supervisor_follows [OF run [unfolded example_replica_def] this] show ?thesis
    using run news by auto
qed

text \<open>a proposal reaches the leader's replica in at most one hop. A component that was initialised with the nodes of the
  configuration and has heard of the leader hands a proposal to its own replica if it is the leader, and otherwise
  forwards it, unchanged and with its original sender, to the leader's node.\<close>

theorem raft_proposal_to_leader:
  assumes "raft_receive_init env actor init s = Inr (s1, out)" "length (init_nodes init) < 2 ^ 32"
    and "leader \<noteq> 0" "unat leader \<le> length (init_nodes init)" "deserialise_abcast data = Inr (ProposalMsg p, rest)"
  shows "\<exists>s2. raft_receive_local (RaftLeader False leader) s1 = Inr (s2, []) \<and>
    raft_receive_network env (RaftNetAbcast sender data) s2 = Inr (s2,
      [if ucast (init_pid init) = leader then RcPropose p else RcForward (init_nodes init ! (unat leader - 1)) sender data])"
  using assms(1)
proof (rule raft_receive_init_cases)
  fix ser rest client paths store config raw
  assume s1: "s1 = s\<lparr>rc_current_leader := 0, rc_iteration_id := init_init_id init, rc_cached_client := Some client,
       rc_peers := raft_peers (ucast (init_pid init)) (init_nodes init), rc_pid := ucast (init_pid init),
       rc_partitioning_actor := None, rc_stopped := False,
       rc_raft_replica := Some (raft_replica_with raw store (rc_reconfig_policy s)
         (length (raft_peers (ucast (init_pid init) :: u64) (init_nodes init))) (unat (re_max_inflight env))),
       rc_communicator := Some (communicator_with (map_of paths) client)\<rparr>"
  show ?thesis
    using assms(3-5) raft_peers_get [OF assms(2)] by (auto simp: raft_receive_abcast_def s1 word_gt_0)
qed

theorem raft_proposal_to_leader_witness:
  "\<exists>s1 out s2. raft_receive_init raft_example_env 5 example_init (raft_comp_with [1, 2, 3] ReplaceLeader) = Inr (s1, out) \<and>
    raft_receive_local (RaftLeader False 3) s1 = Inr (s2, []) \<and>
    raft_receive_network raft_example_env (RaftNetAbcast 8 (serialise_abcast (ProposalMsg (proposal_normal [1])))) s2 =
      Inr (s2, [RcForward 13 8 (serialise_abcast (ProposalMsg (proposal_normal [1])))])"
proof -
  obtain s1 out where init: "raft_receive_init raft_example_env 5 example_init (raft_comp_with [1, 2, 3] ReplaceLeader) = Inr (s1, out)"
    using example_init_returns by (elim exE)
  have "deserialise_abcast (serialise_abcast (ProposalMsg (proposal_normal [1]))) = Inr (ProposalMsg (proposal_normal [1]), [])"
    using get_put_abcast [of "ProposalMsg (proposal_normal [1])" "[]"] by (simp add: proposal_normal_def short_def)
  from raft_proposal_to_leader [OF init _ _ _ this, of 3 8] show ?thesis
    using init by (auto simp: example_init_def)
qed

text \<open>The replica's messages reach the communicators of its peers. After \<open>Init\<close> the communicator of a node sends a message of
  the \<open>raft\<close> crate that is addressed to another node of the configuration to the communicator of that node in this
  iteration, and panics at an address outside the configuration.\<close>

theorem raft_messages_to_peers:
  assumes "raft_receive_init env actor init s = Inr (s', out)" "length (init_nodes init) < 2 ^ 32"
  shows "\<exists>comm. rc_communicator s' = Some comm \<and> communicator_handle get_to order (CommRawRaftMsg m) comm =
    (if get_to m \<noteq> ucast (init_pid init) \<and> get_to m \<noteq> 0 \<and> unat (get_to m) \<le> length (init_nodes init)
     then Inr [CommTellRaft (the (re_named env (init_nodes init ! (unat (get_to m) - 1))
       (RaftAlias ''communicator'' (get_to m) (init_init_id init)))) m]
     else Inl UnwrapNone)"
  using assms(1)
proof (rule raft_receive_init_cases)
  fix ser rest client paths store config raw
  assume paths: "communicator_paths env (init_init_id init) (raft_peers (ucast (init_pid init)) (init_nodes init)) = Inr paths"
    and s': "s' = s\<lparr>rc_current_leader := 0, rc_iteration_id := init_init_id init, rc_cached_client := Some client,
       rc_peers := raft_peers (ucast (init_pid init)) (init_nodes init), rc_pid := ucast (init_pid init),
       rc_partitioning_actor := None, rc_stopped := False,
       rc_raft_replica := Some (raft_replica_with raw store (rc_reconfig_policy s)
         (length (raft_peers (ucast (init_pid init) :: u64) (init_nodes init))) (unat (re_max_inflight env))),
       rc_communicator := Some (communicator_with (map_of paths) client)\<rparr>"
  have named: "re_named env ap (RaftAlias ''communicator'' k (init_init_id init)) \<noteq> None"
    if "map_of (raft_peers (ucast (init_pid init)) (init_nodes init)) k = Some ap" for k ap
    using communicator_paths_named [OF paths] map_of_SomeD [OF that] by auto
  show ?thesis
    using communicator_paths_get [OF paths, of "get_to m"] named [of "get_to m"] raft_peers_get [OF assms(2), of "ucast (init_pid init)" "get_to m"]
    by (auto simp: s' communicator_with_def split: if_splits)
qed

theorem raft_messages_to_peers_witness:
  "\<exists>s out comm. raft_receive_init raft_example_env 5 example_init (raft_comp_with [1, 2, 3] ReplaceLeader) = Inr (s, out) \<and>
    rc_communicator s = Some comm \<and>
    communicator_handle (\<lambda>m. m) [] (CommRawRaftMsg 2) comm = Inr [CommTellRaft 112 2]"
proof -
  obtain s out where init: "raft_receive_init raft_example_env 5 example_init (raft_comp_with [1, 2, 3] ReplaceLeader) = Inr (s, out)"
    using example_init_returns by (elim exE)
  from raft_messages_to_peers [OF init, of "\<lambda>m. m" "[]" 2] show ?thesis
    using init by (auto simp: example_init_def raft_example_env_def)
qed

end
