(* ===== verification/Apsp_Actors.thy ===== *)
theory Apsp_Actors
  imports Graphs Reachability "HOL-Library.AList" "HOL-Library.Multiset"
begin

text \<open>
  The actors of the all-pairs shortest path benchmark (\<open>actor_apsp\<close> of \<open>bench/all_pairs_shortest_path.rs\<close>): a manager that breaks
  the graph into blocks and collects the results, and one actor per block that exchanges the results of a phase
  with the actors of its row and column. An actor reference is the id of its block; a B-tree map is an
  association list with distinct keys. The messages in flight are a multiset and may be delivered in any
  order.
\<close>

datatype 'w BlockMsg = Neighbours "nat list" | PhaseResult Phase "'w Block"

datatype 'w ManagerMsg = ComputeFW "'w matrix" nat | BlockResult "'w Block"

record 'w BlockActor =
  ba_num_nodes :: nat
  ba_ready :: bool
  ba_neighbours :: "nat list"
  ba_k :: Phase
  ba_neighbour_data :: "(nat \<times> 'w Block) list"
  ba_next_neighbour_data :: "(nat \<times> 'w Block) list"
  ba_current_data :: "'w Block"
  ba_done :: bool

record 'w ManagerActor =
  mg_block_size :: nat
  mg_block_workers :: "nat list"
  mg_latch :: "nat option"
  mg_assembly :: "'w Block list list option"
  mg_missing_blocks :: "nat option"

datatype 'w ap_out =
    TellBlock nat "'w BlockMsg"
  | TellSelf "'w BlockMsg"
  | TellManager "'w ManagerMsg"
  | CreateBlock "'w BlockActor"
  | Suicide
  | DecrementLatch "'w matrix"   \<comment> \<open>with the result that has been assembled\<close>

definition block_actor_with :: "'w Block \<Rightarrow> nat \<Rightarrow> 'w BlockActor" where
  "block_actor_with initial_block num_nodes = \<lparr>ba_num_nodes = num_nodes, ba_ready = False, ba_neighbours = [],
     ba_k = InitialPhase, ba_neighbour_data = [], ba_next_neighbour_data = [], ba_current_data = initial_block,
     ba_done = False\<rparr>"

definition notify_neighbours :: "'w BlockActor \<Rightarrow> ('w BlockActor, 'w ap_out) handled" where
  "notify_neighbours a = rbind (rassert (ba_ready a)) (\<lambda>_.
     Inr (a, map (\<lambda>neighbour. TellBlock neighbour (PhaseResult (ba_k a) (ba_current_data a))) (ba_neighbours a)))"

text \<open>The blocks that phase \<open>k\<close> looks up while it computes a block: those of its row and column that hold node \<open>k\<close>.\<close>

definition needed_blocks :: "nat \<Rightarrow> 'w Block \<Rightarrow> nat list" where
  "needed_blocks k b = filter (\<lambda>block_id. block_id \<noteq> blk_id b)
     (map (\<lambda>i. (blk_row_offset b + i) div blk_size b * blk_num_per_dim b + k div blk_size b) [0..<length (blk_graph b)] @
      map (\<lambda>j. k div blk_size b * blk_num_per_dim b + (blk_col_offset b + j) div blk_size b) [0..<length (blk_graph b)])"

definition perform_computation :: "'w::{ordered_comm_monoid_add,linorder} BlockActor \<Rightarrow> 'w BlockActor rust" where
  "perform_computation a =
    (let neighbour_data = ba_neighbour_data a
     in rbind (phase_k (ba_k a)) (\<lambda>k.
        if \<forall>block_id\<in>set (needed_blocks k (ba_current_data a)). map_of neighbour_data block_id \<noteq> None
        then Inr (a\<lparr>ba_neighbour_data := [],
          ba_current_data := compute_floyd_warshall_inner (\<lambda>block_id. the (map_of neighbour_data block_id)) k (ba_current_data a)\<rparr>)
        else Inl UnwrapNone))"

text \<open>The loop that runs while all neighbours have delivered. It returns with the outputs so far, or runs forever.\<close>

partial_function (option) phase_loop ::
  "'w::{ordered_comm_monoid_add,linorder} BlockActor \<Rightarrow> 'w ap_out list \<Rightarrow> ('w BlockActor, 'w ap_out) handled option" where
  "phase_loop a out =
    (if length (ba_neighbour_data a) = length (ba_neighbours a) then
       (case perform_computation (a\<lparr>ba_k := incremented (ba_k a)\<rparr>) of
          Inl e \<Rightarrow> Some (Inl e)
        | Inr a \<Rightarrow>
          (case notify_neighbours a of
             Inl e \<Rightarrow> Some (Inl e)
           | Inr (a, notified) \<Rightarrow>
             let a = a\<lparr>ba_neighbour_data := ba_next_neighbour_data a, ba_next_neighbour_data := ba_neighbour_data a\<rparr>
             in if phase_eq (ba_k a) (ba_num_nodes a - 1)
                then Some (Inr (a\<lparr>ba_done := True\<rparr>,
                  out @ notified @ [TellManager (BlockResult (ba_current_data a)), Suicide]))
                else phase_loop a (out @ notified)))
     else Some (Inr (a, out)))"

declare phase_loop.simps [code]

fun block_receive ::
  "'w::{ordered_comm_monoid_add,linorder} BlockMsg \<Rightarrow> 'w BlockActor \<Rightarrow> ('w BlockActor, 'w ap_out) handled option" where
  "block_receive (Neighbours nodes) a = Some (notify_neighbours (a\<lparr>ba_neighbours := nodes, ba_ready := True\<rparr>))"
| "block_receive (PhaseResult other_k data) a =
    (if \<not> ba_ready a then Some (Inr (a, [TellSelf (PhaseResult other_k data)]))
     else if ba_done a then Some (Inr (a, []))
     else if other_k = ba_k a
     then phase_loop (a\<lparr>ba_neighbour_data := AList.update (blk_id data) data (ba_neighbour_data a)\<rparr>) []
     else if other_k = incremented (ba_k a)
     then Some (Inr (a\<lparr>ba_next_neighbour_data := AList.update (blk_id data) data (ba_next_neighbour_data a)\<rparr>, []))
     else Some (Inl PanicCall))"

definition manager_with :: "nat \<Rightarrow> 'w ManagerActor" where
  "manager_with block_size = \<lparr>mg_block_size = block_size, mg_block_workers = [], mg_latch = None, mg_assembly = None,
     mg_missing_blocks = None\<rparr>"

definition block_neighbours :: "'w Block list list \<Rightarrow> nat \<Rightarrow> nat \<Rightarrow> nat list" where
  "block_neighbours blocks bi bj =
     map (\<lambda>r. blk_id (blocks ! r ! bj)) (filter (\<lambda>r. r \<noteq> bi) [0..<length blocks]) @
     map (\<lambda>c. blk_id (blocks ! bi ! c)) (filter (\<lambda>c. c \<noteq> bj) [0..<length blocks])"

definition distribute_graph :: "'w matrix \<Rightarrow> 'w ManagerActor \<Rightarrow> ('w ManagerActor, 'w ap_out) handled" where
  "distribute_graph graph mg =
    rbind (break_into_blocks (mg_block_size mg) graph) (\<lambda>blocks.
    Inr (mg\<lparr>mg_block_workers := map blk_id (concat blocks), mg_missing_blocks := Some (length (concat blocks)),
            mg_assembly := Some blocks\<rparr>,
      map (\<lambda>block. CreateBlock (block_actor_with block (length graph))) (concat blocks) @
      map (\<lambda>(bi, bj). TellBlock (blk_id (blocks ! bi ! bj)) (Neighbours (block_neighbours blocks bi bj)))
        (List.product [0..<length blocks] [0..<length blocks])))"

fun manager_receive :: "'w ManagerMsg \<Rightarrow> 'w ManagerActor \<Rightarrow> ('w ManagerActor, 'w ap_out) handled" where
  "manager_receive (ComputeFW graph latch) mg =
    step_then (distribute_graph graph mg) (\<lambda>mg. Inr (mg\<lparr>mg_latch := Some latch\<rparr>, []))"
| "manager_receive (BlockResult block) mg =
    (case mg_missing_blocks mg of
       None \<Rightarrow> Inl PanicCall
     | Some missing_blocks \<Rightarrow>
       (case mg_assembly mg of
          None \<Rightarrow> Inl PanicCall
        | Some blocks \<Rightarrow>
          let (i, j) = block_position block
          in rbind (rget blocks i) (\<lambda>row.
             if j \<ge> length row then Inl IndexOutOfRange
             else if missing_blocks = 0 then Inl Overflow
             else
               let blocks = blocks[i := row[j := block]]; missing_blocks = missing_blocks - 1
               in if missing_blocks = 0
                  then rbind (assemble_from_blocks blocks) (\<lambda>result.
                       rbind (runwrap (mg_latch mg)) (\<lambda>latch.
                       if latch = 0 then Inl UnwrapNone
                       else Inr (mg\<lparr>mg_assembly := None, mg_latch := None, mg_block_workers := [],
                              mg_missing_blocks := None\<rparr>, [DecrementLatch result])))
                  else Inr (mg\<lparr>mg_assembly := Some blocks, mg_missing_blocks := Some missing_blocks\<rparr>, []))))"

subsection \<open>The actors together\<close>

datatype 'w parcel = ToBlock nat "'w BlockMsg" | ToManager "'w ManagerMsg"

record 'w apsp_sys =
  sy_manager :: "'w ManagerActor"
  sy_blocks :: "nat \<Rightarrow> 'w BlockActor option"
  sy_net :: "'w parcel multiset"

text \<open>What the outputs of an actor put in flight and which actors they create; \<open>i\<close> is the sender, where it is a block actor.\<close>

fun parcels :: "nat \<Rightarrow> 'w ap_out \<Rightarrow> 'w parcel list" where
  "parcels i (TellBlock n msg) = [ToBlock n msg]"
| "parcels i (TellSelf msg) = [ToBlock i msg]"
| "parcels i (TellManager msg) = [ToManager msg]"
| "parcels i _ = []"

fun created :: "'w ap_out \<Rightarrow> (nat \<times> 'w BlockActor) list" where
  "created (CreateBlock a) = [(blk_id (ba_current_data a), a)]"
| "created _ = []"

fun results :: "'w ap_out \<Rightarrow> 'w matrix list" where
  "results (DecrementLatch g) = [g]"
| "results _ = []"

definition sy_emit :: "nat \<Rightarrow> 'w ap_out list \<Rightarrow> 'w apsp_sys \<Rightarrow> ('w apsp_sys, 'w matrix) handled" where
  "sy_emit i out s = Inr (s\<lparr>sy_net := sy_net s + mset (concat (map (parcels i) out)),
     sy_blocks := sy_blocks s ++ map_of (concat (map created out))\<rparr>, concat (map results out))"

fun sy_deliver ::
  "'w::{ordered_comm_monoid_add,linorder} parcel \<Rightarrow> 'w apsp_sys \<Rightarrow> ('w apsp_sys, 'w matrix) handled" where
  "sy_deliver (ToManager msg) s =
    rbind (manager_receive msg (sy_manager s)) (\<lambda>(mg, out).
      sy_emit 0 out (s\<lparr>sy_manager := mg, sy_net := sy_net s - {#ToManager msg#}\<rparr>))"
| "sy_deliver (ToBlock i msg) s =
    (let s' = s\<lparr>sy_net := sy_net s - {#ToBlock i msg#}\<rparr>
     in case sy_blocks s i of
          None \<Rightarrow> Inr (s', [])
        | Some a \<Rightarrow>
          (case block_receive msg a of
             None \<Rightarrow> Inl NoReturn
           | Some (Inl e) \<Rightarrow> Inl e
           | Some (Inr (a', out)) \<Rightarrow> sy_emit i out (s'\<lparr>sy_blocks := (sy_blocks s)(i \<mapsto> a')\<rparr>)))"

definition sy_allowed :: "'w parcel \<Rightarrow> 'w apsp_sys \<Rightarrow> bool" where
  "sy_allowed p s \<longleftrightarrow> p \<in># sy_net s"

definition sy_start :: "nat \<Rightarrow> 'w matrix \<Rightarrow> 'w apsp_sys" where
  "sy_start block_size graph = \<lparr>sy_manager = manager_with block_size, sy_blocks = Map.empty,
     sy_net = {#ToManager (ComputeFW graph 1)#}\<rparr>"

end
