(* ===== verification/Apsp_Run.thy ===== *)
theory Apsp_Run
  imports Apsp_Actors
begin

text \<open>
  Correctness of the asynchronous shortest-path computation: whatever the order in which the messages of the actors
  arrive, no actor gets a phase it cannot place, every block is computed from its neighbours' results of the same phase, and
  when no message is left the manager has counted down its latch exactly once, with the matrix of the monolithic
  algorithm.
\<close>

subsection \<open>Levels\<close>

text \<open>The level of an actor is the number of phases it has computed.\<close>

fun level :: "Phase \<Rightarrow> nat" where
  "level InitialPhase = 0"
| "level (NormalPhase k) = Suc k"

fun phase_of :: "nat \<Rightarrow> Phase" where
  "phase_of 0 = InitialPhase"
| "phase_of (Suc k) = NormalPhase k"

lemma phase_of_level [simp]: "phase_of (level p) = p" "level (phase_of l) = l"
  by (cases p; simp) (cases l; simp)

lemma level_inject: "level p = level q \<longleftrightarrow> p = q"
  by (metis phase_of_level(1))

lemma level_incremented [simp]: "level (incremented p) = Suc (level p)" "incremented (phase_of l) = phase_of (Suc l)"
  by (cases p; simp) (cases l; simp)

lemma phase_eq_level: "0 < n \<Longrightarrow> phase_eq p (n - 1) \<longleftrightarrow> level p = n"
  by (cases p) auto

lemma phase_k_incremented [simp]: "phase_k (incremented p) = Inr (level p)"
  by (cases p) auto

subsection \<open>The layout of a run\<close>

record 'w layout =
  ly_m :: nat   \<comment> \<open>blocks per dimension\<close>
  ly_s :: nat   \<comment> \<open>nodes per block\<close>
  ly_g :: "'w matrix"

definition layout_ok :: "'w::{ordered_comm_monoid_add,linorder} layout \<Rightarrow> bool" where
  "layout_ok L \<longleftrightarrow> 0 < ly_m L \<and> 0 < ly_s L \<and> nonneg (ly_m L * ly_s L) (ly_g L)"

abbreviation ly_n :: "'w layout \<Rightarrow> nat" where
  "ly_n L \<equiv> ly_m L * ly_s L"

abbreviation ly_ids :: "'w layout \<Rightarrow> nat" where
  "ly_ids L \<equiv> ly_m L * ly_m L"

text \<open>Block \<open>i\<close> after \<open>l\<close> phases, and the blocks of its row and column.\<close>

definition blk :: "'w::{ordered_comm_monoid_add,linorder} layout \<Rightarrow> nat \<Rightarrow> nat \<Rightarrow> 'w Block" where
  "blk L l i = block_of (ly_m L) (ly_s L) (graph_get (fold fw_phase [0..<l] (ly_g L))) (i div ly_m L) (i mod ly_m L)"

definition nbrs :: "'w layout \<Rightarrow> nat \<Rightarrow> nat list" where
  "nbrs L i = map (\<lambda>r. r * ly_m L + i mod ly_m L) (filter (\<lambda>r. r \<noteq> i div ly_m L) [0..<ly_m L]) @
     map (\<lambda>c. i div ly_m L * ly_m L + c) (filter (\<lambda>c. c \<noteq> i mod ly_m L) [0..<ly_m L])"

lemma blk_id [simp]: "blk_id (blk L l i) = i"
  by (simp add: blk_def)

lemma id_split:
  assumes "i < (m :: nat) * m"
  shows "i div m < m" "i mod m < m"
  using assms by (auto simp: less_mult_imp_div_less intro!: mod_less_divisor gr0I)

lemma nbrs_iff:
  assumes "i < ly_ids L"
  shows "j \<in> set (nbrs L i) \<longleftrightarrow> j < ly_ids L \<and> j \<noteq> i \<and> (j div ly_m L = i div ly_m L \<or> j mod ly_m L = i mod ly_m L)"
proof -
  let ?m = "ly_m L"
  have lt: "r * ?m + c < ?m * ?m" if "r < ?m" "c < ?m" for r c
    using mult_le_mono1 [of "Suc r" ?m ?m] that by simp
  show ?thesis
  proof
    assume "j \<in> set (nbrs L i)"
    then obtain r c where "r < ?m" "c < ?m" "j = r * ?m + c" "(r, c) \<noteq> (i div ?m, i mod ?m)" "r = i div ?m \<or> c = i mod ?m"
      using id_split [OF assms] by (fastforce simp: nbrs_def)
    then show "j < ly_ids L \<and> j \<noteq> i \<and> (j div ?m = i div ?m \<or> j mod ?m = i mod ?m)"
      using lt by auto
  next
    assume j: "j < ly_ids L \<and> j \<noteq> i \<and> (j div ?m = i div ?m \<or> j mod ?m = i mod ?m)"
    have jm: "j div ?m < ?m" "j mod ?m < ?m"
      using id_split [of j ?m] j by simp_all
    show "j \<in> set (nbrs L i)"
    proof (cases "j div ?m = i div ?m")
      case True
      then have "j mod ?m \<noteq> i mod ?m"
        using j by (metis div_mult_mod_eq)
      then have "j div ?m * ?m + j mod ?m \<in> set (nbrs L i)"
        using True jm by (simp add: nbrs_def)
      then show ?thesis
        by simp
    next
      case False
      then have "j div ?m * ?m + j mod ?m \<in> set (nbrs L i)"
        using j jm by (simp add: nbrs_def)
      then show ?thesis
        by simp
    qed
  qed
qed

lemma nbrs_sym: "i < ly_ids L \<Longrightarrow> j \<in> set (nbrs L i) \<Longrightarrow> i \<in> set (nbrs L j)"
  using nbrs_iff by metis

lemma distinct_nbrs:
  assumes "i < ly_ids L"
  shows "distinct (nbrs L i)"
proof -
  let ?m = "ly_m L"
  have "0 < ?m"
    using assms by (cases ?m) auto
  then have "inj (\<lambda>r. r * ?m + i mod ?m)" "inj ((+) (i div ?m * ?m))"
    by (simp_all add: inj_on_def)
  moreover have "r * ?m + i mod ?m \<noteq> i div ?m * ?m + c" if "r \<noteq> i div ?m" "c < ?m" for r c
    using block_id_eq [of "i mod ?m" ?m c r "i div ?m"] that id_split [OF assms] by simp
  ultimately show ?thesis
    by (auto simp: nbrs_def distinct_map inj_on_def)
qed

lemma nbrs_nonempty:
  assumes "2 \<le> ly_m L" "i < ly_ids L"
  shows "nbrs L i \<noteq> []"
proof -
  let ?r = "if i div ly_m L = 0 then 1 else 0"
  have "?r \<in> set (filter (\<lambda>r. r \<noteq> i div ly_m L) [0..<ly_m L])"
    using assms by auto
  then show ?thesis
    unfolding nbrs_def by (metis Nil_is_append_conv Nil_is_map_conv list.set(1) empty_iff)
qed

subsection \<open>Computing a block from its neighbours\<close>

definition same_frame :: "'w Block \<Rightarrow> 'w Block \<Rightarrow> bool" where
  "same_frame b b' \<longleftrightarrow> blk_id b' = blk_id b \<and> blk_num_per_dim b' = blk_num_per_dim b \<and> blk_row_offset b' = blk_row_offset b \<and>
     blk_col_offset b' = blk_col_offset b \<and> blk_size b' = blk_size b"

lemma inner_relax_frame: "same_frame b (inner_relax nb k p b)"
  by (cases p) (simp add: same_frame_def inner_relax_def Let_def)

lemma inner_relax_cong:
  assumes "\<forall>i\<in>set (needed_blocks k b). nb i = nb' i" "same_frame b b'" "i < length (blk_graph b)" "j < length (blk_graph b)"
  shows "inner_relax nb k (i, j) b' = inner_relax nb' k (i, j) b'"
proof -
  let ?r = "(blk_row_offset b + i) div blk_size b * blk_num_per_dim b + k div blk_size b"
  let ?c = "k div blk_size b * blk_num_per_dim b + (blk_col_offset b + j) div blk_size b"
  have "?r \<noteq> blk_id b \<longrightarrow> ?r \<in> set (needed_blocks k b)" "?c \<noteq> blk_id b \<longrightarrow> ?c \<in> set (needed_blocks k b)"
    using assms(3,4) by (auto simp: needed_blocks_def)
  then have "?r \<noteq> blk_id b \<longrightarrow> nb ?r = nb' ?r" "?c \<noteq> blk_id b \<longrightarrow> nb ?c = nb' ?c"
    using assms(1) by blast+
  then have "element_at nb (blk_row_offset b' + i) k b' = element_at nb' (blk_row_offset b' + i) k b'"
    "element_at nb k (blk_col_offset b' + j) b' = element_at nb' k (blk_col_offset b' + j) b'"
    using assms(2) by (simp_all add: element_at_def Let_def same_frame_def)
  then show ?thesis
    by (simp add: inner_relax_def)
qed

lemma same_frame_trans: "same_frame a b \<Longrightarrow> same_frame b c \<Longrightarrow> same_frame a c"
  by (simp add: same_frame_def)

lemma compute_inner_cong:
  assumes "\<forall>i\<in>set (needed_blocks k b). nb i = nb' i"
  shows "compute_floyd_warshall_inner nb k b = compute_floyd_warshall_inner nb' k b"
proof -
  have "fold (inner_relax nb k) ps b' = fold (inner_relax nb' k) ps b'"
    if "set ps \<subseteq> {..<length (blk_graph b)} \<times> {..<length (blk_graph b)}" "same_frame b b'" for ps b'
    using that
  proof (induction ps arbitrary: b')
    case (Cons p ps)
    have "inner_relax nb k p b' = inner_relax nb' k p b'"
      using inner_relax_cong [OF assms Cons.prems(2)] Cons.prems(1) by (cases p) auto
    moreover have "same_frame b (inner_relax nb' k p b')"
      using same_frame_trans [OF Cons.prems(2) inner_relax_frame] .
    ultimately show ?case
      using Cons by simp
  qed simp
  moreover have "same_frame b b"
    by (simp add: same_frame_def)
  ultimately show ?thesis
    unfolding compute_floyd_warshall_inner_def by (metis atLeast0LessThan atLeast_upt order_refl set_product set_upt)
qed

lemma needed_are_nbrs:
  assumes i: "i < ly_ids L" and k: "k < ly_n L" and s: "0 < ly_s L"
  shows "set (needed_blocks k (blk L l i)) \<subseteq> set (nbrs L i)"
proof
  fix j
  assume j: "j \<in> set (needed_blocks k (blk L l i))"
  let ?m = "ly_m L" and ?s = "ly_s L"
  have c: "k div ?s < ?m"
    using block_index [OF k] .
  have "(i div ?m * ?s + a) div ?s = i div ?m" "(i mod ?m * ?s + a) div ?s = i mod ?m" if "a < ?s" for a
    using that s by simp_all
  then have "j \<noteq> i" "j = i div ?m * ?m + k div ?s \<or> j = k div ?s * ?m + i mod ?m"
    using j by (auto simp: needed_blocks_def blk_def)
  then show "j \<in> set (nbrs L i)"
    using c id_split [OF i] by (auto simp: nbrs_def)
qed

lemma blk_Suc:
  assumes L: "layout_ok L" and i: "i < ly_ids L" and l: "l < ly_n L"
    and nb: "\<forall>j\<in>set (nbrs L i). nb j = blk L l j"
  shows "compute_floyd_warshall_inner nb l (blk L l i) = blk L (Suc l) i"
proof -
  let ?m = "ly_m L" and ?s = "ly_s L"
  define g where "g = fold fw_phase [0..<l] (ly_g L)"
  have nn: "nonneg (?m * ?s) g"
    unfolding g_def by (rule fw_run(1)) (use L l in \<open>simp_all add: layout_ok_def\<close>)
  note ij = id_split [OF i]
  have "lookup_block (grid ?m ?s (graph_get g)) j = blk L l j" if "j \<in> set (nbrs L i)" for j
    using nbrs_iff [OF i] that id_split [of j ?m] by (simp add: lookup_block_def blk_def g_def)
  then have "compute_floyd_warshall_inner nb l (blk L l i) = compute_floyd_warshall_inner (lookup_block (grid ?m ?s (graph_get g))) l (blk L l i)"
    using subsetD [OF needed_are_nbrs [OF i l, of l]] L nb by (intro compute_inner_cong ballI) (simp add: layout_ok_def)
  also have "\<dots> = block_of ?m ?s (relaxed (graph_get g) l) (i div ?m) (i mod ?m)"
    using inner_phase [of l ?m ?s "i div ?m" "i mod ?m" "graph_get g"] ij l nn by (simp add: blk_def g_def nonneg_def)
  also have "\<dots> = blk L (Suc l) i"
  proof -
    have "grid ?m ?s (relaxed (graph_get g) l) = grid ?m ?s (graph_get (fw_phase l g))"
      using nonneg_phase(2) [OF nn l] by (intro grid_cong) simp
    then have "grid ?m ?s (relaxed (graph_get g) l) ! (i div ?m) ! (i mod ?m) = grid ?m ?s (graph_get (fw_phase l g)) ! (i div ?m) ! (i mod ?m)"
      by simp
    then show ?thesis
      using ij by (simp add: blk_def g_def)
  qed
  finally show ?thesis .
qed


subsection \<open>The invariant\<close>

abbreviation lv :: "'w BlockActor \<Rightarrow> nat" where
  "lv a \<equiv> level (ba_k a)"

text \<open>The messages of a run.\<close>

definition result_msg :: "'w::{ordered_comm_monoid_add,linorder} layout \<Rightarrow> nat \<Rightarrow> nat \<Rightarrow> nat \<Rightarrow> 'w parcel" where
  "result_msg L i l j = ToBlock i (PhaseResult (phase_of l) (blk L l j))"

definition intro_msg :: "'w layout \<Rightarrow> nat \<Rightarrow> 'w parcel" where
  "intro_msg L i = ToBlock i (Neighbours (nbrs L i))"

definition final_msg :: "'w::{ordered_comm_monoid_add,linorder} layout \<Rightarrow> nat \<Rightarrow> 'w parcel" where
  "final_msg L i = ToManager (BlockResult (blk L (ly_n L) i))"

lemma msg_inject [simp]:
  "result_msg L i l j = result_msg L i' l' j' \<longleftrightarrow> i = i' \<and> l = l' \<and> j = j'"
  "intro_msg L i = intro_msg L i' \<longleftrightarrow> i = i'" "final_msg L i = final_msg L i' \<longleftrightarrow> i = i'"
  "result_msg L i l j \<noteq> intro_msg L' i'" "intro_msg L' i' \<noteq> result_msg L i l j"
  "result_msg L i l j \<noteq> final_msg L i'" "final_msg L i' \<noteq> result_msg L i l j"
  "intro_msg L' i \<noteq> final_msg L i'" "final_msg L i' \<noteq> intro_msg L' i"
proof -
  show "result_msg L i l j = result_msg L i' l' j' \<longleftrightarrow> i = i' \<and> l = l' \<and> j = j'"
    unfolding result_msg_def by (metis BlockMsg.inject(2) blk_id parcel.inject(1) phase_of_level(2))
  show "final_msg L i = final_msg L i' \<longleftrightarrow> i = i'"
    unfolding final_msg_def by (metis ManagerMsg.inject(2) blk_id parcel.inject(2))
qed (auto simp: intro_msg_def result_msg_def final_msg_def)

text \<open>An actor has got its neighbour's result of level \<open>l\<close>.\<close>

definition known :: "nat \<Rightarrow> nat \<Rightarrow> 'w BlockActor \<Rightarrow> bool" where
  "known l j a \<longleftrightarrow> l < lv a \<or> l = lv a \<and> j \<in> fst ` set (ba_neighbour_data a) \<or>
     l = Suc (lv a) \<and> j \<in> fst ` set (ba_next_neighbour_data a)"

text \<open>The data an actor keeps for the results of a level.\<close>

definition data_ok :: "'w::{ordered_comm_monoid_add,linorder} layout \<Rightarrow> nat \<Rightarrow> nat \<Rightarrow> (nat \<times> 'w Block) list \<Rightarrow> bool" where
  "data_ok L i l nd \<longleftrightarrow> distinct (map fst nd) \<and> (\<forall>(j, b)\<in>set nd. j \<in> set (nbrs L i) \<and> b = blk L l j)"

definition actor_ok :: "'w::{ordered_comm_monoid_add,linorder} layout \<Rightarrow> nat \<Rightarrow> 'w BlockActor \<Rightarrow> bool" where
  "actor_ok L i a \<longleftrightarrow> ba_num_nodes a = ly_n L \<and> ba_current_data a = blk L (lv a) i \<and> lv a \<le> ly_n L \<and>
     (ba_done a \<longleftrightarrow> lv a = ly_n L) \<and>
     data_ok L i (lv a) (ba_neighbour_data a) \<and> data_ok L i (Suc (lv a)) (ba_next_neighbour_data a) \<and>
     (if ba_ready a then ba_neighbours a = nbrs L i
      else lv a = 0 \<and> ba_neighbour_data a = [] \<and> ba_next_neighbour_data a = [])"

text \<open>What has been sent is in flight exactly once, until it is known.\<close>

definition sent :: "nat \<Rightarrow> 'w BlockActor \<Rightarrow> bool" where
  "sent l a \<longleftrightarrow> ba_ready a \<and> l \<le> lv a"

definition parcel_ok :: "'w::{ordered_comm_monoid_add,linorder} layout \<Rightarrow> 'w parcel \<Rightarrow> bool" where
  "parcel_ok L p \<longleftrightarrow> (\<exists>i<ly_ids L. p = intro_msg L i \<or> p = final_msg L i \<or> (\<exists>j\<in>set (nbrs L i). \<exists>l. p = result_msg L i l j))"

definition blocks_inv ::
  "'w::{ordered_comm_monoid_add,linorder} layout \<Rightarrow> (nat \<Rightarrow> 'w BlockActor) \<Rightarrow> 'w parcel multiset \<Rightarrow> nat set \<Rightarrow> bool" where
  "blocks_inv L A net C \<longleftrightarrow>
     (\<forall>i<ly_ids L. actor_ok L i (A i)) \<and>
     (\<forall>i<ly_ids L. \<forall>j\<in>set (nbrs L i). \<forall>l. known l j (A i) \<longrightarrow> sent l (A j)) \<and>
     (\<forall>i<ly_ids L. \<forall>j\<in>set (nbrs L i). \<forall>l. \<not> ba_done (A i) \<longrightarrow>
        count net (result_msg L i l j) = (if sent l (A j) \<and> \<not> known l j (A i) then 1 else 0)) \<and>
     (\<forall>i<ly_ids L. count net (intro_msg L i) = (if ba_ready (A i) then 0 else 1)) \<and>
     (\<forall>i<ly_ids L. count net (final_msg L i) = (if ba_done (A i) \<and> i \<notin> C then 1 else 0)) \<and>
     (\<forall>i\<in>C. i < ly_ids L \<and> ba_done (A i)) \<and>
     (\<forall>p\<in>#net. parcel_ok L p)"

definition settled :: "'w layout \<Rightarrow> (nat \<Rightarrow> 'w BlockActor) \<Rightarrow> bool" where
  "settled L A \<longleftrightarrow> (\<forall>i<ly_ids L. \<not> ba_done (A i) \<longrightarrow> length (ba_neighbour_data (A i)) < length (nbrs L i))"

lemma blocks_invD:
  assumes "blocks_inv L A net C"
  shows "i < ly_ids L \<Longrightarrow> actor_ok L i (A i)"
    "i < ly_ids L \<Longrightarrow> j \<in> set (nbrs L i) \<Longrightarrow> known l j (A i) \<Longrightarrow> sent l (A j)"
    "i < ly_ids L \<Longrightarrow> j \<in> set (nbrs L i) \<Longrightarrow> \<not> ba_done (A i) \<Longrightarrow>
      count net (result_msg L i l j) = (if sent l (A j) \<and> \<not> known l j (A i) then 1 else 0)"
    "i < ly_ids L \<Longrightarrow> count net (intro_msg L i) = (if ba_ready (A i) then 0 else 1)"
    "i < ly_ids L \<Longrightarrow> count net (final_msg L i) = (if ba_done (A i) \<and> i \<notin> C then 1 else 0)"
    "i \<in> C \<Longrightarrow> i < ly_ids L \<and> ba_done (A i)" "p \<in># net \<Longrightarrow> parcel_ok L p"
  using assms unfolding blocks_inv_def by blast+

lemma actor_okD:
  assumes "actor_ok L i a"
  shows "ba_num_nodes a = ly_n L" "ba_current_data a = blk L (lv a) i" "lv a \<le> ly_n L" "ba_done a \<longleftrightarrow> lv a = ly_n L"
    "data_ok L i (lv a) (ba_neighbour_data a)" "data_ok L i (Suc (lv a)) (ba_next_neighbour_data a)"
    "ba_ready a \<Longrightarrow> ba_neighbours a = nbrs L i"
    "\<not> ba_ready a \<Longrightarrow> lv a = 0 \<and> ba_neighbour_data a = [] \<and> ba_next_neighbour_data a = []"
  using assms unfolding actor_ok_def by auto

lemma actor_ok_replace:
  "(\<And>i. i < n \<Longrightarrow> P i (A i)) \<Longrightarrow> P k a \<Longrightarrow> i < n \<Longrightarrow> P i ((A(k := a)) i)"
  by simp

text \<open>Replacing one actor: what has to be shown of the others is only the traffic with it.\<close>

lemma blocks_inv_update:
  assumes inv: "blocks_inv L A net C" and k: "k < ly_ids L"
    and ok: "actor_ok L k a'"
    and k_in_C: "k \<in> C' \<longrightarrow> ba_done a'"
    and C: "C' - {k} = C - {k}"
    and sent': "\<And>l. sent l (A k) \<Longrightarrow> sent l a'"
    and to_k: "\<And>j l. j \<in> set (nbrs L k) \<Longrightarrow> known l j a' \<Longrightarrow> sent l (A j)"
      "\<And>j l. j \<in> set (nbrs L k) \<Longrightarrow> \<not> ba_done a' \<Longrightarrow>
        count net' (result_msg L k l j) = (if sent l (A j) \<and> \<not> known l j a' then 1 else 0)"
    and from_k: "\<And>i l. k \<in> set (nbrs L i) \<Longrightarrow> i < ly_ids L \<Longrightarrow> \<not> ba_done (A i) \<Longrightarrow>
        count net' (result_msg L i l k) = (if sent l a' \<and> \<not> known l k (A i) then 1 else 0)"
    and others: "\<And>i j l. i \<noteq> k \<Longrightarrow> j \<noteq> k \<Longrightarrow> count net' (result_msg L i l j) = count net (result_msg L i l j)"
      "\<And>i. i \<noteq> k \<Longrightarrow> count net' (intro_msg L i) = count net (intro_msg L i)"
      "\<And>i. i \<noteq> k \<Longrightarrow> count net' (final_msg L i) = count net (final_msg L i)"
    and own: "count net' (intro_msg L k) = (if ba_ready a' then 0 else 1)"
      "count net' (final_msg L k) = (if ba_done a' \<and> k \<notin> C' then 1 else 0)"
    and parcels: "\<And>p. p \<in># net' \<Longrightarrow> p \<notin># net \<Longrightarrow> parcel_ok L p"
  shows "blocks_inv L (A(k := a')) net' C'"
proof -
  note d = blocks_invD [OF inv]
  have nk: "j \<noteq> i" if "j \<in> set (nbrs L i)" "i < ly_ids L" for i j
    using nbrs_iff that by blast
  have "sent l ((A(k := a')) j)" if "i < ly_ids L" "j \<in> set (nbrs L i)" "known l j ((A(k := a')) i)" for i j l
    using that to_k(1) [of j l] d(2) [of i j l] sent' [of l] nk by (cases "i = k"; cases "j = k") auto
  moreover have "count net' (result_msg L i l j) = (if sent l ((A(k := a')) j) \<and> \<not> known l j ((A(k := a')) i) then 1 else 0)"
    if "i < ly_ids L" "j \<in> set (nbrs L i)" "\<not> ba_done ((A(k := a')) i)" for i j l
    using that to_k(2) [of j l] from_k [of i l] d(3) [of i j l] others(1) [of i j l] nk by (cases "i = k"; cases "j = k") auto
  moreover have "count net' (intro_msg L i) = (if ba_ready ((A(k := a')) i) then 0 else 1)" if "i < ly_ids L" for i
    using that own(1) others(2) [of i] d(4) [of i] by simp
  moreover have "count net' (final_msg L i) = (if ba_done ((A(k := a')) i) \<and> i \<notin> C' then 1 else 0)" if "i < ly_ids L" for i
    using that own(2) others(3) [of i] d(5) [of i] C by auto
  moreover have "i < ly_ids L \<and> ba_done ((A(k := a')) i)" if "i \<in> C'" for i
    using that k k_in_C d(6) [of i] C by (cases "i = k") auto
  moreover have "parcel_ok L p" if "p \<in># net'" for p
    using d(7) parcels that by blast
  ultimately show ?thesis
    using d(1) ok unfolding blocks_inv_def by auto
qed


subsection \<open>A phase of an actor\<close>

definition advanced :: "'w::{ordered_comm_monoid_add,linorder} layout \<Rightarrow> nat \<Rightarrow> 'w BlockActor \<Rightarrow> 'w BlockActor" where
  "advanced L k a = a\<lparr>ba_k := incremented (ba_k a), ba_current_data := blk L (Suc (lv a)) k,
     ba_neighbour_data := ba_next_neighbour_data a, ba_next_neighbour_data := [], ba_done := Suc (lv a) = ly_n L\<rparr>"

definition notices :: "'w::{ordered_comm_monoid_add,linorder} layout \<Rightarrow> nat \<Rightarrow> nat \<Rightarrow> 'w ap_out list" where
  "notices L k l = map (\<lambda>i. TellBlock i (PhaseResult (phase_of l) (blk L l k))) (nbrs L k)"

lemma parcels_notices: "concat (map (parcels k) (notices L k l)) = map (\<lambda>i. result_msg L i l k) (nbrs L k)"
  by (simp add: notices_def result_msg_def comp_def concat_map_singleton)

lemma full_data:
  assumes "data_ok L k l nd" "length nd = length (nbrs L k)" "k < ly_ids L"
  shows "fst ` set nd = set (nbrs L k)" "j \<in> set (nbrs L k) \<Longrightarrow> map_of nd j = Some (blk L l j)"
proof -
  have d: "distinct (map fst nd)" and sub: "\<forall>(j, b)\<in>set nd. j \<in> set (nbrs L k) \<and> b = blk L l j"
    using assms(1) by (simp_all add: data_ok_def)
  have "card (fst ` set nd) = card (set (nbrs L k))"
    using d assms(2) distinct_card [OF distinct_nbrs [OF assms(3)]] distinct_card [OF d] by simp
  moreover have "fst ` set nd \<subseteq> set (nbrs L k)"
    using sub by auto
  ultimately show keys: "fst ` set nd = set (nbrs L k)"
    by (simp add: card_subset_eq)
  show "map_of nd j = Some (blk L l j)" if "j \<in> set (nbrs L k)"
  proof -
    have "(j, blk L l j) \<in> set nd"
      using that sub unfolding keys [symmetric] by auto
    then show ?thesis
      using d by simp
  qed
qed

lemma phase_loop_full:
  assumes L: "layout_ok L" and k: "k < ly_ids L" and ok: "actor_ok L k a" and ready: "ba_ready a" "\<not> ba_done a"
    and full: "length (ba_neighbour_data a) = length (nbrs L k)"
  shows "phase_loop a out =
    (if Suc (lv a) = ly_n L
     then Some (Inr (advanced L k a, out @ notices L k (Suc (lv a)) @ [TellManager (BlockResult (blk L (ly_n L) k)), Suicide]))
     else phase_loop (advanced L k a) (out @ notices L k (Suc (lv a))))"
proof -
  note d = actor_okD [OF ok]
  have lt: "lv a < ly_n L"
    using d(3,4) ready(2) by simp
  have look: "map_of (ba_neighbour_data a) j = Some (blk L (lv a) j)" if "j \<in> set (nbrs L k)" for j
    using full_data(2) [OF d(5) full k that] .
  have need: "set (needed_blocks (lv a) (ba_current_data a)) \<subseteq> set (nbrs L k)"
    using needed_are_nbrs [OF k lt] L d(2) by (simp add: layout_ok_def)
  have "compute_floyd_warshall_inner (\<lambda>j. the (map_of (ba_neighbour_data a) j)) (lv a) (ba_current_data a) = blk L (Suc (lv a)) k"
    unfolding d(2) by (rule blk_Suc [OF L k lt]) (simp add: look)
  moreover have "\<forall>j\<in>set (needed_blocks (lv a) (ba_current_data a)). map_of (ba_neighbour_data a) j \<noteq> None"
    using need look by blast
  ultimately have perform: "perform_computation (a\<lparr>ba_k := incremented (ba_k a)\<rparr>) =
      Inr (a\<lparr>ba_k := incremented (ba_k a), ba_neighbour_data := [], ba_current_data := blk L (Suc (lv a)) k\<rparr>)"
    by (simp add: perform_computation_def)
  let ?b = "a\<lparr>ba_k := incremented (ba_k a), ba_current_data := blk L (Suc (lv a)) k,
    ba_neighbour_data := ba_next_neighbour_data a, ba_next_neighbour_data := []\<rparr>"
  have "phase_of (Suc (lv a)) = incremented (ba_k a)"
    by (metis level_incremented(1) phase_of_level(1))
  then have notices: "notices L k (Suc (lv a)) =
      map (\<lambda>i. TellBlock i (PhaseResult (incremented (ba_k a)) (blk L (Suc (lv a)) k))) (nbrs L k)"
    by (simp only: notices_def)
  have "0 < ly_n L"
    using L by (simp add: layout_ok_def)
  then have last: "phase_eq (incremented (ba_k a)) (ly_n L - 1) \<longleftrightarrow> Suc (lv a) = ly_n L"
    using phase_eq_level [of "ly_n L" "incremented (ba_k a)"] by simp
  have b: "?b\<lparr>ba_done := True\<rparr> = advanced L k a" if "Suc (lv a) = ly_n L"
    using that by (simp add: advanced_def)
  have b': "?b = advanced L k a" if "Suc (lv a) \<noteq> ly_n L"
    using that ready(2) by (cases a) (simp add: advanced_def)
  have "phase_loop a out = (if phase_eq (incremented (ba_k a)) (ly_n L - 1)
      then Some (Inr (?b\<lparr>ba_done := True\<rparr>, out @ notices L k (Suc (lv a)) @ [TellManager (BlockResult (blk L (Suc (lv a)) k)), Suicide]))
      else phase_loop ?b (out @ notices L k (Suc (lv a))))"
    unfolding notices using full d(1) d(7) [OF ready(1)] ready
    by (subst phase_loop.simps) (simp add: perform notify_neighbours_def rassert_def Let_def)
  then show ?thesis
    unfolding last by (metis b b')
qed

lemma known_advanced:
  assumes "fst ` set (ba_neighbour_data a) = set (nbrs L k)" "j \<in> set (nbrs L k)"
  shows "known l j (advanced L k a) \<longleftrightarrow> known l j a"
  using assms by (auto simp: known_def advanced_def less_Suc_eq)

lemma count_notices:
  assumes "k < ly_ids L"
  shows "count (mset (map (\<lambda>i. result_msg L i l k) (nbrs L k))) (result_msg L i' l' j)
      = (if i' \<in> set (nbrs L k) \<and> l' = l \<and> j = k then 1 else 0)"
    "count (mset (map (\<lambda>i. result_msg L i l k) (nbrs L k))) (intro_msg L i') = 0"
    "count (mset (map (\<lambda>i. result_msg L i l k) (nbrs L k))) (final_msg L i') = 0"
proof -
  have "distinct (map (\<lambda>i. result_msg L i l k) (nbrs L k))"
    using distinct_nbrs [OF assms] by (simp add: distinct_map inj_on_def)
  then show "count (mset (map (\<lambda>i. result_msg L i l k) (nbrs L k))) (result_msg L i' l' j)
      = (if i' \<in> set (nbrs L k) \<and> l' = l \<and> j = k then 1 else 0)"
    by (subst distinct_count_atmost_1 [THEN iffD1, rule_format]) auto
qed (simp_all add: count_eq_zero_iff, auto)

lemma actor_ok_advanced:
  assumes ok: "actor_ok L k a" and "ba_ready a" "\<not> ba_done a"
  shows "actor_ok L k (advanced L k a)"
  using actor_okD [OF ok] assms(2,3) by (simp add: actor_ok_def advanced_def data_ok_def)

lemma blocks_inv_advance:
  assumes inv: "blocks_inv L A net C" and k: "k < ly_ids L" and ready: "ba_ready (A k)" "\<not> ba_done (A k)"
    and full: "length (ba_neighbour_data (A k)) = length (nbrs L k)"
  shows "blocks_inv L (A(k := advanced L k (A k)))
    (net + mset (map (\<lambda>i. result_msg L i (Suc (lv (A k))) k) (nbrs L k)) + (if Suc (lv (A k)) = ly_n L then {#final_msg L k#} else {#}))
    C" (is "blocks_inv L ?A ?net C")
proof (rule blocks_inv_update [OF inv k])
  note d = blocks_invD [OF inv] and ok = blocks_invD(1) [OF inv k]
  let ?a = "advanced L k (A k)" and ?l = "Suc (lv (A k))"
  have keys: "fst ` set (ba_neighbour_data (A k)) = set (nbrs L k)"
    using full_data(1) [OF actor_okD(5) [OF ok] full k] .
  have kC: "k \<notin> C"
    using d(6) ready(2) by blast
  have kk: "k \<notin> set (nbrs L k)"
    using nbrs_iff [OF k] by blast
  have lv: "lv ?a = ?l" "ba_ready ?a" "ba_done ?a \<longleftrightarrow> ?l = ly_n L"
    using ready by (simp_all add: advanced_def)
  show "actor_ok L k ?a"
    using actor_ok_advanced [OF ok ready] .
  show "k \<in> C \<longrightarrow> ba_done ?a" "C - {k} = C - {k}"
    using kC by simp_all
  show "sent l ?a" if "sent l (A k)" for l
    using that lv by (simp add: sent_def)
  show "sent l (A j)" if "j \<in> set (nbrs L k)" "known l j ?a" for j l
    using that d(2) [OF k] known_advanced [OF keys] by blast
  show "count ?net (result_msg L k l j) = (if sent l (A j) \<and> \<not> known l j ?a then 1 else 0)"
    if "j \<in> set (nbrs L k)" "\<not> ba_done ?a" for j l
    using that d(3) [OF k that(1) ready(2), of l] known_advanced [OF keys that(1)] count_notices(1) [OF k] kk by simp
  show "count ?net (result_msg L i l k) = (if sent l ?a \<and> \<not> known l k (A i) then 1 else 0)"
    if i: "k \<in> set (nbrs L i)" "i < ly_ids L" "\<not> ba_done (A i)" for i l
  proof -
    have "\<not> known ?l k (A i)"
      using d(2) [OF i(2,1), of ?l] by (auto simp: sent_def)
    then show ?thesis
      using d(3) [OF i(2,1,3), of l] nbrs_sym [OF i(2,1)] count_notices(1) [OF k, of ?l i l k] lv ready
      by (auto simp: sent_def le_Suc_eq)
  qed
  show "count ?net (result_msg L i l j) = count net (result_msg L i l j)" if "i \<noteq> k" "j \<noteq> k" for i j l
    using that count_notices(1) [OF k] by simp
  show "count ?net (intro_msg L i) = count net (intro_msg L i)" for i
    using count_notices(2) [OF k] by simp
  show "count ?net (final_msg L i) = count net (final_msg L i)" if "i \<noteq> k" for i
    using that count_notices(3) [OF k] by simp
  show "count ?net (intro_msg L k) = (if ba_ready ?a then 0 else 1)"
    using d(4) [OF k] ready lv count_notices(2) [OF k] by simp
  show "count ?net (final_msg L k) = (if ba_done ?a \<and> k \<notin> C then 1 else 0)"
    using d(5) [OF k] ready lv kC count_notices(3) [OF k] by simp
  show "parcel_ok L p" if "p \<in># ?net" "p \<notin># net" for p
  proof -
    have "p = final_msg L k \<or> (\<exists>i\<in>set (nbrs L k). p = result_msg L i ?l k)"
      using that by (auto split: if_splits)
    then show ?thesis
      using k nbrs_iff [OF k] nbrs_sym [OF k] unfolding parcel_ok_def by blast
  qed
qed


text \<open>What is left to do: the messages an actor has still to send.\<close>

definition weight :: "'w layout \<Rightarrow> nat \<Rightarrow> 'w BlockActor \<Rightarrow> nat" where
  "weight L i a = Suc (length (nbrs L i)) * (ly_n L - lv a + (if ba_ready a then 0 else 1))"

lemma weight_advanced:
  assumes "ba_ready a" "lv a < ly_n L"
  shows "weight L k a = Suc (length (nbrs L k)) + weight L k (advanced L k a)"
proof -
  have "ly_n L - lv a = Suc (ly_n L - Suc (lv a))"
    using assms(2) by simp
  then show ?thesis
    using assms(1) by (simp add: weight_def advanced_def)
qed

text \<open>Outputs of a block actor put messages in flight and nothing else.\<close>

definition block_outs :: "'w ap_out list \<Rightarrow> bool" where
  "block_outs out \<longleftrightarrow> concat (map created out) = [] \<and> concat (map results out) = []"

lemma block_outs_simps [simp]: "block_outs []" "block_outs (xs @ ys) \<longleftrightarrow> block_outs xs \<and> block_outs ys"
  "block_outs (notices L k l)" "block_outs [TellManager msg, Suicide]" "block_outs [TellSelf m]"
  by (auto simp: block_outs_def notices_def)

lemma data_le:
  assumes "data_ok L k l nd" "k < ly_ids L"
  shows "length nd \<le> length (nbrs L k)"
proof -
  have "card (fst ` set nd) \<le> card (set (nbrs L k))"
    using assms(1) by (intro card_mono) (auto simp: data_ok_def)
  then show ?thesis
    using assms distinct_card [of "map fst nd"] distinct_card [OF distinct_nbrs [OF assms(2)]] by (simp add: data_ok_def)
qed

lemma phase_loop_inv:
  assumes L: "layout_ok L" "2 \<le> ly_m L" and k: "k < ly_ids L"
  shows "blocks_inv L (A(k := a)) net C \<Longrightarrow> ba_ready a \<Longrightarrow> \<not> ba_done a \<Longrightarrow>
    \<exists>a' out'. phase_loop a out = Some (Inr (a', out @ out')) \<and>
      blocks_inv L (A(k := a')) (net + mset (concat (map (parcels k) out'))) C \<and> block_outs out' \<and>
      (ba_done a' \<or> length (ba_neighbour_data a') < length (nbrs L k)) \<and>
      length (concat (map (parcels k) out')) + weight L k a' \<le> weight L k a"
proof (induction "length (ba_neighbour_data a) + length (ba_next_neighbour_data a)" arbitrary: a net out rule: less_induct)
  case less
  have ok: "actor_ok L k a"
    using blocks_invD(1) [OF less.prems(1) k] by simp
  note d = actor_okD [OF ok]
  have lt: "lv a < ly_n L"
    using d(3,4) less.prems(3) by simp
  show ?case
  proof (cases "length (ba_neighbour_data a) = length (nbrs L k)")
    case False
    then have "phase_loop a out = Some (Inr (a, out))"
      using d(7) less.prems(2) by (subst phase_loop.simps) simp
    then show ?thesis
      using False data_le [OF d(5) k] less.prems(1) by (intro exI [of _ a] exI [of _ "[]"]) simp
  next
    case full: True
    let ?a = "advanced L k a" and ?msgs = "map (\<lambda>i. result_msg L i (Suc (lv a)) k) (nbrs L k)"
    have adv: "blocks_inv L (A(k := ?a)) (net + mset ?msgs + (if Suc (lv a) = ly_n L then {#final_msg L k#} else {#})) C"
      using blocks_inv_advance [OF less.prems(1) k] less.prems(2,3) full by simp
    note w = weight_advanced [OF less.prems(2) lt, of k]
    note loop = phase_loop_full [OF L(1) k ok less.prems(2,3) full, of out]
    show ?thesis
    proof (cases "Suc (lv a) = ly_n L")
      case True
      let ?out = "notices L k (Suc (lv a)) @ [TellManager (BlockResult (blk L (ly_n L) k)), Suicide]"
      have "concat (map (parcels k) ?out) = ?msgs @ [final_msg L k]"
        by (simp add: parcels_notices final_msg_def)
      moreover have "phase_loop a out = Some (Inr (?a, out @ ?out))" "ba_done ?a"
        using loop True by (simp_all add: advanced_def)
      ultimately show ?thesis
        using adv True w by (intro exI [of _ ?a] exI [of _ ?out]) (simp add: ac_simps)
    next
      case False
      have small: "length (ba_neighbour_data ?a) + length (ba_next_neighbour_data ?a) <
          length (ba_neighbour_data a) + length (ba_next_neighbour_data a)"
        using full nbrs_nonempty [OF L(2) k] by (simp add: advanced_def)
      have "ba_ready ?a" "\<not> ba_done ?a"
        using less.prems(2) False by (simp_all add: advanced_def)
      then obtain a' out' where IH: "phase_loop ?a (out @ notices L k (Suc (lv a))) = Some (Inr (a', (out @ notices L k (Suc (lv a))) @ out'))"
        "blocks_inv L (A(k := a')) (net + mset ?msgs + mset (concat (map (parcels k) out'))) C" "block_outs out'"
        "ba_done a' \<or> length (ba_neighbour_data a') < length (nbrs L k)"
        "length (concat (map (parcels k) out')) + weight L k a' \<le> weight L k ?a"
        using less.hyps [OF small, of "net + mset ?msgs"] adv False by fastforce
      have "concat (map (parcels k) (notices L k (Suc (lv a)) @ out')) = ?msgs @ concat (map (parcels k) out')"
        by (simp add: parcels_notices)
      then show ?thesis
        using IH loop False w by (intro exI [of _ a'] exI [of _ "notices L k (Suc (lv a)) @ out'"]) (simp add: ac_simps)
    qed
  qed
qed


subsection \<open>Delivering a message to a block\<close>

lemma update_new: "k \<notin> fst ` set l \<Longrightarrow> AList.update k v l = l @ [(k, v)]"
  by (induction l) auto

lemma data_ok_update:
  assumes "data_ok L i l nd" "j \<in> set (nbrs L i)" "j \<notin> fst ` set nd"
  shows "data_ok L i l (AList.update j (blk L l j) nd)" "fst ` set (AList.update j (blk L l j) nd) = insert j (fst ` set nd)"
  using assms by (auto simp: data_ok_def update_new)

text \<open>The phase of an arriving result is that of the receiver or the next one.\<close>

lemma result_in_reach:
  assumes inv: "blocks_inv L A net C" and i: "i < ly_ids L" and j: "j \<in> set (nbrs L i)"
    and p: "result_msg L i l j \<in># net" and "\<not> ba_done (A i)"
  shows "sent l (A j)" "\<not> known l j (A i)" "l = lv (A i) \<or> l = Suc (lv (A i))"
proof -
  note d = blocks_invD [OF inv]
  have "count net (result_msg L i l j) \<noteq> 0"
    using p by simp
  then show s: "sent l (A j)" and nk: "\<not> known l j (A i)"
    using d(3) [OF i j assms(5), of l] by (auto split: if_splits)
  have "lv (A j) \<le> Suc (lv (A i))"
  proof (cases "lv (A j)")
    case (Suc q)
    then have "known q i (A j)"
      by (simp add: known_def)
    then have "sent q (A i)"
      using d(2) [of j i q] nbrs_sym [OF i j] j nbrs_iff [OF i] by blast
    then show ?thesis
      using Suc by (simp add: sent_def)
  qed simp
  then show "l = lv (A i) \<or> l = Suc (lv (A i))"
    using s nk by (auto simp: sent_def known_def)
qed

text \<open>A result is taken out of flight and noted.\<close>

lemma blocks_inv_note:
  assumes inv: "blocks_inv L A net C" and i: "i < ly_ids L" and j: "j \<in> set (nbrs L i)"
    and p: "result_msg L i l j \<in># net" and ok: "actor_ok L i a'"
    and same: "ba_k a' = ba_k (A i)" "ba_ready a' = ba_ready (A i)" "ba_done a' = ba_done (A i)"
    and noted: "\<And>l' j'. known l' j' a' \<longleftrightarrow> known l' j' (A i) \<or> (\<not> ba_done (A i) \<and> l' = l \<and> j' = j)"
  shows "blocks_inv L (A(i := a')) (net - {#result_msg L i l j#}) C"
proof (rule blocks_inv_update [OF inv i ok])
  note d = blocks_invD [OF inv]
  show "i \<in> C \<longrightarrow> ba_done a'" "C - {i} = C - {i}"
    using d(6) same by auto
  show "sent l' a'" if "sent l' (A i)" for l'
    using that same by (simp add: sent_def)
  show "sent l' (A j')" if "j' \<in> set (nbrs L i)" "known l' j' a'" for j' l'
    using that noted d(2) [OF i] result_in_reach(1) [OF inv i j p] by blast
  show "count (net - {#result_msg L i l j#}) (result_msg L i l' j') = (if sent l' (A j') \<and> \<not> known l' j' a' then 1 else 0)"
    if "j' \<in> set (nbrs L i)" "\<not> ba_done a'" for j' l'
    using d(3) [OF i that(1), of l'] that(2) same noted result_in_reach(1,2) [OF inv i j p] by auto
  show "count (net - {#result_msg L i l j#}) (result_msg L i' l' i) = (if sent l' a' \<and> \<not> known l' i (A i') then 1 else 0)"
    if "i \<in> set (nbrs L i')" "i' < ly_ids L" "\<not> ba_done (A i')" for i' l'
    using d(3) [OF that(2,1,3), of l'] same nbrs_iff [OF that(2)] that(1) by (auto simp: sent_def)
  show "count (net - {#result_msg L i l j#}) (intro_msg L i) = (if ba_ready a' then 0 else 1)"
    "count (net - {#result_msg L i l j#}) (final_msg L i) = (if ba_done a' \<and> i \<notin> C then 1 else 0)"
    using d(4,5) [OF i] same by simp_all
qed (auto dest: in_diffD)

text \<open>A block actor is introduced to its neighbours.\<close>

lemma blocks_inv_intro:
  assumes inv: "blocks_inv L A net C" and k: "k < ly_ids L" and p: "intro_msg L k \<in># net"
  shows "\<not> ba_ready (A k)" "lv (A k) = 0" "ba_current_data (A k) = blk L 0 k"
    "blocks_inv L (A(k := (A k)\<lparr>ba_neighbours := nbrs L k, ba_ready := True\<rparr>))
      (net - {#intro_msg L k#} + mset (map (\<lambda>i. result_msg L i 0 k) (nbrs L k))) C"
proof -
  note d = blocks_invD [OF inv] and ok = blocks_invD(1) [OF inv k]
  let ?a = "(A k)\<lparr>ba_neighbours := nbrs L k, ba_ready := True\<rparr>"
  let ?net = "net - {#intro_msg L k#} + mset (map (\<lambda>i. result_msg L i 0 k) (nbrs L k))"
  have "count net (intro_msg L k) \<noteq> 0"
    using p by simp
  then show nr: "\<not> ba_ready (A k)"
    using d(4) [OF k] by (auto split: if_splits)
  show lv: "lv (A k) = 0" and cur: "ba_current_data (A k) = blk L 0 k"
    using actor_okD(2,8) [OF ok] nr by simp_all
  have nk: "\<not> known l j (A k)" for l j
    using actor_okD(8) [OF ok nr] by (simp add: known_def)
  have kk: "k \<notin> set (nbrs L k)"
    using nbrs_iff [OF k] by blast
  have known_a: "known l j ?a = known l j (A k)" for l j
    by (simp add: known_def)
  show "blocks_inv L (A(k := ?a)) ?net C"
  proof (rule blocks_inv_update [OF inv k])
    show "actor_ok L k ?a"
      using ok by (simp add: actor_ok_def)
    show "k \<in> C \<longrightarrow> ba_done ?a" "C - {k} = C - {k}"
      using d(6) by auto
    show "sent l ?a" if "sent l (A k)" for l
      using that by (simp add: sent_def)
    show "sent l (A j)" if "j \<in> set (nbrs L k)" "known l j ?a" for j l
      using that nk known_a by simp
    show "count ?net (result_msg L k l j) = (if sent l (A j) \<and> \<not> known l j ?a then 1 else 0)"
      if "j \<in> set (nbrs L k)" "\<not> ba_done ?a" for j l
      using that d(3) [OF k that(1), of l] known_a count_notices(1) [OF k] kk by simp
    show "count ?net (result_msg L i l k) = (if sent l ?a \<and> \<not> known l k (A i) then 1 else 0)"
      if i: "k \<in> set (nbrs L i)" "i < ly_ids L" "\<not> ba_done (A i)" for i l
      using d(3) [OF i(2,1,3), of l] d(2) [OF i(2,1), of l] nbrs_sym [OF i(2,1)] count_notices(1) [OF k, of 0 i l k] nr lv
      by (auto simp: sent_def)
    show "count ?net (result_msg L i l j) = count net (result_msg L i l j)" if "i \<noteq> k" "j \<noteq> k" for i j l
      using that count_notices(1) [OF k] by simp
    show "count ?net (intro_msg L i) = count net (intro_msg L i)" if "i \<noteq> k" for i
      using that count_notices(2) [OF k] by simp
    show "count ?net (final_msg L i) = count net (final_msg L i)" for i
      using count_notices(3) [OF k] by simp
    show "count ?net (intro_msg L k) = (if ba_ready ?a then 0 else 1)"
      using d(4) [OF k] nr count_notices(2) [OF k] by simp
    show "count ?net (final_msg L k) = (if ba_done ?a \<and> k \<notin> C then 1 else 0)"
      using d(5) [OF k] count_notices(3) [OF k] by simp
    show "parcel_ok L p" if "p \<in># ?net" "p \<notin># net" for p
      using that k nbrs_iff [OF k] nbrs_sym [OF k] unfolding parcel_ok_def by (auto dest: in_diffD)
  qed
qed

text \<open>A block result is collected.\<close>

lemma blocks_inv_collect:
  assumes inv: "blocks_inv L A net C" and k: "k < ly_ids L" and p: "final_msg L k \<in># net"
  shows "ba_done (A k)" "k \<notin> C" "blocks_inv L A (net - {#final_msg L k#}) (insert k C)"
proof -
  note d = blocks_invD [OF inv]
  have "count net (final_msg L k) \<noteq> 0"
    using p by simp
  then show dn: "ba_done (A k)" and kC: "k \<notin> C"
    using d(5) [OF k] by (auto split: if_splits)
  show "blocks_inv L A (net - {#final_msg L k#}) (insert k C)"
    using d k dn kC unfolding blocks_inv_def by (auto dest: in_diffD)
qed


text \<open>Every message to a block is handled; unless it has to wait for the introduction, it is used up.\<close>

definition handled_well ::
  "'w::{ordered_comm_monoid_add,linorder} layout \<Rightarrow> (nat \<Rightarrow> 'w BlockActor) \<Rightarrow> 'w parcel multiset \<Rightarrow> nat set \<Rightarrow> nat \<Rightarrow>
    'w BlockMsg \<Rightarrow> bool" where
  "handled_well L A net C i msg \<longleftrightarrow> (\<exists>a' out'. block_receive msg (A i) = Some (Inr (a', out')) \<and> block_outs out' \<and>
     blocks_inv L (A(i := a')) (net - {#ToBlock i msg#} + mset (concat (map (parcels i) out'))) C \<and>
     settled L (A(i := a')) \<and>
     (if ba_ready (A i) \<or> ToBlock i msg = intro_msg L i then length (concat (map (parcels i) out')) + weight L i a' \<le> weight L i (A i)
      else a' = A i \<and> out' = [TellSelf msg]))"

lemma settled_update:
  "settled L A \<Longrightarrow> ba_done a' \<or> length (ba_neighbour_data a') < length (nbrs L k) \<Longrightarrow> settled L (A(k := a'))"
  by (auto simp: settled_def)

lemma deliver_intro:
  assumes inv: "blocks_inv L A net C" "settled L A" and k: "k < ly_ids L" and p: "intro_msg L k \<in># net"
  shows "handled_well L A net C k (Neighbours (nbrs L k))"
proof -
  let ?a = "(A k)\<lparr>ba_neighbours := nbrs L k, ba_ready := True\<rparr>"
  note i = blocks_inv_intro [OF inv(1) k p]
  have "ba_k (A k) = InitialPhase"
    using i(2) by (cases "ba_k (A k)") auto
  then have "block_receive (Neighbours (nbrs L k)) (A k) = Some (Inr (?a, notices L k 0))"
    using i(3) by (simp add: notify_neighbours_def rassert_def notices_def)
  moreover have "settled L (A(k := ?a))"
    using inv(2) k by (intro settled_update) (auto simp: settled_def)
  moreover have "length (nbrs L k) + weight L k ?a \<le> weight L k (A k)"
    using i(1) by (simp add: weight_def)
  ultimately show ?thesis
    using i(4) unfolding handled_well_def by (intro exI [of _ ?a] exI [of _ "notices L k 0"]) (simp add: parcels_notices intro_msg_def)
qed

lemma deliver_result:
  assumes L: "layout_ok L" "2 \<le> ly_m L" and inv: "blocks_inv L A net C" "settled L A"
    and i: "i < ly_ids L" and j: "j \<in> set (nbrs L i)" and p: "result_msg L i l j \<in># net"
  shows "handled_well L A net C i (PhaseResult (phase_of l) (blk L l j))"
proof -
  let ?msg = "PhaseResult (phase_of l) (blk L l j)"
  have p': "ToBlock i ?msg = result_msg L i l j" "ToBlock i ?msg \<noteq> intro_msg L i"
    by (simp_all add: result_msg_def intro_msg_def)
  note ok = blocks_invD(1) [OF inv(1) i] and d = actor_okD [OF blocks_invD(1) [OF inv(1) i]]
  consider (waits) "\<not> ba_ready (A i)" | (finished) "ba_ready (A i)" "ba_done (A i)"
    | (now) "ba_ready (A i)" "\<not> ba_done (A i)" "l = lv (A i)" | (later) "ba_ready (A i)" "\<not> ba_done (A i)" "l = Suc (lv (A i))"
    using result_in_reach(3) [OF inv(1) i j p] by blast
  then show ?thesis
  proof cases
    case waits
    then show ?thesis
      using inv p unfolding handled_well_def by (intro exI [of _ "A i"] exI [of _ "[TellSelf ?msg]"]) (simp add: p' fun_upd_idem)
  next
    case finished
    have "blocks_inv L (A(i := A i)) (net - {#result_msg L i l j#}) C"
      by (rule blocks_inv_note [OF inv(1) i j p ok]) (use finished in auto)
    then show ?thesis
      using inv(2) finished unfolding handled_well_def by (intro exI [of _ "A i"] exI [of _ "[]"]) (simp add: p' fun_upd_idem)
  next
    case now
    let ?a = "(A i)\<lparr>ba_neighbour_data := AList.update j (blk L l j) (ba_neighbour_data (A i))\<rparr>"
    have new: "j \<notin> fst ` set (ba_neighbour_data (A i))"
      using result_in_reach(2) [OF inv(1) i j p now(2)] now(3) by (auto simp: known_def)
    note upd = data_ok_update [OF d(5) j new]
    have "actor_ok L i ?a"
      using ok upd(1) now by (simp add: actor_ok_def)
    then have "blocks_inv L (A(i := ?a)) (net - {#result_msg L i l j#}) C"
      by (rule blocks_inv_note [OF inv(1) i j p]) (use now upd(2) in \<open>auto simp: known_def\<close>)
    then obtain a' out' where r: "phase_loop ?a [] = Some (Inr (a', [] @ out'))"
      "blocks_inv L (A(i := a')) (net - {#result_msg L i l j#} + mset (concat (map (parcels i) out'))) C" "block_outs out'"
      "ba_done a' \<or> length (ba_neighbour_data a') < length (nbrs L i)"
      "length (concat (map (parcels i) out')) + weight L i a' \<le> weight L i ?a"
      using phase_loop_inv [OF L i, of A ?a "net - {#result_msg L i l j#}" C "[]"] now(1,2) by auto
    have "block_receive ?msg (A i) = Some (Inr (a', out'))"
      using r(1) now by simp
    then show ?thesis
      using r(2-5) now(1) settled_update [OF inv(2) r(4)] unfolding handled_well_def
      by (intro exI [of _ a'] exI [of _ out']) (simp add: p' weight_def)
  next
    case later
    let ?a = "(A i)\<lparr>ba_next_neighbour_data := AList.update j (blk L l j) (ba_next_neighbour_data (A i))\<rparr>"
    have new: "j \<notin> fst ` set (ba_next_neighbour_data (A i))"
      using result_in_reach(2) [OF inv(1) i j p later(2)] later(3) by (auto simp: known_def)
    note upd = data_ok_update [OF d(6) j new]
    have "actor_ok L i ?a"
      using ok upd(1) later by (simp add: actor_ok_def)
    then have b: "blocks_inv L (A(i := ?a)) (net - {#result_msg L i l j#}) C"
      by (rule blocks_inv_note [OF inv(1) i j p]) (use later upd(2) in \<open>auto simp: known_def\<close>)
    have inc: "phase_of l = incremented (ba_k (A i))" "phase_of l \<noteq> ba_k (A i)"
      using later(3) by (metis level_incremented(1) phase_of_level(1), metis n_not_Suc_n phase_of_level(2))
    have "block_receive ?msg (A i) = Some (Inr (?a, []))"
      using later inc by simp
    moreover have "settled L (A(i := ?a))"
      using inv(2) i later(2) by (intro settled_update) (auto simp: settled_def)
    ultimately show ?thesis
      using b later(1) unfolding handled_well_def by (intro exI [of _ ?a] exI [of _ "[]"]) (simp add: p' weight_def)
  qed
qed

lemma deliver_block:
  assumes L: "layout_ok L" "2 \<le> ly_m L" and inv: "blocks_inv L A net C" "settled L A" and p: "ToBlock i msg \<in># net"
  shows "i < ly_ids L" "handled_well L A net C i msg"
proof -
  obtain i' where i': "i' < ly_ids L" "ToBlock i msg = intro_msg L i' \<or> ToBlock i msg = final_msg L i' \<or>
      (\<exists>j\<in>set (nbrs L i'). \<exists>l. ToBlock i msg = result_msg L i' l j)"
    using blocks_invD(7) [OF inv(1) p] by (auto simp: parcel_ok_def)
  then consider "i = i'" "msg = Neighbours (nbrs L i')"
    | j l where "i = i'" "j \<in> set (nbrs L i')" "msg = PhaseResult (phase_of l) (blk L l j)"
    by (auto simp: intro_msg_def final_msg_def result_msg_def)
  then have "i < ly_ids L \<and> handled_well L A net C i msg"
  proof cases
    case 1
    then show ?thesis
      using deliver_intro [OF inv i'(1)] p i'(1) by (simp add: intro_msg_def)
  next
    case 2
    then show ?thesis
      using deliver_result [OF L inv i'(1) 2(2)] p i'(1) by (simp add: result_msg_def)
  qed
  then show "i < ly_ids L" "handled_well L A net C i msg"
    by simp_all
qed


subsection \<open>The manager\<close>

text \<open>The blocks collected so far, the others as they were distributed.\<close>

definition gathered :: "'w::{ordered_comm_monoid_add,linorder} layout \<Rightarrow> nat set \<Rightarrow> 'w Block list list" where
  "gathered L C = map (\<lambda>r. map (\<lambda>c. blk L (if r * ly_m L + c \<in> C then ly_n L else 0) (r * ly_m L + c)) [0..<ly_m L]) [0..<ly_m L]"

definition manager_inv ::
  "'w::{ordered_comm_monoid_add,linorder} layout \<Rightarrow> nat set \<Rightarrow> 'w ManagerActor \<Rightarrow> 'w matrix list \<Rightarrow> bool" where
  "manager_inv L C mg out \<longleftrightarrow>
    (if C = {..<ly_ids L} then mg_missing_blocks mg = None \<and> out = [compute_floyd_warshall (ly_g L)]
     else mg_missing_blocks mg = Some (ly_ids L - card C) \<and> mg_assembly mg = Some (gathered L C) \<and> mg_latch mg = Some 1 \<and> out = [])"

lemma gathered_none: "gathered L {} = grid (ly_m L) (ly_s L) (graph_get (ly_g L))"
  by (auto simp: gathered_def grid_def blk_def)

lemma gathered_all:
  "gathered L {..<ly_ids L} = grid (ly_m L) (ly_s L) (graph_get (fold fw_phase [0..<ly_n L] (ly_g L)))"
proof -
  have "r * ly_m L + c < ly_ids L" if "r < ly_m L" "c < ly_m L" for r c
    using mult_le_mono1 [of "Suc r" "ly_m L" "ly_m L"] that by simp
  then show ?thesis
    by (auto simp: gathered_def grid_def blk_def)
qed

lemma gathered_insert:
  assumes "k < ly_ids L"
  shows "(gathered L C)[k div ly_m L := (gathered L C ! (k div ly_m L))[k mod ly_m L := blk L (ly_n L) k]] = gathered L (insert k C)"
proof -
  let ?m = "ly_m L"
  have km: "k div ?m < ?m" "k mod ?m < ?m"
    using id_split [OF assms] by simp_all
  have eq: "r * ?m + c = k \<longleftrightarrow> r = k div ?m \<and> c = k mod ?m" if "c < ?m" for r c
    using block_id_eq [of c ?m "k mod ?m" r "k div ?m"] that km by simp
  show ?thesis
  proof (rule nth_equalityI)
    fix r
    assume "r < length ((gathered L C)[k div ?m := (gathered L C ! (k div ?m))[k mod ?m := blk L (ly_n L) k]])"
    then have r: "r < ?m"
      by (simp add: gathered_def)
    show "(gathered L C)[k div ?m := (gathered L C ! (k div ?m))[k mod ?m := blk L (ly_n L) k]] ! r = gathered L (insert k C) ! r"
    proof (cases "r = k div ?m")
      case True
      have "(gathered L C ! r)[k mod ?m := blk L (ly_n L) k] = gathered L (insert k C) ! r"
        using r True by (intro nth_equalityI) (auto simp: gathered_def nth_list_update eq)
      then show ?thesis
        using r True by (simp add: gathered_def)
    next
      case False
      then show ?thesis
        using r eq by (auto simp: gathered_def)
    qed
  qed (simp add: gathered_def)
qed

lemma assemble_gathered:
  assumes "layout_ok L"
  shows "assemble_from_blocks (gathered L {..<ly_ids L}) = Inr (compute_floyd_warshall (ly_g L))"
proof -
  have L: "0 < ly_m L" "0 < ly_s L" "nonneg (ly_n L) (ly_g L)"
    using assms by (simp_all add: layout_ok_def)
  have "square (ly_n L) (fold fw_phase [0..<ly_n L] (ly_g L))"
    using fw_run(1) [OF L(3) order_refl] by (simp add: nonneg_def)
  then have "tabulate (ly_n L) (graph_get (fold fw_phase [0..<ly_n L] (ly_g L))) = fold fw_phase [0..<ly_n L] (ly_g L)"
    by (rule tabulate_get)
  moreover have "length (ly_g L) = ly_n L"
    using L(3) square_length by (auto simp: nonneg_def)
  ultimately show ?thesis
    using assemble_grid [OF L(1,2), of "graph_get (fold fw_phase [0..<ly_n L] (ly_g L))"]
    by (simp add: gathered_all compute_floyd_warshall_def)
qed

lemma manager_collects:
  assumes L: "layout_ok L" and m: "manager_inv L C mg out" and C: "C \<subseteq> {..<ly_ids L}" "k < ly_ids L" "k \<notin> C"
  shows "\<exists>mg' out'. manager_receive (BlockResult (blk L (ly_n L) k)) mg = Inr (mg', out') \<and>
    concat (map (parcels 0) out') = [] \<and> concat (map created out') = [] \<and>
    manager_inv L (insert k C) mg' (out @ concat (map results out'))"
proof -
  let ?m = "ly_m L"
  have "C \<noteq> {..<ly_ids L}"
    using C(2,3) by blast
  then have mg: "mg_missing_blocks mg = Some (ly_ids L - card C)" "mg_assembly mg = Some (gathered L C)" "mg_latch mg = Some 1" "out = []"
    using m by (simp_all add: manager_inv_def)
  have fin: "finite C"
    using C(1) finite_subset by blast
  have "card C < card {..<ly_ids L}"
    using C \<open>C \<noteq> {..<ly_ids L}\<close> by (intro psubset_card_mono) auto
  then have card: "card C < ly_ids L" "card (insert k C) = Suc (card C)"
    using fin C(3) by simp_all
  have pos: "block_position (blk L (ly_n L) k) = (k div ?m, k mod ?m)"
    using id_split [OF C(2)] by (simp add: block_position_def blk_def)
  have row: "k div ?m < length (gathered L C)" "k mod ?m < length (gathered L C ! (k div ?m))"
    using id_split [OF C(2)] by (simp_all add: gathered_def)
  note g = gathered_insert [OF C(2), of C]
  show ?thesis
  proof (cases "ly_ids L - card C - 1 = 0")
    case True
    then have "card (insert k C) = card {..<ly_ids L}"
      using card by simp
    then have all: "insert k C = {..<ly_ids L}"
      using C by (intro card_subset_eq) auto
    show ?thesis
      using mg pos row g True card(1) assemble_gathered [OF L]
      by (simp add: all rget_def Let_def manager_inv_def)
  next
    case False
    then have "insert k C \<noteq> {..<ly_ids L}"
      using card by (metis Suc_diff_Suc card_lessThan diff_Suc_1 diff_self_eq_0)
    then show ?thesis
      using mg pos row g False card by (simp add: rget_def Let_def manager_inv_def)
  qed
qed

subsection \<open>The whole system\<close>

definition running :: "'w::{ordered_comm_monoid_add,linorder} layout \<Rightarrow> (nat \<Rightarrow> 'w BlockActor) \<Rightarrow> nat set \<Rightarrow> 'w apsp_sys \<Rightarrow> 'w matrix list \<Rightarrow> bool" where
  "running L A C s out \<longleftrightarrow> sy_blocks s = (\<lambda>i. if i < ly_ids L then Some (A i) else None) \<and>
     blocks_inv L A (sy_net s) C \<and> settled L A \<and> manager_inv L C (sy_manager s) out"

definition apsp_inv :: "'w::{ordered_comm_monoid_add,linorder} layout \<Rightarrow> 'w apsp_sys \<Rightarrow> 'w matrix list \<Rightarrow> bool" where
  "apsp_inv L s out \<longleftrightarrow> (s = sy_start (ly_s L) (ly_g L) \<and> out = []) \<or> (\<exists>A C. running L A C s out)"

text \<open>What is left to do in the system.\<close>

definition remaining :: "'w layout \<Rightarrow> 'w apsp_sys \<Rightarrow> nat" where
  "remaining L s = size (sy_net s) + (\<Sum>i<ly_ids L. weight L i (the (sy_blocks s i)))"

lemma remaining_running:
  "running L A C s out \<Longrightarrow> remaining L s = size (sy_net s) + (\<Sum>i<ly_ids L. weight L i (A i))"
  by (simp add: remaining_def running_def)

lemma sum_update:
  fixes f :: "nat \<Rightarrow> 'a \<Rightarrow> nat"
  assumes "k < n" "x + f k a \<le> f k (A k)"
  shows "x + (\<Sum>i<n. f i ((A(k := a)) i)) \<le> (\<Sum>i<n. f i (A i))"
proof -
  have "(\<Sum>i<n. f i (B i)) = f k (B k) + (\<Sum>i\<in>{..<n} - {k}. f i (B i))" for B
    using assms(1) by (intro sum.remove) simp_all
  moreover have "(\<Sum>i\<in>{..<n} - {k}. f i ((A(k := a)) i)) = (\<Sum>i\<in>{..<n} - {k}. f i (A i))"
    by (intro sum.cong) auto
  ultimately show ?thesis
    using assms(2) by simp
qed

lemma deliver_to_block:
  assumes L: "layout_ok L" "2 \<le> ly_m L" and r: "running L A C s out" and p: "ToBlock i msg \<in># sy_net s"
  shows "\<exists>A' s'. sy_deliver (ToBlock i msg) s = Inr (s', []) \<and> running L A' C s' out \<and>
    (ba_ready (A i) \<or> ToBlock i msg = intro_msg L i \<longrightarrow> remaining L s' < remaining L s)"
proof -
  have inv: "blocks_inv L A (sy_net s) C" "settled L A"
    using r by (simp_all add: running_def)
  note db = deliver_block [OF L inv p]
  obtain a' out' where h: "block_receive msg (A i) = Some (Inr (a', out'))" "block_outs out'"
    "blocks_inv L (A(i := a')) (sy_net s - {#ToBlock i msg#} + mset (concat (map (parcels i) out'))) C"
    "settled L (A(i := a'))"
    "if ba_ready (A i) \<or> ToBlock i msg = intro_msg L i then length (concat (map (parcels i) out')) + weight L i a' \<le> weight L i (A i)
      else a' = A i \<and> out' = [TellSelf msg]"
    using db(2) unfolding handled_well_def by blast
  define s' where "s' = s\<lparr>sy_net := sy_net s - {#ToBlock i msg#} + mset (concat (map (parcels i) out')),
    sy_blocks := (sy_blocks s)(i \<mapsto> a')\<rparr>"
  have "sy_deliver (ToBlock i msg) s = Inr (s', [])"
    using h(1,2) r db(1) by (simp add: running_def sy_emit_def block_outs_def s'_def del: concat_eq_Nil_conv)
  moreover have run: "running L (A(i := a')) C s' out"
    using r h(3,4) db(1) by (auto simp: running_def s'_def)
  moreover have "remaining L s' < remaining L s" if "ba_ready (A i) \<or> ToBlock i msg = intro_msg L i"
  proof -
    have "0 < size (sy_net s)"
      using p by (auto simp: size_eq_0_iff_empty intro!: gr0I)
    moreover from this have "size (sy_net s') = size (sy_net s) - 1 + length (concat (map (parcels i) out'))"
      using p by (simp add: s'_def size_Diff_singleton)
    moreover have "length (concat (map (parcels i) out')) + (\<Sum>j<ly_ids L. weight L j ((A(i := a')) j)) \<le> (\<Sum>j<ly_ids L. weight L j (A j))"
      using h(5) that by (intro sum_update [OF db(1)]) simp
    ultimately show ?thesis
      using remaining_running [OF run] remaining_running [OF r] by linarith
  qed
  ultimately show ?thesis
    by blast
qed


lemma deliver_to_manager:
  assumes L: "layout_ok L" and r: "running L A C s out" and p: "ToManager msg \<in># sy_net s"
  shows "\<exists>C' s' out'. sy_deliver (ToManager msg) s = Inr (s', out') \<and> running L A C' s' (out @ out') \<and> remaining L s' < remaining L s"
proof -
  have inv: "blocks_inv L A (sy_net s) C" "settled L A" "manager_inv L C (sy_manager s) out"
    using r by (simp_all add: running_def)
  obtain k where k: "k < ly_ids L" "ToManager msg = final_msg L k"
    using blocks_invD(7) [OF inv(1) p] by (auto simp: parcel_ok_def intro_msg_def result_msg_def)
  then have msg: "msg = BlockResult (blk L (ly_n L) k)"
    by (simp add: final_msg_def)
  note c = blocks_inv_collect [OF inv(1) k(1), unfolded k(2) [symmetric], OF p]
  have "C \<subseteq> {..<ly_ids L}"
    using blocks_invD(6) [OF inv(1)] by auto
  then obtain mg' out' where m: "manager_receive msg (sy_manager s) = Inr (mg', out')" "concat (map (parcels 0) out') = []"
    "concat (map created out') = []" "manager_inv L (insert k C) mg' (out @ concat (map results out'))"
    using manager_collects [OF L inv(3) _ k(1) c(2)] msg by blast
  define s' where "s' = s\<lparr>sy_manager := mg', sy_net := sy_net s - {#ToManager msg#}\<rparr>"
  have "sy_deliver (ToManager msg) s = Inr (s', concat (map results out'))"
    using m(1-3) by (simp add: sy_emit_def s'_def del: concat_eq_Nil_conv)
  moreover have run: "running L A (insert k C) s' (out @ concat (map results out'))"
    using r c(3) m(4) by (simp add: running_def s'_def)
  moreover have "remaining L s' < remaining L s"
    using p remaining_running [OF run] remaining_running [OF r] by (simp add: s'_def size_Diff1_less)
  ultimately show ?thesis
    by blast
qed

text \<open>The start: the manager distributes the graph.\<close>

lemma concat_rows: "concat (map (\<lambda>r. map (f r) [0..<m]) [0..<k]) = map (\<lambda>i. f (i div m) (i mod m)) [0..<k * m]"
proof (induction k)
  case (Suc k)
  have "map (\<lambda>i. f (i div m) (i mod m)) [k * m..<k * m + m] = map (f k) [0..<m]"
    by (rule nth_equalityI) auto
  moreover have "[0..<Suc k * m] = [0..<k * m] @ [k * m..<k * m + m]"
    using upt_add_eq_append [of 0 "k * m" m] by (simp add: add.commute)
  ultimately show ?case
    using Suc by simp
qed simp

lemma grid_neighbours:
  assumes "bi < ly_m L" "bj < ly_m L"
  shows "block_neighbours (grid (ly_m L) (ly_s L) D) bi bj = nbrs L (bi * ly_m L + bj)"
  using assms by (simp add: block_neighbours_def nbrs_def)

lemma map_of_ids: "map_of (map (\<lambda>i. (i, f i)) [0..<n]) = (\<lambda>i. if i < n then Some (f i) else None)"
  by (rule ext) (auto simp: map_of_map_restrict comp_def restrict_map_def)

lemma distribute_eq:
  assumes L: "layout_ok L" and mg: "mg_block_size mg = ly_s L"
  shows "distribute_graph (ly_g L) mg =
    Inr (mg\<lparr>mg_block_workers := [0..<ly_ids L], mg_missing_blocks := Some (ly_ids L), mg_assembly := Some (gathered L {})\<rparr>,
      map (\<lambda>i. CreateBlock (block_actor_with (blk L 0 i) (ly_n L))) [0..<ly_ids L] @
      map (\<lambda>i. TellBlock i (Neighbours (nbrs L i))) [0..<ly_ids L])"
proof -
  let ?m = "ly_m L" and ?s = "ly_s L"
  let ?grid = "grid ?m ?s (graph_get (ly_g L))"
  have sq: "square (?m * ?s) (ly_g L)" "0 < ?s" "length (ly_g L) = ly_n L"
    using L by (auto simp: layout_ok_def nonneg_def square_length)
  have cells: "concat ?grid = map (blk L 0) [0..<ly_ids L]"
    using concat_rows [of "block_of ?m ?s (graph_get (ly_g L))" ?m ?m] by (simp add: grid_def blk_def)
  have "map (\<lambda>(bi, bj). TellBlock (blk_id (?grid ! bi ! bj)) (Neighbours (block_neighbours ?grid bi bj))) (List.product [0..<?m] [0..<?m])
      = map (\<lambda>(bi, bj). TellBlock (bi * ?m + bj) (Neighbours (nbrs L (bi * ?m + bj)))) (List.product [0..<?m] [0..<?m])"
    by (auto simp: grid_neighbours)
  also have "\<dots> = map (\<lambda>i. TellBlock i (Neighbours (nbrs L i))) [0..<ly_ids L]"
    using concat_rows [of "\<lambda>bi bj. TellBlock (bi * ?m + bj) (Neighbours (nbrs L (bi * ?m + bj)))" ?m ?m]
    by (simp add: product_concat_map map_concat comp_def)
  finally show ?thesis
    using break_into_grid [OF sq(1,2)] mg cells sq(3) by (simp add: distribute_graph_def gathered_none comp_def)
qed

lemma deliver_start:
  assumes L: "layout_ok L" "2 \<le> ly_m L"
  shows "\<exists>A C s'. sy_deliver (ToManager (ComputeFW (ly_g L) 1)) (sy_start (ly_s L) (ly_g L)) = Inr (s', []) \<and> running L A C s' []"
proof -
  define A where "A = (\<lambda>i. block_actor_with (blk L 0 i) (ly_n L))"
  let ?mg = "(manager_with (ly_s L))\<lparr>mg_block_workers := [0..<ly_ids L], mg_missing_blocks := Some (ly_ids L),
    mg_assembly := Some (gathered L {}), mg_latch := Some 1\<rparr>"
  define s' where "s' = \<lparr>sy_manager = ?mg, sy_blocks = (\<lambda>i. if i < ly_ids L then Some (A i) else None),
    sy_net = mset (map (intro_msg L) [0..<ly_ids L])\<rparr>"
  have pos: "0 < ly_n L" "0 < ly_ids L"
    using L by (simp_all add: layout_ok_def)
  have none: "concat (map (\<lambda>x. []) xs) = []" for xs :: "nat list"
    by (induction xs) simp_all
  have im: "intro_msg L = (\<lambda>i. ToBlock i (Neighbours (nbrs L i)))"
    by (rule ext) (simp add: intro_msg_def)
  have "sy_deliver (ToManager (ComputeFW (ly_g L) 1)) (sy_start (ly_s L) (ly_g L)) = Inr (s', [])"
    using distribute_eq [OF L(1), of "manager_with (ly_s L)"] map_of_ids [of A "ly_ids L"]
    by (simp add: sy_start_def manager_with_def sy_emit_def s'_def A_def comp_def block_actor_with_def concat_map_singleton im none)
  moreover have "blocks_inv L A (mset (map (intro_msg L) [0..<ly_ids L])) {}"
  proof -
    have ini: "ba_ready (A i) = False" "ba_done (A i) = False" "lv (A i) = 0" "ba_neighbour_data (A i) = []"
      "ba_next_neighbour_data (A i) = []" "actor_ok L i (A i)" for i
      using pos by (simp_all add: A_def block_actor_with_def actor_ok_def data_ok_def)
    have "distinct (map (intro_msg L) [0..<ly_ids L])"
      by (simp add: distinct_map inj_on_def)
    then have "count (mset (map (intro_msg L) [0..<ly_ids L])) (intro_msg L i) = 1" if "i < ly_ids L" for i
      using that by (subst distinct_count_atmost_1 [THEN iffD1, rule_format]) auto
    moreover have "count (mset (map (intro_msg L) [0..<ly_ids L])) (result_msg L i l j) = 0"
      "count (mset (map (intro_msg L) [0..<ly_ids L])) (final_msg L i) = 0" for i j l
      by (auto simp: count_eq_zero_iff)
    ultimately show ?thesis
      using ini by (auto simp: blocks_inv_def known_def sent_def parcel_ok_def)
  qed
  moreover have "settled L A"
    using nbrs_nonempty [OF L(2)] by (simp add: settled_def A_def block_actor_with_def)
  moreover have "{..<ly_ids L} \<noteq> {}"
    unfolding lessThan_empty_iff using pos by simp
  then have "manager_inv L {} ?mg []"
    by (auto simp: manager_inv_def)
  ultimately show ?thesis
    by (intro exI [of _ A] exI [of _ "{}"] exI [of _ s']) (simp add: running_def s'_def)
qed


lemma apsp_deliver:
  assumes L: "layout_ok L" "2 \<le> ly_m L" and inv: "apsp_inv L s out" and p: "sy_allowed p s"
  shows "\<exists>s' out'. sy_deliver p s = Inr (s', out') \<and> apsp_inv L s' (out @ out')"
proof (cases "s = sy_start (ly_s L) (ly_g L) \<and> out = []")
  case True
  then have "p = ToManager (ComputeFW (ly_g L) 1)"
    using p by (simp add: sy_allowed_def sy_start_def)
  then show ?thesis
    using deliver_start [OF L] True unfolding apsp_inv_def by auto
next
  case False
  then obtain A C where r: "running L A C s out"
    using inv by (auto simp: apsp_inv_def)
  show ?thesis
  proof (cases p)
    case (ToBlock i msg)
    then show ?thesis
      using deliver_to_block [OF L r, of i msg] p unfolding apsp_inv_def sy_allowed_def by (metis append_Nil2)
  next
    case (ToManager msg)
    then show ?thesis
      using deliver_to_manager [OF L(1) r, of msg] p unfolding apsp_inv_def sy_allowed_def by blast
  qed
qed

interpretation apsp: safe_component sy_allowed sy_deliver
  "\<lambda>s out. layout_ok L \<and> 2 \<le> ly_m L \<and> apsp_inv L s out" for L
  by unfold_locales (use apsp_deliver in blast)

text \<open>When nothing is in flight, all blocks are done: an actor that lags behind would have everything it waits for.\<close>

lemma quiescent_done:
  assumes L: "layout_ok L" "2 \<le> ly_m L" and r: "running L A C s out" and q: "sy_net s = {#}"
  shows "C = {..<ly_ids L}" "out = [compute_floyd_warshall (ly_g L)]"
proof -
  have inv: "blocks_inv L A {#} C" "settled L A"
    using r q by (simp_all add: running_def)
  note d = blocks_invD [OF inv(1)]
  let ?I = "{..<ly_ids L}"
  have "?I \<noteq> {}"
    using L by (simp add: layout_ok_def lessThan_empty_iff)
  then obtain i where i: "i < ly_ids L" "\<And>j. j < ly_ids L \<Longrightarrow> lv (A i) \<le> lv (A j)"
    using arg_min_if_finite [of ?I "\<lambda>i. lv (A i)"] by (metis finite_lessThan lessThan_iff not_le_imp_less)
  have "ba_done (A i)"
  proof (rule ccontr)
    assume nd: "\<not> ba_done (A i)"
    have "known (lv (A i)) j (A i)" if "j \<in> set (nbrs L i)" for j
    proof -
      have "j < ly_ids L"
        using that nbrs_iff [OF i(1)] by blast
      then have "sent (lv (A i)) (A j)"
        using i(2) d(4) [of j] by (auto simp: sent_def split: if_splits)
      then show ?thesis
        using d(3) [OF i(1) that nd, of "lv (A i)"] by (auto split: if_splits)
    qed
    then have "set (nbrs L i) \<subseteq> fst ` set (ba_neighbour_data (A i))"
      by (auto simp: known_def)
    then have "card (set (nbrs L i)) \<le> card (fst ` set (ba_neighbour_data (A i)))"
      by (intro card_mono) simp_all
    also have "\<dots> \<le> length (ba_neighbour_data (A i))"
      by (metis card_length length_map set_map)
    finally show False
      using inv(2) i(1) nd distinct_card [OF distinct_nbrs [OF i(1)]] by (auto simp: settled_def)
  qed
  then have "ba_done (A j)" if "j < ly_ids L" for j
    using i(2) [OF that] actor_okD(3,4) [OF d(1) [OF that]] actor_okD(4) [OF d(1) [OF i(1)]] by simp
  then have "j \<in> C" if "j < ly_ids L" for j
    using d(5) [OF that] that by (auto split: if_splits)
  then show C: "C = {..<ly_ids L}"
    using d(6) by auto
  show "out = [compute_floyd_warshall (ly_g L)]"
    using r C by (simp add: running_def manager_inv_def)
qed

text \<open>As long as something is in flight, some message can be delivered that is used up.\<close>

lemma can_progress:
  assumes L: "layout_ok L" "2 \<le> ly_m L" and r: "running L A C s out" and q: "sy_net s \<noteq> {#}"
  shows "\<exists>p A' C' s' out'. p \<in># sy_net s \<and> sy_deliver p s = Inr (s', out') \<and> running L A' C' s' (out @ out') \<and>
    remaining L s' < remaining L s"
proof -
  have inv: "blocks_inv L A (sy_net s) C"
    using r by (simp add: running_def)
  obtain p where p: "p \<in># sy_net s"
    using q by blast
  show ?thesis
  proof (cases p)
    case (ToManager msg)
    then show ?thesis
      using deliver_to_manager [OF L(1) r, of msg] p by blast
  next
    case (ToBlock i msg)
    have step: "\<exists>A' s'. sy_deliver (ToBlock i msg) s = Inr (s', []) \<and> running L A' C s' (out @ []) \<and> remaining L s' < remaining L s"
      if "ToBlock i msg \<in># sy_net s" "ba_ready (A i) \<or> ToBlock i msg = intro_msg L i" for msg
      using deliver_to_block [OF L r that(1)] that(2) by auto
    show ?thesis
    proof (cases "ba_ready (A i)")
      case True
      then show ?thesis
        using step [of msg] p ToBlock by blast
    next
      case False
      have "i < ly_ids L"
        using deliver_block(1) [OF L inv] r p ToBlock by (auto simp: running_def)
      then have "count (sy_net s) (intro_msg L i) = 1"
        using blocks_invD(4) [OF inv] False by simp
      then have "intro_msg L i \<in># sy_net s"
        by (metis count_eq_zero_iff zero_neq_one)
      then show ?thesis
        using step [of "Neighbours (nbrs L i)"] unfolding intro_msg_def by blast
    qed
  qed
qed

lemma can_finish:
  assumes L: "layout_ok L" "2 \<le> ly_m L"
  shows "running L A C s out \<Longrightarrow> \<exists>s' out'. reach sy_allowed sy_deliver s s' out' \<and> sy_net s' = {#} \<and>
    out @ out' = [compute_floyd_warshall (ly_g L)]"
proof (induction "remaining L s" arbitrary: A C s out rule: less_induct)
  case less
  show ?case
  proof (cases "sy_net s = {#}")
    case True
    then show ?thesis
      using quiescent_done(2) [OF L less.prems] by (intro exI [of _ s] exI [of _ "[]"]) (simp add: reach.start)
  next
    case False
    then obtain p A1 C1 s1 o1 where p: "p \<in># sy_net s" "sy_deliver p s = Inr (s1, o1)" "running L A1 C1 s1 (out @ o1)"
      "remaining L s1 < remaining L s"
      using can_progress [OF L less.prems] by blast
    obtain s' out' where f: "reach sy_allowed sy_deliver s1 s' out'" "sy_net s' = {#}" "(out @ o1) @ out' = [compute_floyd_warshall (ly_g L)]"
      using less.hyps [OF p(4,3)] by blast
    have "reach sy_allowed sy_deliver s s1 ([] @ o1)"
      using p by (intro reach.next_step [OF reach.start]) (simp_all add: sy_allowed_def)
    then have "reach sy_allowed sy_deliver s s' (o1 @ out')"
      using reach_trans f(1) by fastforce
    then show ?thesis
      using f(2,3) by auto
  qed
qed


subsection \<open>Properties\<close>

text \<open>C20: The asynchronous computation is correct for every order in which the messages are delivered. In every reachable
  state, no message in flight makes its receiver panic or loop forever; the latch has been counted down at most once, and
  then the assembled matrix is that of the monolithic algorithm; and once no message is in flight, it has
  been.\<close>

theorem apsp_asynchronous_correct:
  fixes g :: "'w::{ordered_comm_monoid_add,linorder} matrix"
  assumes g: "nonneg (m * s) g" "0 < s" "2 \<le> m"
    and run: "reach sy_allowed sy_deliver (sy_start s g) sys out"
  shows "(\<forall>p\<in>#sy_net sys. \<exists>sys' out'. sy_deliver p sys = Inr (sys', out')) \<and>
    (out = [] \<or> out = [compute_floyd_warshall g]) \<and> (sy_net sys = {#} \<longrightarrow> out = [compute_floyd_warshall g])"
proof -
  define L where "L = \<lparr>ly_m = m, ly_s = s, ly_g = g\<rparr>"
  have L: "layout_ok L" "2 \<le> ly_m L"
    using g by (simp_all add: L_def layout_ok_def)
  have start: "layout_ok L \<and> 2 \<le> ly_m L \<and> apsp_inv L (sy_start s g) []"
    using L by (simp add: apsp_inv_def L_def)
  have inv: "apsp_inv L sys out"
    using apsp.reach_inv [OF run start] by simp
  have "\<exists>sys' out'. sy_deliver p sys = Inr (sys', out')" if "p \<in># sy_net sys" for p
    using apsp.no_panic [OF run start] that by (simp add: sy_allowed_def)
  moreover have "out = [] \<or> out = [compute_floyd_warshall g]"
    using inv by (auto simp: apsp_inv_def running_def manager_inv_def L_def split: if_splits)
  moreover have "out = [compute_floyd_warshall g]" if q: "sy_net sys = {#}"
  proof -
    obtain A C where "running L A C sys out"
      using inv q by (auto simp: apsp_inv_def sy_start_def)
    then show ?thesis
      using quiescent_done(2) [OF L _ q] by (auto simp: L_def)
  qed
  ultimately show ?thesis
    by blast
qed

lemma example_graph: "nonneg (2 * 1) [[0, 7], [1, 0 :: int]]"
  by (auto simp: nonneg_def square_def graph_get_def less_Suc_eq numeral_2_eq_2)

theorem apsp_asynchronous_correct_witness:
  "\<exists>sys. reach sy_allowed sy_deliver (sy_start 1 [[0, 7], [1, 0 :: int]]) sys [] \<and> size (sy_net sys) = 4 \<and>
    (\<forall>p\<in>#sy_net sys. \<exists>sys' out'. sy_deliver p sys = Inr (sys', out'))"
proof -
  let ?g = "[[0, 7], [1, 0 :: int]]" and ?p = "[ToManager (ComputeFW [[0, 7], [1, 0 :: int]] 1)]"
  have "case run_inputs sy_deliver ?p (sy_start 1 ?g) of Inl e \<Rightarrow> False | Inr (sys, out) \<Rightarrow> out = [] \<and> size (sy_net sys) = 4"
    by code_simp
  then obtain sys where s: "run_inputs sy_deliver ?p (sy_start 1 ?g) = Inr (sys, [])" "size (sy_net sys) = 4"
    by (auto split: sum.splits)
  moreover have "all_allowed sy_allowed sy_deliver ?p (sy_start 1 ?g)"
    by code_simp
  ultimately have "reach sy_allowed sy_deliver (sy_start 1 ?g) sys []"
    by (intro run_reaches)
  from apsp_asynchronous_correct [OF example_graph _ _ this] this s(2) show ?thesis
    by auto
qed

text \<open>C21: The computation can always be completed: from every reachable state some order of deliveries empties the network
  and leaves the latch counted down exactly once, with the result of the monolithic algorithm.\<close>

theorem apsp_can_always_finish:
  fixes g :: "'w::{ordered_comm_monoid_add,linorder} matrix"
  assumes g: "nonneg (m * s) g" "0 < s" "2 \<le> m"
    and run: "reach sy_allowed sy_deliver (sy_start s g) sys out"
  shows "\<exists>sys' out'. reach sy_allowed sy_deliver sys sys' out' \<and> sy_net sys' = {#} \<and> out @ out' = [compute_floyd_warshall g]"
proof -
  define L where "L = \<lparr>ly_m = m, ly_s = s, ly_g = g\<rparr>"
  have L: "layout_ok L" "2 \<le> ly_m L"
    using g by (simp_all add: L_def layout_ok_def)
  have "layout_ok L \<and> 2 \<le> ly_m L \<and> apsp_inv L (sy_start s g) []"
    using L by (simp add: apsp_inv_def L_def)
  then have "apsp_inv L sys out"
    using apsp.reach_inv [OF run] by simp
  then consider "sys = sy_start s g" "out = []" | A C where "running L A C sys out"
    by (auto simp: apsp_inv_def L_def)
  then show ?thesis
  proof cases
    case 1
    obtain A C s1 where s1: "sy_deliver (ToManager (ComputeFW g 1)) sys = Inr (s1, [])" "running L A C s1 []"
      using deliver_start [OF L] 1 by (auto simp: L_def)
    have "sy_allowed (ToManager (ComputeFW g 1)) sys"
      using 1 by (simp add: sy_allowed_def sy_start_def)
    then have "reach sy_allowed sy_deliver sys s1 ([] @ [])"
      using s1(1) by (rule reach.next_step [OF reach.start])
    moreover obtain s' out' where "reach sy_allowed sy_deliver s1 s' out'" "sy_net s' = {#}" "out' = [compute_floyd_warshall g]"
      using can_finish [OF L s1(2)] by (auto simp: L_def)
    ultimately show ?thesis
      using reach_trans [of sy_allowed sy_deliver s1 s' out' sys "[]"] 1(2) by auto
  next
    case 2
    then show ?thesis
      using can_finish [OF L] by (simp add: L_def)
  qed
qed

theorem apsp_can_always_finish_witness:
  "\<exists>sys. reach sy_allowed sy_deliver (sy_start 1 [[0, 7], [1, 0 :: int]]) sys [[[0, 7], [1, 0]]] \<and> sy_net sys = {#}"
proof -
  have "compute_floyd_warshall [[0, 7], [1, 0 :: int]] = [[0, 7], [1, 0]]"
    by code_simp
  then show ?thesis
    using apsp_can_always_finish [OF example_graph _ _ reach.start] by auto
qed

text \<open>With a single block: the states of the system.\<close>

definition lone :: "'w matrix \<Rightarrow> 'w apsp_sys \<Rightarrow> bool" where
  "lone g s \<longleftrightarrow> s = sy_start (length g) g \<or>
     (\<exists>a. sy_blocks s = [0 \<mapsto> a] \<and> (sy_net s = {#ToBlock 0 (Neighbours [])#} \<or> sy_net s = {#}))"

lemma lone_start:
  assumes "nonneg n g" "0 < n"
  shows "\<exists>s'. sy_deliver (ToManager (ComputeFW g 1)) (sy_start n g) = Inr (s', []) \<and> lone g s'"
proof -
  define L where "L = \<lparr>ly_m = 1, ly_s = n, ly_g = g\<rparr>"
  have L: "layout_ok L" "nbrs L 0 = []" "ly_ids L = Suc 0" "ly_g L = g"
    using assms by (simp_all add: L_def layout_ok_def nbrs_def)
  then show ?thesis
    using distribute_eq [OF L(1), of "manager_with n"]
    by (simp add: sy_start_def L_def manager_with_def sy_emit_def lone_def block_actor_with_def) blast
qed

lemma lone_deliver:
  assumes g: "nonneg n g" "0 < n" and l: "lone g s" and p: "p \<in># sy_net s" and d: "sy_deliver p s = Inr (s', out')"
  shows "lone g s' \<and> out' = []"
proof -
  have len: "length g = n"
    using g(1) square_length by (auto simp: nonneg_def)
  consider "s = sy_start n g" | a where "sy_blocks s = [0 \<mapsto> a]" "sy_net s = {#ToBlock 0 (Neighbours [])#}"
    using l p len by (auto simp: lone_def)
  then show ?thesis
  proof cases
    case 1
    then show ?thesis
      using lone_start [OF g] p d by (auto simp: sy_start_def)
  next
    case 2
    then show ?thesis
      using p d by (auto simp: sy_emit_def notify_neighbours_def rassert_def lone_def)
  qed
qed

text \<open>C22: A graph of a single block is never computed: its actor has no neighbours, only their results start a phase, so the latch is
  never counted down, although nothing stays in flight.\<close>

theorem single_block_never_finishes:
  fixes g :: "'w::{ordered_comm_monoid_add,linorder} matrix"
  assumes g: "nonneg n g" "0 < n" and run: "reach sy_allowed sy_deliver (sy_start n g) sys out"
  shows "out = []"
proof -
  have "lone g sys \<and> out = []"
    using run
  proof (induction rule: reach.induct)
    case start
    then show ?case
      using g(1) square_length by (auto simp: lone_def nonneg_def)
  next
    case (next_step s out p s' out')
    then show ?case
      using lone_deliver [OF g, of s p s' out'] by (simp add: sy_allowed_def)
  qed
  then show ?thesis
    by simp
qed

theorem single_block_never_finishes_witness:
  "{out. \<exists>sys. reach sy_allowed sy_deliver (sy_start 2 [[0, 7], [1, 0 :: int]]) sys out} = {[]}"
  using single_block_never_finishes [of 2 "[[0, 7], [1, 0 :: int]]"] example_graph reach.start by fastforce

end
