(* ===== verification/Float64.thy ===== *)
theory Float64
  imports Rust_Prelude "HOL-Library.Log_Nat"
begin

text \<open>
  Rust's \<open>i64\<close> and \<open>f64\<close>. An \<open>f64\<close> is its 64 bits: a sign, eleven bits of exponent and 52 bits of fraction. A
  finite number is an integral multiple of \<open>2\<^sup>-\<^sup>1\<^sup>0\<^sup>7\<^sup>5\<close>, half of the smallest positive number; all arithmetic is
  done on these multiples and rounded to the nearest number, ties to even. The lemmas bound the error of rounding.
\<close>

type_synonym i64 = "64 word"
type_synonym f64 = "64 word"

definition checked_add :: "i64 \<Rightarrow> i64 \<Rightarrow> i64 option" where
  "checked_add a b = (if - (2 ^ 63) \<le> sint a + sint b \<and> sint a + sint b < 2 ^ 63 then Some (a + b) else None)"

subsection \<open>Reading the bits\<close>

definition fl_neg :: "f64 \<Rightarrow> bool" where
  "fl_neg a \<longleftrightarrow> unat a \<ge> 2 ^ 63"

definition fl_finite :: "f64 \<Rightarrow> bool" where
  "fl_finite a \<longleftrightarrow> unat a mod 2 ^ 63 < 2047 * 2 ^ 52"

definition fl_nan :: "f64 \<Rightarrow> bool" where
  "fl_nan a \<longleftrightarrow> unat a mod 2 ^ 63 > 2047 * 2 ^ 52"

text \<open>The magnitude of bits without their sign, in units of \<open>2\<^sup>-\<^sup>1\<^sup>0\<^sup>7\<^sup>5\<close>.\<close>

definition bits_mag :: "nat \<Rightarrow> nat" where
  "bits_mag b = (let e = b div 2 ^ 52; f = b mod 2 ^ 52 in 2 * (if e = 0 then f else (2 ^ 52 + f) * 2 ^ (e - 1)))"

definition fl_mag :: "f64 \<Rightarrow> nat" where
  "fl_mag a = bits_mag (unat a mod 2 ^ 63)"

definition fl_units :: "f64 \<Rightarrow> int" where
  "fl_units a = (if fl_neg a then - int (fl_mag a) else int (fl_mag a))"

subsection \<open>Rounding and the operations\<close>

definition round_shift :: "nat \<Rightarrow> nat" where
  "round_shift n = max 1 (floorlog 2 n - 53)"

definition round_half_even :: "nat \<Rightarrow> nat \<Rightarrow> nat" where
  "round_half_even n k =
    (let q = n div 2 ^ k; r = n mod 2 ^ k
     in if 2 * r > 2 ^ k \<or> 2 * r = 2 ^ k \<and> odd q then q + 1 else q)"

definition round_bits :: "nat \<Rightarrow> nat" where
  "round_bits n = min (2047 * 2 ^ 52) ((round_shift n - 1) * 2 ^ 52 + round_half_even n (round_shift n))"

definition fl_round :: "bool \<Rightarrow> nat \<Rightarrow> f64" where
  "fl_round neg n = word_of_nat ((if neg then 2 ^ 63 else 0) + round_bits n)"

text \<open>The number 1 in units.\<close>

definition f64_one :: nat where
  "f64_one = 2 ^ 1075"

definition f64_of_i64 :: "i64 \<Rightarrow> f64" where
  "f64_of_i64 x = fl_round (sint x < 0) (nat \<bar>sint x\<bar> * f64_one)"

definition f64_half :: "f64 \<Rightarrow> f64" where
  "f64_half a = (if fl_finite a then fl_round (fl_neg a) (fl_mag a div 2) else a)"

definition f64_nan :: f64 where
  "f64_nan = 0x7ff8000000000000"

definition f64_add :: "f64 \<Rightarrow> f64 \<Rightarrow> f64" where
  "f64_add a b =
    (if fl_finite a \<and> fl_finite b then
       let n = fl_units a + fl_units b
       in if n = 0 then (if fl_neg a \<and> fl_neg b then 2 ^ 63 else 0) else fl_round (n < 0) (nat \<bar>n\<bar>)
     else if fl_nan a \<or> fl_nan b \<or> \<not> fl_finite a \<and> \<not> fl_finite b \<and> fl_neg a \<noteq> fl_neg b then f64_nan
     else if fl_finite a then b else a)"

subsection \<open>The error of rounding\<close>

lemma round_half_even_error:
  "\<bar>int (round_half_even n k * 2 ^ k) - int n\<bar> * 2 \<le> 2 ^ k"
proof -
  define q r where "q = n div 2 ^ k" and "r = n mod 2 ^ k"
  have n: "int n = int q * 2 ^ k + int r" and r: "int r < 2 ^ k"
    using div_mult_mod_eq [of n "2 ^ k"] unfolding q_def r_def
    by (metis of_nat_add of_nat_mult of_nat_numeral of_nat_power,
        metis mod_less_divisor of_nat_less_iff of_nat_numeral of_nat_power zero_less_numeral zero_less_power)
  have "int (2 * r) > int (2 ^ k) \<longleftrightarrow> 2 * r > 2 ^ k" "int (2 * r) = int (2 ^ k) \<longleftrightarrow> 2 * r = 2 ^ k"
    by (simp_all only: of_nat_less_iff of_nat_eq_iff)
  then show ?thesis
    using n r by (auto simp: round_half_even_def Let_def q_def [symmetric] r_def [symmetric] distrib_right)
qed

lemma round_half_even_exact: "2 ^ k dvd n \<Longrightarrow> round_half_even n k * 2 ^ k = n"
  by (auto simp: round_half_even_def Let_def)

lemma bits_mag_normal:
  assumes "1 \<le> k" "m \<le> 2 ^ 53" "k = 1 \<or> 2 ^ 52 \<le> m"
  shows "bits_mag ((k - 1) * 2 ^ 52 + m) = m * 2 ^ k"
proof (cases "m < 2 ^ 52")
  case True
  then show ?thesis
    using assms by (simp add: bits_mag_def)
next
  case False
  have k: "(2::nat) ^ k = 2 * 2 ^ (k - 1)"
    using assms(1) by (cases k) simp_all
  show ?thesis
  proof (cases "m = 2 ^ 53")
    case True
    have "(k - 1) * 2 ^ 52 + m = (k + 1) * 2 ^ 52"
      using assms(1) True by (simp add: diff_mult_distrib)
    then show ?thesis
      using True k assms(1) by (simp add: bits_mag_def)
  next
    case m: False
    define f where "f = m - 2 ^ 52"
    have "(k - 1) * 2 ^ 52 + m = k * 2 ^ 52 + f" "f < 2 ^ 52" "m = 2 ^ 52 + f"
      using assms m False by (simp_all add: f_def diff_mult_distrib)
    then show ?thesis
      using k assms(1) by (simp add: bits_mag_def)
  qed
qed

lemma round_quot_less: "n div 2 ^ round_shift n < 2 ^ 53"
proof -
  have "floorlog 2 n \<le> round_shift n + 53"
    by (auto simp: round_shift_def)
  then have "n < 2 ^ (round_shift n + 53)"
    using floorlog_leD [of 2 n "round_shift n + 53"] by (cases "n = 0") auto
  then show ?thesis
    by (simp add: power_add less_mult_imp_div_less mult.commute)
qed

lemma round_half_even_le: "round_half_even n (round_shift n) \<le> 2 ^ 53"
  using round_quot_less [of n] by (auto simp: round_half_even_def Let_def)

lemma round_bits_mag:
  assumes "n < 2 ^ 2098"
  shows "bits_mag (round_bits n) = round_half_even n (round_shift n) * 2 ^ round_shift n \<and> round_bits n < 2047 * 2 ^ 52"
proof -
  define k m where "k = round_shift n" and "m = round_half_even n k"
  have k1: "1 \<le> k" and m: "m \<le> 2 ^ 53"
    using round_half_even_le [of n] by (auto simp: k_def m_def round_shift_def)
  have "2 ^ 52 \<le> m" if "k \<noteq> 1"
  proof -
    have "floorlog 2 n = k + 53"
      using that by (auto simp: k_def round_shift_def max_def split: if_splits)
    then have "2 ^ (k + 52) \<le> n"
      using floorlog_geD [of "k + 53" 2 n] by (simp add: add.commute)
    then have "2 ^ 52 \<le> n div 2 ^ k"
      by (simp add: power_add less_eq_div_iff_mult_less_eq mult.commute)
    then show ?thesis
      by (auto simp: m_def round_half_even_def Let_def)
  qed
  then have mag: "bits_mag ((k - 1) * 2 ^ 52 + m) = m * 2 ^ k"
    using bits_mag_normal [OF k1 m] by blast
  have "floorlog 2 n \<le> 2098"
    using assms by (cases "n = 0") (auto intro: floorlog_leI)
  then have "k \<le> 2045"
    by (simp add: k_def round_shift_def)
  then have "(k - 1) * 2 ^ 52 + m < 2047 * 2 ^ 52"
    using m mult_le_mono1 [of "k - 1" 2044 "2 ^ 52"] by simp
  then show ?thesis
    using mag by (simp add: round_bits_def k_def [symmetric] m_def [symmetric])
qed

lemma fl_round_parts:
  assumes "n < 2 ^ 2098"
  shows "fl_neg (fl_round neg n) = neg \<and> fl_finite (fl_round neg n)
    \<and> fl_mag (fl_round neg n) = round_half_even n (round_shift n) * 2 ^ round_shift n"
proof -
  define b where "b = round_bits n"
  have b: "b < 2047 * 2 ^ 52" "bits_mag b = round_half_even n (round_shift n) * 2 ^ round_shift n"
    using round_bits_mag [OF assms] by (simp_all add: b_def)
  have "unat (fl_round neg n) = (if neg then 2 ^ 63 else 0) + b"
    unfolding fl_round_def b_def [symmetric] using b(1) by (intro unat_of_nat_u64) simp
  moreover have "((if neg then 2 ^ 63 else 0) + b) mod 2 ^ 63 = b"
    using b(1) by simp
  ultimately show ?thesis
    using b by (simp add: fl_neg_def fl_finite_def fl_mag_def)
qed

lemma round_shift_le:
  assumes "n = m * 2 ^ j" "m \<le> 2 ^ 53" "1 \<le> j"
  shows "2 ^ round_shift n dvd n"
proof (cases "m = 2 ^ 53")
  case True
  then have "n = 2 ^ (53 + j)"
    using assms(1) by (simp add: power_add)
  moreover from this have "floorlog 2 n \<le> 54 + j"
    by (intro floorlog_leI) simp_all
  ultimately show ?thesis
    using assms(3) by (auto simp: round_shift_def intro: le_imp_power_dvd)
next
  case False
  then have "n < 2 ^ (53 + j)"
    using assms(1,2) by (simp add: power_add)
  then have "floorlog 2 n \<le> 53 + j"
    by (cases "n = 0") (auto intro: floorlog_leI)
  then have "round_shift n \<le> j"
    using assms(3) by (simp add: round_shift_def)
  then show ?thesis
    using assms(1) by (simp add: le_imp_power_dvd dvd_mult)
qed

lemma fl_round_exact:
  assumes "n = m * 2 ^ j" "m \<le> 2 ^ 53" "1 \<le> j" "n < 2 ^ 2098"
  shows "fl_mag (fl_round neg n) = n"
  using fl_round_parts [OF assms(4)] round_half_even_exact [OF round_shift_le [OF assms(1-3)]] by simp

lemma fl_round_error:
  assumes "even n" "n < 2 ^ 2098"
  shows "\<bar>int (fl_mag (fl_round neg n)) - int n\<bar> * 2 ^ 53 \<le> int n"
proof (cases "round_shift n = 1")
  case True
  then show ?thesis
    using fl_round_parts [OF assms(2)] round_half_even_exact [of 1 n] assms(1) by simp
next
  case False
  define k where "k = round_shift n"
  have "floorlog 2 n = k + 53"
    using False by (auto simp: k_def round_shift_def max_def split: if_splits)
  then have "2 ^ (k + 52) \<le> n"
    using floorlog_geD [of "k + 53" 2 n] by (simp add: add.commute)
  then have n: "2 ^ k * 2 ^ 52 \<le> int n"
    by (metis of_nat_le_iff of_nat_numeral of_nat_power power_add)
  have "\<bar>int (fl_mag (fl_round neg n)) - int n\<bar> * 2 \<le> 2 ^ k"
    using fl_round_parts [OF assms(2)] round_half_even_error [of n k] by (simp add: k_def)
  then have "\<bar>int (fl_mag (fl_round neg n)) - int n\<bar> * 2 * 2 ^ 52 \<le> 2 ^ k * 2 ^ 52"
    by (intro mult_right_mono) simp_all
  then show ?thesis
    using n by simp
qed

text \<open>The nearest number to an integral number of units.\<close>

definition fl_near :: "int \<Rightarrow> f64" where
  "fl_near i = fl_round (i < 0) (nat \<bar>i\<bar>)"

lemma fl_near_finite: "\<bar>i\<bar> < 2 ^ 2098 \<Longrightarrow> fl_finite (fl_near i) \<and> fl_neg (fl_near i) = (i < 0)"
  using fl_round_parts [of "nat \<bar>i\<bar>"] by (simp add: fl_near_def nat_less_iff)

lemma fl_near_units:
  assumes "\<bar>i\<bar> < 2 ^ 2098"
  shows "fl_units (fl_near i) = (if i < 0 then - 1 else 1) * int (fl_mag (fl_near i))"
  using fl_near_finite [OF assms] by (simp add: fl_units_def)

lemma fl_near_error:
  assumes "even i" "\<bar>i\<bar> < 2 ^ 2098"
  shows "\<bar>fl_units (fl_near i) - i\<bar> * 2 ^ 53 \<le> \<bar>i\<bar>"
proof -
  have "\<bar>int (fl_mag (fl_near i)) - \<bar>i\<bar>\<bar> * 2 ^ 53 \<le> \<bar>i\<bar>"
    using fl_round_error [of "nat \<bar>i\<bar>" "i < 0"] assms by (simp add: fl_near_def nat_less_iff even_nat_iff)
  moreover have "\<bar>fl_units (fl_near i) - i\<bar> = \<bar>int (fl_mag (fl_near i)) - \<bar>i\<bar>\<bar>"
    using fl_near_units [OF assms(2)] by (auto simp: abs_if)
  ultimately show ?thesis
    by simp
qed

lemma fl_near_exact:
  assumes "i = m * 2 ^ j" "\<bar>m\<bar> \<le> 2 ^ 53" "1 \<le> j" "\<bar>i\<bar> < 2 ^ 2098"
  shows "fl_units (fl_near i) = i"
proof -
  have "nat \<bar>i\<bar> = nat \<bar>m\<bar> * 2 ^ j"
    by (simp add: assms(1) abs_mult nat_mult_distrib nat_power_eq)
  then have "fl_mag (fl_near i) = nat \<bar>i\<bar>"
    unfolding fl_near_def using assms by (intro fl_round_exact [of _ "nat \<bar>m\<bar>" j]) (auto simp: nat_less_iff nat_le_iff)
  then show ?thesis
    using fl_near_units [OF assms(4)] by simp
qed

lemma i64_range: "\<bar>sint (x :: i64)\<bar> \<le> 2 ^ 63"
  using sint_range_size [of x] by (auto simp: word_size abs_le_iff)

lemma f64_one_pos: "0 < int f64_one"
  by (simp add: f64_one_def del: power_numeral of_nat_power)

lemma i64_units: "\<bar>sint (x :: i64) * int f64_one\<bar> \<le> 2 ^ 1138"
proof -
  have "\<bar>sint x\<bar> * int f64_one \<le> 2 ^ 63 * int f64_one"
    by (intro mult_right_mono i64_range) simp
  also have "(2::int) ^ 63 * int f64_one = 2 ^ 1138"
    unfolding f64_one_def of_nat_power of_nat_numeral power_add [symmetric] by (rule arg_cong [of _ _ "(^) 2"]) simp
  finally show ?thesis
    by (simp add: abs_mult del: power_numeral)
qed

lemma units_range: "\<bar>i\<bar> \<le> 2 ^ 1139 \<Longrightarrow> \<bar>i\<bar> < (2::int) ^ 2098"
  by (erule order.strict_trans1) (rule power_strict_increasing; simp)

lemma i64_units_range: "\<bar>sint (x :: i64) * int f64_one\<bar> < 2 ^ 2098"
proof -
  have "(2::int) ^ 1138 \<le> 2 ^ 1139"
    by (rule power_increasing) simp_all
  then show ?thesis
    by (intro units_range order.trans [OF i64_units])
qed

lemma even_i64_units: "even (sint (x :: i64) * int f64_one)"
  by (simp add: f64_one_def del: power_numeral)

lemma f64_of_i64_near: "f64_of_i64 x = fl_near (sint x * int f64_one)"
  using f64_one_pos by (simp add: f64_of_i64_def fl_near_def abs_mult nat_mult_distrib mult_less_0_iff)

lemma f64_of_i64_error: "\<bar>fl_units (f64_of_i64 x) - sint x * int f64_one\<bar> * 2 ^ 53 \<le> \<bar>sint x * int f64_one\<bar>"
  unfolding f64_of_i64_near by (rule fl_near_error [OF even_i64_units i64_units_range])

lemma f64_of_i64_exact:
  assumes "\<bar>sint x\<bar> \<le> 2 ^ 53"
  shows "fl_units (f64_of_i64 x) = sint x * int f64_one"
  unfolding f64_of_i64_near
  by (rule fl_near_exact [OF _ assms _ i64_units_range, where j = 1075])
    (simp_all add: f64_one_def del: power_numeral)

text \<open>Halving a converted integer is exact.\<close>

lemma round_shift_large:
  assumes "2 ^ 1075 dvd n" "n \<noteq> 0"
  shows "2 \<le> round_shift n"
proof -
  have "2 ^ (Suc 54) \<le> (2::nat) ^ 1075"
    by (rule power_increasing) simp_all
  then have "2 ^ (Suc 54) \<le> n"
    using dvd_imp_le [OF assms(1)] assms(2) by linarith
  then have "Suc (Suc 54) \<le> floorlog 2 n"
    by (intro floorlog_ge_SucI) simp_all
  then show ?thesis
    by (simp add: round_shift_def)
qed

lemma f64_half_of_i64:
  "2 * fl_units (f64_half (f64_of_i64 x)) = fl_units (f64_of_i64 x) \<and> fl_finite (f64_half (f64_of_i64 x))"
proof -
  define n where "n = nat \<bar>sint x\<bar> * f64_one"
  define k m where "k = round_shift n" and "m = round_half_even n k"
  have n: "n < 2 ^ 2098"
    using i64_units_range [of x] by (simp add: n_def abs_mult flip: of_nat_less_iff [where 'a = int])
  have parts: "fl_neg (f64_of_i64 x) = (sint x < 0)" "fl_finite (f64_of_i64 x)" "fl_mag (f64_of_i64 x) = m * 2 ^ k"
    using fl_round_parts [OF n, of "sint x < 0"] by (simp_all add: f64_of_i64_def n_def [symmetric] k_def m_def)
  define j where "j = k - 1"
  have k: "k = Suc j"
    by (simp add: j_def k_def round_shift_def)
  have j: "m * 2 ^ j = 0 \<or> 1 \<le> j"
  proof (cases "n = 0")
    case False
    then show ?thesis
      using round_shift_large [of n] by (auto simp: j_def k_def n_def f64_one_def simp del: power_numeral)
  qed (simp add: m_def round_half_even_def)
  have m: "m \<le> 2 ^ 53"
    using round_half_even_le [of n] by (simp add: m_def k_def)
  have half: "f64_half (f64_of_i64 x) = fl_round (sint x < 0) (m * 2 ^ j)"
    using parts by (simp add: f64_half_def k)
  have "floorlog 2 n \<le> 2098"
    using n by (cases "n = 0") (auto intro: floorlog_leI simp del: power_numeral)
  then have "53 + j < 2098"
    by (simp add: j_def k_def round_shift_def)
  then have "(2::nat) ^ 53 * 2 ^ j < 2 ^ 2098"
    unfolding power_add [symmetric] by (intro power_strict_increasing) simp_all
  then have range: "m * 2 ^ j < 2 ^ 2098"
    using mult_le_mono1 [OF m, of "2 ^ j"] by linarith
  have "fl_mag (fl_round (sint x < 0) (m * 2 ^ j)) = m * 2 ^ j"
    using j fl_round_exact [OF refl m _ range] fl_round_exact [of "m * 2 ^ j" 0 1] range by (auto simp del: power_numeral)
  then show ?thesis
    using fl_round_parts [OF range, of "sint x < 0"] half parts
    by (cases "sint x < 0") (simp_all add: fl_units_def k)
qed

lemma f64_add_near:
  assumes "fl_finite a" "fl_finite b" "even (fl_units a + fl_units b)" "\<bar>fl_units a + fl_units b\<bar> < 2 ^ 2098"
  shows "\<bar>fl_units (f64_add a b) - (fl_units a + fl_units b)\<bar> * 2 ^ 53 \<le> \<bar>fl_units a + fl_units b\<bar>"
proof (cases "fl_units a + fl_units b = 0")
  case True
  then show ?thesis
    using assms by (simp add: f64_add_def fl_units_def fl_mag_def bits_mag_def)
next
  case False
  then have "f64_add a b = fl_near (fl_units a + fl_units b)"
    using assms(1,2) by (simp add: f64_add_def fl_near_def Let_def)
  then show ?thesis
    using fl_near_error [OF assms(3,4)] by simp
qed

end
