(* ===== verification/Streaming_Windows.thy ===== *)
theory Streaming_Windows
  imports Byte_Buffer Float64 "HOL-Library.Multiset"
begin

text \<open>
  The actors of the streaming windows benchmark (\<open>bench/streaming_windows.rs\<close>): a source of random numbers, a windower that
  sends the median of each window downstream and gives the source new credit, and a sink that counts windows; with
  their wire formats. The random generator of the \<open>rand\<close> crate is the parameter \<open>gen\<close>; actor paths are opaque;
  a latch is its counter and the promise of an \<open>Ask\<close> is a number.
\<close>

subsection \<open>Messages\<close>

datatype WindowerMsg = WindowerStart | WindowerStop | WindowerEvent u64 u32 i64 | WindowerFlush

datatype SourceMsg = SourceReset nat | SourceNext | SourceReady u64 | SourceFlushed

datatype SinkMsg = SinkRun | SinkWindowAggregate u64 u32 f64

fun windower_size_hint :: "WindowerMsg \<Rightarrow> nat option" where
  "windower_size_hint WindowerStart = Some 1"
| "windower_size_hint WindowerStop = Some 1"
| "windower_size_hint (WindowerEvent ts partition_id v) = Some 21"
| "windower_size_hint WindowerFlush = Some 1"

fun serialise_windower :: "WindowerMsg \<Rightarrow> bytes" where
  "serialise_windower WindowerStart = put_u8 1"
| "serialise_windower WindowerStop = put_u8 2"
| "serialise_windower (WindowerEvent ts partition_id v) = put_u8 3 @ put_u64 ts @ put_u32 partition_id @ put_u64 v"
| "serialise_windower WindowerFlush = put_u8 4"

definition deserialise_windower :: "WindowerMsg getter" where
  "deserialise_windower = gbind get_u8 (\<lambda>flag.
     if flag = 1 then gret WindowerStart
     else if flag = 2 then gret WindowerStop
     else if flag = 3 then
       gbind get_u64 (\<lambda>ts. gbind get_u32 (\<lambda>pid. gbind get_u64 (\<lambda>v. gret (WindowerEvent ts pid v))))
     else if flag = 4 then gret WindowerFlush
     else gfail Unknown)"

fun source_size_hint :: "SourceMsg \<Rightarrow> nat option" where
  "source_size_hint (SourceReset ask) = None"
| "source_size_hint SourceNext = None"
| "source_size_hint (SourceReady bs) = Some 9"
| "source_size_hint SourceFlushed = Some 1"

fun serialise_source :: "SourceMsg \<Rightarrow> bytes rust" where
  "serialise_source (SourceReset ask) = Inl PanicCall"
| "serialise_source SourceNext = Inl PanicCall"
| "serialise_source (SourceReady bs) = Inr (put_u8 1 @ put_u64 bs)"
| "serialise_source SourceFlushed = Inr (put_u8 2)"

definition deserialise_source :: "SourceMsg getter" where
  "deserialise_source = gbind get_u8 (\<lambda>flag.
     if flag = 1 then gbind get_u64 (\<lambda>bs. gret (SourceReady bs))
     else if flag = 2 then gret SourceFlushed
     else gfail Unknown)"

fun sink_size_hint :: "SinkMsg \<Rightarrow> nat option" where
  "sink_size_hint SinkRun = None"
| "sink_size_hint (SinkWindowAggregate ts partition_id v) = Some 20"

fun serialise_sink :: "SinkMsg \<Rightarrow> bytes rust" where
  "serialise_sink SinkRun = Inl PanicCall"
| "serialise_sink (SinkWindowAggregate ts partition_id v) = Inr (put_u64 ts @ put_u32 partition_id @ put_u64 v)"

definition deserialise_sink :: "SinkMsg getter" where
  "deserialise_sink bs =
    (if length bs < 20 then Inl Unknown
     else gbind get_u64 (\<lambda>ts. gbind get_u32 (\<lambda>pid. gbind get_u64 (\<lambda>v. gret (SinkWindowAggregate ts pid v)))) bs)"

text \<open>The bytes of a message that may be sent; the others make the serialiser panic.\<close>

definition wire :: "bytes rust \<Rightarrow> bytes" where
  "wire r = (case r of Inl e \<Rightarrow> [] | Inr bs \<Rightarrow> bs)"

definition sendable :: "bytes rust \<Rightarrow> bool" where
  "sendable r \<longleftrightarrow> (\<exists>bs. r = Inr bs)"

lemma wire_simps [simp]: "wire (Inr bs) = bs" "sendable (Inr bs)" "\<not> sendable (Inl e)"
  by (simp_all add: wire_def sendable_def)

interpretation windower_codec: exact_codec serialise_windower deserialise_windower "\<lambda>_. True"
proof
  show "deserialise_windower (serialise_windower x @ rest) = Inr (x, rest)" for x rest
    by (cases x) (simp_all add: deserialise_windower_def codec_simps)
  show "frugal deserialise_windower"
    unfolding deserialise_windower_def by (intro frugal_intros)
  show "bs = serialise_windower x @ rest" if "deserialise_windower bs = Inr (x, rest)" for bs x rest
    using that by (auto simp: deserialise_windower_def gbind_eq_Inr split: if_splits dest!: get_exacts)
qed simp

interpretation source_codec: exact_codec "\<lambda>m. wire (serialise_source m)" deserialise_source "\<lambda>m. sendable (serialise_source m)"
proof
  show "deserialise_source (wire (serialise_source x) @ rest) = Inr (x, rest)" if "sendable (serialise_source x)" for x rest
    using that by (cases x) (simp_all add: deserialise_source_def codec_simps)
  show "sendable (serialise_source x)" if "deserialise_source bs = Inr (x, rest)" for bs x rest
    using that by (auto simp: deserialise_source_def gbind_eq_Inr split: if_splits)
  show "frugal deserialise_source"
    unfolding deserialise_source_def by (intro frugal_intros)
  show "bs = wire (serialise_source x) @ rest" if "deserialise_source bs = Inr (x, rest)" for bs x rest
    using that by (auto simp: deserialise_source_def gbind_eq_Inr split: if_splits dest!: get_exacts)
qed

interpretation sink_codec: exact_codec "\<lambda>m. wire (serialise_sink m)" deserialise_sink "\<lambda>m. sendable (serialise_sink m)"
proof
  show "deserialise_sink (wire (serialise_sink x) @ rest) = Inr (x, rest)" if "sendable (serialise_sink x)" for x rest
    using that by (cases x) (simp_all add: deserialise_sink_def codec_simps)
  show "sendable (serialise_sink x)" if "deserialise_sink bs = Inr (x, rest)" for bs x rest
    using that by (auto simp: deserialise_sink_def gbind_eq_Inr split: if_splits)
  show "frugal deserialise_sink"
    by (fastforce simp: frugal_def deserialise_sink_def gbind_eq_Inr dest!: get_exacts split: if_splits)
  show "bs = wire (serialise_sink x) @ rest" if "deserialise_sink bs = Inr (x, rest)" for bs x rest
    using that by (auto simp: deserialise_sink_def gbind_eq_Inr split: if_splits dest!: get_exacts)
qed

lemma windower_size_exact: "windower_size_hint m = Some (length (serialise_windower m))"
  by (cases m) simp_all

lemma source_size_exact:
  "source_size_hint m = (if sendable (serialise_source m) then Some (length (wire (serialise_source m))) else None)"
  by (cases m) simp_all

lemma sink_size_exact:
  "sink_size_hint m = (if sendable (serialise_sink m) then Some (length (wire (serialise_sink m))) else None)"
  by (cases m) simp_all

subsection \<open>The windower\<close>

record 'p Windower =
  wi_window_size_ms :: u64
  wi_batch_size :: u64
  wi_amplification :: u64
  wi_upstream :: 'p
  wi_ready_mark :: u64
  wi_downstream :: "'p option"
  wi_current_window :: "i64 list"
  wi_window_start_ts :: u64
  wi_received_since_ready :: u64
  wi_running :: bool

datatype 'p sw_out =
    TellSource 'p SourceMsg
  | TellWindower 'p WindowerMsg
  | TellSink 'p SinkMsg
  | TellSelfNext
  | ReplyReset nat
  | CountDown

text \<open>\<open>window_size\<close> is the number of milliseconds of the duration.\<close>

definition windower_with :: "nat \<Rightarrow> u64 \<Rightarrow> u64 \<Rightarrow> 'p \<Rightarrow> 'p Windower" where
  "windower_with window_size batch_size amplification upstream =
    \<lparr>wi_window_size_ms = word_of_nat window_size, wi_batch_size = batch_size, wi_amplification = amplification,
     wi_upstream = upstream, wi_ready_mark = batch_size div 2, wi_downstream = None, wi_current_window = [],
     wi_window_start_ts = 0, wi_received_since_ready = 0, wi_running = False\<rparr>"

definition window_end :: "'p Windower \<Rightarrow> u64" where
  "window_end w = wi_window_start_ts w + wi_window_size_ms w"

text \<open>The median of a sorted and non-empty window.\<close>

definition window_median :: "i64 list \<Rightarrow> f64" where
  "window_median window =
    (let len = length window
     in if len mod 2 = 0 then
          let upper_middle = len div 2; lower_middle = upper_middle - 1;
              um_value = window ! upper_middle; lm_value = window ! lower_middle
          in case checked_add lm_value um_value of
               Some middles \<Rightarrow> f64_half (f64_of_i64 middles)
             | None \<Rightarrow>
               let um_double = f64_half (f64_of_i64 um_value); lm_double = f64_half (f64_of_i64 lm_value)
               in f64_add lm_double um_double
        else f64_of_i64 (window ! (len div 2)))"

definition trigger_window :: "u32 \<Rightarrow> 'p Windower \<Rightarrow> ('p Windower, 'p sw_out) handled" where
  "trigger_window partition_id w =
    (if wi_current_window w = [] then Inr (w, [])
     else let median = window_median (sort_key sint (wi_current_window w));
              w = w\<lparr>wi_current_window := []\<rparr>
          in case wi_downstream w of
               Some downstream \<Rightarrow>
                 Inr (w, [TellSink downstream (SinkWindowAggregate (wi_window_start_ts w) partition_id median)])
             | None \<Rightarrow> Inl PanicCall)"

definition manage_ready :: "'p Windower \<Rightarrow> ('p Windower, 'p sw_out) handled" where
  "manage_ready w =
    (let w = w\<lparr>wi_received_since_ready := wi_received_since_ready w + 1\<rparr>
     in if wi_received_since_ready w > wi_ready_mark w
        then Inr (w\<lparr>wi_received_since_ready := 0\<rparr>, [TellSource (wi_upstream w) (SourceReady (wi_received_since_ready w))])
        else Inr (w, []))"

text \<open>\<open>Vec::reserve\<close> panics when the vector would take more than \<open>isize::MAX\<close> bytes.\<close>

definition push_amplified :: "i64 \<Rightarrow> 'p Windower \<Rightarrow> ('p Windower, 'p sw_out) handled" where
  "push_amplified v w =
    (if 8 * (length (wi_current_window w) + unat (wi_amplification w)) \<ge> 2 ^ 63 then Inl Overflow
     else Inr (w\<lparr>wi_current_window := wi_current_window w @ replicate (unat (wi_amplification w)) v\<rparr>, []))"

fun windower_receive :: "'p option \<Rightarrow> WindowerMsg \<Rightarrow> 'p Windower \<Rightarrow> ('p Windower, 'p sw_out) handled" where
  "windower_receive sender WindowerStart w =
    (if wi_running w then Inl PanicCall
     else Inr (w\<lparr>wi_downstream := sender, wi_running := True, wi_received_since_ready := 0\<rparr>,
               [TellSource (wi_upstream w) (SourceReady (wi_batch_size w))]))"
| "windower_receive sender WindowerStop w =
    (if wi_running w
     then Inr (w\<lparr>wi_running := False, wi_current_window := [], wi_downstream := None, wi_window_start_ts := 0\<rparr>, [])
     else Inl PanicCall)"
| "windower_receive sender (WindowerEvent ts pid v) w =
    (if wi_running w then
       step_then (if ts \<ge> window_end w
                  then step_then (trigger_window pid w) (\<lambda>w. Inr (w\<lparr>wi_window_start_ts := ts\<rparr>, []))
                  else Inr (w, [])) (\<lambda>w.
       step_then (push_amplified v w) manage_ready)
     else Inr (w, []))"
| "windower_receive sender WindowerFlush w = Inr (w, [TellSource (wi_upstream w) SourceFlushed])"

subsection \<open>The source\<close>

record ('p, 'r) StreamSource =
  so_partition_id :: u32
  so_random :: 'r
  so_downstream :: "'p option"
  so_remaining :: u64
  so_current_ts :: u64
  so_flushing :: bool
  so_reply_on_flushed :: "nat option"

definition source_with :: "(u64 \<Rightarrow> 'r) \<Rightarrow> u32 \<Rightarrow> ('p, 'r) StreamSource" where
  "source_with seed_from_u64 partition_id =
    \<lparr>so_partition_id = partition_id, so_random = seed_from_u64 (ucast partition_id), so_downstream = None,
     so_remaining = 0, so_current_ts = 0, so_flushing = False, so_reply_on_flushed = None\<rparr>"

definition source_send :: "('r \<Rightarrow> i64 \<times> 'r) \<Rightarrow> ('p, 'r) StreamSource \<Rightarrow> (('p, 'r) StreamSource, 'p sw_out) handled" where
  "source_send gen s =
    (if so_remaining s > 0 then
       case so_downstream s of
         None \<Rightarrow> Inl PanicCall
       | Some downstream \<Rightarrow>
         let (v, random) = gen (so_random s);
             msg = WindowerEvent (so_current_ts s) (so_partition_id s) v;
             s = s\<lparr>so_random := random, so_current_ts := so_current_ts s + 1, so_remaining := so_remaining s - 1\<rparr>
         in Inr (s, TellWindower downstream msg # (if so_remaining s > 0 then [TellSelfNext] else []))
     else Inr (s, []))"

fun source_receive ::
  "('r \<Rightarrow> i64 \<times> 'r) \<Rightarrow> 'p option \<Rightarrow> SourceMsg \<Rightarrow> ('p, 'r) StreamSource \<Rightarrow> (('p, 'r) StreamSource, 'p sw_out) handled" where
  "source_receive gen sender (SourceReady batch_size) s =
    (if so_flushing s then Inr (s, [])
     else source_send gen (s\<lparr>so_remaining := so_remaining s + batch_size, so_downstream := sender\<rparr>))"
| "source_receive gen sender SourceNext s = (if so_flushing s then Inr (s, []) else source_send gen s)"
| "source_receive gen sender (SourceReset ask) s =
    (if so_flushing s then Inl PanicCall
     else case so_downstream s of
       None \<Rightarrow> Inl PanicCall
     | Some downstream \<Rightarrow>
       Inr (s\<lparr>so_flushing := True, so_reply_on_flushed := Some ask, so_downstream := None, so_current_ts := 0,
              so_remaining := 0\<rparr>, [TellWindower downstream WindowerFlush]))"
| "source_receive gen sender SourceFlushed s =
    (if so_flushing s
     then case so_reply_on_flushed s of
       None \<Rightarrow> Inl PanicCall
     | Some ask \<Rightarrow> Inr (s\<lparr>so_reply_on_flushed := None, so_flushing := False\<rparr>, [ReplyReset ask])
     else Inl PanicCall)"

subsection \<open>The sink\<close>

record 'p StreamSink =
  sk_latch :: nat
  sk_number_of_windows :: u64
  sk_upstream :: 'p
  sk_window_count :: u64

definition sink_with :: "nat \<Rightarrow> u64 \<Rightarrow> 'p \<Rightarrow> 'p StreamSink" where
  "sink_with latch number_of_windows upstream =
    \<lparr>sk_latch = latch, sk_number_of_windows = number_of_windows, sk_upstream = upstream, sk_window_count = 0\<rparr>"

fun sink_receive :: "SinkMsg \<Rightarrow> 'p StreamSink \<Rightarrow> ('p StreamSink, 'p sw_out) handled" where
  "sink_receive SinkRun k = Inr (k, [TellWindower (sk_upstream k) WindowerStart])"
| "sink_receive (SinkWindowAggregate ts partition_id median) k =
    (let k = k\<lparr>sk_window_count := sk_window_count k + 1\<rparr>
     in if sk_window_count k = sk_number_of_windows k then
          if sk_latch k = 0 then Inl UnwrapNone
          else Inr (k\<lparr>sk_latch := sk_latch k - 1\<rparr>, [CountDown, TellWindower (sk_upstream k) WindowerStop])
        else Inr (k, []))"

end
