(* ===== verification/Window_Median.thy ===== *)
theory Window_Median
  imports Streaming_Windows
begin

text \<open>
  What the windower computes for a window: the median of the received values, whatever the amplification, up to the
  precision of \<open>f64\<close>.
\<close>

subsection \<open>Sorting an amplified window\<close>

definition amplify :: "nat \<Rightarrow> 'a list \<Rightarrow> 'a list" where
  "amplify a xs = concat (map (replicate a) xs)"

lemma amplify_simps [simp]:
  "amplify a [] = []" "amplify a (x # xs) = replicate a x @ amplify a xs" "amplify a (xs @ ys) = amplify a xs @ amplify a ys"
  "length (amplify a xs) = a * length xs" "map f (amplify a xs) = amplify a (map f xs)"
  by (induction xs) (simp_all add: amplify_def map_concat)

lemma mset_amplify: "mset (amplify a xs) = repeat_mset a (mset xs)"
  by (induction xs) simp_all

lemma set_amplify: "set (amplify a xs) \<subseteq> set xs"
  by (induction xs) auto

lemma sorted_amplify: "sorted xs \<Longrightarrow> sorted (amplify a xs)"
proof (induction xs)
  case (Cons x xs)
  then show ?case
    using set_amplify [of a xs] by (auto simp: sorted_append)
qed simp

lemma sort_amplify: "sort (amplify a xs) = amplify a (sort xs)"
  by (rule properties_for_sort) (simp_all add: mset_amplify sorted_amplify)

lemma nth_amplify: "i < a * length xs \<Longrightarrow> amplify a xs ! i = xs ! (i div a)"
proof (induction xs arbitrary: i)
  case (Cons x xs)
  show ?case
  proof (cases "i < a")
    case False
    have "0 < a"
      using Cons.prems by (cases a) simp_all
    then have "i div a = Suc ((i - a) div a)" "i - a < a * length xs"
      using Cons.prems False by (simp_all add: le_div_geq)
    then show ?thesis
      using Cons.IH [of "i - a"] False by (simp add: nth_append)
  qed (simp add: nth_append)
qed simp

lemma map_sort_key_sint: "map sint (sort_key sint (xs :: i64 list)) = sort (map sint xs)"
  by (rule properties_for_sort [symmetric]) simp_all

subsection \<open>The median\<close>

text \<open>Twice the median of a sorted list: the sum of the two middle values, or twice the middle one.\<close>

definition twice_median :: "int list \<Rightarrow> int" where
  "twice_median xs = xs ! ((length xs - 1) div 2) + xs ! (length xs div 2)"

lemma twice_median_amplify:
  assumes "0 < a" "xs \<noteq> []"
  shows "twice_median (amplify a xs) = twice_median xs"
proof -
  define l where "l = length xs"
  have l: "0 < l"
    using assms(2) by (simp add: l_def)
  have "(a * l - 1) div 2 div a = (a * (l - 1) + (a - 1)) div a div 2"
    using assms(1) l by (simp add: div_mult2_eq [symmetric] mult.commute diff_mult_distrib2)
  also have "(a * (l - 1) + (a - 1)) div a = l - 1"
    using assms(1) by (intro div_nat_eqI) simp_all
  finally have "(a * l - 1) div 2 div a = (l - 1) div 2" .
  moreover have "a * l div 2 div a = l div 2"
    using assms(1) by (metis div_mult2_eq div_mult_mult1 mult.commute less_not_refl2)
  moreover have "0 < a * l"
    using assms(1) l by simp
  then have "a * l div 2 < a * l" "(a * l - 1) div 2 < a * l"
    by linarith+
  ultimately show ?thesis
    by (simp add: twice_median_def nth_amplify l_def [symmetric])
qed

lemma near_le:
  fixes x l :: int
  assumes "\<bar>x - l\<bar> * e \<le> \<bar>l\<bar>" "1 \<le> e"
  shows "\<bar>x\<bar> \<le> 2 * \<bar>l\<bar>"
proof -
  have "\<bar>x - l\<bar> * 1 \<le> \<bar>x - l\<bar> * e"
    using assms(2) by (intro mult_left_mono) simp_all
  then show ?thesis
    using assms(1) abs_triangle_ineq [of "x - l" l] by simp
qed

lemma half_add_error:
  fixes A B L U R :: int
  assumes "\<bar>2 * A - L\<bar> * e \<le> \<bar>L\<bar>" "\<bar>2 * B - U\<bar> * e \<le> \<bar>U\<bar>" "\<bar>R - (A + B)\<bar> * e \<le> \<bar>A + B\<bar>"
    and "0 \<le> L \<and> 0 \<le> U \<or> L \<le> 0 \<and> U \<le> 0" "4 \<le> e"
  shows "\<bar>2 * R - (L + U)\<bar> * e \<le> 4 * \<bar>L + U\<bar>"
proof -
  have s: "\<bar>L + U\<bar> = \<bar>L\<bar> + \<bar>U\<bar>"
    using assms(4) by auto
  have "\<bar>2 * (A + B) - (L + U)\<bar> \<le> \<bar>2 * A - L\<bar> + \<bar>2 * B - U\<bar>"
    using abs_triangle_ineq [of "2 * A - L" "2 * B - U"] by (simp add: algebra_simps)
  then have "\<bar>2 * (A + B) - (L + U)\<bar> * e \<le> (\<bar>2 * A - L\<bar> + \<bar>2 * B - U\<bar>) * e"
    using assms(5) by (intro mult_right_mono) simp_all
  then have ab: "\<bar>2 * (A + B) - (L + U)\<bar> * e \<le> \<bar>L + U\<bar>"
    using assms(1,2) s by (simp add: distrib_right)
  have "\<bar>2 * (A + B)\<bar> \<le> 2 * \<bar>L + U\<bar>"
    using assms(5) by (intro near_le [OF ab]) linarith
  then have "2 * \<bar>A + B\<bar> \<le> 2 * \<bar>L + U\<bar>"
    by (simp only: abs_mult abs_numeral)
  then have r: "(\<bar>R - (A + B)\<bar> * 2) * e \<le> 2 * \<bar>L + U\<bar>"
    using assms(3) by (simp add: mult.commute mult.left_commute)
  have "\<bar>2 * R - (L + U)\<bar> \<le> \<bar>R - (A + B)\<bar> * 2 + \<bar>2 * (A + B) - (L + U)\<bar>"
    by arith
  then have "\<bar>2 * R - (L + U)\<bar> * e \<le> (\<bar>R - (A + B)\<bar> * 2 + \<bar>2 * (A + B) - (L + U)\<bar>) * e"
    using assms(5) by (intro mult_right_mono) simp_all
  also have "\<dots> \<le> 2 * \<bar>L + U\<bar> + \<bar>L + U\<bar>"
    unfolding distrib_right by (rule add_mono [OF r ab])
  also have "\<dots> \<le> 4 * \<bar>L + U\<bar>"
    by simp
  finally show ?thesis .
qed

lemma sint_checked_add: "checked_add a b = Some c \<Longrightarrow> sint c = sint a + sint b"
  by (auto simp: checked_add_def sint_word_ariths signed_take_bit_int_eq_self split: if_splits)

lemma checked_add_overflow:
  "checked_add a b = None \<Longrightarrow> 0 \<le> sint a \<and> 0 \<le> sint b \<or> sint a \<le> 0 \<and> sint b \<le> 0"
  using sint_range_size [of a] sint_range_size [of b] by (auto simp: checked_add_def word_size split: if_splits)

lemma even_units: "even (fl_units a)"
  by (simp add: fl_units_def fl_mag_def bits_mag_def Let_def)

lemma i64_double_near: "2 * fl_units (f64_half (f64_of_i64 x)) = fl_units (f64_of_i64 x)"
  using f64_half_of_i64 by blast

text \<open>The branch of the median that adds the halves, because the sum of the middle values overflows.\<close>

lemma overflowing_median_error:
  assumes "checked_add a b = None"
  shows "\<bar>2 * fl_units (f64_add (f64_half (f64_of_i64 a)) (f64_half (f64_of_i64 b))) - (sint a + sint b) * int f64_one\<bar> * 2 ^ 53
    \<le> 4 * \<bar>(sint a + sint b) * int f64_one\<bar>"
proof -
  define A B where "A = fl_units (f64_half (f64_of_i64 a))" and "B = fl_units (f64_half (f64_of_i64 b))"
  define L U where "L = sint a * int f64_one" and "U = sint b * int f64_one"
  have near: "\<bar>2 * A - L\<bar> * 2 ^ 53 \<le> \<bar>L\<bar>" "\<bar>2 * B - U\<bar> * 2 ^ 53 \<le> \<bar>U\<bar>"
    using f64_of_i64_error by (simp_all only: A_def B_def L_def U_def i64_double_near)
  have small: "\<bar>L\<bar> \<le> 2 ^ 1138" "\<bar>U\<bar> \<le> 2 ^ 1138"
    unfolding L_def U_def by (rule i64_units)+
  have "\<bar>2 * A\<bar> \<le> 2 * \<bar>L\<bar>" "\<bar>2 * B\<bar> \<le> 2 * \<bar>U\<bar>"
    using near by (auto intro: near_le)
  then have "\<bar>A\<bar> + \<bar>B\<bar> \<le> 2 * 2 ^ 1138"
    using small by (simp add: abs_mult)
  then have "\<bar>A + B\<bar> \<le> 2 * 2 ^ 1138"
    using abs_triangle_ineq [of A B] by linarith
  then have "\<bar>A + B\<bar> < 2 ^ 2098"
    using units_range [of "A + B"] power_Suc [of "2 :: int" 1138] by (simp del: power_Suc)
  then have "\<bar>fl_units (f64_add (f64_half (f64_of_i64 a)) (f64_half (f64_of_i64 b))) - (A + B)\<bar> * 2 ^ 53 \<le> \<bar>A + B\<bar>"
    unfolding A_def B_def by (intro f64_add_near) (simp_all only: f64_half_of_i64 even_units even_add)
  moreover have "0 \<le> L \<and> 0 \<le> U \<or> L \<le> 0 \<and> U \<le> 0"
    using checked_add_overflow [OF assms] by (auto simp: L_def U_def mult_le_0_iff)
  ultimately have "\<bar>2 * fl_units (f64_add (f64_half (f64_of_i64 a)) (f64_half (f64_of_i64 b))) - (L + U)\<bar> * 2 ^ 53 \<le> 4 * \<bar>L + U\<bar>"
    by (intro half_add_error [OF near]) simp_all
  then show ?thesis
    by (simp only: L_def U_def distrib_right)
qed

lemma exact_enough: "0 \<le> (d::int) \<Longrightarrow> d * 2 ^ 53 \<le> m \<Longrightarrow> d * 2 ^ 53 \<le> 4 * m"
  by simp

text \<open>The error of the median of a sorted window with the middle values \<open>l\<close> and \<open>u\<close>.\<close>

lemma window_median_middles:
  assumes "window \<noteq> []" "l = sint (window ! ((length window - 1) div 2))" "u = sint (window ! (length window div 2))"
  shows "\<bar>2 * fl_units (window_median window) - (l + u) * int f64_one\<bar> * 2 ^ 53 \<le> 4 * \<bar>(l + u) * int f64_one\<bar>
    \<and> (\<bar>l\<bar> \<le> 2 ^ 52 \<and> \<bar>u\<bar> \<le> 2 ^ 52 \<longrightarrow> 2 * fl_units (window_median window) = (l + u) * int f64_one)"
proof (cases "even (length window)")
  case False
  define x where "x = window ! (length window div 2)"
  have x: "l = sint x" "u = sint x" "window_median window = f64_of_i64 x"
    using False assms by (auto simp: x_def window_median_def elim!: oddE)
  have "\<bar>2 * fl_units (f64_of_i64 x) - (l + u) * int f64_one\<bar> = 2 * \<bar>fl_units (f64_of_i64 x) - sint x * int f64_one\<bar>"
    using abs_mult [of 2 "fl_units (f64_of_i64 x) - sint x * int f64_one"] by (simp add: x(1,2) algebra_simps)
  moreover have "\<bar>(l + u) * int f64_one\<bar> = 2 * \<bar>sint x * int f64_one\<bar>"
    by (simp add: x(1,2) abs_mult)
  ultimately show ?thesis
    using f64_of_i64_error [of x] f64_of_i64_exact [of x] x by simp
next
  case True
  then obtain t where t: "length window = 2 * Suc t"
    using assms(1) by (metis Suc_pred evenE length_greater_0_conv nat_0_less_mult_iff)
  define a b where "a = window ! t" and "b = window ! Suc t"
  have lu: "l = sint a" "u = sint b"
    using t assms(2,3) by (simp_all add: a_def b_def)
  show ?thesis
  proof (cases "checked_add a b")
    case None
    then have "window_median window = f64_add (f64_half (f64_of_i64 a)) (f64_half (f64_of_i64 b))"
      using t by (simp add: window_median_def Let_def a_def b_def)
    moreover have "\<not> (\<bar>l\<bar> \<le> 2 ^ 52 \<and> \<bar>u\<bar> \<le> 2 ^ 52)"
      using None lu by (auto simp: checked_add_def split: if_splits)
    ultimately show ?thesis
      using overflowing_median_error [OF None] lu by (simp only:) blast
  next
    case (Some c)
    then have "2 * fl_units (window_median window) = fl_units (f64_of_i64 c)" "l + u = sint c"
      using t sint_checked_add [OF Some] lu by (simp_all add: window_median_def Let_def a_def b_def i64_double_near)
    then show ?thesis
      using exact_enough [OF _ f64_of_i64_error [of c]] f64_of_i64_exact [of c] by auto
  qed
qed

lemma sort_key_amplify: "map sint (sort_key sint (amplify a xs)) = amplify a (sort (map sint (xs :: i64 list)))"
  by (simp add: map_sort_key_sint sort_amplify)

text \<open>C23: For every window and every amplification the number that the windower sends differs from the median of the received
  values by at most the fraction \<open>1/2\<^sup>5\<^sup>1\<close> of it, also where the sum of the middle values overflows, and it is
  exactly the median when no value exceeds \<open>2\<^sup>5\<^sup>2\<close> in magnitude.\<close>

theorem window_median_accurate:
  assumes "xs \<noteq> []" "0 < a"
  shows "\<bar>2 * fl_units (window_median (sort_key sint (amplify a xs))) - twice_median (sort (map sint xs)) * int f64_one\<bar> * 2 ^ 51
      \<le> \<bar>twice_median (sort (map sint xs)) * int f64_one\<bar>
    \<and> ((\<forall>x\<in>set xs. \<bar>sint x\<bar> \<le> 2 ^ 52) \<longrightarrow>
        2 * fl_units (window_median (sort_key sint (amplify a xs))) = twice_median (sort (map sint xs)) * int f64_one)"
proof -
  define w where "w = sort_key sint (amplify a xs)"
  define l u where "l = sint (w ! ((length w - 1) div 2))" and "u = sint (w ! (length w div 2))"
  have len: "length w = a * length xs"
    by (simp add: w_def)
  then have "0 < length w"
    using assms by simp
  then have w: "w \<noteq> []"
    by auto
  have lt: "(length w - 1) div 2 < length w" "length w div 2 < length w"
    using \<open>0 < length w\<close> by linarith+
  have "l + u = twice_median (map sint w)"
    using lt by (simp add: l_def u_def twice_median_def)
  moreover have "sort (map sint xs) \<noteq> []"
    using assms(1) by (metis length_0_conv length_map length_sort)
  ultimately have lu: "l + u = twice_median (sort (map sint xs))"
    using twice_median_amplify [OF assms(2)] by (simp add: w_def sort_key_amplify)
  have "\<bar>l\<bar> \<le> 2 ^ 52 \<and> \<bar>u\<bar> \<le> 2 ^ 52" if "\<forall>x\<in>set xs. \<bar>sint x\<bar> \<le> 2 ^ 52"
    using that nth_mem [OF lt(1)] nth_mem [OF lt(2)] set_amplify [of a xs] by (auto simp: l_def u_def w_def)
  then show ?thesis
    using window_median_middles [OF w l_def u_def] lu unfolding w_def by simp
qed

theorem window_median_accurate_witness:
  "2 * fl_units (window_median (sort_key sint (amplify 2 [7, 1, -4, 2]))) = 3 * int f64_one"
  using window_median_accurate [of "[7, 1, -4, 2]" 2] by (simp add: twice_median_def)

end
