(* ===== verification/Streaming_System.thy ===== *)
theory Streaming_System
  imports Window_Median Reachability
begin

text \<open>
  The streaming windows benchmark for one partition: source, windower and the sink of the current iteration, the messages
  between them and the iterations of the master, which creates a sink, waits for its latch, resets the source, kills the sink
  and starts again. Each pair of actors has a queue; which queue is served next is left open, so that the runs
  cover every interleaving of the three actors and the master. The theory defines the invariant of these runs and shows
  what sending and handling an event do to it.
\<close>

subsection \<open>The system\<close>

record Params =
  pm_number_of_partitions :: u32
  pm_batch_size :: u64
  pm_window_size :: nat   \<comment> \<open>milliseconds of the duration\<close>
  pm_number_of_windows :: u64
  pm_window_size_amplification :: u64

datatype sw_node = SourceNode | WindowerNode | SinkNode nat

datatype iteration = Prepared | Started | LatchOpen | Resetting

record 'r sw_sys =
  st_source :: "(sw_node, 'r) StreamSource"
  st_windower :: "sw_node Windower"
  st_sink :: "sw_node StreamSink option"
  st_sink_id :: nat
  st_events :: "WindowerMsg list"            \<comment> \<open>from the source to the windower\<close>
  st_control :: "(nat \<times> WindowerMsg) list"   \<comment> \<open>from the sinks to the windower\<close>
  st_credits :: "SourceMsg list"             \<comment> \<open>from the windower to the source\<close>
  st_nexts :: nat                            \<comment> \<open>from the source to itself\<close>
  st_windows :: "(nat \<times> SinkMsg) list"       \<comment> \<open>to the sinks\<close>
  st_iteration :: iteration
  st_sent :: "i64 list"                      \<comment> \<open>values of the events of this iteration\<close>
  st_told :: "SinkMsg list"                  \<comment> \<open>windows sent to the sink of this iteration\<close>

definition sw_start :: "Params \<Rightarrow> (u64 \<Rightarrow> 'r) \<Rightarrow> u32 \<Rightarrow> 'r sw_sys" where
  "sw_start p seed pid =
    \<lparr>st_source = source_with seed pid,
     st_windower = windower_with (pm_window_size p) (pm_batch_size p) (pm_window_size_amplification p) SourceNode,
     st_sink = None, st_sink_id = 0, st_events = [], st_control = [], st_credits = [], st_nexts = 0, st_windows = [],
     st_iteration = Prepared, st_sent = [], st_told = []\<rparr>"

text \<open>Where the outputs of the three actors go.\<close>

fun source_emit :: "sw_node sw_out \<Rightarrow> 'r sw_sys \<Rightarrow> 'r sw_sys" where
  "source_emit (TellWindower d m) s = s\<lparr>st_events := st_events s @ [m],
     st_sent := st_sent s @ (case m of WindowerEvent ts pid v \<Rightarrow> [v] | _ \<Rightarrow> [])\<rparr>"
| "source_emit TellSelfNext s = s\<lparr>st_nexts := st_nexts s + 1\<rparr>"
| "source_emit (ReplyReset a) s = s\<lparr>st_iteration := Prepared\<rparr>"
| "source_emit _ s = s"

fun windower_emit :: "sw_node sw_out \<Rightarrow> 'r sw_sys \<Rightarrow> 'r sw_sys" where
  "windower_emit (TellSource d m) s = s\<lparr>st_credits := st_credits s @ [m]\<rparr>"
| "windower_emit (TellSink (SinkNode i) m) s = s\<lparr>st_windows := st_windows s @ [(i, m)],
     st_told := st_told s @ (if i = st_sink_id s then [m] else [])\<rparr>"
| "windower_emit _ s = s"

fun sink_emit :: "sw_node sw_out \<Rightarrow> 'r sw_sys \<Rightarrow> 'r sw_sys" where
  "sink_emit (TellWindower d m) s = s\<lparr>st_control := st_control s @ [(st_sink_id s, m)]\<rparr>"
| "sink_emit CountDown s = s\<lparr>st_iteration := LatchOpen\<rparr>"
| "sink_emit _ s = s"

definition to_source ::
  "('r \<Rightarrow> i64 \<times> 'r) \<Rightarrow> sw_node option \<Rightarrow> SourceMsg \<Rightarrow> 'r sw_sys \<Rightarrow> ('r sw_sys, sw_node sw_out) handled" where
  "to_source gen sender m s = rbind (source_receive gen sender m (st_source s)) (\<lambda>(a, out).
     Inr (fold source_emit out (s\<lparr>st_source := a\<rparr>), out))"

definition to_windower :: "sw_node option \<Rightarrow> WindowerMsg \<Rightarrow> 'r sw_sys \<Rightarrow> ('r sw_sys, sw_node sw_out) handled" where
  "to_windower sender m s = rbind (windower_receive sender m (st_windower s)) (\<lambda>(w, out).
     Inr (fold windower_emit out (s\<lparr>st_windower := w\<rparr>), out))"

definition to_sink :: "SinkMsg \<Rightarrow> sw_node StreamSink \<Rightarrow> 'r sw_sys \<Rightarrow> ('r sw_sys, sw_node sw_out) handled" where
  "to_sink m k s = rbind (sink_receive m k) (\<lambda>(k, out). Inr (fold sink_emit out (s\<lparr>st_sink := Some k\<rparr>), out))"

datatype sw_action =
    RunIteration     \<comment> \<open>the master creates a sink and tells it to run\<close>
  | ResetSource      \<comment> \<open>the source gets the \<open>Reset\<close> of the master's clean-up\<close>
  | KillSink
  | DeliverEvent
  | DeliverControl
  | DeliverCredit
  | DeliverNext
  | DeliverWindow

fun sw_step :: "Params \<Rightarrow> ('r \<Rightarrow> i64 \<times> 'r) \<Rightarrow> sw_action \<Rightarrow> 'r sw_sys \<Rightarrow> ('r sw_sys, sw_node sw_out) handled" where
  "sw_step p gen RunIteration s =
    Inr (s\<lparr>st_sink := Some (sink_with 1 (pm_number_of_windows p) WindowerNode), st_sink_id := st_sink_id s + 1,
           st_windows := st_windows s @ [(st_sink_id s + 1, SinkRun)], st_iteration := Started, st_sent := [], st_told := []\<rparr>, [])"
| "sw_step p gen ResetSource s = to_source gen None (SourceReset 0) (s\<lparr>st_iteration := Resetting\<rparr>)"
| "sw_step p gen KillSink s = Inr (s\<lparr>st_sink := None\<rparr>, [])"
| "sw_step p gen DeliverEvent s =
    (case st_events s of [] \<Rightarrow> Inr (s, []) | m # ms \<Rightarrow> to_windower (Some SourceNode) m (s\<lparr>st_events := ms\<rparr>))"
| "sw_step p gen DeliverControl s =
    (case st_control s of [] \<Rightarrow> Inr (s, []) | (i, m) # ms \<Rightarrow> to_windower (Some (SinkNode i)) m (s\<lparr>st_control := ms\<rparr>))"
| "sw_step p gen DeliverCredit s =
    (case st_credits s of [] \<Rightarrow> Inr (s, []) | m # ms \<Rightarrow> to_source gen (Some WindowerNode) m (s\<lparr>st_credits := ms\<rparr>))"
| "sw_step p gen DeliverNext s = to_source gen None SourceNext (s\<lparr>st_nexts := st_nexts s - 1\<rparr>)"
| "sw_step p gen DeliverWindow s =
    (case st_windows s of [] \<Rightarrow> Inr (s, []) | (i, m) # ms \<Rightarrow>
      (case st_sink s of
         Some k \<Rightarrow> if i = st_sink_id s then to_sink m k (s\<lparr>st_windows := ms\<rparr>) else Inr (s\<lparr>st_windows := ms\<rparr>, [])
       | None \<Rightarrow> Inr (s\<lparr>st_windows := ms\<rparr>, [])))"

text \<open>The environment: the master acts in its order, a queue is served when it has a message, and an iteration does not
  exhaust the 64 bits of its timestamps.\<close>

definition in_range :: "Params \<Rightarrow> 'r sw_sys \<Rightarrow> bool" where
  "in_range p s \<longleftrightarrow> unat (so_current_ts (st_source s)) + pm_window_size p + 1 < 2 ^ 64"

fun sw_allowed :: "Params \<Rightarrow> sw_action \<Rightarrow> 'r sw_sys \<Rightarrow> bool" where
  "sw_allowed p RunIteration s \<longleftrightarrow> st_iteration s = Prepared \<and> st_sink s = None"
| "sw_allowed p ResetSource s \<longleftrightarrow> st_iteration s = LatchOpen"
| "sw_allowed p KillSink s \<longleftrightarrow> st_iteration s \<noteq> Started"
| "sw_allowed p DeliverEvent s \<longleftrightarrow> st_events s \<noteq> []"
| "sw_allowed p DeliverControl s \<longleftrightarrow> st_control s \<noteq> []"
| "sw_allowed p DeliverCredit s \<longleftrightarrow> st_credits s \<noteq> [] \<and> in_range p s"
| "sw_allowed p DeliverNext s \<longleftrightarrow> 0 < st_nexts s \<and> in_range p s"
| "sw_allowed p DeliverWindow s \<longleftrightarrow> st_windows s \<noteq> []"

text \<open>The parameters the benchmark makes sense for: no empty batches or windows, and windows that fit in memory.\<close>

definition params_ok :: "Params \<Rightarrow> bool" where
  "params_ok p \<longleftrightarrow> 0 < pm_batch_size p \<and> 0 < pm_window_size p \<and> pm_window_size p < 2 ^ 64 - 1 \<and>
     0 < pm_window_size_amplification p \<and> 0 < pm_number_of_windows p \<and>
     8 * (pm_window_size p * unat (pm_window_size_amplification p)) < 2 ^ 63"

subsection \<open>The invariant\<close>

fun is_event :: "WindowerMsg \<Rightarrow> bool" where
  "is_event (WindowerEvent ts pid v) = True"
| "is_event _ = False"

fun credit_of :: "SourceMsg \<Rightarrow> nat" where
  "credit_of (SourceReady n) = unat n"
| "credit_of _ = 0"

fun is_window :: "SinkMsg \<Rightarrow> bool" where
  "is_window (SinkWindowAggregate ts pid v) = True"
| "is_window SinkRun = False"

text \<open>Events in flight, windows in flight to the current sink, and credit: what the source may send, what it has sent, what is
  on its way back to it and what the windower has not yet given back.\<close>

definition flight :: "'r sw_sys \<Rightarrow> WindowerMsg list" where
  "flight s = filter is_event (st_events s)"

definition mine :: "'r sw_sys \<Rightarrow> SinkMsg list" where
  "mine s = map snd (filter (\<lambda>x. fst x = st_sink_id s) (st_windows s))"

definition held :: "'r sw_sys \<Rightarrow> nat" where
  "held s = (if wi_running (st_windower s) then unat (wi_received_since_ready (st_windower s)) else 0)"

definition credit :: "'r sw_sys \<Rightarrow> nat" where
  "credit s = unat (so_remaining (st_source s)) + length (flight s) + sum_list (map credit_of (st_credits s)) + held s"

text \<open>The event with number \<open>i\<close> of an iteration that sends the values \<open>vs\<close>, and its window with number \<open>j\<close>.\<close>

definition event_at :: "u32 \<Rightarrow> i64 list \<Rightarrow> nat \<Rightarrow> WindowerMsg" where
  "event_at pid vs i = WindowerEvent (word_of_nat i) pid (vs ! i)"

definition window_at :: "Params \<Rightarrow> u32 \<Rightarrow> i64 list \<Rightarrow> nat \<Rightarrow> SinkMsg" where
  "window_at p pid vs j = SinkWindowAggregate (word_of_nat (j * pm_window_size p)) pid
     (window_median (sort_key sint (amplify (unat (pm_window_size_amplification p))
        (take (pm_window_size p) (drop (j * pm_window_size p) vs)))))"

definition arrived :: "'r sw_sys \<Rightarrow> nat" where
  "arrived s = length (st_sent s) - length (flight s)"

definition windower_static :: "Params \<Rightarrow> sw_node Windower \<Rightarrow> bool" where
  "windower_static p w \<longleftrightarrow> wi_window_size_ms w = word_of_nat (pm_window_size p) \<and> wi_batch_size w = pm_batch_size p \<and>
     wi_amplification w = pm_window_size_amplification p \<and> wi_upstream w = SourceNode \<and>
     wi_ready_mark w = pm_batch_size p div 2 \<and> wi_received_since_ready w \<le> pm_batch_size p div 2"

definition told_ok :: "Params \<Rightarrow> u32 \<Rightarrow> 'r sw_sys \<Rightarrow> bool" where
  "told_ok p pid s \<longleftrightarrow> (\<forall>j<length (st_told s). st_told s ! j = window_at p pid (st_sent s) j) \<and>
     length (st_told s) * pm_window_size p \<le> length (st_sent s) \<and> length (st_sent s) + pm_window_size p < 2 ^ 64"

definition sw_base :: "Params \<Rightarrow> u32 \<Rightarrow> 'r sw_sys \<Rightarrow> bool" where
  "sw_base p pid s \<longleftrightarrow> windower_static p (st_windower s) \<and> so_partition_id (st_source s) = pid \<and> told_ok p pid s \<and>
     credit s \<le> unat (pm_batch_size p) \<and> (\<forall>(i, m)\<in>set (st_windows s). i \<le> st_sink_id s)"

text \<open>The windower follows the stream of the current iteration.\<close>

definition attached :: "Params \<Rightarrow> u32 \<Rightarrow> 'r sw_sys \<Rightarrow> bool" where
  "attached p pid s \<longleftrightarrow>
    (let w = st_windower s; q = arrived s; j = length (st_told s) * pm_window_size p
     in wi_running w \<and> wi_downstream w = Some (SinkNode (st_sink_id s)) \<and> length (flight s) \<le> length (st_sent s) \<and>
        flight s = map (event_at pid (st_sent s)) [q..<length (st_sent s)] \<and>
        unat (wi_window_start_ts w) = j \<and> j \<le> q \<and> q \<le> j + pm_window_size p \<and>
        wi_current_window w = amplify (unat (pm_window_size_amplification p)) (drop j (take q (st_sent s))))"

definition detached :: "sw_node Windower \<Rightarrow> bool" where
  "detached w \<longleftrightarrow> \<not> wi_running w \<and> wi_current_window w = [] \<and> wi_window_start_ts w = 0"

text \<open>The source follows the stream of the current iteration, or has been flushed.\<close>

definition flowing :: "'r sw_sys \<Rightarrow> bool" where
  "flowing s \<longleftrightarrow> \<not> so_flushing (st_source s) \<and> unat (so_current_ts (st_source s)) = length (st_sent s) \<and>
     list_all is_event (st_events s) \<and> list_all (\<lambda>m. 0 < credit_of m) (st_credits s) \<and>
     (st_sent s \<noteq> [] \<or> 0 < so_remaining (st_source s) \<longrightarrow> so_downstream (st_source s) = Some WindowerNode)"

definition quiet :: "'r sw_sys \<Rightarrow> bool" where
  "quiet s \<longleftrightarrow> \<not> so_flushing (st_source s) \<and> so_current_ts (st_source s) = 0 \<and> so_remaining (st_source s) = 0 \<and>
     st_events s = [] \<and> st_credits s = []"

definition flushing :: "'r sw_sys \<Rightarrow> bool" where
  "flushing s \<longleftrightarrow> so_flushing (st_source s) \<and> so_current_ts (st_source s) = 0 \<and> so_remaining (st_source s) = 0 \<and>
     so_reply_on_flushed (st_source s) \<noteq> None \<and>
     (\<exists>es cs. list_all is_event es \<and> list_all (\<lambda>m. 0 < credit_of m) cs \<and>
       (st_events s = es @ [WindowerFlush] \<and> st_credits s = cs \<or> st_events s = [] \<and> st_credits s = cs @ [SourceFlushed]))"

text \<open>The windower has stopped, or the message that stops it is the next one.\<close>

definition resting :: "'r sw_sys \<Rightarrow> (nat \<times> WindowerMsg) list \<Rightarrow> bool" where
  "resting s rest \<longleftrightarrow> detached (st_windower s) \<and> st_control s = rest \<or>
     wi_running (st_windower s) \<and> (\<exists>i. st_control s = (i, WindowerStop) # rest)"

definition sink_counts :: "Params \<Rightarrow> 'r sw_sys \<Rightarrow> sw_node StreamSink \<Rightarrow> bool" where
  "sink_counts p s k \<longleftrightarrow> sk_number_of_windows k = pm_number_of_windows p \<and> sk_upstream k = WindowerNode \<and>
     unat (sk_window_count k) + length (mine s) = length (st_told s) \<and> list_all is_window (mine s)"

definition sink_late :: "Params \<Rightarrow> 'r sw_sys \<Rightarrow> bool" where
  "sink_late p s \<longleftrightarrow> (\<forall>k. st_sink s = Some k \<longrightarrow> sink_counts p s k \<and> pm_number_of_windows p \<le> sk_window_count k)
     \<and> unat (pm_number_of_windows p) \<le> length (st_told s)"

definition fresh_sink :: "Params \<Rightarrow> sw_node StreamSink" where
  "fresh_sink p = sink_with 1 (pm_number_of_windows p) WindowerNode"

definition starting :: "Params \<Rightarrow> 'r sw_sys \<Rightarrow> bool" where
  "starting p s \<longleftrightarrow> quiet s \<and> st_sent s = [] \<and> st_told s = [] \<and> st_sink s = Some (fresh_sink p) \<and>
     (resting s [] \<and> mine s = [SinkRun] \<or> resting s [(st_sink_id s, WindowerStart)] \<and> mine s = [])"

definition active :: "Params \<Rightarrow> u32 \<Rightarrow> 'r sw_sys \<Rightarrow> bool" where
  "active p pid s \<longleftrightarrow> flowing s \<and> attached p pid s \<and> st_control s = [] \<and> credit s = unat (pm_batch_size p) \<and>
     (0 < so_remaining (st_source s) \<longrightarrow> 0 < st_nexts s) \<and>
     (\<exists>k. st_sink s = Some k \<and> sink_counts p s k \<and> sk_window_count k < pm_number_of_windows p \<and> sk_latch k = 1)"

text \<open>Between the opening of the latch and the end of the clean-up the windower may still follow the stream.\<close>

definition winding_down :: "Params \<Rightarrow> u32 \<Rightarrow> 'r sw_sys \<Rightarrow> bool" where
  "winding_down p pid s \<longleftrightarrow> resting s [] \<and> (wi_running (st_windower s) \<longrightarrow> attached p pid s) \<and> sink_late p s"

definition sw_phase :: "Params \<Rightarrow> u32 \<Rightarrow> 'r sw_sys \<Rightarrow> bool" where
  "sw_phase p pid s = (case st_iteration s of
     Prepared \<Rightarrow> quiet s \<and> resting s [] \<and> (st_sink s = None \<or> sink_late p s)
   | Started \<Rightarrow> starting p s \<or> active p pid s
   | LatchOpen \<Rightarrow> flowing s \<and> winding_down p pid s
   | Resetting \<Rightarrow> flushing s \<and> winding_down p pid s)"

definition sw_inv :: "Params \<Rightarrow> u32 \<Rightarrow> 'r sw_sys \<Rightarrow> sw_node sw_out list \<Rightarrow> bool" where
  "sw_inv p pid s out \<longleftrightarrow> sw_base p pid s \<and> sw_phase p pid s"

lemmas sys_defs = flight_def mine_def held_def credit_def arrived_def

lemma params_facts:
  assumes "params_ok p"
  shows "unat (word_of_nat (pm_window_size p) :: u64) = pm_window_size p" "0 < pm_window_size p"
    "0 < unat (pm_window_size_amplification p)" "0 < unat (pm_number_of_windows p)" "0 < unat (pm_batch_size p)"
  using assms by (simp_all add: params_ok_def word_less_nat_alt)

lemma eq_word_of_nat: "unat (x :: u64) = n \<Longrightarrow> x = word_of_nat n"
  by (metis of_nat_unat ucast_id)

subsection \<open>Sending an event\<close>

lemma window_at_prefix:
  assumes "(j + 1) * pm_window_size p \<le> length vs"
  shows "window_at p pid (vs @ us) j = window_at p pid vs j"
  using assms by (simp add: window_at_def)

lemma told_ok_send:
  assumes "told_ok p pid s" "length (st_sent s) + pm_window_size p + 1 < 2 ^ 64" "st_sent t = st_sent s @ [v]" "st_told t = st_told s"
  shows "told_ok p pid t"
proof -
  have "(j + 1) * pm_window_size p \<le> length (st_sent s)" if "j < length (st_told s)" for j
    using assms(1) that mult_le_mono1 [of "j + 1" "length (st_told s)" "pm_window_size p"] by (simp add: told_ok_def)
  then show ?thesis
    using assms by (simp add: told_ok_def window_at_prefix)
qed

text \<open>The effect of a send on the system, with the value \<open>v\<close> and the next state \<open>r\<close> of the random generator.\<close>

definition sent_event :: "i64 \<Rightarrow> 'r \<Rightarrow> 'r sw_sys \<Rightarrow> 'r sw_sys" where
  "sent_event v r s = (let a = st_source s in
     s\<lparr>st_source := a\<lparr>so_random := r, so_current_ts := so_current_ts a + 1, so_remaining := so_remaining a - 1\<rparr>,
       st_events := st_events s @ [WindowerEvent (so_current_ts a) (so_partition_id a) v], st_sent := st_sent s @ [v],
       st_nexts := st_nexts s + (if 1 < so_remaining a then 1 else 0)\<rparr>)"

definition sw_send :: "('r \<Rightarrow> i64 \<times> 'r) \<Rightarrow> 'r sw_sys \<Rightarrow> ('r sw_sys, sw_node sw_out) handled" where
  "sw_send gen s = rbind (source_send gen (st_source s)) (\<lambda>(a, out). Inr (fold source_emit out (s\<lparr>st_source := a\<rparr>), out))"

lemma u64_minus_one: "0 < (a :: u64) \<Longrightarrow> unat (a - 1) = unat a - 1"
  by (simp add: unat_sub_if' word_less_nat_alt)

lemma u64_minus_pos: "0 < (a :: u64) \<Longrightarrow> 0 < a - 1 \<longleftrightarrow> 1 < a"
  by (auto simp: word_less_nat_alt u64_minus_one)

lemma sw_send_event:
  assumes "0 < so_remaining (st_source s)" "so_downstream (st_source s) = Some d" "gen (so_random (st_source s)) = (v, r)"
  shows "\<exists>out. sw_send gen s = Inr (sent_event v r s, out)"
  using assms u64_minus_pos [OF assms(1)]
  by (simp add: sw_send_def source_send_def sent_event_def Let_def)

lemma sw_send_nothing: "\<not> 0 < so_remaining (st_source s) \<Longrightarrow> sw_send gen s = Inr (s, [])"
  by (simp add: sw_send_def source_send_def)

lemma sent_event_frame [simp]:
  "st_windower (sent_event v r s) = st_windower s" "st_control (sent_event v r s) = st_control s"
  "st_credits (sent_event v r s) = st_credits s" "st_sink (sent_event v r s) = st_sink s"
  "st_sink_id (sent_event v r s) = st_sink_id s" "st_windows (sent_event v r s) = st_windows s"
  "st_told (sent_event v r s) = st_told s" "st_iteration (sent_event v r s) = st_iteration s"
  "st_sent (sent_event v r s) = st_sent s @ [v]" "mine (sent_event v r s) = mine s" "held (sent_event v r s) = held s"
  "flight (sent_event v r s) = flight s @ [WindowerEvent (so_current_ts (st_source s)) (so_partition_id (st_source s)) v]"
  by (simp_all add: sent_event_def Let_def sys_defs)

lemma sent_event_credit:
  "0 < so_remaining (st_source s) \<Longrightarrow> credit (sent_event v r s) = credit s"
  by (simp add: credit_def) (simp add: sent_event_def Let_def u64_minus_one word_less_nat_alt)

lemma sent_event_base:
  assumes "sw_base p pid s" "0 < so_remaining (st_source s)" "length (st_sent s) + pm_window_size p + 1 < 2 ^ 64"
  shows "sw_base p pid (sent_event v r s)"
  using assms told_ok_send [of p pid s "sent_event v r s" v]
  by (auto simp: sw_base_def sent_event_credit) (simp add: sent_event_def Let_def)

lemma sent_event_flowing:
  assumes "flowing s" "0 < so_remaining (st_source s)" "length (st_sent s) + 1 < 2 ^ 64"
  shows "flowing (sent_event v r s)"
  using assms by (simp add: flowing_def sent_event_def Let_def unat_Suc_u64)

lemma sent_event_attached:
  assumes "attached p pid s" "flowing s" "so_partition_id (st_source s) = pid"
  shows "attached p pid (sent_event v r s)"
proof -
  define n q where "n = length (st_sent s)" and "q = arrived s"
  have le: "length (flight s) \<le> n" and q: "q = n - length (flight s)"
    and f: "flight s = map (event_at pid (st_sent s)) [q..<n]"
    using assms(1) by (simp_all add: attached_def n_def q_def arrived_def Let_def)
  have q': "arrived (sent_event v r s) = q"
    using le q by (simp add: arrived_def n_def)
  have "so_current_ts (st_source s) = word_of_nat n"
    using assms(2) by (simp add: flowing_def n_def eq_word_of_nat)
  moreover have "map (event_at pid (st_sent s @ [v])) [q..<n] = flight s"
    unfolding f by (simp add: event_at_def nth_append n_def)
  ultimately have "flight s @ [WindowerEvent (so_current_ts (st_source s)) pid v] = map (event_at pid (st_sent s @ [v])) [q..<Suc n]"
    using q by (simp add: event_at_def n_def)
  moreover have "take q (st_sent s @ [v]) = take q (st_sent s)"
    using q by (simp add: n_def)
  ultimately show ?thesis
    using assms(1,3) le q' by (simp add: attached_def Let_def q_def n_def)
qed

text \<open>A send keeps the stream going; it is how the source answers both \<open>Ready\<close> and \<open>Next\<close>.\<close>

lemma sw_send_keeps:
  assumes "sw_base p pid s" "flowing s" "length (st_sent s) + pm_window_size p + 1 < 2 ^ 64"
  obtains t out where "sw_send gen s = Inr (t, out)" "sw_base p pid t" "flowing t" "credit t = credit s"
    "attached p pid s \<Longrightarrow> attached p pid t" "0 < so_remaining (st_source t) \<Longrightarrow> 0 < st_nexts t"
    "st_windower t = st_windower s" "st_control t = st_control s" "st_sink t = st_sink s" "mine t = mine s"
    "st_told t = st_told s" "st_iteration t = st_iteration s" "st_windows t = st_windows s" "st_sink_id t = st_sink_id s"
proof (cases "0 < so_remaining (st_source s)")
  case True
  obtain v r where g: "gen (so_random (st_source s)) = (v, r)"
    by (cases "gen (so_random (st_source s))")
  obtain out where "sw_send gen s = Inr (sent_event v r s, out)"
    using assms(2) True sw_send_event [of s WindowerNode gen v r] g by (auto simp: flowing_def)
  moreover have "0 < st_nexts (sent_event v r s)" if "0 < so_remaining (st_source (sent_event v r s))"
    using that u64_minus_pos [OF True] by (simp add: sent_event_def Let_def)
  moreover have "so_partition_id (st_source s) = pid" "length (st_sent s) + 1 < 2 ^ 64"
    using assms(1,3) by (simp_all add: sw_base_def)
  ultimately show ?thesis
    by (intro that [of "sent_event v r s" out])
      (simp_all add: sent_event_credit True sent_event_base [OF assms(1) True assms(3)]
        sent_event_flowing [OF assms(2) True] sent_event_attached assms(2))
next
  case False
  then show ?thesis
    using that [of s "[]"] assms by (simp add: sw_send_nothing)
qed

subsection \<open>The windower handles an event\<close>

lemma manage_ready_gives_back:
  assumes "windower_static p w"
  obtains r readys where "manage_ready w = Inr (w\<lparr>wi_received_since_ready := r\<rparr>, map (TellSource SourceNode) readys)"
    "r \<le> wi_ready_mark w" "sum_list (map credit_of readys) + unat r = unat (wi_received_since_ready w) + 1"
    "list_all (\<lambda>m. 0 < credit_of m) readys"
proof -
  define c where "c = wi_received_since_ready w"
  have "unat (pm_batch_size p div 2) = unat (pm_batch_size p) div 2"
    by (simp add: unat_div)
  then have "unat c \<le> unat (pm_batch_size p) div 2"
    using assms by (auto simp: windower_static_def word_le_nat_alt c_def)
  then have "unat c + 1 < 18446744073709551616"
    using unat_u64_less [of "pm_batch_size p"] by linarith
  then have c1: "unat (c + 1) = unat c + 1"
    by (simp add: unat_Suc_u64)
  show ?thesis
  proof (cases "c + 1 > wi_ready_mark w")
    case True
    then have "manage_ready w = Inr (w\<lparr>wi_received_since_ready := 0\<rparr>, map (TellSource SourceNode) [SourceReady (c + 1)])"
      using assms by (simp add: manage_ready_def windower_static_def c_def [symmetric])
    then show ?thesis
      by (rule that) (simp_all add: c1 c_def [symmetric])
  next
    case False
    then have "manage_ready w = Inr (w\<lparr>wi_received_since_ready := c + 1\<rparr>, map (TellSource SourceNode) [])"
      by (simp add: manage_ready_def c_def [symmetric])
    then show ?thesis
      by (rule that) (use False c1 in \<open>simp_all add: c_def [symmetric]\<close>)
  qed
qed

text \<open>The first part of the handler: a full window is sent and the next one begins.\<close>

definition roll :: "u64 \<Rightarrow> u32 \<Rightarrow> 'p Windower \<Rightarrow> ('p Windower, 'p sw_out) handled" where
  "roll ts pid w = (if ts \<ge> window_end w
     then step_then (trigger_window pid w) (\<lambda>w. Inr (w\<lparr>wi_window_start_ts := ts\<rparr>, []))
     else Inr (w, []))"

lemma roll_window:
  assumes "params_ok p" "windower_static p w" "wi_downstream w = Some d" "unat (wi_window_start_ts w) = j * pm_window_size p"
    "j * pm_window_size p \<le> q" "q \<le> j * pm_window_size p + pm_window_size p" "q + pm_window_size p < 2 ^ 64" "q < length vs"
    "wi_current_window w = amplify (unat (pm_window_size_amplification p)) (drop (j * pm_window_size p) (take q vs))"
  obtains w1 aggs where "roll (word_of_nat q) pid w = Inr (w1, map (TellSink d) aggs)"
    "aggs = (if q = (j + 1) * pm_window_size p then [window_at p pid vs j] else [])"
    "w1 = w\<lparr>wi_current_window := wi_current_window w1, wi_window_start_ts := wi_window_start_ts w1\<rparr>"
    "unat (wi_window_start_ts w1) = (j + length aggs) * pm_window_size p"
    "q < (j + length aggs) * pm_window_size p + pm_window_size p" "(j + length aggs) * pm_window_size p \<le> q"
    "wi_current_window w1 = amplify (unat (pm_window_size_amplification p)) (drop ((j + length aggs) * pm_window_size p) (take q vs))"
proof -
  define W a where "W = pm_window_size p" and "a = unat (pm_window_size_amplification p)"
  have W: "0 < W" "unat (wi_window_size_ms w) = W" "0 < a"
    using assms(2) params_facts [OF assms(1)] by (simp_all add: W_def a_def windower_static_def)
  have q: "unat (word_of_nat q :: u64) = q"
    using assms(7) by simp
  have "unat (window_end w) = j * W + W"
    using assms(4,5,7) W by (simp add: window_end_def W_def unat_add_u64)
  then have full: "word_of_nat q \<ge> window_end w \<longleftrightarrow> q = (j + 1) * W"
    using q assms(6) by (auto simp: word_le_nat_alt W_def)
  show ?thesis
  proof (cases "q = (j + 1) * W")
    case True
    have len: "drop (j * W) (take q vs) = take W (drop (j * W) vs)" "length (take W (drop (j * W) vs)) = W"
      using assms(8) True by (simp_all add: drop_take)
    have cw1: "wi_current_window w = amplify a (take W (drop (j * W) vs))"
      using assms(9) len(1) by (simp add: a_def W_def)
    have "length (wi_current_window w) = a * W"
      unfolding cw1 by (simp only: amplify_simps len(2))
    then have "wi_current_window w \<noteq> []"
      using W(1,3) by auto
    note cw = cw1 this
    have "SinkWindowAggregate (wi_window_start_ts w) pid (window_median (sort_key sint (wi_current_window w))) = window_at p pid vs j"
      using eq_word_of_nat [OF assms(4)] by (simp add: cw(1) window_at_def W_def a_def)
    then have "roll (word_of_nat q) pid w =
        Inr (w\<lparr>wi_current_window := [], wi_window_start_ts := word_of_nat q\<rparr>, map (TellSink d) [window_at p pid vs j])"
      using full True cw(2) assms(3) by (simp add: roll_def trigger_window_def)
    then show ?thesis
      by (rule that) (use True q W in \<open>simp_all add: W_def\<close>)
  next
    case False
    then have "roll (word_of_nat q) pid w = Inr (w, map (TellSink d) [])"
      using full by (simp add: roll_def)
    then show ?thesis
      by (rule that) (use False assms in \<open>simp_all add: W_def\<close>)
  qed
qed

lemma windower_event:
  assumes "params_ok p" "windower_static p w" "wi_running w" "wi_downstream w = Some d"
    "unat (wi_window_start_ts w) = j * pm_window_size p"
    "j * pm_window_size p \<le> q" "q \<le> j * pm_window_size p + pm_window_size p" "q + pm_window_size p < 2 ^ 64" "q < length vs"
    "wi_current_window w = amplify (unat (pm_window_size_amplification p)) (drop (j * pm_window_size p) (take q vs))"
  obtains c t r aggs readys where "windower_receive sender (event_at pid vs q) w =
      Inr (w\<lparr>wi_current_window := c, wi_window_start_ts := t, wi_received_since_ready := r\<rparr>,
        map (TellSink d) aggs @ map (TellSource SourceNode) readys)"
    "aggs = (if q = (j + 1) * pm_window_size p then [window_at p pid vs j] else [])"
    "unat t = (j + length aggs) * pm_window_size p" "r \<le> wi_ready_mark w"
    "(j + length aggs) * pm_window_size p \<le> q" "q < (j + length aggs) * pm_window_size p + pm_window_size p"
    "c = amplify (unat (pm_window_size_amplification p)) (drop ((j + length aggs) * pm_window_size p) (take (q + 1) vs))"
    "sum_list (map credit_of readys) + unat r = unat (wi_received_since_ready w) + 1"
    "list_all (\<lambda>m. 0 < credit_of m) readys"
proof -
  define W a where "W = pm_window_size p" and "a = unat (pm_window_size_amplification p)"
  obtain w1 aggs where roll: "roll (word_of_nat q) pid w = Inr (w1, map (TellSink d) aggs)"
    and aggs: "aggs = (if q = (j + 1) * W then [window_at p pid vs j] else [])"
    and w1: "w1 = w\<lparr>wi_current_window := wi_current_window w1, wi_window_start_ts := wi_window_start_ts w1\<rparr>"
      "unat (wi_window_start_ts w1) = (j + length aggs) * W" "q < (j + length aggs) * W + W" "(j + length aggs) * W \<le> q"
      "wi_current_window w1 = amplify a (drop ((j + length aggs) * W) (take q vs))"
    unfolding W_def a_def by (rule roll_window [OF assms(1,2,4-10)])
  define J c where "J = (j + length aggs) * W" and "c = wi_current_window w1 @ replicate a (vs ! q)"
  have static: "windower_static p (w1\<lparr>wi_current_window := c\<rparr>)"
    using assms(2) by (subst w1(1)) (auto simp: windower_static_def)
  obtain r readys where ready: "manage_ready (w1\<lparr>wi_current_window := c\<rparr>) =
      Inr (w1\<lparr>wi_current_window := c\<rparr>\<lparr>wi_received_since_ready := r\<rparr>, map (TellSource SourceNode) readys)"
    and r: "r \<le> wi_ready_mark (w1\<lparr>wi_current_window := c\<rparr>)"
      "sum_list (map credit_of readys) + unat r = unat (wi_received_since_ready (w1\<lparr>wi_current_window := c\<rparr>)) + 1"
      "list_all (\<lambda>m. 0 < credit_of m) readys"
    by (rule manage_ready_gives_back [OF static])
  have amp: "wi_amplification w1 = pm_window_size_amplification p" "wi_ready_mark w1 = wi_ready_mark w"
    "wi_received_since_ready w1 = wi_received_since_ready w"
    using assms(2) by (subst w1(1), simp add: windower_static_def)+
  have "length (wi_current_window w1) = a * (q - J)"
    using assms(9) w1(5) by (simp add: J_def)
  moreover have "q - J + 1 \<le> W"
    using w1(3,4) by (simp add: J_def)
  then have "a * (q - J) + a \<le> W * a"
    using mult_le_mono2 [of "q - J + 1" W a] by (simp add: algebra_simps)
  ultimately have "8 * (length (wi_current_window w1) + a) < 2 ^ 63"
    using assms(1) by (simp add: params_ok_def W_def a_def)
  then have push: "push_amplified (vs ! q) w1 = Inr (w1\<lparr>wi_current_window := c\<rparr>, [])"
    by (simp add: push_amplified_def amp c_def a_def)
  have c: "c = amplify a (drop J (take (q + 1) vs))"
    using assms(9) w1(4,5) by (simp add: c_def J_def take_Suc_conv_app_nth)
  have "windower_receive sender (event_at pid vs q) w =
      Inr (w1\<lparr>wi_current_window := c, wi_received_since_ready := r\<rparr>, map (TellSink d) aggs @ map (TellSource SourceNode) readys)"
    using assms(3) roll push ready by (simp add: event_at_def flip: roll_def)
  moreover have "w1\<lparr>wi_current_window := c, wi_received_since_ready := r\<rparr> =
      w\<lparr>wi_current_window := c, wi_window_start_ts := wi_window_start_ts w1, wi_received_since_ready := r\<rparr>"
    by (subst w1(1)) simp
  ultimately have "windower_receive sender (event_at pid vs q) w =
      Inr (w\<lparr>wi_current_window := c, wi_window_start_ts := wi_window_start_ts w1, wi_received_since_ready := r\<rparr>,
        map (TellSink d) aggs @ map (TellSource SourceNode) readys)"
    by simp
  then show ?thesis
    by (rule that) (use aggs w1 r amp c in \<open>simp_all add: W_def a_def J_def\<close>)
qed

lemma fold_windower_emit:
  "fold windower_emit (map (TellSink (SinkNode (st_sink_id s))) aggs @ map (TellSource d) readys) s =
    s\<lparr>st_credits := st_credits s @ readys, st_windows := st_windows s @ map (Pair (st_sink_id s)) aggs,
      st_told := st_told s @ aggs\<rparr>"
proof -
  have "fold windower_emit (map (TellSource d) readys) s = s\<lparr>st_credits := st_credits s @ readys\<rparr>" for s :: "'a sw_sys"
    by (induction readys arbitrary: s) simp_all
  moreover have "fold windower_emit (map (TellSink (SinkNode (st_sink_id s))) aggs) s =
      s\<lparr>st_windows := st_windows s @ map (Pair (st_sink_id s)) aggs, st_told := st_told s @ aggs\<rparr>"
  proof (induction aggs arbitrary: s)
    case (Cons m aggs)
    then show ?case
      using Cons.IH [of "windower_emit (TellSink (SinkNode (st_sink_id s)) m) s"] by simp
  qed simp
  ultimately show ?thesis
    by simp
qed

text \<open>The system after the windower has handled an event.\<close>

definition handled_event ::
  "WindowerMsg list \<Rightarrow> sw_node Windower \<Rightarrow> SinkMsg list \<Rightarrow> SourceMsg list \<Rightarrow> 'r sw_sys \<Rightarrow> 'r sw_sys" where
  "handled_event ms w aggs readys s = s\<lparr>st_events := ms, st_windower := w, st_credits := st_credits s @ readys,
     st_windows := st_windows s @ map (Pair (st_sink_id s)) aggs, st_told := st_told s @ aggs\<rparr>"

lemma handled_event_frame [simp]:
  "st_source (handled_event ms w aggs readys s) = st_source s" "st_sink (handled_event ms w aggs readys s) = st_sink s"
  "st_sink_id (handled_event ms w aggs readys s) = st_sink_id s" "st_control (handled_event ms w aggs readys s) = st_control s"
  "st_nexts (handled_event ms w aggs readys s) = st_nexts s" "st_iteration (handled_event ms w aggs readys s) = st_iteration s"
  "st_sent (handled_event ms w aggs readys s) = st_sent s" "st_told (handled_event ms w aggs readys s) = st_told s @ aggs"
  "st_events (handled_event ms w aggs readys s) = ms" "st_windower (handled_event ms w aggs readys s) = w"
  "st_credits (handled_event ms w aggs readys s) = st_credits s @ readys"
  "st_windows (handled_event ms w aggs readys s) = st_windows s @ map (Pair (st_sink_id s)) aggs"
  "mine (handled_event ms w aggs readys s) = mine s @ aggs"
  by (simp_all add: handled_event_def mine_def filter_map o_def)

lemma event_running:
  assumes "params_ok p" "sw_base p pid s" "attached p pid s" "st_events s = e # ms" "is_event e"
  obtains w aggs readys out where "sw_step p gen DeliverEvent s = Inr (handled_event ms w aggs readys s, out)"
    "sw_base p pid (handled_event ms w aggs readys s)" "attached p pid (handled_event ms w aggs readys s)"
    "credit (handled_event ms w aggs readys s) = credit s" "list_all is_window aggs" "list_all (\<lambda>m. 0 < credit_of m) readys"
proof -
  define W vs j q n where "W = pm_window_size p" and "vs = st_sent s" and "j = length (st_told s)" and "q = arrived s"
    and "n = length vs"
  define w0 where "w0 = st_windower s"
  have fl: "flight s = e # filter is_event ms"
    using assms(4,5) by (simp add: flight_def)
  have att: "wi_running w0" "wi_downstream w0 = Some (SinkNode (st_sink_id s))" "length (flight s) \<le> n"
    "flight s = map (event_at pid vs) [q..<n]" "unat (wi_window_start_ts w0) = j * W" "j * W \<le> q" "q \<le> j * W + W"
    "wi_current_window w0 = amplify (unat (pm_window_size_amplification p)) (drop (j * W) (take q vs))"
    using assms(3) by (simp_all add: attached_def Let_def W_def vs_def j_def q_def n_def w0_def)
  have told: "\<forall>i<j. st_told s ! i = window_at p pid vs i" "n + W < 2 ^ 64" "windower_static p w0"
    using assms(2) by (simp_all add: sw_base_def told_ok_def j_def vs_def n_def W_def w0_def)
  have qn: "q < n" and q: "q = n - length (flight s)"
    using fl att(3) by (auto simp: q_def arrived_def vs_def n_def)
  have qW: "q + W < 2 ^ 64"
    using qn told(2) by simp
  have e: "e = event_at pid vs q" and rest: "filter is_event ms = map (event_at pid vs) [Suc q..<n]"
    using fl att(4) qn by (simp_all add: upt_conv_Cons)
  obtain c t r aggs readys where step: "windower_receive (Some SourceNode) (event_at pid vs q) w0 =
      Inr (w0\<lparr>wi_current_window := c, wi_window_start_ts := t, wi_received_since_ready := r\<rparr>,
        map (TellSink (SinkNode (st_sink_id s))) aggs @ map (TellSource SourceNode) readys)"
    and res: "aggs = (if q = (j + 1) * W then [window_at p pid vs j] else [])" "unat t = (j + length aggs) * W"
      "r \<le> wi_ready_mark w0" "(j + length aggs) * W \<le> q" "q < (j + length aggs) * W + W"
      "c = amplify (unat (pm_window_size_amplification p)) (drop ((j + length aggs) * W) (take (q + 1) vs))"
      "sum_list (map credit_of readys) + unat r = unat (wi_received_since_ready w0) + 1"
      "list_all (\<lambda>m. 0 < credit_of m) readys"
    unfolding W_def
    by (rule windower_event [OF assms(1) told(3) att(1,2) att(5-7) [unfolded W_def] qW [unfolded W_def] qn [unfolded n_def]
          att(8) [unfolded W_def]])
  define w where "w = w0\<lparr>wi_current_window := c, wi_window_start_ts := t, wi_received_since_ready := r\<rparr>"
  define s' where "s' = handled_event ms w aggs readys s"
  have "\<exists>out. sw_step p gen DeliverEvent s = Inr (s', out)"
    using assms(4) step fold_windower_emit [of "s\<lparr>st_events := ms, st_windower := w\<rparr>" aggs SourceNode readys]
    by (simp add: e to_windower_def w0_def [symmetric] w_def [symmetric] s'_def handled_event_def)
  moreover have fl': "flight s' = filter is_event ms" "Suc (length (flight s')) = length (flight s)"
    using fl by (simp_all add: s'_def flight_def)
  then have cr: "credit s' = credit s"
    using res(7) att(1) by (simp add: credit_def held_def s'_def w_def w0_def)
  moreover have arr: "arrived s' = Suc q"
    using fl' q qn att(3) by (simp add: arrived_def s'_def vs_def [symmetric] n_def)
  have s': "st_windower s' = w" "st_sent s' = vs" "length (st_told s') = j + length aggs" "st_sink_id s' = st_sink_id s"
    by (simp_all add: s'_def vs_def j_def)
  have "attached p pid s'"
    unfolding attached_def Let_def arr s' W_def [symmetric] n_def [symmetric]
  proof (intro conjI)
    show "wi_running w" "wi_downstream w = Some (SinkNode (st_sink_id s))"
      using att(1,2) by (simp_all add: w_def)
    show "length (flight s') \<le> n"
      using fl'(2) att(3) by simp
    show "flight s' = map (event_at pid vs) [Suc q..<n]"
      using fl'(1) rest by simp
    show "unat (wi_window_start_ts w) = (j + length aggs) * W" "(j + length aggs) * W \<le> Suc q" "Suc q \<le> (j + length aggs) * W + W"
      using res(2,4,5) by (simp_all add: w_def)
    show "wi_current_window w = amplify (unat (pm_window_size_amplification p)) (drop ((j + length aggs) * W) (take (Suc q) vs))"
      by (simp add: w_def res(6))
  qed
  moreover have "told_ok p pid s'"
    using told(1,2) res(1,4) qn
    by (auto simp: told_ok_def s'_def j_def [symmetric] vs_def [symmetric] W_def [symmetric] n_def [symmetric] nth_append
        less_Suc_eq split: if_splits)
  then have "sw_base p pid s'"
    using assms(2) res(3) told(3) cr by (auto simp: sw_base_def s'_def w_def windower_static_def)
  moreover have "list_all is_window aggs"
    using res(1) by (simp add: window_at_def)
  ultimately show ?thesis
    using that res(8) unfolding s'_def by blast
qed

lemma event_stopped:
  assumes "\<not> wi_running (st_windower s)" "st_events s = e # ms" "is_event e"
  shows "sw_step p gen DeliverEvent s = Inr (s\<lparr>st_events := ms\<rparr>, [])"
  using assms by (cases e) (simp_all add: to_windower_def)

lemma winding_event:
  assumes "params_ok p" "sw_base p pid s" "winding_down p pid s" "st_events s = e # ms" "is_event e"
  obtains s' out readys where "sw_step p gen DeliverEvent s = Inr (s', out)" "sw_base p pid s'" "winding_down p pid s'"
    "st_source s' = st_source s" "st_events s' = ms" "st_credits s' = st_credits s @ readys"
    "list_all (\<lambda>m. 0 < credit_of m) readys" "st_sent s' = st_sent s" "st_iteration s' = st_iteration s"
proof (cases "wi_running (st_windower s)")
  case True
  then have att: "attached p pid s"
    using assms(3) by (simp add: winding_down_def)
  obtain w aggs readys out where step: "sw_step p gen DeliverEvent s = Inr (handled_event ms w aggs readys s, out)"
    and res: "sw_base p pid (handled_event ms w aggs readys s)" "attached p pid (handled_event ms w aggs readys s)"
      "list_all is_window aggs" "list_all (\<lambda>m. 0 < credit_of m) readys"
    by (rule event_running [OF assms(1,2) att assms(4,5)])
  have "wi_running w"
    using res(2) by (simp add: attached_def Let_def)
  then have "winding_down p pid (handled_event ms w aggs readys s)"
    using assms(3) True res by (auto simp: winding_down_def resting_def detached_def sink_late_def sink_counts_def)
  then show ?thesis
    by (intro that [OF step res(1)]) (use res in simp_all)
next
  case False
  have "sw_base p pid (s\<lparr>st_events := ms\<rparr>)" "winding_down p pid (s\<lparr>st_events := ms\<rparr>)"
    using assms False
    by (auto simp: sw_base_def told_ok_def credit_def held_def flight_def winding_down_def resting_def sink_late_def
        sink_counts_def mine_def)
  then show ?thesis
    by (intro that [OF event_stopped [OF False assms(4,5)], of "[]"]) simp_all
qed

end
