(* ===== verification/Streaming_Run.thy ===== *)
theory Streaming_Run
  imports Streaming_System
begin

text \<open>
  The runs of the streaming windows benchmark: every action keeps the invariant, so that the credit that the windower gives bounds the
  events in flight and the windows that it sends are those of the stream; and an iteration can always be completed.
\<close>

subsection \<open>Every action keeps the invariant\<close>

definition keeps :: "Params \<Rightarrow> u32 \<Rightarrow> ('r \<Rightarrow> i64 \<times> 'r) \<Rightarrow> sw_action \<Rightarrow> 'r sw_sys \<Rightarrow> bool" where
  "keeps p pid gen act s \<longleftrightarrow> (\<exists>s' out. sw_step p gen act s = Inr (s', out) \<and> sw_base p pid s' \<and> sw_phase p pid s')"

lemma keepsI: "sw_step p gen act s = Inr (s', out) \<Longrightarrow> sw_base p pid s' \<Longrightarrow> sw_phase p pid s' \<Longrightarrow> keeps p pid gen act s"
  by (auto simp: keeps_def)

lemma keeps_run:
  assumes "params_ok p" "sw_base p pid s" "sw_phase p pid s" "sw_allowed p RunIteration s"
  shows "keeps p pid gen RunIteration s"
proof -
  have "filter (\<lambda>x. fst x = Suc (st_sink_id s)) (st_windows s) = []"
    using assms(2) by (force simp: sw_base_def filter_empty_conv)
  then show ?thesis
    unfolding keeps_def using assms
    by (fastforce simp: sw_base_def told_ok_def credit_def held_def flight_def params_ok_def sw_phase_def starting_def
        fresh_sink_def quiet_def resting_def mine_def)
qed

lemma keeps_kill:
  assumes "sw_base p pid s" "sw_phase p pid s" "sw_allowed p KillSink s"
  shows "keeps p pid gen KillSink s"
  unfolding keeps_def using assms
  by (auto simp: sw_base_def told_ok_def credit_def held_def flight_def arrived_def sw_phase_def flowing_def flushing_def
      quiet_def winding_down_def attached_def resting_def sink_late_def Let_def split: iteration.splits)

lemma keeps_event:
  assumes "params_ok p" "sw_base p pid s" "sw_phase p pid s" "sw_allowed p DeliverEvent s"
  shows "keeps p pid gen DeliverEvent s"
proof -
  obtain e ms where ev: "st_events s = e # ms"
    using assms(4) by (cases "st_events s") simp_all
  then have "\<not> quiet s"
    by (simp add: quiet_def)
  then consider (active) "active p pid s" "st_iteration s = Started" | (latched) "flowing s" "winding_down p pid s" "st_iteration s = LatchOpen"
    | (reset) "flushing s" "winding_down p pid s" "st_iteration s = Resetting"
    using assms(3) by (auto simp: sw_phase_def starting_def split: iteration.splits)
  then show ?thesis
  proof cases
    case active
    then have e: "attached p pid s" "is_event e"
      using ev by (simp_all add: active_def flowing_def)
    obtain w aggs readys out where step: "sw_step p gen DeliverEvent s = Inr (handled_event ms w aggs readys s, out)"
      and res: "sw_base p pid (handled_event ms w aggs readys s)" "attached p pid (handled_event ms w aggs readys s)"
        "credit (handled_event ms w aggs readys s) = credit s" "list_all is_window aggs" "list_all (\<lambda>m. 0 < credit_of m) readys"
      by (rule event_running [OF assms(1,2) e(1) ev e(2)])
    have "active p pid (handled_event ms w aggs readys s)"
      using active res ev by (auto simp: active_def flowing_def sink_counts_def)
    then show ?thesis
      by (intro keepsI [OF step res(1)]) (simp add: sw_phase_def active)
  next
    case latched
    then have e: "is_event e"
      using ev by (simp add: flowing_def)
    obtain s' out readys where "sw_step p gen DeliverEvent s = Inr (s', out)" "sw_base p pid s'" "winding_down p pid s'"
      "st_source s' = st_source s" "st_events s' = ms" "st_credits s' = st_credits s @ readys"
      "list_all (\<lambda>m. 0 < credit_of m) readys" "st_sent s' = st_sent s" "st_iteration s' = st_iteration s"
      by (rule winding_event [OF assms(1,2) latched(2) ev e])
    then show ?thesis
      using latched ev by (intro keepsI [of p gen DeliverEvent s s' out]) (auto simp: sw_phase_def flowing_def)
  next
    case reset
    then obtain es cs where es: "list_all is_event es" "list_all (\<lambda>m. 0 < credit_of m) cs" "st_events s = es @ [WindowerFlush]"
      "st_credits s = cs"
      using ev by (auto simp: flushing_def)
    show ?thesis
    proof (cases "is_event e")
      case True
      then have ms: "es \<noteq> []" "ms = tl es @ [WindowerFlush]" "list_all is_event (tl es)"
        using es ev by (cases es; auto)+
      obtain s' out readys where "sw_step p gen DeliverEvent s = Inr (s', out)" "sw_base p pid s'" "winding_down p pid s'"
        "st_source s' = st_source s" "st_events s' = ms" "st_credits s' = st_credits s @ readys"
        "list_all (\<lambda>m. 0 < credit_of m) readys" "st_sent s' = st_sent s" "st_iteration s' = st_iteration s"
        by (rule winding_event [OF assms(1,2) reset(2) ev True])
      then show ?thesis
        using reset ms es by (intro keepsI [of p gen DeliverEvent s s' out]) (auto simp: sw_phase_def flushing_def)
    next
      case False
      then have e: "e = WindowerFlush" "ms = []" "es = []"
        using es(1,3) ev by (cases es; auto)+
      define s' where "s' = s\<lparr>st_events := [], st_credits := cs @ [SourceFlushed]\<rparr>"
      have "\<exists>out. sw_step p gen DeliverEvent s = Inr (s', out)"
        using ev e es(4) assms(2) by (simp add: to_windower_def s'_def sw_base_def windower_static_def)
      moreover have "sw_base p pid s'"
        using assms(2) e es by (auto simp: s'_def sw_base_def told_ok_def credit_def held_def flight_def)
      moreover have "attached p pid s'" if "attached p pid s"
        using that e es by (simp add: attached_def s'_def Let_def flight_def arrived_def)
      then have "winding_down p pid s'"
        using reset(2) by (auto simp: s'_def winding_down_def resting_def sink_late_def sink_counts_def mine_def)
      moreover have "flushing s'"
        using reset(1) es(2) by (auto simp: s'_def flushing_def)
      ultimately show ?thesis
        using reset(3) by (auto simp: keeps_def sw_phase_def s'_def)
    qed
  qed
qed

lemma keeps_reset:
  assumes "params_ok p" "sw_base p pid s" "sw_phase p pid s" "sw_allowed p ResetSource s"
  shows "keeps p pid gen ResetSource s"
proof -
  have it: "st_iteration s = LatchOpen" "flowing s" "winding_down p pid s"
    using assms(3,4) by (simp_all add: sw_phase_def)
  have "0 < length (st_told s)"
    using it(3) params_facts(4) [OF assms(1)] by (auto simp: winding_down_def sink_late_def)
  then have "0 < length (st_told s) * pm_window_size p"
    using params_facts(2) [OF assms(1)] by simp
  then have "st_sent s \<noteq> []"
    using assms(2) by (auto simp: sw_base_def told_ok_def)
  then have d: "so_downstream (st_source s) = Some WindowerNode" "\<not> so_flushing (st_source s)"
    using it(2) by (simp_all add: flowing_def)
  define a where "a = (st_source s)\<lparr>so_flushing := True, so_reply_on_flushed := Some 0, so_downstream := None, so_current_ts := 0,
    so_remaining := 0\<rparr>"
  define s' where "s' = s\<lparr>st_iteration := Resetting, st_source := a, st_events := st_events s @ [WindowerFlush]\<rparr>"
  have "\<exists>out. sw_step p gen ResetSource s = Inr (s', out)"
    using d by (simp add: to_source_def s'_def a_def)
  moreover have fl: "flight s' = flight s" "arrived s' = arrived s" "held s' = held s" "mine s' = mine s"
    by (simp_all add: s'_def sys_defs)
  have fr: "st_windower s' = st_windower s" "st_sent s' = st_sent s" "st_told s' = st_told s" "st_windows s' = st_windows s"
    "st_sink_id s' = st_sink_id s" "st_credits s' = st_credits s" "so_partition_id (st_source s') = so_partition_id (st_source s)"
    "so_remaining (st_source s') = 0"
    by (simp_all add: s'_def a_def)
  have "sw_base p pid s'"
    using assms(2) unfolding sw_base_def told_ok_def credit_def fl fr by simp
  moreover have "flushing s'"
    using it(2) by (auto simp: flushing_def flowing_def s'_def a_def)
  moreover have "attached p pid s'" if "attached p pid s"
    using that unfolding attached_def Let_def fl by (simp add: s'_def)
  then have "winding_down p pid s'"
    using it(3) fl by (auto simp: winding_down_def resting_def sink_late_def sink_counts_def s'_def)
  ultimately show ?thesis
    by (auto simp: keeps_def sw_phase_def s'_def)
qed

text \<open>The system after the windower has stopped, with \<open>cs\<close> left for it from the sinks.\<close>

definition stopped :: "(nat \<times> WindowerMsg) list \<Rightarrow> 'r sw_sys \<Rightarrow> 'r sw_sys" where
  "stopped cs s = s\<lparr>st_control := cs, st_windower := (st_windower s)\<lparr>wi_running := False, wi_current_window := [],
     wi_downstream := None, wi_window_start_ts := 0\<rparr>\<rparr>"

lemma stopped_frame [simp]:
  "st_sent (stopped cs s) = st_sent s" "st_told (stopped cs s) = st_told s" "st_sink (stopped cs s) = st_sink s"
  "st_sink_id (stopped cs s) = st_sink_id s" "st_iteration (stopped cs s) = st_iteration s" "mine (stopped cs s) = mine s"
  "quiet (stopped cs s) = quiet s" "flowing (stopped cs s) = flowing s" "flushing (stopped cs s) = flushing s"
  "sink_late p (stopped cs s) = sink_late p s" "\<not> wi_running (st_windower (stopped cs s))"
  by (simp_all add: stopped_def mine_def quiet_def flowing_def flushing_def sink_late_def sink_counts_def)

lemma windower_stops:
  assumes "st_control s = (i, WindowerStop) # cs" "wi_running (st_windower s)"
  shows "sw_step p gen DeliverControl s = Inr (stopped cs s, [])" "sw_base p pid s \<Longrightarrow> sw_base p pid (stopped cs s)"
    "resting s rest \<Longrightarrow> resting (stopped cs s) rest"
  using assms
  by (auto simp: to_windower_def stopped_def sw_base_def told_ok_def windower_static_def credit_def held_def flight_def
      resting_def detached_def)

lemma windower_starts:
  assumes "params_ok p" "sw_base p pid s" "starting p s" "st_control s = [(st_sink_id s, WindowerStart)]" "detached (st_windower s)"
    "mine s = []"
  defines "s' \<equiv> s\<lparr>st_control := [], st_windower := (st_windower s)\<lparr>wi_downstream := Some (SinkNode (st_sink_id s)), wi_running := True,
    wi_received_since_ready := 0\<rparr>, st_credits := [SourceReady (pm_batch_size p)]\<rparr>"
  shows "\<exists>out. sw_step p gen DeliverControl s = Inr (s', out)" "sw_base p pid s'" "active p pid s'" "st_iteration s' = st_iteration s"
proof -
  note defs = s'_def sw_base_def told_ok_def windower_static_def credit_def held_def flight_def quiet_def detached_def starting_def
  show "\<exists>out. sw_step p gen DeliverControl s = Inr (s', out)" "sw_base p pid s'" "st_iteration s' = st_iteration s"
    using assms(2-5) by (simp_all add: defs to_windower_def)
  have "sk_window_count (fresh_sink p) = 0" "sk_latch (fresh_sink p) = 1" "sink_counts p s' (fresh_sink p)"
    using assms(3,6) by (simp_all add: fresh_sink_def sink_with_def sink_counts_def starting_def s'_def mine_def)
  moreover have "credit s' = unat (pm_batch_size p)" "flowing s'" "attached p pid s'"
    using assms(1,3,5) params_facts(5) [OF assms(1)]
    by (simp_all add: defs flowing_def attached_def arrived_def Let_def)
  ultimately show "active p pid s'"
    using assms(1,3) by (simp add: active_def defs params_ok_def)
qed

lemma keeps_control:
  assumes "params_ok p" "sw_base p pid s" "sw_phase p pid s" "sw_allowed p DeliverControl s"
  shows "keeps p pid gen DeliverControl s"
proof -
  obtain i m cs where ct: "st_control s = (i, m) # cs"
    using assms(4) by (cases "st_control s") auto
  have "(m = WindowerStop \<and> wi_running (st_windower s)) \<or>
      (starting p s \<and> detached (st_windower s) \<and> st_control s = [(st_sink_id s, WindowerStart)] \<and> mine s = [] \<and> st_iteration s = Started)"
    using assms(3) ct by (auto simp: sw_phase_def winding_down_def starting_def active_def resting_def split: iteration.splits)
  then show ?thesis
  proof (elim disjE conjE)
    assume m: "m = WindowerStop" "wi_running (st_windower s)"
    note stop = windower_stops [OF ct [unfolded m(1)] m(2)]
    show ?thesis
      using assms(3) stop(3) ct
      by (intro keepsI [OF stop(1) stop(2) [OF assms(2)]])
        (auto simp: sw_phase_def starting_def active_def winding_down_def split: iteration.splits)
  next
    assume st: "starting p s" "detached (st_windower s)" "st_control s = [(st_sink_id s, WindowerStart)]" "mine s = []"
      "st_iteration s = Started"
    note start = windower_starts [OF assms(1,2) st(1,3,2,4)]
    from start(1) [of gen] show ?thesis
      by (elim exE) (erule keepsI, rule start(2), simp only: sw_phase_def start(3,4) st(5) iteration.case simp_thms)
  qed
qed

text \<open>A further batch of credit, before the source sends.\<close>

lemma credited:
  assumes "sw_base p pid s" "flowing s" "st_credits s = SourceReady n # cs"
  defines "t \<equiv> s\<lparr>st_credits := cs, st_source := (st_source s)\<lparr>so_remaining := so_remaining (st_source s) + n,
    so_downstream := Some WindowerNode\<rparr>\<rparr>"
  shows "sw_base p pid t" "flowing t" "credit t = credit s"
proof -
  have "unat (so_remaining (st_source s)) + unat n \<le> unat (pm_batch_size p)"
    using assms(1,3) by (simp add: sw_base_def credit_def)
  then have "unat (so_remaining (st_source s)) + unat n < 18446744073709551616"
    using unat_u64_less [of "pm_batch_size p"] by linarith
  then have "unat (so_remaining (st_source s) + n) = unat (so_remaining (st_source s)) + unat n"
    by (simp add: unat_add_u64)
  then show cr: "credit t = credit s"
    using assms(3) by (simp add: t_def credit_def held_def flight_def)
  then show "sw_base p pid t"
    using assms(1) unfolding sw_base_def by (simp add: t_def told_ok_def)
  show "flowing t"
    using assms(2,3) by (simp add: t_def flowing_def)
qed

text \<open>A send in a state of the stream \<open>t\<close> that differs from \<open>s\<close> only in the source's own accounts.\<close>

lemma keeps_send:
  assumes "sw_base p pid t" "flowing t" "credit t = credit s" "in_range p t"
    "st_iteration s = Started \<and> active p pid s \<or> st_iteration s = LatchOpen \<and> winding_down p pid s"
    "sw_step p gen act s = sw_send gen t"
    "t = s\<lparr>st_source := st_source t, st_credits := st_credits t, st_nexts := st_nexts t\<rparr>"
  shows "keeps p pid gen act s"
proof -
  have range: "length (st_sent t) + pm_window_size p + 1 < 2 ^ 64"
    using assms(2,4) by (simp add: flowing_def in_range_def)
  obtain t' out where step: "sw_send gen t = Inr (t', out)" and base: "sw_base p pid t'"
    and res: "flowing t'" "credit t' = credit t" "attached p pid t \<Longrightarrow> attached p pid t'"
      "0 < so_remaining (st_source t') \<Longrightarrow> 0 < st_nexts t'" "st_windower t' = st_windower t" "st_control t' = st_control t"
      "st_sink t' = st_sink t" "mine t' = mine t" "st_told t' = st_told t" "st_iteration t' = st_iteration t"
    using sw_send_keeps [OF assms(1,2) range, of gen] by blast
  have fr: "st_windower t = st_windower s" "st_control t = st_control s" "st_sink t = st_sink s" "mine t = mine s"
    "st_told t = st_told s" "st_iteration t = st_iteration s" "attached p pid t = attached p pid s"
    by (subst assms(7), simp add: mine_def attached_def arrived_def flight_def Let_def)+
  have "sw_phase p pid t'"
    using assms(3,5) res fr
    by (auto simp: sw_phase_def active_def winding_down_def resting_def sink_late_def sink_counts_def)
  then show ?thesis
    using keepsI assms(6) step base by metis
qed

lemma keeps_credit:
  assumes "sw_base p pid s" "sw_phase p pid s" "sw_allowed p DeliverCredit s"
  shows "keeps p pid gen DeliverCredit s"
proof -
  obtain m cs where cr: "st_credits s = m # cs" and range: "in_range p s"
    using assms(3) by (cases "st_credits s") auto
  then have "\<not> quiet s"
    by (simp add: quiet_def)
  then consider (stream) "flowing s" "st_iteration s = Started \<and> active p pid s \<or> st_iteration s = LatchOpen \<and> winding_down p pid s"
    | (reset) "flushing s" "winding_down p pid s" "st_iteration s = Resetting"
    using assms(2) by (auto simp: sw_phase_def starting_def active_def split: iteration.splits)
  then show ?thesis
  proof cases
    case stream
    then obtain n where m: "m = SourceReady n"
      using cr by (cases m) (auto simp: flowing_def)
    define t where "t = s\<lparr>st_credits := cs, st_source := (st_source s)\<lparr>so_remaining := so_remaining (st_source s) + n,
      so_downstream := Some WindowerNode\<rparr>\<rparr>"
    have t: "sw_base p pid t" "flowing t" "credit t = credit s"
      using credited [OF assms(1) stream(1) cr [unfolded m]] by (simp_all add: t_def)
    have "sw_step p gen DeliverCredit s = sw_send gen t"
      using stream(1) cr m by (simp add: to_source_def sw_send_def t_def flowing_def)
    then show ?thesis
      using range by (intro keeps_send [OF t(1,2,3) _ stream(2)]) (simp_all add: in_range_def t_def)
  next
    case reset
    then obtain es ms where es: "list_all is_event es" "list_all (\<lambda>m. 0 < credit_of m) ms"
      "st_events s = es @ [WindowerFlush] \<and> st_credits s = ms \<or> st_events s = [] \<and> st_credits s = ms @ [SourceFlushed]"
      and fl: "so_flushing (st_source s)" "so_reply_on_flushed (st_source s) \<noteq> None"
      by (auto simp: flushing_def)
    show ?thesis
    proof (cases "m = SourceFlushed")
      case True
      then have e: "st_events s = []" "cs = []"
        using es cr by (cases ms; auto)+
      define a where "a = (st_source s)\<lparr>so_reply_on_flushed := None, so_flushing := False\<rparr>"
      define s' where "s' = s\<lparr>st_credits := [], st_source := a, st_iteration := Prepared\<rparr>"
      have "\<exists>out. sw_step p gen DeliverCredit s = Inr (s', out)"
        using cr True e fl by (auto simp: to_source_def s'_def a_def)
      moreover have "sw_base p pid s'"
        using assms(1) cr True by (auto simp: sw_base_def told_ok_def credit_def held_def flight_def s'_def a_def e)
      moreover have "sw_phase p pid s'"
        using reset e
        by (auto simp: sw_phase_def quiet_def flushing_def winding_down_def resting_def sink_late_def sink_counts_def mine_def s'_def a_def)
      ultimately show ?thesis
        by (auto simp: keeps_def)
    next
      case False
      then have m: "0 < credit_of m" "ms = m # tl ms"
        using es cr by (cases ms; auto)+
      then obtain n where n: "m = SourceReady n"
        by (cases m) auto
      have "sw_step p gen DeliverCredit s = Inr (s\<lparr>st_credits := cs\<rparr>, [])"
        using cr n fl by (simp add: to_source_def)
      moreover have "sw_base p pid (s\<lparr>st_credits := cs\<rparr>)"
        using assms(1) cr by (auto simp: sw_base_def told_ok_def credit_def held_def flight_def)
      moreover have "\<exists>es ms. list_all is_event es \<and> list_all (\<lambda>m. 0 < credit_of m) ms \<and>
          (st_events s = es @ [WindowerFlush] \<and> cs = ms \<or> st_events s = [] \<and> cs = ms @ [SourceFlushed])"
        using es m cr by (intro exI [of _ es] exI [of _ "tl ms"]) (cases ms; auto)
      then have "flushing (s\<lparr>st_credits := cs\<rparr>)"
        using reset(1) by (simp add: flushing_def)
      then have "sw_phase p pid (s\<lparr>st_credits := cs\<rparr>)"
        using reset
        by (simp add: sw_phase_def winding_down_def attached_def arrived_def flight_def resting_def sink_late_def sink_counts_def
            mine_def Let_def)
      ultimately show ?thesis
        by (rule keepsI)
    qed
  qed
qed

lemma keeps_next:
  assumes "sw_base p pid s" "sw_phase p pid s" "sw_allowed p DeliverNext s"
  shows "keeps p pid gen DeliverNext s"
proof -
  define t where "t = s\<lparr>st_nexts := st_nexts s - 1\<rparr>"
  have t: "sw_base p pid t" "credit t = credit s" "flowing t = flowing s" "quiet t = quiet s" "flushing t = flushing s"
    "winding_down p pid t = winding_down p pid s" "resting t rest = resting s rest" "sink_late p t = sink_late p s"
    "mine t = mine s" for rest
    using assms(1)
    by (auto simp: t_def sw_base_def told_ok_def credit_def held_def flight_def flowing_def quiet_def flushing_def mine_def
        winding_down_def resting_def sink_late_def sink_counts_def attached_def arrived_def Let_def)
  have fr: "st_iteration t = st_iteration s" "st_sink t = st_sink s" "st_sent t = st_sent s" "st_told t = st_told s"
    "st_sink_id t = st_sink_id s"
    by (simp_all add: t_def)
  have start: "starting p t = starting p s"
    unfolding starting_def t fr ..
  have phase: "sw_phase p pid t" if "\<not> (st_iteration s = Started \<and> active p pid s)"
    using that assms(2) by (auto simp: sw_phase_def t fr start split: iteration.splits)
  consider (stream) "flowing s" "st_iteration s = Started \<and> active p pid s \<or> st_iteration s = LatchOpen \<and> winding_down p pid s"
    | (quiet) "quiet s" "\<not> (st_iteration s = Started \<and> active p pid s)"
    | (reset) "so_flushing (st_source s)" "\<not> (st_iteration s = Started \<and> active p pid s)"
    using assms(2) by (cases "st_iteration s = Started \<and> active p pid s") (auto simp: sw_phase_def starting_def active_def flushing_def split: iteration.splits)
  then show ?thesis
  proof cases
    case stream
    have "sw_step p gen DeliverNext s = sw_send gen t"
      using stream(1) by (simp add: to_source_def sw_send_def t_def flowing_def)
    then show ?thesis
      using assms(3) stream t(3) by (intro keeps_send [OF t(1) _ t(2) _ stream(2)]) (simp_all add: in_range_def t_def)
  next
    case quiet
    then have "sw_step p gen DeliverNext s = Inr (t, [])"
      by (simp add: to_source_def t_def quiet_def source_send_def)
    then show ?thesis
      using t(1) phase [OF quiet(2)] by (rule keepsI)
  next
    case reset
    then have "sw_step p gen DeliverNext s = Inr (t, [])"
      by (simp add: to_source_def t_def)
    then show ?thesis
      using t(1) phase [OF reset(2)] by (rule keepsI)
  qed
qed

subsection \<open>The sink counts windows\<close>

text \<open>The system after a message to a sink has left the queue.\<close>

definition taken :: "(nat \<times> SinkMsg) list \<Rightarrow> 'r sw_sys \<Rightarrow> 'r sw_sys" where
  "taken ms s = s\<lparr>st_windows := ms\<rparr>"

lemma taken_frame [simp]:
  "st_source (taken ms s) = st_source s" "st_windower (taken ms s) = st_windower s" "st_sink (taken ms s) = st_sink s"
  "st_sink_id (taken ms s) = st_sink_id s" "st_control (taken ms s) = st_control s" "st_iteration (taken ms s) = st_iteration s"
  "st_sent (taken ms s) = st_sent s" "st_told (taken ms s) = st_told s" "st_nexts (taken ms s) = st_nexts s"
  "quiet (taken ms s) = quiet s" "flowing (taken ms s) = flowing s" "flushing (taken ms s) = flushing s"
  "resting (taken ms s) rest = resting s rest" "attached p pid (taken ms s) = attached p pid s" "credit (taken ms s) = credit s"
  by (simp_all add: taken_def quiet_def flowing_def flushing_def resting_def attached_def arrived_def flight_def Let_def
      credit_def held_def)

lemma taken_base: "sw_base p pid s \<Longrightarrow> st_windows s = x # ms \<Longrightarrow> sw_base p pid (taken ms s)"
  by (auto simp: sw_base_def told_ok_def) (auto simp: taken_def)

lemma taken_mine: "st_windows s = (i, m) # ms \<Longrightarrow> mine s = (if i = st_sink_id s then m # mine (taken ms s) else mine (taken ms s))"
  by (simp add: mine_def taken_def)

lemma taken_other:
  assumes "sw_phase p pid s" "st_windows s = (i, m) # ms" "st_sink s = None \<or> i \<noteq> st_sink_id s"
  shows "sw_phase p pid (taken ms s)"
proof (cases "st_sink s")
  case None
  then show ?thesis
    using assms(1)
    by (auto simp: sw_phase_def starting_def active_def winding_down_def sink_late_def split: iteration.splits)
next
  case (Some k)
  then have "mine (taken ms s) = mine s"
    using assms(2,3) taken_mine by fastforce
  then show ?thesis
    using assms(1)
    by (auto simp: sw_phase_def starting_def active_def winding_down_def sink_late_def sink_counts_def split: iteration.splits)
qed

definition with_sink :: "sw_node StreamSink \<Rightarrow> (nat \<times> WindowerMsg) list \<Rightarrow> iteration \<Rightarrow> 'r sw_sys \<Rightarrow> 'r sw_sys" where
  "with_sink k cs it s = s\<lparr>st_sink := Some k, st_control := st_control s @ cs, st_iteration := it\<rparr>"

lemma with_sink_frame [simp]:
  "st_source (with_sink k cs it s) = st_source s" "st_windower (with_sink k cs it s) = st_windower s"
  "st_sink (with_sink k cs it s) = Some k" "st_sink_id (with_sink k cs it s) = st_sink_id s"
  "st_control (with_sink k cs it s) = st_control s @ cs" "st_iteration (with_sink k cs it s) = it"
  "st_sent (with_sink k cs it s) = st_sent s" "st_told (with_sink k cs it s) = st_told s" "st_nexts (with_sink k cs it s) = st_nexts s"
  "quiet (with_sink k cs it s) = quiet s" "flowing (with_sink k cs it s) = flowing s" "flushing (with_sink k cs it s) = flushing s"
  "attached p pid (with_sink k cs it s) = attached p pid s" "credit (with_sink k cs it s) = credit s"
  "mine (with_sink k cs it s) = mine s" "sw_base p pid (with_sink k cs it s) = sw_base p pid s"
  by (simp_all add: with_sink_def quiet_def flowing_def flushing_def attached_def arrived_def flight_def Let_def
      credit_def held_def mine_def sw_base_def told_ok_def)

lemma sink_steps:
  assumes "st_windows s = (st_sink_id s, m) # ms" "st_sink s = Some k"
  shows "m = SinkRun \<Longrightarrow> sw_step p gen DeliverWindow s =
      Inr (with_sink k [(st_sink_id s, WindowerStart)] (st_iteration s) (taken ms s), [TellWindower (sk_upstream k) WindowerStart])"
    "is_window m \<Longrightarrow> sk_window_count k + 1 \<noteq> sk_number_of_windows k \<Longrightarrow> sw_step p gen DeliverWindow s =
      Inr (with_sink (k\<lparr>sk_window_count := sk_window_count k + 1\<rparr>) [] (st_iteration s) (taken ms s), [])"
    "is_window m \<Longrightarrow> sk_window_count k + 1 = sk_number_of_windows k \<Longrightarrow> sk_latch k = 1 \<Longrightarrow> sw_step p gen DeliverWindow s =
      Inr (with_sink (k\<lparr>sk_window_count := sk_number_of_windows k, sk_latch := 0\<rparr>) [(st_sink_id s, WindowerStop)] LatchOpen (taken ms s),
        [CountDown, TellWindower (sk_upstream k) WindowerStop])"
  using assms by (cases s; cases m; simp add: to_sink_def with_sink_def taken_def Let_def)+

lemma counted_late:
  assumes "sink_late p s" "st_sink s = Some k" "st_windows s = (st_sink_id s, m) # ms" "sw_base p pid s" "params_ok p"
  shows "is_window m" "sk_window_count k + 1 \<noteq> sk_number_of_windows k"
    "sink_late p (with_sink (k\<lparr>sk_window_count := sk_window_count k + 1\<rparr>) [] it (taken ms s))"
proof -
  have k: "sink_counts p s k" "pm_number_of_windows p \<le> sk_window_count k" "unat (pm_number_of_windows p) \<le> length (st_told s)"
    using assms(1,2) by (simp_all add: sink_late_def)
  have m: "mine s = m # mine (taken ms s)"
    using taken_mine [OF assms(3)] by simp
  then show "is_window m"
    using k(1) by (simp add: sink_counts_def)
  have "length (st_told s) * 1 \<le> length (st_told s) * pm_window_size p"
    using params_facts(2) [OF assms(5)] by (intro mult_le_mono2) simp
  moreover have "unat (sk_window_count k) + 1 \<le> length (st_told s)"
    using k(1) m by (simp add: sink_counts_def)
  moreover have "length (st_told s) * pm_window_size p \<le> length (st_sent s)" "length (st_sent s) + pm_window_size p < 2 ^ 64"
    using assms(4) by (simp_all add: sw_base_def told_ok_def)
  ultimately have "unat (sk_window_count k) + 1 < 2 ^ 64"
    by linarith
  then have u: "unat (sk_window_count k + 1) = unat (sk_window_count k) + 1"
    by (simp add: unat_Suc_u64)
  then show "sk_window_count k + 1 \<noteq> sk_number_of_windows k"
    using k by (auto simp: sink_counts_def word_le_nat_alt)
  show "sink_late p (with_sink (k\<lparr>sk_window_count := sk_window_count k + 1\<rparr>) [] it (taken ms s))"
    using k m u by (auto simp: sink_late_def sink_counts_def word_le_nat_alt)
qed

lemma counted_active:
  assumes "active p pid s" "st_sink s = Some k" "st_windows s = (st_sink_id s, m) # ms"
  shows "is_window m"
    "sk_window_count k + 1 \<noteq> sk_number_of_windows k \<Longrightarrow>
      active p pid (with_sink (k\<lparr>sk_window_count := sk_window_count k + 1\<rparr>) [] (st_iteration s) (taken ms s))"
    "sk_window_count k + 1 = sk_number_of_windows k \<Longrightarrow>
      winding_down p pid (with_sink (k\<lparr>sk_window_count := sk_number_of_windows k, sk_latch := 0\<rparr>)
        [(st_sink_id s, WindowerStop)] it (taken ms s))"
    "sk_latch k = 1"
proof -
  have k: "sink_counts p s k" "sk_window_count k < pm_number_of_windows p" "sk_latch k = 1"
    using assms(1,2) by (auto simp: active_def)
  show "sk_latch k = 1" by fact
  have m: "mine s = m # mine (taken ms s)"
    using taken_mine [OF assms(3)] by simp
  then show "is_window m"
    using k(1) by (simp add: sink_counts_def)
  have "unat (sk_window_count k) < unat (pm_number_of_windows p)"
    using k(2) by (simp add: word_less_nat_alt)
  then have "unat (sk_window_count k) + 1 < 18446744073709551616"
    using unat_u64_less [of "pm_number_of_windows p"] by linarith
  then have u: "unat (sk_window_count k + 1) = unat (sk_window_count k) + 1"
    by (simp add: unat_Suc_u64)
  show "active p pid (with_sink (k\<lparr>sk_window_count := sk_window_count k + 1\<rparr>) [] (st_iteration s) (taken ms s))"
    if "sk_window_count k + 1 \<noteq> sk_number_of_windows k"
  proof -
    have "unat (sk_window_count k + 1) \<noteq> unat (pm_number_of_windows p)"
      using that k(1) by (auto simp: sink_counts_def word_unat_eq_iff)
    then have "sk_window_count k + 1 < pm_number_of_windows p"
      using k(2) u by (simp add: word_less_nat_alt)
    then show ?thesis
      using assms(1) k m u by (auto simp: active_def sink_counts_def)
  qed
  show "winding_down p pid (with_sink (k\<lparr>sk_window_count := sk_number_of_windows k, sk_latch := 0\<rparr>)
      [(st_sink_id s, WindowerStop)] it (taken ms s))"
    if "sk_window_count k + 1 = sk_number_of_windows k"
  proof -
    have "unat (pm_number_of_windows p) = unat (sk_window_count k) + 1"
      using that k(1) u by (simp add: sink_counts_def)
    moreover have "wi_running (st_windower s)" "attached p pid s" "st_control s = []"
      using assms(1) by (simp_all add: active_def attached_def Let_def)
    ultimately show ?thesis
      using k m that by (simp add: winding_down_def resting_def sink_late_def sink_counts_def)
  qed
qed

lemma keeps_window:
  assumes "params_ok p" "sw_base p pid s" "sw_phase p pid s" "sw_allowed p DeliverWindow s"
  shows "keeps p pid gen DeliverWindow s"
proof -
  obtain i m ms where wd: "st_windows s = (i, m) # ms"
    using assms(4) by (cases "st_windows s") auto
  note base = taken_base [OF assms(2) wd]
  show ?thesis
  proof (cases "st_sink s = None \<or> i \<noteq> st_sink_id s")
    case True
    then have "sw_step p gen DeliverWindow s = Inr (taken ms s, [])"
      using wd by (auto simp: taken_def split: option.splits)
    then show ?thesis
      using base taken_other [OF assms(3) wd True] by (rule keepsI)
  next
    case False
    then obtain k where k: "st_sink s = Some k" and i: "i = st_sink_id s"
      by auto
    note step = sink_steps [OF wd [unfolded i] k]
    have my: "mine s = m # mine (taken ms s)"
      using taken_mine [OF wd] i by simp
    consider (starting) "starting p s" "st_iteration s = Started" | (active) "active p pid s" "st_iteration s = Started"
      | (late) "sink_late p s" "st_iteration s \<noteq> Started"
      using assms(3) k by (auto simp: sw_phase_def winding_down_def split: iteration.splits)
    then show ?thesis
    proof cases
      case starting
      then have "m = SinkRun" "mine (taken ms s) = []" "k = fresh_sink p" "resting s []"
        using my k by (auto simp: starting_def)
      then show ?thesis
        using starting base by (intro keepsI [OF step(1)]) (auto simp: sw_phase_def starting_def resting_def)
    next
      case active
      note act = counted_active [OF active(1) k wd [unfolded i]]
      show ?thesis
      proof (cases "sk_window_count k + 1 = sk_number_of_windows k")
        case True
        show ?thesis
          using base act(3) [OF True] active
          by (intro keepsI [OF step(3) [OF act(1) True act(4)]]) (simp_all add: sw_phase_def active_def)
      next
        case False
        show ?thesis
          using base act(2) [OF False] active by (intro keepsI [OF step(2) [OF act(1) False]]) (simp_all add: sw_phase_def)
      qed
    next
      case late
      note cnt = counted_late [OF late(1) k wd [unfolded i] assms(2,1)]
      show ?thesis
        using base cnt(3) [of "st_iteration s"] late(2) assms(3)
        by (intro keepsI [OF step(2) [OF cnt(1,2)]])
          (auto simp: sw_phase_def winding_down_def resting_def split: iteration.splits)
    qed
  qed
qed

lemma keeps_all:
  assumes "params_ok p" "sw_base p pid s" "sw_phase p pid s" "sw_allowed p act s"
  shows "keeps p pid gen act s"
  using assms(4)
  by (cases act)
    (simp_all only: keeps_run [OF assms(1-3)] keeps_reset [OF assms(1-3)] keeps_kill [OF assms(2,3)] keeps_event [OF assms(1-3)]
      keeps_control [OF assms(1-3)] keeps_credit [OF assms(2,3)] keeps_next [OF assms(2,3)] keeps_window [OF assms(1-3)])

definition sw_safe :: "Params \<Rightarrow> u32 \<Rightarrow> 'r sw_sys \<Rightarrow> sw_node sw_out list \<Rightarrow> bool" where
  "sw_safe p pid s out \<longleftrightarrow> params_ok p \<and> sw_base p pid s \<and> sw_phase p pid s"

interpretation streaming: safe_component "sw_allowed p" "sw_step p gen" "sw_safe p pid"
  by unfold_locales (use keeps_all in \<open>fastforce simp: sw_safe_def keeps_def\<close>)

lemma sw_start_safe: "params_ok p \<Longrightarrow> sw_safe p pid (sw_start p seed pid) []"
  by (simp add: sw_safe_def sw_start_def sw_base_def windower_static_def windower_with_def source_with_def told_ok_def params_ok_def
      credit_def held_def flight_def sw_phase_def quiet_def resting_def detached_def)

lemma reachable_safe:
  assumes "params_ok p" "reach (sw_allowed p) (sw_step p gen) (sw_start p seed pid) s out"
  shows "sw_base p pid s" "sw_phase p pid s"
  using streaming.reach_inv [OF assms(2) sw_start_safe [OF assms(1)]] by (simp_all add: sw_safe_def)

subsection \<open>An iteration can always be completed\<close>

definition goal :: "Params \<Rightarrow> nat" where
  "goal p = unat (pm_number_of_windows p) * pm_window_size p + unat (pm_batch_size p) + 1"

definition work :: "Params \<Rightarrow> 'r sw_sys \<Rightarrow> nat" where
  "work p s = 7 * (goal p - length (st_sent s)) + 5 * length (st_events s) + length (st_credits s) + st_nexts s +
     3 * length (st_windows s) + sum_list (map (\<lambda>(i, m). if m = WindowerStart then 2 else 1) (st_control s))"

lemma send_work:
  assumes "sw_send gen s = Inr (s', out)" "length (st_sent s) < goal p"
  shows "work p s' \<le> work p s \<and> st_iteration s' = st_iteration s"
  using assms
  by (auto simp: sw_send_def source_send_def work_def panic_simps Let_def split: if_splits option.splits prod.splits)

lemma next_work:
  assumes "sw_step p gen DeliverNext s = Inr (s', out)" "0 < st_nexts s" "flowing s" "length (st_sent s) < goal p"
  shows "work p s' < work p s \<and> st_iteration s' = st_iteration s"
proof -
  have "sw_send gen (s\<lparr>st_nexts := st_nexts s - 1\<rparr>) = Inr (s', out)"
    using assms(1,3) by (simp add: to_source_def sw_send_def flowing_def)
  moreover have "work p (s\<lparr>st_nexts := st_nexts s - 1\<rparr>) + 1 = work p s"
    using assms(2) by (simp add: work_def)
  ultimately show ?thesis
    using send_work [of gen "s\<lparr>st_nexts := st_nexts s - 1\<rparr>" s' out p] assms(4) by simp
qed

lemma credit_work:
  assumes "sw_step p gen DeliverCredit s = Inr (s', out)" "st_credits s \<noteq> []" "flowing s" "length (st_sent s) < goal p"
  shows "work p s' < work p s \<and> st_iteration s' = st_iteration s"
proof -
  obtain n cs where cr: "st_credits s = SourceReady n # cs"
    using assms(2,3) by (cases "st_credits s"; cases "hd (st_credits s)") (auto simp: flowing_def)
  define t where "t = s\<lparr>st_credits := cs, st_source := (st_source s)\<lparr>so_remaining := so_remaining (st_source s) + n,
    so_downstream := Some WindowerNode\<rparr>\<rparr>"
  have "sw_send gen t = Inr (s', out)"
    using assms(1,3) cr by (simp add: to_source_def sw_send_def flowing_def t_def)
  moreover have "work p t + 1 = work p s"
    using cr by (simp add: work_def t_def)
  ultimately show ?thesis
    using send_work [of gen t s' out p] assms(4) by (simp add: t_def)
qed

lemma trigger_outputs: "trigger_window pid w = Inr (w', out) \<Longrightarrow> (\<exists>d m. out = [TellSink d m]) \<or> out = []"
  by (auto simp: trigger_window_def Let_def split: if_splits option.splits)

lemma ready_outputs: "manage_ready w = Inr (w', out) \<Longrightarrow> (\<exists>d m. out = [TellSource d m]) \<or> out = []"
  by (auto simp: manage_ready_def Let_def split: if_splits)

lemma event_outputs:
  assumes "windower_receive sender (WindowerEvent ts pid v) w = Inr (w', out)"
  obtains o1 o2 where "out = o1 @ o2" "(\<exists>d m. o1 = [TellSink d m]) \<or> o1 = []" "(\<exists>d m. o2 = [TellSource d m]) \<or> o2 = []"
  using assms trigger_outputs ready_outputs
  by (fastforce simp: panic_simps push_amplified_def split: if_splits)

lemma event_work:
  assumes "sw_step p gen DeliverEvent s = Inr (s', out)" "st_events s \<noteq> []" "flowing s"
  shows "work p s' < work p s \<and> st_iteration s' = st_iteration s"
proof -
  obtain ts pid v ms where ev: "st_events s = WindowerEvent ts pid v # ms"
    using assms(2,3) by (cases "st_events s"; cases "hd (st_events s)") (auto simp: flowing_def)
  obtain w where w: "windower_receive (Some SourceNode) (WindowerEvent ts pid v) (st_windower s) = Inr (w, out)"
    and s': "s' = fold windower_emit out (s\<lparr>st_events := ms, st_windower := w\<rparr>)"
    using assms(1) ev by (auto simp: to_windower_def rbind_eq_Inr)
  obtain o1 o2 where out: "out = o1 @ o2" "(\<exists>d m. o1 = [TellSink d m]) \<or> o1 = []" "(\<exists>d m. o2 = [TellSource d m]) \<or> o2 = []"
    by (rule event_outputs [OF w])
  have emit1: "work p (fold windower_emit o1 t) \<le> work p t + 3 \<and> st_iteration (fold windower_emit o1 t) = st_iteration t" for t :: "'a sw_sys"
  proof -
    have "work p (windower_emit (TellSink d m) t) \<le> work p t + 3 \<and> st_iteration (windower_emit (TellSink d m) t) = st_iteration t" for d m
      by (cases d) (simp_all add: work_def)
    then show ?thesis
      using out(2) by auto
  qed
  have emit2: "work p (fold windower_emit o2 t) \<le> work p t + 1 \<and> st_iteration (fold windower_emit o2 t) = st_iteration t" for t :: "'a sw_sys"
    using out(3) by (auto simp: work_def)
  define t where "t = s\<lparr>st_events := ms, st_windower := w\<rparr>"
  have t: "work p s = work p t + 5" "st_iteration t = st_iteration s"
    using ev by (simp_all add: work_def t_def)
  have "s' = fold windower_emit o2 (fold windower_emit o1 t)"
    by (simp add: s' out(1) t_def)
  then show ?thesis
    using emit2 [of "fold windower_emit o1 t"] emit1 [of t] t by simp
qed

lemma control_work:
  assumes "sw_step p gen DeliverControl s = Inr (s', out)" "st_control s \<noteq> []" "starting p s"
  shows "work p s' < work p s \<and> st_iteration s' = st_iteration s"
proof -
  obtain i m cs where "st_control s = (i, m) # cs" "m = WindowerStop \<or> m = WindowerStart"
    using assms(2,3) by (auto simp: starting_def resting_def)
  then show ?thesis
    using assms(1) by (auto simp: to_windower_def work_def rbind_eq_Inr split: if_splits)
qed

lemma window_work:
  assumes "sw_step p gen DeliverWindow s = Inr (s', out)" "st_windows s \<noteq> []"
  shows "st_iteration s' = LatchOpen \<or> work p s' < work p s \<and> st_iteration s' = st_iteration s"
proof -
  obtain i m ms where ms: "st_windows s = (i, m) # ms"
    using assms(2) by (cases "st_windows s") auto
  show ?thesis
  proof (cases "st_sink s")
    case None
    then show ?thesis
      using assms(1) ms by (auto simp: work_def)
  next
    case (Some k)
    then show ?thesis
      using assms(1) ms
      by (cases m) (auto simp: to_sink_def work_def Let_def split: if_splits)
  qed
qed

text \<open>While an iteration runs some step is possible that does some of the work that is left.\<close>

definition advances :: "Params \<Rightarrow> u32 \<Rightarrow> ('r \<Rightarrow> i64 \<times> 'r) \<Rightarrow> 'r sw_sys \<Rightarrow> bool" where
  "advances p pid gen s \<longleftrightarrow> (\<exists>act s' out. sw_allowed p act s \<and> sw_step p gen act s = Inr (s', out) \<and> sw_base p pid s' \<and>
     sw_phase p pid s' \<and> (st_iteration s' = LatchOpen \<or> work p s' < work p s \<and> st_iteration s' = st_iteration s))"

lemma advancesI:
  assumes "params_ok p" "sw_base p pid s" "sw_phase p pid s" "sw_allowed p act s"
    "\<And>s' out. sw_step p gen act s = Inr (s', out) \<Longrightarrow>
      st_iteration s' = LatchOpen \<or> work p s' < work p s \<and> st_iteration s' = st_iteration s"
  shows "advances p pid gen s"
  using keeps_all [OF assms(1-4), of gen] assms(4,5) unfolding advances_def keeps_def by blast

lemma active_sends_little:
  assumes "sw_base p pid s" "active p pid s" "st_windows s = []"
  shows "length (st_sent s) < goal p"
proof -
  obtain k where k: "sink_counts p s k" "sk_window_count k < pm_number_of_windows p"
    using assms(2) by (auto simp: active_def)
  have "length (st_told s) < unat (pm_number_of_windows p)"
    using k assms(3) by (simp add: sink_counts_def mine_def word_less_nat_alt)
  then have "(length (st_told s) + 1) * pm_window_size p \<le> unat (pm_number_of_windows p) * pm_window_size p"
    by (intro mult_le_mono1) simp
  moreover have "length (flight s) \<le> unat (pm_batch_size p)"
    using assms(1) by (simp add: sw_base_def credit_def)
  moreover have "arrived s \<le> length (st_told s) * pm_window_size p + pm_window_size p" "length (st_sent s) = arrived s + length (flight s)"
    using assms(2) by (auto simp: active_def attached_def Let_def arrived_def)
  ultimately show ?thesis
    by (simp add: goal_def)
qed

lemma active_not_stuck:
  assumes "params_ok p" "sw_base p pid s" "active p pid s" "st_events s = []" "st_credits s = []"
  shows "0 < st_nexts s"
proof -
  have "unat (so_remaining (st_source s)) + unat (wi_received_since_ready (st_windower s)) = unat (pm_batch_size p)"
    using assms(3-5) by (auto simp: active_def attached_def credit_def held_def flight_def Let_def)
  moreover have "unat (wi_received_since_ready (st_windower s)) \<le> unat (pm_batch_size p) div 2"
    using assms(2) by (simp add: sw_base_def windower_static_def word_le_nat_alt unat_div)
  ultimately have "0 < so_remaining (st_source s)"
    using params_facts(5) [OF assms(1)] by (simp add: word_less_nat_alt)
  then show ?thesis
    using assms(3) by (simp add: active_def)
qed

lemma progress:
  assumes "params_ok p" "goal p + pm_window_size p + 1 < 2 ^ 64" "sw_base p pid s" "sw_phase p pid s" "st_iteration s = Started"
  shows "advances p pid gen s"
proof -
  note step = advancesI [OF assms(1,3,4)]
  show ?thesis
  proof (cases "st_windows s = []")
    case False
    then show ?thesis
      using window_work by (intro step [of DeliverWindow]) auto
  next
    case True
    consider (starting) "starting p s" | (active) "active p pid s"
      using assms(4,5) by (auto simp: sw_phase_def)
    then show ?thesis
    proof cases
      case starting
      then have "st_control s \<noteq> []"
        using True by (auto simp: starting_def mine_def resting_def)
      then show ?thesis
        using control_work starting by (intro step [of DeliverControl]) auto
    next
      case active
      have few: "length (st_sent s) < goal p"
        by (rule active_sends_little [OF assms(3) active True])
      have fl: "flowing s"
        using active by (simp add: active_def)
      then have range: "in_range p s"
        using few assms(2) by (simp add: flowing_def in_range_def)
      consider "st_events s \<noteq> []" | "st_credits s \<noteq> []" | "0 < st_nexts s"
        using active_not_stuck [OF assms(1,3) active] by (cases "st_events s = []"; cases "st_credits s = []") auto
      then show ?thesis
      proof cases
        case 1
        note h = this
        show ?thesis
          by (intro step [of DeliverEvent] disjI2) (simp add: h range, erule event_work [OF _ h fl])
      next
        case 2
        note h = this
        show ?thesis
          by (intro step [of DeliverCredit] disjI2) (simp add: h range, erule credit_work [OF _ h fl few])
      next
        case 3
        note h = this
        show ?thesis
          by (intro step [of DeliverNext] disjI2) (simp add: h range, erule next_work [OF _ h fl few])
      qed
    qed
  qed
qed

lemma completes:
  assumes "params_ok p" "goal p + pm_window_size p + 1 < 2 ^ 64"
  shows "sw_base p pid s \<Longrightarrow> sw_phase p pid s \<Longrightarrow> st_iteration s = Started \<Longrightarrow>
    \<exists>s' out. reach (sw_allowed p) (sw_step p gen) s s' out \<and> st_iteration s' = LatchOpen"
proof (induction "work p s" arbitrary: s rule: less_induct)
  case less
  obtain act s1 out1 where s1: "sw_allowed p act s" "sw_step p gen act s = Inr (s1, out1)" "sw_base p pid s1" "sw_phase p pid s1"
    "st_iteration s1 = LatchOpen \<or> work p s1 < work p s \<and> st_iteration s1 = Started"
    using progress [OF assms less.prems, of gen] less.prems(3) by (auto simp: advances_def)
  have one: "reach (sw_allowed p) (sw_step p gen) s s1 ([] @ out1)"
    using s1(1,2) by (rule reach.next_step [OF reach.start])
  show ?case
    using s1(5)
  proof
    assume "st_iteration s1 = LatchOpen"
    then show ?case
      using one by blast
  next
    assume "work p s1 < work p s \<and> st_iteration s1 = Started"
    then obtain s' out where rest: "reach (sw_allowed p) (sw_step p gen) s1 s' out" and latch: "st_iteration s' = LatchOpen"
      using less.hyps s1(3,4) by blast
    show ?case
      using reach_trans [OF rest one] latch by blast
  qed
qed

subsection \<open>An example\<close>

definition example_params :: Params where
  "example_params = \<lparr>pm_number_of_partitions = 1, pm_batch_size = 2, pm_window_size = 2, pm_number_of_windows = 1,
     pm_window_size_amplification = 3\<rparr>"

definition example_gen :: "nat \<Rightarrow> i64 \<times> nat" where
  "example_gen n = (word_of_nat n, n + 1)"

definition example_seed :: "u64 \<Rightarrow> nat" where
  "example_seed x = unat x"

definition example_steps :: "sw_action list" where
  "example_steps = [RunIteration, DeliverWindow, DeliverControl, DeliverCredit, DeliverEvent, DeliverNext, DeliverEvent,
     DeliverCredit, DeliverEvent, DeliverWindow]"

lemma example_params_ok: "params_ok example_params"
  by (simp add: params_ok_def example_params_def)

lemmas example_defs = example_params_def example_gen_def example_seed_def sw_start_def windower_with_def source_with_def sink_with_def
  to_source_def to_windower_def to_sink_def source_send_def in_range_def run_inputs_def

abbreviation example_system :: "nat sw_sys" where
  "example_system \<equiv> sw_start example_params example_seed 7"

definition example_reach :: "nat sw_sys \<Rightarrow> sw_node sw_out list \<Rightarrow> bool" where
  "example_reach = reach (sw_allowed example_params) (sw_step example_params example_gen) example_system"

lemma example_reachI:
  assumes "all_allowed (sw_allowed example_params) (sw_step example_params example_gen) acts example_system"
    "\<exists>s out. run_inputs (sw_step example_params example_gen) acts example_system = Inr (s, out) \<and> P s"
  shows "\<exists>s out. example_reach s out \<and> P s"
  using assms(2) run_reaches [OF assms(1)] unfolding example_reach_def by blast

lemma example_sending: "\<exists>s out. example_reach s out \<and> st_iteration s = Started \<and> st_events s = [WindowerEvent 0 7 7]
    \<and> so_remaining (st_source s) = 1"
  by (rule example_reachI [of "take 4 example_steps"]) (simp_all add: example_steps_def example_defs)

lemma example_latch_open: "\<exists>s out. example_reach s out \<and> st_iteration s = LatchOpen \<and> st_sent s = [7, 8, 9] \<and> length (st_told s) = 1"
  by (rule example_reachI [of example_steps])
    (simp_all add: example_steps_def example_defs window_end_def trigger_window_def manage_ready_def push_amplified_def Let_def)

subsection \<open>What holds of every run\<close>

text \<open>C25: In every state that the benchmark reaches, whatever the interleaving of source, windower, sinks and master, the events
  that the source may still send, those in flight to the windower and the credit in flight to the source together never exceed the
  batch size; and no handler panics on any message that can be delivered, over any number of iterations.\<close>

theorem streaming_flow_control:
  assumes "params_ok p" "reach (sw_allowed p) (sw_step p gen) (sw_start p seed pid) s out"
  shows "unat (so_remaining (st_source s)) + length (filter is_event (st_events s)) + sum_list (map credit_of (st_credits s))
      \<le> unat (pm_batch_size p)
    \<and> (\<forall>act. sw_allowed p act s \<longrightarrow> (\<exists>s' out'. sw_step p gen act s = Inr (s', out')))"
proof -
  have "credit s \<le> unat (pm_batch_size p)"
    using reachable_safe(1) [OF assms] by (simp add: sw_base_def)
  then show ?thesis
    using streaming.no_panic [OF assms(2) sw_start_safe [OF assms(1)]] by (simp add: credit_def flight_def)
qed

theorem streaming_flow_control_witness:
  "\<exists>s out. example_reach s out \<and> st_events s = [WindowerEvent 0 7 7] \<and>
    Suc (Suc (sum_list (map credit_of (st_credits s)))) \<le> 2"
proof -
  obtain s out where s: "example_reach s out" "st_events s = [WindowerEvent 0 7 7]" "so_remaining (st_source s) = 1"
    using example_sending by blast
  then show ?thesis
    using streaming_flow_control [OF example_params_ok s(1) [unfolded example_reach_def]] by (auto simp: example_params_def)
qed

text \<open>C24: The windows that the windower sends to the sink of an iteration are the windows of the stream of this iteration, one after the
  other and without a gap: the window with number \<open>j\<close> has the timestamp \<open>j\<close> times the window size and the median of exactly the
  values from there on; the latch is opened exactly when the sink has counted the requested number of windows.\<close>

theorem streaming_windows_exact:
  assumes "params_ok p" "reach (sw_allowed p) (sw_step p gen) (sw_start p seed pid) s out"
  shows "st_told s = map (window_at p pid (st_sent s)) [0..<length (st_told s)]
    \<and> length (st_told s) * pm_window_size p \<le> length (st_sent s)
    \<and> (st_iteration s \<in> {LatchOpen, Resetting} \<longrightarrow> unat (pm_number_of_windows p) \<le> length (st_told s))
    \<and> (st_iteration s = Started \<longrightarrow> (\<exists>k. st_sink s = Some k \<and> sk_latch k = 1 \<and> sk_window_count k < pm_number_of_windows p
        \<and> unat (sk_window_count k) \<le> length (st_told s)))"
proof -
  note safe = reachable_safe [OF assms]
  have "st_told s = map (window_at p pid (st_sent s)) [0..<length (st_told s)]" "length (st_told s) * pm_window_size p \<le> length (st_sent s)"
    using safe(1) by (auto simp: sw_base_def told_ok_def intro!: nth_equalityI)
  moreover have "st_iteration s \<in> {LatchOpen, Resetting} \<longrightarrow> unat (pm_number_of_windows p) \<le> length (st_told s)"
    using safe(2) by (auto simp: sw_phase_def winding_down_def sink_late_def)
  moreover have "\<exists>k. st_sink s = Some k \<and> sk_latch k = 1 \<and> sk_window_count k < pm_number_of_windows p
      \<and> unat (sk_window_count k) \<le> length (st_told s)" if "st_iteration s = Started"
  proof -
    have "0 < pm_number_of_windows p"
      using assms(1) by (simp add: params_ok_def)
    then show ?thesis
      using safe(2) that by (auto simp: sw_phase_def starting_def active_def fresh_sink_def sink_with_def sink_counts_def)
  qed
  ultimately show ?thesis
    by blast
qed

theorem streaming_windows_exact_witness:
  "\<exists>s out. example_reach s out \<and> st_iteration s = LatchOpen \<and> st_told s = [window_at example_params 7 [7, 8, 9] 0]"
proof -
  obtain s out where s: "example_reach s out" "st_iteration s = LatchOpen" "st_sent s = [7, 8, 9]" "length (st_told s) = 1"
    using example_latch_open by blast
  then show ?thesis
    using streaming_windows_exact [OF example_params_ok s(1) [unfolded example_reach_def]] by auto
qed

text \<open>C26: The flow control never starves: from every state that is reached while an iteration runs, the iteration can be completed by
  delivering messages, as long as its timestamps fit into 64 bits.\<close>

theorem streaming_can_finish:
  assumes "params_ok p" "unat (pm_number_of_windows p) * pm_window_size p + unat (pm_batch_size p) + pm_window_size p + 2 < 2 ^ 64"
    "reach (sw_allowed p) (sw_step p gen) (sw_start p seed pid) s out" "st_iteration s = Started"
  shows "\<exists>s' out'. reach (sw_allowed p) (sw_step p gen) s s' out' \<and> st_iteration s' = LatchOpen"
  using completes [OF assms(1) _ reachable_safe [OF assms(1,3)] assms(4)] assms(2) by (simp add: goal_def)


theorem streaming_can_finish_witness:
  "\<exists>s out s' out'. example_reach s out \<and> st_events s = [WindowerEvent 0 7 7] \<and>
    reach (sw_allowed example_params) (sw_step example_params example_gen) s s' out' \<and> st_iteration s' = LatchOpen"
proof -
  obtain s out where s: "example_reach s out" "st_iteration s = Started" "st_events s = [WindowerEvent 0 7 7]"
    using example_sending by blast
  have "\<exists>s' out'. reach (sw_allowed example_params) (sw_step example_params example_gen) s s' out' \<and> st_iteration s' = LatchOpen"
    by (rule streaming_can_finish [OF example_params_ok _ s(1) [unfolded example_reach_def] s(2)]) (simp add: example_params_def)
  then show ?thesis
    using s by blast
qed

end
