(* ===== verification/Chameneos.thy ===== *)
theory Chameneos
  imports Reachability "HOL-Library.Multiset"
begin

text \<open>
  The chameneos benchmark (\<open>bench/chameneos.rs\<close> and \<open>helpers/chameneos.rs\<close>) in its version with actors (\<open>actor_chameneos\<close>): chameneos
  meet in pairs at a mall, change their colours and exit when the requested number of meetings has taken place. The
  reference of a chameneo is its number; the messages in flight, the starts of the chameneos among them, are a multiset
  and are delivered in any order.
\<close>

subsection \<open>Colours\<close>

datatype ChameneosColour = Red | Yellow | Blue | Faded

definition for_id :: "nat \<Rightarrow> ChameneosColour" where
  "for_id i = (if i mod 3 = 0 then Red else if i mod 3 = 1 then Yellow else Blue)"

fun complement :: "ChameneosColour \<Rightarrow> ChameneosColour \<Rightarrow> ChameneosColour" where
  "complement Red Red = Red"
| "complement Red Yellow = Blue"
| "complement Red Blue = Yellow"
| "complement Red Faded = Faded"
| "complement Yellow Red = Blue"
| "complement Yellow Yellow = Yellow"
| "complement Yellow Blue = Red"
| "complement Yellow Faded = Faded"
| "complement Blue Red = Yellow"
| "complement Blue Yellow = Red"
| "complement Blue Blue = Blue"
| "complement Blue Faded = Faded"
| "complement Faded c = Faded"

lemma complement_commute: "complement a b = complement b a"
  by (cases a; cases b) simp_all

lemma complement_involutive: "b \<noteq> Faded \<Longrightarrow> complement (complement a b) b = a"
  by (cases a; cases b) simp_all

lemma complement_Faded: "complement a b = Faded \<longleftrightarrow> a = Faded \<or> b = Faded"
  by (cases a; cases b) simp_all

subsection \<open>The actors\<close>

datatype MallMsg = MeetingCount u64 | MallMeet ChameneosColour nat

datatype ChameneoMsg = ChameneoMeet ChameneosColour nat | ChameneoChange ChameneosColour | ChameneoExit

record ChameneosMallActor =
  ma_num_meetings :: u64
  ma_num_chameneos :: nat
  ma_latch :: nat
  ma_waiting_chameneo :: "nat option"
  ma_sum_meetings :: u64
  ma_meetings_count :: u64
  ma_num_faded :: nat

record ChameneoActor =
  ca_colour :: ChameneosColour
  ca_meetings :: u64

datatype ch_out =
    TellMall MallMsg
  | TellChameneo nat ChameneoMsg
  | ChSuicide
  | ChLatch

definition mall_with :: "u64 \<Rightarrow> nat \<Rightarrow> nat \<Rightarrow> ChameneosMallActor" where
  "mall_with num_meetings num_chameneos latch =
    \<lparr>ma_num_meetings = num_meetings, ma_num_chameneos = num_chameneos, ma_latch = latch, ma_waiting_chameneo = None,
     ma_sum_meetings = 0, ma_meetings_count = 0, ma_num_faded = 0\<rparr>"

fun mall_receive :: "MallMsg \<Rightarrow> ChameneosMallActor \<Rightarrow> (ChameneosMallActor, ch_out) handled" where
  "mall_receive (MeetingCount n) m =
    (let m = m\<lparr>ma_num_faded := ma_num_faded m + 1, ma_sum_meetings := ma_sum_meetings m + n\<rparr>
     in if ma_num_faded m = ma_num_chameneos m then
          if ma_latch m = 0 then Inl UnwrapNone else Inr (m\<lparr>ma_latch := ma_latch m - 1\<rparr>, [ChLatch])
        else Inr (m, []))"
| "mall_receive (MallMeet colour chameneo) m =
    (if ma_meetings_count m < ma_num_meetings m then
       case ma_waiting_chameneo m of
         Some other \<Rightarrow> Inr (m\<lparr>ma_waiting_chameneo := None, ma_meetings_count := ma_meetings_count m + 1\<rparr>,
           [TellChameneo other (ChameneoMeet colour chameneo)])
       | None \<Rightarrow> Inr (m\<lparr>ma_waiting_chameneo := Some chameneo\<rparr>, [])
     else Inr (m, [TellChameneo chameneo ChameneoExit]))"

definition chameneo_with :: "ChameneosColour \<Rightarrow> ChameneoActor" where
  "chameneo_with initial_colour = \<lparr>ca_colour = initial_colour, ca_meetings = 0\<rparr>"

text \<open>\<open>i\<close> is the reference of the actor itself.\<close>

definition chameneo_on_start :: "nat \<Rightarrow> ChameneoActor \<Rightarrow> (ChameneoActor, ch_out) handled" where
  "chameneo_on_start i a = Inr (a, [TellMall (MallMeet (ca_colour a) i)])"

fun chameneo_receive :: "nat \<Rightarrow> ChameneoMsg \<Rightarrow> ChameneoActor \<Rightarrow> (ChameneoActor, ch_out) handled" where
  "chameneo_receive i (ChameneoMeet other_colour chameneo) a =
    (let a = a\<lparr>ca_colour := complement (ca_colour a) other_colour, ca_meetings := ca_meetings a + 1\<rparr>
     in Inr (a, [TellChameneo chameneo (ChameneoChange (ca_colour a)), TellMall (MallMeet (ca_colour a) i)]))"
| "chameneo_receive i (ChameneoChange new_colour) a =
    (let a = a\<lparr>ca_colour := new_colour, ca_meetings := ca_meetings a + 1\<rparr>
     in Inr (a, [TellMall (MallMeet (ca_colour a) i)]))"
| "chameneo_receive i ChameneoExit a =
    Inr (a\<lparr>ca_colour := Faded\<rparr>, [TellMall (MeetingCount (ca_meetings a)), ChSuicide])"

subsection \<open>The actors together\<close>

datatype ch_parcel = ForStart nat | ForMall MallMsg | ForChameneo nat ChameneoMsg

record ch_sys =
  cs_mall :: ChameneosMallActor
  cs_chameneos :: "nat \<Rightarrow> ChameneoActor option"
  cs_net :: "ch_parcel multiset"

fun ch_parcels :: "ch_out \<Rightarrow> ch_parcel list" where
  "ch_parcels (TellMall m) = [ForMall m]"
| "ch_parcels (TellChameneo i m) = [ForChameneo i m]"
| "ch_parcels _ = []"

definition ch_emit :: "ch_out list \<Rightarrow> ch_sys \<Rightarrow> (ch_sys, ch_out) handled" where
  "ch_emit out s = Inr (s\<lparr>cs_net := cs_net s + mset (concat (map ch_parcels out))\<rparr>, out)"

text \<open>A chameneo that has killed itself is gone; messages to it are dropped.\<close>

definition ch_run :: "nat \<Rightarrow> (ChameneoActor \<Rightarrow> (ChameneoActor, ch_out) handled) \<Rightarrow> ch_sys \<Rightarrow> (ch_sys, ch_out) handled" where
  "ch_run i h s = (case cs_chameneos s i of
     None \<Rightarrow> Inr (s, [])
   | Some a \<Rightarrow> rbind (h a) (\<lambda>(a, out).
       ch_emit out (s\<lparr>cs_chameneos := (cs_chameneos s)(i := if ChSuicide \<in> set out then None else Some a)\<rparr>)))"

fun ch_deliver :: "ch_parcel \<Rightarrow> ch_sys \<Rightarrow> (ch_sys, ch_out) handled" where
  "ch_deliver (ForStart i) s = ch_run i (chameneo_on_start i) (s\<lparr>cs_net := cs_net s - {#ForStart i#}\<rparr>)"
| "ch_deliver (ForChameneo i m) s = ch_run i (chameneo_receive i m) (s\<lparr>cs_net := cs_net s - {#ForChameneo i m#}\<rparr>)"
| "ch_deliver (ForMall m) s = rbind (mall_receive m (cs_mall s)) (\<lambda>(a, out).
     ch_emit out (s\<lparr>cs_mall := a, cs_net := cs_net s - {#ForMall m#}\<rparr>))"

definition ch_allowed :: "ch_parcel \<Rightarrow> ch_sys \<Rightarrow> bool" where
  "ch_allowed p s \<longleftrightarrow> p \<in># cs_net s"

text \<open>What \<open>prepare_iteration\<close> and \<open>run_iteration\<close> set up.\<close>

definition ch_start :: "nat \<Rightarrow> u64 \<Rightarrow> ch_sys" where
  "ch_start num_chameneos num_meetings =
    \<lparr>cs_mall = mall_with num_meetings num_chameneos 1,
     cs_chameneos = (\<lambda>i. if i < num_chameneos then Some (chameneo_with (for_id i)) else None),
     cs_net = mset (map ForStart [0..<num_chameneos])\<rparr>"

subsection \<open>The invariant of a run\<close>

text \<open>Every chameneo that is left is in exactly one place: on its way to the mall, waiting there, part of a meeting or on its way
  out.\<close>

fun places :: "ch_parcel \<Rightarrow> nat multiset" where
  "places (ForStart i) = {#i#}"
| "places (ForMall (MallMeet c i)) = {#i#}"
| "places (ForMall (MeetingCount n)) = {#}"
| "places (ForChameneo i (ChameneoMeet c j)) = {#i, j#}"
| "places (ForChameneo i (ChameneoChange c)) = {#i#}"
| "places (ForChameneo i ChameneoExit) = {#i#}"

definition all_places :: "ch_sys \<Rightarrow> nat multiset" where
  "all_places s = (\<Sum>p\<in>#cs_net s. places p) +
     (case ma_waiting_chameneo (cs_mall s) of None \<Rightarrow> {#} | Some i \<Rightarrow> {#i#})"

text \<open>Meetings that are not yet counted by a chameneo that is left or by the mall.\<close>

fun uncounted :: "ch_parcel \<Rightarrow> u64" where
  "uncounted (ForMall (MeetingCount n)) = n"
| "uncounted (ForChameneo i (ChameneoMeet c j)) = 2"
| "uncounted (ForChameneo i (ChameneoChange c)) = 1"
| "uncounted _ = 0"

definition meetings_of :: "ChameneoActor option \<Rightarrow> u64" where
  "meetings_of a = (case a of None \<Rightarrow> 0 | Some a \<Rightarrow> ca_meetings a)"

definition meetings_left :: "nat \<Rightarrow> (nat \<Rightarrow> ChameneoActor option) \<Rightarrow> u64" where
  "meetings_left n f = (\<Sum>i<n. meetings_of (f i))"

fun is_count :: "ch_parcel \<Rightarrow> bool" where
  "is_count (ForMall (MeetingCount n)) = True"
| "is_count _ = False"

fun is_exit :: "ch_parcel \<Rightarrow> bool" where
  "is_exit (ForChameneo i ChameneoExit) = True"
| "is_exit _ = False"

definition left :: "ch_sys \<Rightarrow> nat set" where
  "left s = dom (cs_chameneos s)"

definition ch_inv :: "nat \<Rightarrow> u64 \<Rightarrow> ch_sys \<Rightarrow> ch_out list \<Rightarrow> bool" where
  "ch_inv n N s out \<longleftrightarrow>
    (let m = cs_mall s in
       ma_num_meetings m = N \<and> ma_num_chameneos m = n \<and> left s \<subseteq> {..<n} \<and> all_places s = mset_set (left s) \<and>
       card (left s) + ma_num_faded m + size (filter_mset is_count (cs_net s)) = n \<and>
       meetings_left n (cs_chameneos s) + (\<Sum>p\<in>#cs_net s. uncounted p) + ma_sum_meetings m = 2 * ma_meetings_count m \<and>
       ma_meetings_count m \<le> N \<and> (ma_waiting_chameneo m \<noteq> None \<longrightarrow> ma_meetings_count m < N) \<and>
       (card (left s) < n \<or> (\<exists>p\<in>#cs_net s. is_exit p) \<longrightarrow> ma_meetings_count m = N) \<and>
       ma_latch m = (if ma_num_faded m < n then 1 else 0))"

lemma meetings_left_update:
  assumes "i < n"
  shows "meetings_left n (f(i := x)) = meetings_left n f - meetings_of (f i) + meetings_of x"
proof -
  have "(\<Sum>j\<in>{..<n} - {i}. meetings_of ((f(i := x)) j)) = (\<Sum>j\<in>{..<n} - {i}. meetings_of (f j))"
    by (rule sum.cong) simp_all
  then show ?thesis
    using assms by (simp add: meetings_left_def sum.remove [of "{..<n}" i])
qed

lemma placed_left:
  assumes "ch_inv n N s out" "p \<in># cs_net s" "i \<in># places p"
  shows "i \<in> left s" "i < n" "\<exists>a. cs_chameneos s i = Some a"
proof -
  have "finite (left s)"
    using assms(1) finite_subset by (auto simp: ch_inv_def Let_def)
  moreover have "i \<in># all_places s"
    using assms(2,3) by (auto simp: all_places_def)
  ultimately show "i \<in> left s"
    using assms(1) by (simp add: ch_inv_def Let_def)
  then show "i < n" "\<exists>a. cs_chameneos s i = Some a"
    using assms(1) by (auto simp: ch_inv_def Let_def left_def)
qed

text \<open>The measure of a run: no more deliveries are possible than this.\<close>

fun weight :: "ch_parcel \<Rightarrow> nat" where
  "weight (ForStart i) = 4"
| "weight (ForMall (MallMeet c i)) = 3"
| "weight (ForMall (MeetingCount n)) = 1"
| "weight (ForChameneo i (ChameneoMeet c j)) = 8"
| "weight (ForChameneo i (ChameneoChange c)) = 4"
| "weight (ForChameneo i ChameneoExit) = 2"

definition ch_work :: "ch_sys \<Rightarrow> nat" where
  "ch_work s = 4 * (unat (ma_num_meetings (cs_mall s)) - unat (ma_meetings_count (cs_mall s))) + (\<Sum>p\<in>#cs_net s. weight p) +
     (case ma_waiting_chameneo (cs_mall s) of None \<Rightarrow> 0 | Some i \<Rightarrow> 2)"

text \<open>What a delivery has to give.\<close>

definition ch_fine :: "nat \<Rightarrow> u64 \<Rightarrow> ch_parcel \<Rightarrow> ch_sys \<Rightarrow> bool" where
  "ch_fine n N p s \<longleftrightarrow> (\<exists>s' out'. ch_deliver p s = Inr (s', out') \<and> ch_inv n N s' [] \<and> ch_work s' < ch_work s)"

lemma fine_start:
  assumes "ch_inv n N s out" "ForStart i \<in># cs_net s"
  shows "ch_fine n N (ForStart i) s"
proof -
  obtain R where R: "cs_net s = add_mset (ForStart i) R"
    using assms(2) by (metis mset_add)
  obtain a where a: "cs_chameneos s i = Some a" "i < n"
    using placed_left [OF assms, of i] by auto
  define s' where "s' = s\<lparr>cs_net := add_mset (ForMall (MallMeet (ca_colour a) i)) R\<rparr>"
  have "\<exists>out'. ch_deliver (ForStart i) s = Inr (s', out')"
    using R a by (cases s) (simp add: ch_run_def chameneo_on_start_def ch_emit_def s'_def fun_upd_idem)
  moreover have "ch_inv n N s' []"
    using assms(1) R by (simp add: ch_inv_def Let_def s'_def all_places_def left_def)
  moreover have "ch_work s' < ch_work s"
    using R by (simp add: ch_work_def s'_def)
  ultimately show ?thesis
    by (auto simp: ch_fine_def)
qed

lemma fine_change:
  assumes "ch_inv n N s out" "ForChameneo i (ChameneoChange c) \<in># cs_net s"
  shows "ch_fine n N (ForChameneo i (ChameneoChange c)) s"
proof -
  obtain R where R: "cs_net s = add_mset (ForChameneo i (ChameneoChange c)) R"
    using assms(2) by (metis mset_add)
  obtain a where a: "cs_chameneos s i = Some a" "i < n"
    using placed_left [OF assms, of i] by auto
  define a' where "a' = a\<lparr>ca_colour := c, ca_meetings := ca_meetings a + 1\<rparr>"
  define s' where "s' = s\<lparr>cs_chameneos := (cs_chameneos s)(i \<mapsto> a'), cs_net := add_mset (ForMall (MallMeet c i)) R\<rparr>"
  have "\<exists>out'. ch_deliver (ForChameneo i (ChameneoChange c)) s = Inr (s', out')"
    using R a by (cases s) (simp add: ch_run_def ch_emit_def s'_def a'_def)
  moreover have left: "left s' = left s"
    using a by (auto simp: left_def s'_def)
  have "meetings_left n (cs_chameneos s') = meetings_left n (cs_chameneos s) + 1"
    using a by (simp add: s'_def meetings_left_update meetings_of_def a'_def)
  then have "ch_inv n N s' []"
    using assms(1) R unfolding ch_inv_def Let_def left
    by (simp add: all_places_def) (simp add: s'_def algebra_simps)
  moreover have "ch_work s' < ch_work s"
    using R by (simp add: ch_work_def s'_def)
  ultimately show ?thesis
    by (auto simp: ch_fine_def)
qed

lemma fine_meet:
  assumes "ch_inv n N s out" "ForChameneo i (ChameneoMeet c j) \<in># cs_net s"
  shows "ch_fine n N (ForChameneo i (ChameneoMeet c j)) s"
proof -
  obtain R where R: "cs_net s = add_mset (ForChameneo i (ChameneoMeet c j)) R"
    using assms(2) by (metis mset_add)
  obtain a where a: "cs_chameneos s i = Some a" "i < n"
    using placed_left [OF assms, of i] by auto
  define a' where "a' = a\<lparr>ca_colour := complement (ca_colour a) c, ca_meetings := ca_meetings a + 1\<rparr>"
  define s' where "s' = s\<lparr>cs_chameneos := (cs_chameneos s)(i \<mapsto> a'),
    cs_net := add_mset (ForChameneo j (ChameneoChange (ca_colour a'))) (add_mset (ForMall (MallMeet (ca_colour a') i)) R)\<rparr>"
  have "\<exists>out'. ch_deliver (ForChameneo i (ChameneoMeet c j)) s = Inr (s', out')"
    using R a by (cases s) (simp add: ch_run_def ch_emit_def s'_def a'_def)
  moreover have left: "left s' = left s"
    using a by (auto simp: left_def s'_def)
  have "meetings_left n (cs_chameneos s') = meetings_left n (cs_chameneos s) + 1"
    using a by (simp add: s'_def meetings_left_update meetings_of_def a'_def)
  then have "ch_inv n N s' []"
    using assms(1) R unfolding ch_inv_def Let_def left
    by (simp add: all_places_def) (simp add: s'_def algebra_simps add_mset_commute)
  moreover have "ch_work s' < ch_work s"
    using R by (simp add: ch_work_def s'_def)
  ultimately show ?thesis
    by (auto simp: ch_fine_def)
qed

lemma fine_exit:
  assumes "ch_inv n N s out" "ForChameneo i ChameneoExit \<in># cs_net s"
  shows "ch_fine n N (ForChameneo i ChameneoExit) s"
proof -
  obtain R where R: "cs_net s = add_mset (ForChameneo i ChameneoExit) R"
    using assms(2) by (metis mset_add)
  obtain a where a: "cs_chameneos s i = Some a" "i < n"
    using placed_left [OF assms, of i] by auto
  define s' where "s' = s\<lparr>cs_chameneos := (cs_chameneos s)(i := None), cs_net := add_mset (ForMall (MeetingCount (ca_meetings a))) R\<rparr>"
  have "\<exists>out'. ch_deliver (ForChameneo i ChameneoExit) s = Inr (s', out')"
    using R a by (cases s) (simp add: ch_run_def ch_emit_def s'_def)
  moreover have left: "left s = insert i (left s')" "i \<notin> left s'"
    using a by (auto simp: left_def s'_def)
  have fin: "finite (left s')"
    using assms(1) left(1) finite_subset [of "left s" "{..<n}"] by (simp add: ch_inv_def Let_def)
  have "meetings_left n (cs_chameneos s') = meetings_left n (cs_chameneos s) - ca_meetings a"
    using a by (simp add: s'_def meetings_left_update meetings_of_def)
  then have "ch_inv n N s' []"
    using assms(1) R left fin unfolding ch_inv_def Let_def left(1)
    by (simp add: all_places_def) (auto simp: s'_def)
  moreover have "ch_work s' < ch_work s"
    using R by (simp add: ch_work_def s'_def)
  ultimately show ?thesis
    by (auto simp: ch_fine_def)
qed

lemma fine_count:
  assumes "ch_inv n N s out" "ForMall (MeetingCount c) \<in># cs_net s"
  shows "ch_fine n N (ForMall (MeetingCount c)) s"
proof -
  obtain R where R: "cs_net s = add_mset (ForMall (MeetingCount c)) R"
    using assms(2) by (metis mset_add)
  define m where "m = (cs_mall s)\<lparr>ma_num_faded := ma_num_faded (cs_mall s) + 1, ma_sum_meetings := ma_sum_meetings (cs_mall s) + c\<rparr>"
  define m' where "m' = (if ma_num_faded m = n then m\<lparr>ma_latch := 0\<rparr> else m)"
  define s' where "s' = s\<lparr>cs_mall := m', cs_net := R\<rparr>"
  have faded: "ma_num_faded (cs_mall s) < n" "ma_num_chameneos (cs_mall s) = n" "ma_latch (cs_mall s) = 1"
    using assms(1) R by (auto simp: ch_inv_def Let_def)
  have wait: "ma_waiting_chameneo (cs_mall s) = None"
    using assms(1) R by (force simp: ch_inv_def Let_def)
  have last: "\<forall>x. x \<in># R \<longrightarrow> \<not> is_count x" if "ma_num_faded (cs_mall s) + 1 = n"
  proof -
    have "card (left s) + ma_num_faded (cs_mall s) + Suc (size (filter_mset is_count R)) = n"
      using assms(1) R by (simp add: ch_inv_def Let_def)
    then have "size (filter_mset is_count R) = 0"
      using that by linarith
    then show ?thesis
      by simp
  qed
  have "\<exists>out'. ch_deliver (ForMall (MeetingCount c)) s = Inr (s', out')"
    using R faded by (cases s) (simp add: ch_emit_def s'_def m'_def m_def Let_def)
  moreover have "ch_inv n N s' []"
    using assms(1) R faded wait last
    by (cases "ma_num_faded (cs_mall s) + 1 = n")
      (simp_all add: ch_inv_def Let_def s'_def m'_def m_def all_places_def left_def algebra_simps)
  moreover have "ch_work s' < ch_work s"
    using R by (simp add: ch_work_def s'_def m'_def m_def)
  ultimately show ?thesis
    by (auto simp: ch_fine_def)
qed

lemma fine_mall_meet:
  assumes "ch_inv n N s out" "ForMall (MallMeet c i) \<in># cs_net s"
  shows "ch_fine n N (ForMall (MallMeet c i)) s"
proof -
  obtain R where R: "cs_net s = add_mset (ForMall (MallMeet c i)) R"
    using assms(2) by (metis mset_add)
  define m where "m = cs_mall s"
  have inv: "ma_num_meetings m = N" "ma_meetings_count m \<le> N"
    using assms(1) by (simp_all add: ch_inv_def Let_def m_def)
  consider (meet) j where "ma_meetings_count m < N" "ma_waiting_chameneo m = Some j"
    | (wait) "ma_meetings_count m < N" "ma_waiting_chameneo m = None"
    | (leave) "ma_meetings_count m = N"
    using inv(2) by (cases "ma_waiting_chameneo m") force+
  then show ?thesis
  proof cases
    case meet
    define m' where "m' = m\<lparr>ma_waiting_chameneo := None, ma_meetings_count := ma_meetings_count m + 1\<rparr>"
    define s' where "s' = s\<lparr>cs_mall := m', cs_net := add_mset (ForChameneo j (ChameneoMeet c i)) R\<rparr>"
    have lt: "unat (ma_meetings_count m) < unat N"
      using meet(1) by (simp add: word_less_nat_alt)
    then have "unat (ma_meetings_count m) + 1 < 18446744073709551616"
      using unat_u64_less [of N] by linarith
    then have u: "unat (ma_meetings_count m + 1) = unat (ma_meetings_count m) + 1"
      by (simp add: unat_Suc_u64)
    have "\<exists>out'. ch_deliver (ForMall (MallMeet c i)) s = Inr (s', out')"
      using R meet inv by (cases s) (simp add: ch_emit_def s'_def m'_def m_def)
    moreover have "ch_inv n N s' []"
      using assms(1) R meet lt u
      by (auto simp: ch_inv_def Let_def s'_def m'_def m_def [symmetric] all_places_def left_def algebra_simps word_le_nat_alt add_mset_commute)
    moreover have "ch_work s' < ch_work s"
      using R meet lt u inv by (simp add: ch_work_def s'_def m'_def m_def [symmetric])
    ultimately show ?thesis
      by (auto simp: ch_fine_def)
  next
    case wait
    define s' where "s' = s\<lparr>cs_mall := m\<lparr>ma_waiting_chameneo := Some i\<rparr>, cs_net := R\<rparr>"
    have "\<exists>out'. ch_deliver (ForMall (MallMeet c i)) s = Inr (s', out')"
      using R wait inv by (cases s) (simp add: ch_emit_def s'_def m_def)
    moreover have "ch_inv n N s' []"
      using assms(1) R wait by (auto simp: ch_inv_def Let_def s'_def m_def [symmetric] all_places_def left_def)
    moreover have "ch_work s' < ch_work s"
      using R wait by (simp add: ch_work_def s'_def m_def [symmetric])
    ultimately show ?thesis
      by (auto simp: ch_fine_def)
  next
    case leave
    define s' where "s' = s\<lparr>cs_net := add_mset (ForChameneo i ChameneoExit) R\<rparr>"
    have "\<exists>out'. ch_deliver (ForMall (MallMeet c i)) s = Inr (s', out')"
      using R leave inv by (cases s) (simp add: ch_emit_def s'_def m_def)
    moreover have "ch_inv n N s' []"
      using assms(1) R leave by (auto simp: ch_inv_def Let_def s'_def m_def [symmetric] all_places_def left_def)
    moreover have "ch_work s' < ch_work s"
      using R by (simp add: ch_work_def s'_def)
    ultimately show ?thesis
      by (auto simp: ch_fine_def)
  qed
qed

lemma every_delivery_fine:
  assumes "ch_inv n N s out" "ch_allowed p s"
  shows "ch_fine n N p s"
proof -
  have p: "p \<in># cs_net s"
    using assms(2) by (simp add: ch_allowed_def)
  show ?thesis
  proof (cases p)
    case (ForStart i)
    then show ?thesis
      using fine_start [OF assms(1)] p by simp
  next
    case (ForMall m)
    then show ?thesis
      using fine_count [OF assms(1)] fine_mall_meet [OF assms(1)] p by (cases m) simp_all
  next
    case (ForChameneo i m)
    then show ?thesis
      using fine_meet [OF assms(1)] fine_change [OF assms(1)] fine_exit [OF assms(1)] p by (cases m) simp_all
  qed
qed

lemma ch_inv_out: "ch_inv n N s out \<longleftrightarrow> ch_inv n N s []"
  by (simp add: ch_inv_def)

interpretation chameneos: safe_component ch_allowed ch_deliver "ch_inv n N"
  by unfold_locales (metis every_delivery_fine ch_fine_def ch_inv_out)

lemma starts_places: "(\<Sum>p\<in>#mset (map ForStart is). places p) = mset is"
  by (induction "is") simp_all

lemma ch_start_inv:
  assumes "0 < n"
  shows "ch_inv n N (ch_start n N) []"
proof -
  have dom: "left (ch_start n N) = {..<n}"
    by (auto simp: left_def ch_start_def split: if_splits)
  have places: "all_places (ch_start n N) = mset_set {..<n}"
    using starts_places [of "[0..<n]"] by (simp add: all_places_def ch_start_def mall_with_def atLeast0LessThan del: mset_map)
  show ?thesis
    unfolding ch_inv_def Let_def dom places using assms
    by (auto simp: ch_start_def mall_with_def meetings_left_def meetings_of_def chameneo_with_def
        image_mset.compositionality comp_def)
qed

lemma ch_start_work: "ch_work (ch_start n N) = 4 * unat N + 4 * n"
  by (simp add: ch_work_def ch_start_def mall_with_def image_mset.compositionality comp_def)

text \<open>A run that is as long as it can be.\<close>

lemma run_work:
  assumes "ch_inv n N s []" "all_allowed ch_allowed ch_deliver ps s"
  shows "length ps \<le> ch_work s"
  using assms
proof (induction ps arbitrary: s)
  case (Cons p ps)
  obtain s' out' where s': "ch_deliver p s = Inr (s', out')" "ch_inv n N s' []" "ch_work s' < ch_work s"
    using every_delivery_fine [OF Cons.prems(1), of p] Cons.prems(2) by (auto simp: ch_fine_def)
  then show ?case
    using Cons.IH [of s'] Cons.prems(2) by simp
qed simp

lemma mall_quiescent_done:
  assumes "ch_inv n N s []" "cs_net s = {#}" "2 \<le> n"
  shows "ma_latch (cs_mall s) = 0 \<and> ma_sum_meetings (cs_mall s) = 2 * N \<and> ma_meetings_count (cs_mall s) = N"
proof -
  define m where "m = cs_mall s"
  have inv: "all_places s = mset_set (left s)" "left s \<subseteq> {..<n}" "card (left s) + ma_num_faded m = n"
    "meetings_left n (cs_chameneos s) + ma_sum_meetings m = 2 * ma_meetings_count m"
    "ma_waiting_chameneo m \<noteq> None \<longrightarrow> ma_meetings_count m < N" "card (left s) < n \<longrightarrow> ma_meetings_count m = N"
    "ma_latch m = (if ma_num_faded m < n then 1 else 0)"
    using assms(1,2) by (simp_all add: ch_inv_def Let_def m_def)
  have fin: "finite (left s)"
    using inv(2) finite_subset by blast
  have all: "all_places s = (case ma_waiting_chameneo m of None \<Rightarrow> {#} | Some i \<Rightarrow> {#i#})"
    using assms(2) by (simp add: all_places_def m_def)
  have "card (left s) = size (all_places s)"
    using inv(1) by simp
  then have "card (left s) < n"
    using all assms(3) by (simp split: option.splits)
  then have N: "ma_meetings_count m = N"
    using inv(6) by simp
  then have "ma_waiting_chameneo m = None"
    using inv(5) by auto
  then have "left s = {}"
    using all inv(1) fin by (simp add: mset_set_empty_iff)
  then have "meetings_left n (cs_chameneos s) = 0" "ma_num_faded m = n"
    using inv(3) by (auto simp: meetings_left_def left_def meetings_of_def)
  then show ?thesis
    using N inv(4,7) by (simp add: m_def)
qed

subsection \<open>What holds of every run\<close>

text \<open>C27: The chameneos benchmark terminates under every order of deliveries: no run of \<open>n\<close> chameneos with \<open>N\<close> meetings delivers more
  than \<open>4 N + 4 n\<close> messages, none of them makes a handler panic, and when with at least two chameneos no message is left, exactly
  \<open>N\<close> meetings have taken place, the chameneos have reported two per meeting and the latch is open.\<close>

theorem chameneos_terminates:
  assumes "all_allowed ch_allowed ch_deliver ps (ch_start n N)" "0 < n"
  shows "length ps \<le> 4 * unat N + 4 * n \<and>
    (\<exists>s out. run_inputs ch_deliver ps (ch_start n N) = Inr (s, out) \<and>
      (cs_net s = {#} \<and> 2 \<le> n \<longrightarrow>
        ma_meetings_count (cs_mall s) = N \<and> ma_sum_meetings (cs_mall s) = 2 * N \<and> ma_latch (cs_mall s) = 0))"
proof -
  obtain s out where run: "run_inputs ch_deliver ps (ch_start n N) = Inr (s, out)" "ch_inv n N s []"
    using chameneos.run_safe [OF ch_start_inv [OF assms(2)] assms(1)] ch_inv_out by blast
  then show ?thesis
    using run_work [OF ch_start_inv [OF assms(2)] assms(1)] mall_quiescent_done [OF run(2)] by (auto simp: ch_start_work)
qed

definition chameneos_schedule :: "ch_parcel list" where
  "chameneos_schedule = [ForStart 0, ForStart 1, ForMall (MallMeet Red 0), ForMall (MallMeet Yellow 1),
     ForChameneo 0 (ChameneoMeet Yellow 1), ForMall (MallMeet Blue 0), ForChameneo 1 (ChameneoChange Blue),
     ForChameneo 0 ChameneoExit, ForMall (MallMeet Blue 1), ForMall (MeetingCount 1), ForChameneo 1 ChameneoExit,
     ForMall (MeetingCount 1)]"

lemma chameneos_schedule_runs:
  "all_allowed ch_allowed ch_deliver chameneos_schedule (ch_start 2 1) \<and>
   (\<exists>s out. run_inputs ch_deliver chameneos_schedule (ch_start 2 1) = Inr (s, out) \<and> cs_net s = {#})"
  by (simp add: chameneos_schedule_def ch_start_def mall_with_def chameneo_with_def for_id_def ch_allowed_def ch_run_def ch_emit_def
      chameneo_on_start_def run_inputs_def Let_def upt_rec)

theorem chameneos_terminates_witness:
  "\<exists>s out. run_inputs ch_deliver chameneos_schedule (ch_start 2 1) = Inr (s, out) \<and> cs_net s = {#} \<and> ma_sum_meetings (cs_mall s) = 2"
  using chameneos_terminates [of chameneos_schedule 2 1] chameneos_schedule_runs by auto

end
