(* ===== verification/Mixed_Chameneos.thy ===== *)
theory Mixed_Chameneos
  imports Chameneos
begin

text \<open>
  The version of the chameneos benchmark with ports (\<open>mixed_chameneos\<close> of \<open>bench/chameneos.rs\<close>): chameneos reach the mall through
  a port, and the mall tells all of them to exit at once, as soon as one arrives after the last meeting. Events on
  ports and messages between actors are parcels of one multiset and are delivered in any order.
\<close>

subsection \<open>The components\<close>

datatype MixedMsg = MixedMeet ChameneosColour nat | MixedChange ChameneosColour

record MixedMallActor = ChameneosMallActor +
  ma_sent_exit :: bool

datatype mx_out =
    TriggerMall MallMsg
  | TriggerExit   \<comment> \<open>to every chameneo that is connected to the port\<close>
  | MxTellChameneo nat MixedMsg
  | MxSuicide
  | MxLatch

definition mixed_mall_with :: "u64 \<Rightarrow> nat \<Rightarrow> nat \<Rightarrow> MixedMallActor" where
  "mixed_mall_with num_meetings num_chameneos latch =
    \<lparr>ma_num_meetings = num_meetings, ma_num_chameneos = num_chameneos, ma_latch = latch, ma_waiting_chameneo = None,
     ma_sum_meetings = 0, ma_meetings_count = 0, ma_num_faded = 0, ma_sent_exit = False\<rparr>"

fun mixed_mall_handle :: "MallMsg \<Rightarrow> MixedMallActor \<Rightarrow> (MixedMallActor, mx_out) handled" where
  "mixed_mall_handle (MeetingCount n) m =
    (let m = m\<lparr>ma_num_faded := ma_num_faded m + 1, ma_sum_meetings := ma_sum_meetings m + n\<rparr>
     in if ma_num_faded m = ma_num_chameneos m then
          if ma_latch m = 0 then Inl UnwrapNone else Inr (m\<lparr>ma_latch := ma_latch m - 1\<rparr>, [MxLatch])
        else Inr (m, []))"
| "mixed_mall_handle (MallMeet colour chameneo) m =
    (if ma_meetings_count m < ma_num_meetings m then
       case ma_waiting_chameneo m of
         Some other \<Rightarrow> Inr (m\<lparr>ma_waiting_chameneo := None, ma_meetings_count := ma_meetings_count m + 1\<rparr>,
           [MxTellChameneo other (MixedMeet colour chameneo)])
       | None \<Rightarrow> Inr (m\<lparr>ma_waiting_chameneo := Some chameneo\<rparr>, [])
     else if \<not> ma_sent_exit m then Inr (m\<lparr>ma_sent_exit := True\<rparr>, [TriggerExit])
     else Inr (m, []))"

definition mixed_on_start :: "nat \<Rightarrow> ChameneoActor \<Rightarrow> (ChameneoActor, mx_out) handled" where
  "mixed_on_start i a = Inr (a, [TriggerMall (MallMeet (ca_colour a) i)])"

definition mixed_handle_exit :: "ChameneoActor \<Rightarrow> (ChameneoActor, mx_out) handled" where
  "mixed_handle_exit a = Inr (a\<lparr>ca_colour := Faded\<rparr>, [TriggerMall (MeetingCount (ca_meetings a)), MxSuicide])"

fun mixed_receive :: "nat \<Rightarrow> MixedMsg \<Rightarrow> ChameneoActor \<Rightarrow> (ChameneoActor, mx_out) handled" where
  "mixed_receive i (MixedMeet other_colour chameneo) a =
    (let a = a\<lparr>ca_colour := complement (ca_colour a) other_colour, ca_meetings := ca_meetings a + 1\<rparr>
     in Inr (a, [MxTellChameneo chameneo (MixedChange (ca_colour a)), TriggerMall (MallMeet (ca_colour a) i)]))"
| "mixed_receive i (MixedChange new_colour) a =
    (let a = a\<lparr>ca_colour := new_colour, ca_meetings := ca_meetings a + 1\<rparr>
     in Inr (a, [TriggerMall (MallMeet (ca_colour a) i)]))"

subsection \<open>The components together\<close>

datatype mx_parcel = MxStart nat | MxMall MallMsg | MxChameneo nat MixedMsg | MxExit nat

record mx_sys =
  ms_mall :: MixedMallActor
  ms_chameneos :: "nat \<Rightarrow> ChameneoActor option"
  ms_net :: "mx_parcel multiset"

text \<open>\<open>n\<close> chameneos are connected to the port of the mall.\<close>

fun mx_parcels :: "nat \<Rightarrow> mx_out \<Rightarrow> mx_parcel list" where
  "mx_parcels n (TriggerMall m) = [MxMall m]"
| "mx_parcels n (MxTellChameneo i m) = [MxChameneo i m]"
| "mx_parcels n TriggerExit = map MxExit [0..<n]"
| "mx_parcels n _ = []"

definition mx_emit :: "nat \<Rightarrow> mx_out list \<Rightarrow> mx_sys \<Rightarrow> (mx_sys, mx_out) handled" where
  "mx_emit n out s = Inr (s\<lparr>ms_net := ms_net s + mset (concat (map (mx_parcels n) out))\<rparr>, out)"

definition mx_run :: "nat \<Rightarrow> nat \<Rightarrow> (ChameneoActor \<Rightarrow> (ChameneoActor, mx_out) handled) \<Rightarrow> mx_sys \<Rightarrow> (mx_sys, mx_out) handled" where
  "mx_run n i h s = (case ms_chameneos s i of
     None \<Rightarrow> Inr (s, [])
   | Some a \<Rightarrow> rbind (h a) (\<lambda>(a, out).
       mx_emit n out (s\<lparr>ms_chameneos := (ms_chameneos s)(i := if MxSuicide \<in> set out then None else Some a)\<rparr>)))"

fun mx_deliver :: "nat \<Rightarrow> mx_parcel \<Rightarrow> mx_sys \<Rightarrow> (mx_sys, mx_out) handled" where
  "mx_deliver n (MxStart i) s = mx_run n i (mixed_on_start i) (s\<lparr>ms_net := ms_net s - {#MxStart i#}\<rparr>)"
| "mx_deliver n (MxChameneo i m) s = mx_run n i (mixed_receive i m) (s\<lparr>ms_net := ms_net s - {#MxChameneo i m#}\<rparr>)"
| "mx_deliver n (MxExit i) s = mx_run n i mixed_handle_exit (s\<lparr>ms_net := ms_net s - {#MxExit i#}\<rparr>)"
| "mx_deliver n (MxMall m) s = rbind (mixed_mall_handle m (ms_mall s)) (\<lambda>(a, out).
     mx_emit n out (s\<lparr>ms_mall := a, ms_net := ms_net s - {#MxMall m#}\<rparr>))"

definition mx_allowed :: "mx_parcel \<Rightarrow> mx_sys \<Rightarrow> bool" where
  "mx_allowed p s \<longleftrightarrow> p \<in># ms_net s"

definition mx_start :: "nat \<Rightarrow> u64 \<Rightarrow> mx_sys" where
  "mx_start num_chameneos num_meetings =
    \<lparr>ms_mall = mixed_mall_with num_meetings num_chameneos 1,
     ms_chameneos = (\<lambda>i. if i < num_chameneos then Some (chameneo_with (for_id i)) else None),
     ms_net = mset (map MxStart [0..<num_chameneos])\<rparr>"

subsection \<open>The invariant of a run\<close>

fun mx_places :: "mx_parcel \<Rightarrow> nat multiset" where
  "mx_places (MxStart i) = {#i#}"
| "mx_places (MxMall (MallMeet c i)) = {#i#}"
| "mx_places (MxMall (MeetingCount n)) = {#}"
| "mx_places (MxChameneo i (MixedMeet c j)) = {#i, j#}"
| "mx_places (MxChameneo i (MixedChange c)) = {#i#}"
| "mx_places (MxExit i) = {#}"

definition mx_all_places :: "mx_sys \<Rightarrow> nat multiset" where
  "mx_all_places s = (\<Sum>p\<in>#ms_net s. mx_places p) +
     (case ma_waiting_chameneo (ms_mall s) of None \<Rightarrow> {#} | Some i \<Rightarrow> {#i#})"

fun mx_is_count :: "mx_parcel \<Rightarrow> bool" where
  "mx_is_count (MxMall (MeetingCount n)) = True"
| "mx_is_count _ = False"

fun exits :: "mx_parcel \<Rightarrow> nat multiset" where
  "exits (MxExit i) = {#i#}"
| "exits _ = {#}"

definition mx_exits :: "mx_sys \<Rightarrow> nat multiset" where
  "mx_exits s = (\<Sum>p\<in>#ms_net s. exits p)"

definition mx_left :: "mx_sys \<Rightarrow> nat set" where
  "mx_left s = dom (ms_chameneos s)"

text \<open>Before the exit every chameneo is in exactly one place; after it every chameneo that is left has an exit on its way.\<close>

definition mx_inv :: "nat \<Rightarrow> u64 \<Rightarrow> mx_sys \<Rightarrow> mx_out list \<Rightarrow> bool" where
  "mx_inv n N s out \<longleftrightarrow>
    (let m = ms_mall s in
       ma_num_meetings m = N \<and> ma_num_chameneos m = n \<and> mx_left s \<subseteq> {..<n} \<and> ma_meetings_count m \<le> N \<and>
       card (mx_left s) + ma_num_faded m + size (filter_mset mx_is_count (ms_net s)) = n \<and>
       ma_latch m = (if ma_num_faded m < n then 1 else 0) \<and>
       (if ma_sent_exit m then ma_meetings_count m = N \<and> mx_exits s = mset_set (mx_left s)
        else mx_left s = {..<n} \<and> mx_all_places s = mset_set {..<n} \<and> mx_exits s = {#} \<and>
          (ma_waiting_chameneo m \<noteq> None \<longrightarrow> ma_meetings_count m < N)))"

fun mx_weight :: "mx_parcel \<Rightarrow> nat" where
  "mx_weight (MxStart i) = 4"
| "mx_weight (MxMall (MallMeet c i)) = 3"
| "mx_weight (MxMall (MeetingCount n)) = 1"
| "mx_weight (MxChameneo i (MixedMeet c j)) = 8"
| "mx_weight (MxChameneo i (MixedChange c)) = 4"
| "mx_weight (MxExit i) = 2"

definition mx_work :: "nat \<Rightarrow> mx_sys \<Rightarrow> nat" where
  "mx_work n s = 4 * (unat (ma_num_meetings (ms_mall s)) - unat (ma_meetings_count (ms_mall s))) + (\<Sum>p\<in>#ms_net s. mx_weight p) +
     (case ma_waiting_chameneo (ms_mall s) of None \<Rightarrow> 0 | Some i \<Rightarrow> 2) + (if ma_sent_exit (ms_mall s) then 0 else 2 * n)"

definition mx_fine :: "nat \<Rightarrow> u64 \<Rightarrow> mx_parcel \<Rightarrow> mx_sys \<Rightarrow> bool" where
  "mx_fine n N p s \<longleftrightarrow> (\<exists>s' out'. mx_deliver n p s = Inr (s', out') \<and> mx_inv n N s' [] \<and> mx_work n s' < mx_work n s)"

lemma mx_fineI: "mx_deliver n p s = Inr (s', out') \<Longrightarrow> mx_inv n N s' [] \<Longrightarrow> mx_work n s' < mx_work n s \<Longrightarrow> mx_fine n N p s"
  by (auto simp: mx_fine_def)

text \<open>A message to a chameneo that is gone.\<close>

lemma mx_gone:
  assumes "mx_inv n N s out" "ms_net s = add_mset p R" "ma_sent_exit (ms_mall s)" "exits p = {#}" "\<not> mx_is_count p"
    "mx_deliver n p s = Inr (s\<lparr>ms_net := R\<rparr>, out')"
  shows "mx_fine n N p s"
proof (rule mx_fineI [OF assms(6)])
  show "mx_inv n N (s\<lparr>ms_net := R\<rparr>) []"
    using assms(1-5) by (simp add: mx_inv_def Let_def mx_exits_def mx_left_def)
  have "0 < mx_weight p"
    by (cases p rule: mx_weight.cases) simp_all
  then show "mx_work n (s\<lparr>ms_net := R\<rparr>) < mx_work n s"
    using assms(2) by (simp add: mx_work_def)
qed

text \<open>A chameneo that is left answers a message with the parcels \<open>Q\<close>.\<close>

lemma mx_answer:
  assumes "mx_inv n N s out" "ms_net s = add_mset p R" "ms_chameneos s i = Some a"
    "mx_deliver n p s = Inr (s\<lparr>ms_chameneos := (ms_chameneos s)(i \<mapsto> a'), ms_net := R + Q\<rparr>, out')"
    "(\<Sum>q\<in>#Q. mx_places q) = mx_places p" "exits p = {#}" "(\<Sum>q\<in>#Q. exits q) = {#}" "\<not> mx_is_count p"
    "filter_mset mx_is_count Q = {#}" "(\<Sum>q\<in>#Q. mx_weight q) < mx_weight p"
  shows "mx_fine n N p s"
proof (rule mx_fineI [OF assms(4)])
  define s' where "s' = s\<lparr>ms_chameneos := (ms_chameneos s)(i \<mapsto> a'), ms_net := R + Q\<rparr>"
  have left: "mx_left s' = mx_left s"
    using assms(3) by (auto simp: s'_def mx_left_def)
  have "mx_all_places s' = mx_all_places s" "mx_exits s' = mx_exits s" "ms_mall s' = ms_mall s"
    "filter_mset mx_is_count (ms_net s') = filter_mset mx_is_count (ms_net s)"
    using assms(2,5-9) by (simp_all add: s'_def mx_all_places_def mx_exits_def)
  then show "mx_inv n N s' []"
    using assms(1) by (simp add: mx_inv_def Let_def left)
  show "mx_work n s' < mx_work n s"
    using assms(2,10) by (simp add: mx_work_def s'_def)
qed

lemma mx_gone_sent:
  assumes "mx_inv n N s out" "p \<in># ms_net s" "i \<in># mx_places p" "ms_chameneos s i = None"
  shows "ma_sent_exit (ms_mall s)"
proof (rule ccontr)
  assume "\<not> ma_sent_exit (ms_mall s)"
  moreover have "i \<in># mx_all_places s"
    using assms(2,3) by (auto simp: mx_all_places_def)
  ultimately have "i \<in> mx_left s"
    using assms(1) by (simp add: mx_inv_def Let_def)
  then show False
    using assms(4) by (simp add: mx_left_def domIff)
qed

lemma mx_fine_start:
  assumes "mx_inv n N s out" "MxStart i \<in># ms_net s"
  shows "mx_fine n N (MxStart i) s"
proof -
  obtain R where R: "ms_net s = add_mset (MxStart i) R"
    using assms(2) by (metis mset_add)
  show ?thesis
  proof (cases "ms_chameneos s i")
    case None
    then have "ma_sent_exit (ms_mall s)"
      by (intro mx_gone_sent [OF assms(1,2)]) simp_all
    then show ?thesis
      using R None by (intro mx_gone [OF assms(1) R]) (simp_all add: mx_run_def)
  next
    case (Some a)
    then show ?thesis
      using R by (intro mx_answer [OF assms(1) R Some, where a' = a and Q = "{#MxMall (MallMeet (ca_colour a) i)#}"])
        (cases s, simp_all add: mx_run_def mx_emit_def mixed_on_start_def fun_upd_idem)
  qed
qed

lemma mx_fine_receive:
  assumes "mx_inv n N s out" "MxChameneo i m \<in># ms_net s"
  shows "mx_fine n N (MxChameneo i m) s"
proof -
  obtain R where R: "ms_net s = add_mset (MxChameneo i m) R"
    using assms(2) by (metis mset_add)
  show ?thesis
  proof (cases "ms_chameneos s i")
    case None
    have "i \<in># mx_places (MxChameneo i m)"
      by (cases m) simp_all
    then have "ma_sent_exit (ms_mall s)"
      using None by (rule mx_gone_sent [OF assms(1,2)])
    then show ?thesis
      using R None by (intro mx_gone [OF assms(1) R]) (simp_all add: mx_run_def)
  next
    case (Some a)
    show ?thesis
    proof (cases m)
      case (MixedMeet c j)
      define a' where "a' = a\<lparr>ca_colour := complement (ca_colour a) c, ca_meetings := ca_meetings a + 1\<rparr>"
      show ?thesis
        using R MixedMeet Some
        by (intro mx_answer [OF assms(1) R Some, where a' = a' and
              Q = "{#MxChameneo j (MixedChange (ca_colour a')), MxMall (MallMeet (ca_colour a') i)#}"])
          (simp_all add: mx_run_def mx_emit_def a'_def)
    next
      case (MixedChange c)
      show ?thesis
        using R MixedChange Some
        by (intro mx_answer [OF assms(1) R Some, where a' = "a\<lparr>ca_colour := c, ca_meetings := ca_meetings a + 1\<rparr>" and
              Q = "{#MxMall (MallMeet c i)#}"])
          (simp_all add: mx_run_def mx_emit_def)
    qed
  qed
qed

lemma mx_fine_exit:
  assumes "mx_inv n N s out" "MxExit i \<in># ms_net s"
  shows "mx_fine n N (MxExit i) s"
proof -
  obtain R where R: "ms_net s = add_mset (MxExit i) R"
    using assms(2) by (metis mset_add)
  have ex: "i \<in># mx_exits s"
    using R by (simp add: mx_exits_def)
  then have sent: "ma_sent_exit (ms_mall s)" "mx_exits s = mset_set (mx_left s)"
    using assms(1) by (auto simp: mx_inv_def Let_def split: if_splits)
  have fin: "finite (mx_left s)"
    using assms(1) finite_subset by (auto simp: mx_inv_def Let_def)
  then obtain a where a: "ms_chameneos s i = Some a"
    using ex sent by (auto simp: mx_left_def)
  define s' where "s' = s\<lparr>ms_chameneos := (ms_chameneos s)(i := None), ms_net := add_mset (MxMall (MeetingCount (ca_meetings a))) R\<rparr>"
  have "\<exists>out'. mx_deliver n (MxExit i) s = Inr (s', out')"
    using R a by (cases s) (simp add: mx_run_def mx_emit_def mixed_handle_exit_def s'_def)
  moreover have left: "mx_left s = insert i (mx_left s')" "i \<notin> mx_left s'"
    using a by (auto simp: mx_left_def s'_def)
  have fin': "finite (mx_left s')"
    using fin left(1) by simp
  have "mx_inv n N s' []"
    using assms(1) R left(2) fin' sent(1) unfolding mx_inv_def Let_def left(1)
    by (simp add: mx_exits_def) (simp add: s'_def)
  moreover have "mx_work n s' < mx_work n s"
    using R by (simp add: mx_work_def s'_def)
  ultimately show ?thesis
    by (auto simp: mx_fine_def)
qed

lemma mx_fine_count:
  assumes "mx_inv n N s out" "MxMall (MeetingCount c) \<in># ms_net s"
  shows "mx_fine n N (MxMall (MeetingCount c)) s"
proof -
  obtain R where R: "ms_net s = add_mset (MxMall (MeetingCount c)) R"
    using assms(2) by (metis mset_add)
  define m where "m = (ms_mall s)\<lparr>ma_num_faded := ma_num_faded (ms_mall s) + 1, ma_sum_meetings := ma_sum_meetings (ms_mall s) + c\<rparr>"
  define m' where "m' = (if ma_num_faded m = n then m\<lparr>ma_latch := 0\<rparr> else m)"
  define s' where "s' = s\<lparr>ms_mall := m', ms_net := R\<rparr>"
  have sum: "card (mx_left s) + ma_num_faded (ms_mall s) + Suc (size (filter_mset mx_is_count R)) = n"
    using assms(1) R by (simp add: mx_inv_def Let_def)
  have faded: "ma_num_faded (ms_mall s) < n" "ma_num_chameneos (ms_mall s) = n" "ma_latch (ms_mall s) = 1"
    using assms(1) sum by (auto simp: mx_inv_def Let_def)
  have "\<exists>out'. mx_deliver n (MxMall (MeetingCount c)) s = Inr (s', out')"
    using R faded by (cases s) (simp add: mx_emit_def s'_def m'_def m_def Let_def)
  moreover have m': "ma_num_faded m' = ma_num_faded (ms_mall s) + 1" "ma_latch m' = (if ma_num_faded m' < n then 1 else 0)"
    "ma_num_meetings m' = ma_num_meetings (ms_mall s)" "ma_num_chameneos m' = ma_num_chameneos (ms_mall s)"
    "ma_meetings_count m' = ma_meetings_count (ms_mall s)" "ma_sent_exit m' = ma_sent_exit (ms_mall s)"
    "ma_waiting_chameneo m' = ma_waiting_chameneo (ms_mall s)"
    using faded by (auto simp: m'_def m_def)
  have s': "mx_left s' = mx_left s" "mx_all_places s' = mx_all_places s" "mx_exits s' = mx_exits s" "ms_mall s' = m'" "ms_net s' = R"
    using R by (simp_all add: s'_def mx_left_def mx_all_places_def mx_exits_def m')
  have "mx_inv n N s' []"
    using assms(1) sum m'(2) unfolding mx_inv_def Let_def s' m'(1,3-7) by simp
  moreover have "mx_work n s' < mx_work n s"
    using R by (simp add: mx_work_def s' m')
  ultimately show ?thesis
    by (auto simp: mx_fine_def)
qed

lemma mx_fine_mall_meet:
  assumes "mx_inv n N s out" "MxMall (MallMeet c i) \<in># ms_net s"
  shows "mx_fine n N (MxMall (MallMeet c i)) s"
proof -
  obtain R where R: "ms_net s = add_mset (MxMall (MallMeet c i)) R"
    using assms(2) by (metis mset_add)
  define m where "m = ms_mall s"
  have inv: "ma_num_meetings m = N" "ma_meetings_count m \<le> N" "ma_num_chameneos m = n"
    using assms(1) by (simp_all add: mx_inv_def Let_def m_def)
  have running: "\<not> ma_sent_exit m" if "ma_meetings_count m < N"
    using assms(1) that by (auto simp: mx_inv_def Let_def m_def)
  consider (meet) j where "ma_meetings_count m < N" "ma_waiting_chameneo m = Some j"
    | (wait) "ma_meetings_count m < N" "ma_waiting_chameneo m = None"
    | (exit) "ma_meetings_count m = N" "\<not> ma_sent_exit m" | (drop) "ma_meetings_count m = N" "ma_sent_exit m"
    using inv(2) by (cases "ma_waiting_chameneo m") force+
  then show ?thesis
  proof cases
    case meet
    define m' where "m' = m\<lparr>ma_waiting_chameneo := None, ma_meetings_count := ma_meetings_count m + 1\<rparr>"
    define s' where "s' = s\<lparr>ms_mall := m', ms_net := add_mset (MxChameneo j (MixedMeet c i)) R\<rparr>"
    have lt: "unat (ma_meetings_count m) < unat N"
      using meet(1) by (simp add: word_less_nat_alt)
    then have "unat (ma_meetings_count m) + 1 < 18446744073709551616"
      using unat_u64_less [of N] by linarith
    then have u: "unat (ma_meetings_count m + 1) = unat (ma_meetings_count m) + 1"
      by (simp add: unat_Suc_u64)
    have "\<exists>out'. mx_deliver n (MxMall (MallMeet c i)) s = Inr (s', out')"
      using R meet inv by (cases s) (simp add: mx_emit_def s'_def m'_def m_def)
    moreover have s': "mx_left s' = mx_left s" "mx_all_places s' = mx_all_places s" "mx_exits s' = mx_exits s" "ms_mall s' = m'"
      "filter_mset mx_is_count (ms_net s') = filter_mset mx_is_count (ms_net s)"
      using R meet(2) by (simp_all add: s'_def mx_left_def mx_all_places_def mx_exits_def m'_def m_def [symmetric] add_mset_commute)
    have "mx_inv n N s' []"
      using assms(1) running [OF meet(1)] lt u unfolding mx_inv_def Let_def s' m_def [symmetric]
      by (auto simp: m'_def word_le_nat_alt)
    moreover have "mx_work n s' < mx_work n s"
      using R meet lt u inv by (simp add: mx_work_def s'_def m'_def m_def [symmetric])
    ultimately show ?thesis
      by (auto simp: mx_fine_def)
  next
    case wait
    define s' where "s' = s\<lparr>ms_mall := m\<lparr>ma_waiting_chameneo := Some i\<rparr>, ms_net := R\<rparr>"
    have "\<exists>out'. mx_deliver n (MxMall (MallMeet c i)) s = Inr (s', out')"
      using R wait inv by (cases s) (simp add: mx_emit_def s'_def m_def)
    moreover have s': "mx_left s' = mx_left s" "mx_all_places s' = mx_all_places s" "mx_exits s' = mx_exits s"
      "ms_mall s' = m\<lparr>ma_waiting_chameneo := Some i\<rparr>" "filter_mset mx_is_count (ms_net s') = filter_mset mx_is_count (ms_net s)"
      using R wait(2) by (simp_all add: s'_def mx_left_def mx_all_places_def mx_exits_def m_def [symmetric])
    have "mx_inv n N s' []"
      using assms(1) running [OF wait(1)] wait(1) unfolding mx_inv_def Let_def s' m_def [symmetric] by auto
    moreover have "mx_work n s' < mx_work n s"
      using R wait by (simp add: mx_work_def s'_def m_def [symmetric])
    ultimately show ?thesis
      by (auto simp: mx_fine_def)
  next
    case exit
    define s' where "s' = s\<lparr>ms_mall := m\<lparr>ma_sent_exit := True\<rparr>, ms_net := R + mset (map MxExit [0..<n])\<rparr>"
    have "\<exists>out'. mx_deliver n (MxMall (MallMeet c i)) s = Inr (s', out')"
      using R exit inv by (cases s) (simp add: mx_emit_def s'_def m_def)
    moreover have old: "mx_left s = {..<n}" "mx_exits s = {#}"
      using assms(1) exit(2) by (simp_all add: mx_inv_def Let_def m_def)
    have all: "(\<Sum>q\<in>#mset (map MxExit is). exits q) = mset is" "filter_mset mx_is_count (mset (map MxExit is)) = {#}"
      "(\<Sum>q\<in>#mset (map MxExit is). mx_weight q) = 2 * length is" for "is"
      by (induction "is") simp_all
    have s': "mx_left s' = mx_left s" "mx_exits s' = mset_set {..<n}" "ms_mall s' = m\<lparr>ma_sent_exit := True\<rparr>"
      "filter_mset mx_is_count (ms_net s') = filter_mset mx_is_count (ms_net s)"
      using R old(2) all(1,2) [of "[0..<n]"]
      by (simp_all add: s'_def mx_left_def mx_exits_def atLeast0LessThan del: mset_map)
    have "mx_inv n N s' []"
      using assms(1) exit old unfolding mx_inv_def Let_def s' m_def [symmetric] by simp
    moreover have "mx_work n s' < mx_work n s"
      using R exit all(3) [of "[0..<n]"] by (simp add: mx_work_def s'_def m_def [symmetric] del: mset_map)
    ultimately show ?thesis
      by (auto simp: mx_fine_def)
  next
    case drop
    then show ?thesis
      using R inv by (intro mx_gone [OF assms(1) R]) (simp_all add: mx_emit_def m_def)
  qed
qed

lemma mx_every_delivery_fine:
  assumes "mx_inv n N s out" "mx_allowed p s"
  shows "mx_fine n N p s"
proof -
  have p: "p \<in># ms_net s"
    using assms(2) by (simp add: mx_allowed_def)
  show ?thesis
  proof (cases p)
    case (MxStart i)
    then show ?thesis
      using mx_fine_start [OF assms(1)] p by simp
  next
    case (MxMall m)
    then show ?thesis
      using mx_fine_count [OF assms(1)] mx_fine_mall_meet [OF assms(1)] p by (cases m) simp_all
  next
    case (MxChameneo i m)
    then show ?thesis
      using mx_fine_receive [OF assms(1)] p by simp
  next
    case (MxExit i)
    then show ?thesis
      using mx_fine_exit [OF assms(1)] p by simp
  qed
qed

lemma mx_inv_out: "mx_inv n N s out \<longleftrightarrow> mx_inv n N s []"
  by (simp add: mx_inv_def)

interpretation mixed: safe_component mx_allowed "mx_deliver n" "mx_inv n N"
  by unfold_locales (metis mx_every_delivery_fine mx_fine_def mx_inv_out)

lemma mx_start_inv:
  assumes "0 < n"
  shows "mx_inv n N (mx_start n N) []"
proof -
  have dom: "mx_left (mx_start n N) = {..<n}"
    by (auto simp: mx_left_def mx_start_def split: if_splits)
  have "(\<Sum>p\<in>#mset (map MxStart is). mx_places p) = mset is" "(\<Sum>p\<in>#mset (map MxStart is). exits p) = {#}" for "is"
    by (induction "is") simp_all
  then have "mx_all_places (mx_start n N) = mset_set {..<n}" "mx_exits (mx_start n N) = {#}"
    by (simp_all add: mx_all_places_def mx_exits_def mx_start_def mixed_mall_with_def atLeast0LessThan del: mset_map)
  then show ?thesis
    unfolding mx_inv_def Let_def dom using assms by (auto simp: mx_start_def mixed_mall_with_def)
qed

lemma mx_start_work: "mx_work n (mx_start n N) = 4 * unat N + 6 * n"
  by (simp add: mx_work_def mx_start_def mixed_mall_with_def image_mset.compositionality comp_def)

lemma mx_run_work:
  assumes "mx_inv n N s []" "all_allowed mx_allowed (mx_deliver n) ps s"
  shows "length ps \<le> mx_work n s"
  using assms
proof (induction ps arbitrary: s)
  case (Cons p ps)
  obtain s' out' where s': "mx_deliver n p s = Inr (s', out')" "mx_inv n N s' []" "mx_work n s' < mx_work n s"
    using mx_every_delivery_fine [OF Cons.prems(1), of p] Cons.prems(2) by (auto simp: mx_fine_def)
  then show ?case
    using Cons.IH [of s'] Cons.prems(2) by simp
qed simp

lemma mx_quiescent_done:
  assumes "mx_inv n N s []" "ms_net s = {#}" "2 \<le> n"
  shows "ma_latch (ms_mall s) = 0 \<and> ma_meetings_count (ms_mall s) = N"
proof -
  define m where "m = ms_mall s"
  have fin: "finite (mx_left s)"
    using assms(1) finite_subset by (auto simp: mx_inv_def Let_def)
  have sent: "ma_sent_exit m"
  proof (rule ccontr)
    assume "\<not> ma_sent_exit m"
    then have "size (mx_all_places s) = n"
      using assms(1) by (simp add: mx_inv_def Let_def m_def)
    then show False
      using assms(2,3) by (simp add: mx_all_places_def split: option.splits)
  qed
  then have "mset_set (mx_left s) = {#}" "ma_meetings_count m = N"
    using assms(1,2) by (simp_all add: mx_inv_def Let_def m_def mx_exits_def)
  moreover from this(1) have "mx_left s = {}"
    using fin by (simp add: mset_set_empty_iff)
  ultimately show ?thesis
    using assms(1,2) by (simp add: mx_inv_def Let_def m_def)
qed

subsection \<open>What holds of every run\<close>

text \<open>C28: The version with ports terminates under every order of deliveries too: no run of \<open>n\<close> chameneos with \<open>N\<close> meetings delivers
  more than \<open>4 N + 6 n\<close> messages and events, none of them makes a handler panic, and when with at least two chameneos nothing is
  left to deliver, the mall has arranged exactly \<open>N\<close> meetings and the latch is open.\<close>

theorem mixed_chameneos_terminates:
  assumes "all_allowed mx_allowed (mx_deliver n) ps (mx_start n N)" "0 < n"
  shows "length ps \<le> 4 * unat N + 6 * n \<and>
    (\<exists>s out. run_inputs (mx_deliver n) ps (mx_start n N) = Inr (s, out) \<and>
      (ms_net s = {#} \<and> 2 \<le> n \<longrightarrow> ma_meetings_count (ms_mall s) = N \<and> ma_latch (ms_mall s) = 0))"
proof -
  obtain s out where run: "run_inputs (mx_deliver n) ps (mx_start n N) = Inr (s, out)" "mx_inv n N s []"
    using mixed.run_safe [OF mx_start_inv [OF assms(2)] assms(1)] mx_inv_out by blast
  then show ?thesis
    using mx_run_work [OF mx_start_inv [OF assms(2)] assms(1)] mx_quiescent_done [OF run(2)] by (auto simp: mx_start_work)
qed

text \<open>Three chameneos and one meeting: the third arrives while the first has not yet met the second, so that all are told to
  exit; the second leaves before it hears of its meeting.\<close>

definition mixed_schedule :: "mx_parcel list" where
  "mixed_schedule = [MxStart 0, MxStart 1, MxStart 2, MxMall (MallMeet Red 0), MxMall (MallMeet Yellow 1), MxMall (MallMeet Blue 2),
     MxExit 1, MxChameneo 0 (MixedMeet Yellow 1), MxExit 0, MxExit 2, MxChameneo 1 (MixedChange Blue), MxMall (MallMeet Blue 0),
     MxMall (MeetingCount 0), MxMall (MeetingCount 1), MxMall (MeetingCount 0)]"

lemmas mixed_run_defs = mixed_schedule_def mx_start_def mixed_mall_with_def chameneo_with_def for_id_def mx_allowed_def mx_run_def
  mx_emit_def mixed_on_start_def mixed_handle_exit_def run_inputs_def upt_rec numeral_2_eq_2

lemma mixed_schedule_runs:
  "all_allowed mx_allowed (mx_deliver 3) mixed_schedule (mx_start 3 1) \<and>
   (\<exists>s out. run_inputs (mx_deliver 3) mixed_schedule (mx_start 3 1) = Inr (s, out) \<and> ms_net s = {#} \<and> ma_sum_meetings (ms_mall s) = 1)"
  by (simp add: mixed_run_defs Let_def)

theorem mixed_chameneos_terminates_witness:
  "\<exists>s out. run_inputs (mx_deliver 3) mixed_schedule (mx_start 3 1) = Inr (s, out) \<and> ms_net s = {#} \<and> ma_latch (ms_mall s) = 0"
  using mixed_chameneos_terminates [of 3 mixed_schedule 1] mixed_schedule_runs by auto

text \<open>In the version with ports meetings are lost from the count: there is a run of three chameneos with one meeting at the end of
  which the latch is open and the chameneos have reported one meeting instead of the two that the version with actors always reports.\<close>

theorem mixed_chameneos_lose_meetings:
  "\<exists>s out. run_inputs (mx_deliver 3) mixed_schedule (mx_start 3 1) = Inr (s, out) \<and>
    all_allowed mx_allowed (mx_deliver 3) mixed_schedule (mx_start 3 1) \<and> ms_net s = {#} \<and>
    ma_latch (ms_mall s) = 0 \<and> ma_meetings_count (ms_mall s) = 1 \<and> ma_sum_meetings (ms_mall s) = 1"
  by (simp add: mixed_run_defs Let_def)

end
