(* ===== verification/Ping_Pong.thy ===== *)
theory Ping_Pong
  imports Reachability
begin

text \<open>
  The exchange that the ping-pong and throughput benchmarks of all three actor libraries have in common: pairs of a pinger
  and a ponger, a \<open>Run\<close> message to every pinger, and a latch that every pinger counts down once. The handlers of the
  pingers are parameters here; the theories \<open>Pingers\<close> and \<open>Ported_Pingers\<close> provide them.
\<close>

datatype 'm pp_out = TellPonger 'm | LatchDecrement

text \<open>The actors of a pair: the pinger's handlers for \<open>Run\<close> and for a pong, the pongs with which the ponger answers a ping,
  and whether the pinger expects the countdown to succeed.\<close>

record ('s, 'm, 'r) pinger_api =
  pg_run :: "'s \<Rightarrow> ('s, 'm pp_out) handled"
  pg_pong :: "'r \<Rightarrow> 's \<Rightarrow> ('s, 'm pp_out) handled"
  pg_reply :: "'m \<Rightarrow> 'r list rust"
  pg_expects :: bool

record ('s, 'm, 'r) pp_pair =
  pp_pinger :: 's
  pp_run_pending :: bool
  pp_pings :: "'m list"
  pp_pongs :: "'r list"

record ('s, 'm, 'r) pp_sys =
  pp_pairs :: "('s, 'm, 'r) pp_pair list"
  pp_latch :: nat

datatype delivery = RunMsg | PingMsg | PongMsg

definition ping_of :: "'m pp_out \<Rightarrow> 'm option" where
  "ping_of x = (case x of TellPonger m \<Rightarrow> Some m | LatchDecrement \<Rightarrow> None)"

definition pings_sent :: "'m pp_out list \<Rightarrow> 'm list" where
  "pings_sent out = List.map_filter ping_of out"

definition countdowns :: "'m pp_out list \<Rightarrow> nat" where
  "countdowns out = length (filter (\<lambda>x. ping_of x = None) out)"

text \<open>Messages between two actors arrive in the order in which they were sent.\<close>

fun pair_step ::
  "('s, 'm, 'r) pinger_api \<Rightarrow> delivery \<Rightarrow> ('s, 'm, 'r) pp_pair \<Rightarrow> (('s, 'm, 'r) pp_pair, 'm pp_out) handled" where
  "pair_step api RunMsg p = rbind (pg_run api (pp_pinger p)) (\<lambda>(g, out).
     Inr (p\<lparr>pp_pinger := g, pp_run_pending := False, pp_pings := pp_pings p @ pings_sent out\<rparr>, out))"
| "pair_step api PingMsg p =
     rbind (pg_reply api (hd (pp_pings p))) (\<lambda>rs. Inr (p\<lparr>pp_pings := tl (pp_pings p), pp_pongs := pp_pongs p @ rs\<rparr>, []))"
| "pair_step api PongMsg p = rbind (pg_pong api (hd (pp_pongs p)) (pp_pinger p)) (\<lambda>(g, out).
     Inr (p\<lparr>pp_pinger := g, pp_pongs := tl (pp_pongs p), pp_pings := pp_pings p @ pings_sent out\<rparr>, out))"

fun pair_allowed :: "delivery \<Rightarrow> ('s, 'm, 'r) pp_pair \<Rightarrow> bool" where
  "pair_allowed RunMsg p = pp_run_pending p"
| "pair_allowed PingMsg p = (pp_pings p \<noteq> [])"
| "pair_allowed PongMsg p = (pp_pongs p \<noteq> [])"

definition pp_deliver ::
  "('s, 'm, 'r) pinger_api \<Rightarrow> nat \<times> delivery \<Rightarrow> ('s, 'm, 'r) pp_sys \<Rightarrow> (('s, 'm, 'r) pp_sys, nat \<times> 'm pp_out) handled" where
  "pp_deliver api = (\<lambda>(k, d) s.
     rbind (pair_step api d (pp_pairs s ! k)) (\<lambda>(p, out).
     if pg_expects api \<and> pp_latch s < countdowns out then Inl UnwrapNone
     else Inr (s\<lparr>pp_pairs := (pp_pairs s)[k := p], pp_latch := pp_latch s - countdowns out\<rparr>, map (Pair k) out)))"

definition pp_allowed :: "nat \<times> delivery \<Rightarrow> ('s, 'm, 'r) pp_sys \<Rightarrow> bool" where
  "pp_allowed = (\<lambda>(k, d) s. k < length (pp_pairs s) \<and> pair_allowed d (pp_pairs s ! k))"

definition pp_start :: "nat \<Rightarrow> 's \<Rightarrow> ('s, 'm, 'r) pp_sys" where
  "pp_start n pinger = \<lparr>pp_pairs = replicate n \<lparr>pp_pinger = pinger, pp_run_pending = True, pp_pings = [], pp_pongs = []\<rparr>,
     pp_latch = n\<rparr>"

definition sent_by :: "nat \<Rightarrow> (nat \<times> 'm pp_out) list \<Rightarrow> 'm list" where
  "sent_by k out = pings_sent (map snd (filter (\<lambda>x. fst x = k) out))"

definition quiet :: "('s, 'm, 'r) pp_sys \<Rightarrow> bool" where
  "quiet s \<longleftrightarrow> (\<forall>p\<in>set (pp_pairs s). \<not> pp_run_pending p \<and> pp_pings p = [] \<and> pp_pongs p = [])"

lemma quiet_iff: "quiet s \<longleftrightarrow> (\<forall>i. \<not> pp_allowed i s)"
proof -
  have "\<not> pp_run_pending p \<and> pp_pings p = [] \<and> pp_pongs p = [] \<longleftrightarrow> (\<forall>d. \<not> pair_allowed d p)" for p :: "('s, 'm, 'r) pp_pair"
    by (metis delivery.exhaust pair_allowed.simps)
  then show ?thesis
    by (auto simp: quiet_def pp_allowed_def all_set_conv_all_nth)
qed

lemma pings_sent_simps [simp]:
  "pings_sent [] = []" "pings_sent (xs @ ys) = pings_sent xs @ pings_sent ys" "pings_sent (map TellPonger ms) = ms"
  "pings_sent [LatchDecrement] = []"
  by (simp_all add: pings_sent_def map_filter_append map_filter_simps ping_of_def)
    (induction ms; simp add: map_filter_simps ping_of_def)

lemma countdowns_simps [simp]:
  "countdowns [] = 0" "countdowns (xs @ ys) = countdowns xs + countdowns ys" "countdowns (map TellPonger ms) = 0"
  "countdowns [LatchDecrement] = 1"
  by (simp_all add: countdowns_def ping_of_def)

lemma sent_by_append [simp]: "sent_by k (out @ out') = sent_by k out @ sent_by k out'" "sent_by k [] = []"
  by (simp_all add: sent_by_def)

lemma sent_by_pairs [simp]: "sent_by k (map (Pair j) out) = (if j = k then pings_sent out else [])"
  by (simp add: sent_by_def filter_map comp_def map_idI)

text \<open>What an iteration with \<open>n\<close> pairs promises: however the messages are delivered, nobody panics, the latch is released after
  exactly two messages for every ping and one \<open>Run\<close> for every pair, no message is under way then, and every pinger
  has sent the pings it should. Until then there is always a message to deliver.\<close>

definition exchanges :: "('s, 'm, 'r) pinger_api \<Rightarrow> 's \<Rightarrow> nat \<Rightarrow> 'm list \<Rightarrow> bool" where
  "exchanges api start n pings \<longleftrightarrow>
    (\<forall>is. all_allowed pp_allowed (pp_deliver api) is (pp_start n start) \<longrightarrow>
       length is \<le> n * (2 * length pings + 1) \<and>
       (\<exists>s out. run_inputs (pp_deliver api) is (pp_start n start) = Inr (s, out) \<and>
         (pp_latch s = 0 \<longleftrightarrow> length is = n * (2 * length pings + 1)) \<and>
         (pp_latch s = 0 \<longleftrightarrow> (\<forall>i. \<not> pp_allowed i s)) \<and>
         (pp_latch s = 0 \<longrightarrow> (\<forall>k<n. sent_by k out = pings))))"

text \<open>And the opposite: the latch is never released.\<close>

definition never_ends :: "('s, 'm, 'r) pinger_api \<Rightarrow> 's \<Rightarrow> nat \<Rightarrow> bool" where
  "never_ends api start n \<longleftrightarrow>
    (\<forall>is. all_allowed pp_allowed (pp_deliver api) is (pp_start n start) \<longrightarrow>
       (\<exists>s. run_inputs (pp_deliver api) is (pp_start n start) = Inr (s, []) \<and> pp_latch s = n))"

subsection \<open>The contract of a pinger\<close>

text \<open>\<open>total\<close> pings are sent, the \<open>k\<close>-th of them is \<open>ping k\<close> and its pong \<open>answer k\<close>, at most \<open>width\<close> are unanswered; \<open>reached s x r\<close> says that \<open>x\<close> pings have
  been sent and \<open>r\<close> pongs received.\<close>

locale pinger_contract =
  fixes api :: "('s, 'm, 'r) pinger_api"
    and start :: 's
    and ping :: "nat \<Rightarrow> 'm"
    and answer :: "nat \<Rightarrow> 'r"
    and total :: nat
    and width :: nat
    and reached :: "'s \<Rightarrow> nat \<Rightarrow> nat \<Rightarrow> bool"
  assumes start: "reached start 0 0"
    and run: "reached s 0 0 \<Longrightarrow>
      \<exists>s'. pg_run api s = Inr (s', map (TellPonger \<circ> ping) [0..<min width total]) \<and> reached s' (min width total) 0"
    and pong: "reached s x r \<Longrightarrow> r < x \<Longrightarrow> x \<le> total \<Longrightarrow>
      \<exists>s'. pg_pong api (answer r) s = Inr (s', if Suc r < total then map (TellPonger \<circ> ping) [x..<min (Suc x) total] else [LatchDecrement]) \<and>
        reached s' (min (Suc x) total) (Suc r)"
    and reply: "k < total \<Longrightarrow> pg_reply api (ping k) = Inr [answer k]"
begin

definition pair_at :: "('s, 'm, 'r) pp_pair \<Rightarrow> nat \<Rightarrow> nat \<Rightarrow> bool" where
  "pair_at p x r \<longleftrightarrow> reached (pp_pinger p) x r \<and>
     (if pp_run_pending p then x = 0 \<and> r = 0 \<and> pp_pings p = [] \<and> pp_pongs p = []
      else x \<le> total \<and> r + length (pp_pongs p) + length (pp_pings p) = x \<and> x \<le> r + width \<and> (x < total \<longrightarrow> x = r + width) \<and>
        pp_pings p = map ping [r + length (pp_pongs p)..<x] \<and>
        pp_pongs p = map answer [r..<r + length (pp_pongs p)])"

definition pair_work :: "('s, 'm, 'r) pp_pair \<Rightarrow> nat \<Rightarrow> nat" where
  "pair_work p x = (if pp_run_pending p then 2 * total + 1
     else 2 * (total - x) + 2 * length (pp_pings p) + length (pp_pongs p))"

definition pair_fine :: "delivery \<Rightarrow> ('s, 'm, 'r) pp_pair \<Rightarrow> nat \<Rightarrow> nat \<Rightarrow> bool" where
  "pair_fine d p x r \<longleftrightarrow> (\<exists>p' out x' r'. pair_step api d p = Inr (p', out) \<and> pair_at p' x' r' \<and>
     pings_sent out = map ping [x..<x'] \<and> x \<le> x' \<and> countdowns out = (if r < total \<and> total \<le> r' then 1 else 0) \<and>
     r \<le> r' \<and> pair_work p' x' + 1 = pair_work p x)"

lemma map_pings [simp]: "pings_sent (map (TellPonger \<circ> ping) xs) = map ping xs" "countdowns (map (TellPonger \<circ> ping) xs) = 0"
  using pings_sent_simps(3) [of "map ping xs"] countdowns_simps(3) [of "map ping xs"] by (simp_all add: comp_def)

lemma fine_run:
  assumes "pair_at p x r" "pp_run_pending p"
  shows "pair_fine RunMsg p x r"
proof -
  have p: "reached (pp_pinger p) 0 0" "x = 0" "r = 0" "pp_pings p = []" "pp_pongs p = []"
    using assms by (auto simp: pair_at_def)
  obtain g where g: "pg_run api (pp_pinger p) = Inr (g, map (TellPonger \<circ> ping) [0..<min width total])"
    "reached g (min width total) 0"
    using run [OF p(1)] by blast
  define x' where "x' = min width total"
  define p' where "p' = p\<lparr>pp_pinger := g, pp_run_pending := False, pp_pings := map ping [0..<x']\<rparr>"
  have "pair_step api RunMsg p = Inr (p', map (TellPonger \<circ> ping) [0..<x'])"
    using g(1) p by (simp add: p'_def x'_def)
  moreover have "pair_at p' x' 0"
    using g(2) p by (simp add: pair_at_def p'_def x'_def)
  moreover have "pair_work p' x' + 1 = pair_work p x"
    using assms(2) p by (simp add: pair_work_def p'_def x'_def)
  moreover have "countdowns (map (TellPonger \<circ> ping) [0..<x']) = (if r < total \<and> total \<le> 0 then 1 else 0)"
    by simp
  ultimately show ?thesis
    unfolding pair_fine_def using p(2,3)
    by (intro exI [of _ p'] exI [of _ "map (TellPonger \<circ> ping) [0..<x']"] exI [of _ x'] exI [of _ 0]) simp
qed

lemma fine_ping:
  assumes "pair_at p x r" "pp_pings p \<noteq> []"
  shows "pair_fine PingMsg p x r"
proof -
  have p: "\<not> pp_run_pending p"
    using assms by (auto simp: pair_at_def split: if_splits)
  let ?k = "r + length (pp_pongs p)"
  have k: "?k < x" "[?k..<x] = ?k # [Suc ?k..<x]" "pp_pings p = map ping [?k..<x]"
    using assms p upt_conv_Cons by (auto simp: pair_at_def)
  then have pings: "hd (pp_pings p) = ping ?k" "tl (pp_pings p) = map ping [Suc ?k..<x]"
    by simp_all
  have answered: "pg_reply api (ping ?k) = Inr [answer ?k]"
    using assms(1) p k(1) reply by (simp add: pair_at_def)
  show ?thesis
    unfolding pair_fine_def
    by (intro exI [of _ "p\<lparr>pp_pings := map ping [Suc ?k..<x], pp_pongs := pp_pongs p @ [answer ?k]\<rparr>"]
        exI [of _ "[]"] exI [of _ x] exI [of _ r])
      (use assms(1) p pings answered k in \<open>auto simp: pair_at_def pair_work_def\<close>)
qed

lemma fine_pong:
  assumes "pair_at p x r" "pp_pongs p \<noteq> []"
  shows "pair_fine PongMsg p x r"
proof -
  have p: "\<not> pp_run_pending p"
    using assms by (auto simp: pair_at_def split: if_splits)
  obtain n where n: "length (pp_pongs p) = Suc n"
    using assms(2) by (cases "pp_pongs p") auto
  have at: "reached (pp_pinger p) x r" "r < x" "x \<le> total" "x < total \<longrightarrow> x = r + width"
    "pp_pings p = map ping [r + Suc n..<x]" "pp_pongs p = map answer [r..<r + Suc n]" "x \<le> r + width"
    "r + Suc n \<le> x"
    using assms(1) p n by (auto simp: pair_at_def)
  define x' where "x' = min (Suc x) total"
  have tl: "hd (pp_pongs p) = answer r" "tl (pp_pongs p) = map answer [Suc r..<Suc r + n]"
    using at(6) upt_conv_Cons [of r "r + Suc n"] by (simp_all del: upt_Suc)
  obtain g where g: "pg_pong api (hd (pp_pongs p)) (pp_pinger p) =
      Inr (g, if Suc r < total then map (TellPonger \<circ> ping) [x..<x'] else [LatchDecrement])" "reached g x' (Suc r)"
    using pong [OF at(1-3)] unfolding x'_def tl(1) by blast
  have x': "x \<le> x'" "\<not> Suc r < total \<longrightarrow> x' = x \<and> x = total" "x' \<le> total" "x' \<le> Suc r + width" "x' < total \<longrightarrow> x' = Suc r + width"
    "map ping [r + Suc n..<x] @ map ping [x..<x'] = map ping [Suc r + n..<x']"
    using at upt_add_eq_append [of "r + Suc n" x "x' - x"] by (auto simp: x'_def)
  define out where "out = (if Suc r < total then map (TellPonger \<circ> ping) [x..<x'] else [LatchDecrement])"
  have out: "pings_sent out = map ping [x..<x']" "countdowns out = (if r < total \<and> total \<le> Suc r then 1 else 0)"
    using x'(2) at(2,3) by (auto simp: out_def simp del: upt_Suc)
  define p' where "p' = p\<lparr>pp_pinger := g, pp_pongs := tl (pp_pongs p), pp_pings := pp_pings p @ map ping [x..<x']\<rparr>"
  have "pair_at p' x' (Suc r)"
    unfolding pair_at_def p'_def using p g(2) at(5,8) x' n tl by (simp del: upt_Suc)
  moreover have "pair_work p' x' + 1 = pair_work p x"
    using p at(3,5,8) x'(1,3) n by (simp add: pair_work_def p'_def del: upt_Suc)
  moreover have "pair_step api PongMsg p = Inr (p', out)"
    using g(1) out(1) by (simp add: p'_def out_def)
  ultimately show ?thesis
    unfolding pair_fine_def using out x'(1) by (intro exI [of _ p'] exI [of _ out] exI [of _ x'] exI [of _ "Suc r"]) simp
qed

lemma pair_step_fine: "pair_at p x r \<Longrightarrow> pair_allowed d p \<Longrightarrow> pair_fine d p x r"
  using fine_run fine_ping fine_pong by (cases d) auto

definition waiting :: "nat \<Rightarrow> (nat \<Rightarrow> nat) \<Rightarrow> nat" where
  "waiting n R = card {k\<in>{..<n}. R k < total}"

definition sys_at :: "nat \<Rightarrow> ('s, 'm, 'r) pp_sys \<Rightarrow> (nat \<times> 'm pp_out) list \<Rightarrow> (nat \<Rightarrow> nat) \<Rightarrow> (nat \<Rightarrow> nat) \<Rightarrow> bool" where
  "sys_at n s out X R \<longleftrightarrow> length (pp_pairs s) = n \<and> (\<forall>k<n. pair_at (pp_pairs s ! k) (X k) (R k)) \<and>
     (\<forall>k<n. sent_by k out = map ping [0..<X k]) \<and> pp_latch s = waiting n R"

definition sys_work :: "nat \<Rightarrow> ('s, 'm, 'r) pp_sys \<Rightarrow> (nat \<Rightarrow> nat) \<Rightarrow> nat" where
  "sys_work n s X = (\<Sum>k<n. pair_work (pp_pairs s ! k) (X k))"

lemma sys_at_start: "0 < total \<Longrightarrow> sys_at n (pp_start n start) [] (\<lambda>_. 0) (\<lambda>_. 0)"
  using start by (simp add: sys_at_def pp_start_def pair_at_def waiting_def)

lemma sys_work_start: "sys_work n (pp_start n start) X = n * (2 * total + 1)"
  by (simp add: sys_work_def pp_start_def pair_work_def)

lemma latch_after:
  assumes "k < n" "R k \<le> r"
  shows "waiting n R = waiting n (R(k := r)) + (if R k < total \<and> total \<le> r then 1 else 0)"
proof (cases "R k < total \<and> total \<le> r")
  case True
  have "{j\<in>{..<n}. R j < total} = insert k {j\<in>{..<n} - {k}. R j < total}"
    "{j\<in>{..<n}. (R(k := r)) j < total} = {j\<in>{..<n} - {k}. R j < total}"
    using assms(1) True by auto
  then show ?thesis
    using True by (simp add: waiting_def)
next
  case False
  then have "{j\<in>{..<n}. R j < total} = {j\<in>{..<n}. (R(k := r)) j < total}"
    using assms(2) by auto
  then show ?thesis
    using False by (simp add: waiting_def)
qed

lemma sys_step:
  assumes "sys_at n s out X R" "pp_allowed (k, d) s"
  shows "\<exists>s' out' X' R'. pp_deliver api (k, d) s = Inr (s', out') \<and> sys_at n s' (out @ out') X' R' \<and>
    sys_work n s' X' + 1 = sys_work n s X"
proof -
  have k: "k < n" "k < length (pp_pairs s)" "pair_allowed d (pp_pairs s ! k)" "pair_at (pp_pairs s ! k) (X k) (R k)"
    using assms by (auto simp: pp_allowed_def sys_at_def)
  obtain p o1 x r where p: "pair_step api d (pp_pairs s ! k) = Inr (p, o1)" "pair_at p x r"
    "pings_sent o1 = map ping [X k..<x]" "X k \<le> x" "countdowns o1 = (if R k < total \<and> total \<le> r then 1 else 0)"
    "R k \<le> r" "pair_work p x + 1 = pair_work (pp_pairs s ! k) (X k)"
    using pair_step_fine [OF k(4,3)] unfolding pair_fine_def by blast
  define s' where "s' = s\<lparr>pp_pairs := (pp_pairs s)[k := p], pp_latch := pp_latch s - countdowns o1\<rparr>"
  have latch: "pp_latch s = waiting n (R(k := r)) + countdowns o1"
    using assms(1) latch_after [of k n R r, OF k(1) p(6)] p(5) by (simp add: sys_at_def)
  then have "pp_deliver api (k, d) s = Inr (s', map (Pair k) o1)"
    using p(1) by (simp add: pp_deliver_def s'_def)
  moreover have "map ping [0..<X k] @ map ping [X k..<x] = map ping [0..<x]"
    using upt_add_eq_append [of 0 "X k" "x - X k"] p(4) by simp
  then have "sys_at n s' (out @ map (Pair k) o1) (X(k := x)) (R(k := r))"
    using assms(1) p(2,3) latch k(2) by (auto simp: sys_at_def s'_def nth_list_update)
  moreover have "sys_work n s' (X(k := x)) + 1 = sys_work n s X"
  proof -
    have "(\<Sum>j\<in>{..<n} - {k}. pair_work (pp_pairs s' ! j) ((X(k := x)) j)) = (\<Sum>j\<in>{..<n} - {k}. pair_work (pp_pairs s ! j) (X j))"
      by (rule sum.cong) (simp_all add: s'_def)
    then show ?thesis
      using k(1,2) p(7) by (simp add: sys_work_def sum.remove [of "{..<n}" k] s'_def)
  qed
  ultimately show ?thesis
    by blast
qed

lemma sys_run:
  "sys_at n s out X R \<Longrightarrow> all_allowed pp_allowed (pp_deliver api) is s \<Longrightarrow>
    \<exists>s' out' X' R'. run_inputs (pp_deliver api) is s = Inr (s', out') \<and> sys_at n s' (out @ out') X' R' \<and>
      sys_work n s' X' + length is = sys_work n s X"
proof (induction "is" arbitrary: s out X R)
  case Nil
  then show ?case
    by (auto simp: run_inputs_def)
next
  case (Cons i js)
  obtain k d where i: "i = (k, d)"
    by force
  obtain s1 o1 X1 R1 where s1: "pp_deliver api i s = Inr (s1, o1)" "sys_at n s1 (out @ o1) X1 R1"
    "sys_work n s1 X1 + 1 = sys_work n s X"
    using sys_step [OF Cons.prems(1), of k d] Cons.prems(2) unfolding i by (simp only: all_allowed.simps) blast
  obtain s2 o2 X2 R2 where "run_inputs (pp_deliver api) js s1 = Inr (s2, o2)" "sys_at n s2 ((out @ o1) @ o2) X2 R2"
    "sys_work n s2 X2 + length js = sys_work n s1 X1"
    using Cons.IH [OF s1(2)] Cons.prems(2) s1(1) by auto
  then show ?case
    using s1 by (intro exI [of _ s2] exI [of _ "o1 @ o2"] exI [of _ X2] exI [of _ R2]) (simp add: run_inputs_def)
qed

lemma pair_done:
  assumes "0 < width" "0 < total" "pair_at p x r"
  shows "pair_work p x = 0 \<longleftrightarrow> \<not> r < total"
    "pair_work p x = 0 \<longleftrightarrow> \<not> pp_run_pending p \<and> pp_pings p = [] \<and> pp_pongs p = []"
    "\<not> r < total \<Longrightarrow> x = total"
  using assms by (auto simp: pair_at_def pair_work_def split: if_splits)

lemma sys_done:
  assumes "sys_at n s out X R" "0 < width" "0 < total"
  shows "sys_work n s X = 0 \<longleftrightarrow> pp_latch s = 0" "sys_work n s X = 0 \<longleftrightarrow> quiet s"
    "sys_work n s X = 0 \<Longrightarrow> k < n \<Longrightarrow> sent_by k out = map ping [0..<total]"
proof -
  have at: "pair_at (pp_pairs s ! k) (X k) (R k)" if "k < n" for k
    using assms that by (simp add: sys_at_def)
  have w: "sys_work n s X = 0 \<longleftrightarrow> (\<forall>k<n. pair_work (pp_pairs s ! k) (X k) = 0)"
    by (auto simp: sys_work_def)
  show "sys_work n s X = 0 \<longleftrightarrow> pp_latch s = 0"
    using assms(1) w pair_done(1) [OF assms(2,3) at] by (auto simp: sys_at_def waiting_def)
  show "sys_work n s X = 0 \<longleftrightarrow> quiet s"
    using assms(1) w pair_done(2) [OF assms(2,3) at] by (auto simp: sys_at_def quiet_def all_set_conv_all_nth)
  show "sent_by k out = map ping [0..<total]" if "sys_work n s X = 0" "k < n"
    using assms(1) w pair_done(1,3) [OF assms(2,3) at [OF that(2)]] that by (auto simp: sys_at_def)
qed

theorem iteration_ends:
  assumes "0 < width" "0 < total"
  shows "exchanges api start n (map ping [0..<total])"
  unfolding exchanges_def
proof (intro allI impI)
  fix "is"
  assume allowed: "all_allowed pp_allowed (pp_deliver api) is (pp_start n start)"
  obtain s out X R where s: "run_inputs (pp_deliver api) is (pp_start n start) = Inr (s, out)" "sys_at n s out X R"
    "sys_work n s X + length is = n * (2 * total + 1)"
    using sys_run [OF sys_at_start allowed] assms(2) sys_work_start by auto
  then show "length is \<le> n * (2 * length (map ping [0..<total]) + 1) \<and>
    (\<exists>s out. run_inputs (pp_deliver api) is (pp_start n start) = Inr (s, out) \<and>
      (pp_latch s = 0 \<longleftrightarrow> length is = n * (2 * length (map ping [0..<total]) + 1)) \<and>
      (pp_latch s = 0 \<longleftrightarrow> (\<forall>i. \<not> pp_allowed i s)) \<and>
      (pp_latch s = 0 \<longrightarrow> (\<forall>k<n. sent_by k out = map ping [0..<total])))"
    using sys_done [OF s(2) assms] by (auto simp: quiet_iff simp del: split_paired_All)
qed

definition stuck_at :: "nat \<Rightarrow> ('s, 'm, 'r) pp_sys \<Rightarrow> (nat \<times> 'm pp_out) list \<Rightarrow> bool" where
  "stuck_at n s out \<longleftrightarrow> length (pp_pairs s) = n \<and> pp_latch s = n \<and> out = [] \<and>
     (\<forall>p\<in>set (pp_pairs s). pp_pings p = [] \<and> pp_pongs p = [] \<and> (pp_run_pending p \<longrightarrow> reached (pp_pinger p) 0 0))"

theorem iteration_stuck:
  assumes "width = 0 \<or> total = 0"
  shows "never_ends api start n"
proof -
  have "safe_component pp_allowed (pp_deliver api) (stuck_at n)"
  proof
    fix s out i
    assume s: "stuck_at n s out" "pp_allowed i s"
    obtain k d where i: "i = (k, d)"
      by force
    let ?p = "pp_pairs s ! k"
    have k: "k < n" "k < length (pp_pairs s)" "pp_pings ?p = []" "pp_pongs ?p = []" "pair_allowed d ?p"
      using s i by (auto simp: pp_allowed_def stuck_at_def)
    then have d: "d = RunMsg" "pp_run_pending ?p"
      by (cases d; simp)+
    have "reached (pp_pinger ?p) 0 0"
      using s(1) k(2) d(2) by (auto simp: stuck_at_def)
    then obtain g where "pg_run api (pp_pinger ?p) = Inr (g, [])"
      using run [of "pp_pinger ?p"] assms by auto
    then have "pp_deliver api i s = Inr (s\<lparr>pp_pairs := (pp_pairs s)[k := ?p\<lparr>pp_pinger := g, pp_run_pending := False, pp_pings := []\<rparr>]\<rparr>, [])"
      using i d k(3) by (simp add: pp_deliver_def)
    moreover have "stuck_at n (s\<lparr>pp_pairs := (pp_pairs s)[k := ?p\<lparr>pp_pinger := g, pp_run_pending := False, pp_pings := []\<rparr>]\<rparr>) (out @ [])"
      using s(1) k by (auto simp: stuck_at_def dest!: subsetD [OF set_update_subset_insert])
    ultimately show "\<exists>s' out'. pp_deliver api i s = Inr (s', out') \<and> stuck_at n s' (out @ out')"
      by blast
  qed
  moreover have "stuck_at n (pp_start n start) []"
    using start by (simp add: stuck_at_def pp_start_def)
  ultimately show ?thesis
    unfolding never_ends_def using safe_component.run_safe [where inv = "stuck_at n"] by (fastforce simp: stuck_at_def)
qed

end

end
