(* ===== verification/Bench_Messages.thy ===== *)
theory Bench_Messages
  imports Byte_Buffer
begin

text \<open>
  The messages of the ping-pong and throughput benchmarks (\<open>bench/messages.rs\<close>) with their wire formats, and the dispatch of
  a message from the network on its serialiser id.
\<close>

datatype 'p PingerMessage = Run | PongMessage 'p

datatype StaticPing = STATIC_PING

datatype StaticPong = STATIC_PONG

datatype Ping = Ping (ping_index: u64)

datatype Pong = Pong (pong_index: u64)

text \<open>\<open>SizedThroughputMessage\<close>; a Rust slice has fewer than \<open>2\<^sup>6\<^sup>3\<close> bytes, its length is written as a \<open>u32\<close>.\<close>

record SizedThroughputMessage =
  stm_data :: bytes
  stm_aux :: u8

type_synonym ser_id = nat

definition PING_ID :: ser_id where "PING_ID = 50"
definition PONG_ID :: ser_id where "PONG_ID = 51"
definition STATIC_PING_ID :: ser_id where "STATIC_PING_ID = 52"
definition STATIC_PONG_ID :: ser_id where "STATIC_PONG_ID = 53"
definition STP_SINK_ID :: ser_id where "STP_SINK_ID = 64"
definition STP_SOURCE_ID :: ser_id where "STP_SOURCE_ID = 65"
definition STP_MESSAGE_ID :: ser_id where "STP_MESSAGE_ID = 66"

definition serialise_static_ping :: "StaticPing \<Rightarrow> bytes" where
  "serialise_static_ping m = []"

definition deserialise_static_ping :: "StaticPing getter" where
  "deserialise_static_ping = gret STATIC_PING"

definition serialise_static_pong :: "StaticPong \<Rightarrow> bytes" where
  "serialise_static_pong m = []"

definition deserialise_static_pong :: "StaticPong getter" where
  "deserialise_static_pong = gret STATIC_PONG"

definition serialise_ping :: "Ping \<Rightarrow> bytes" where
  "serialise_ping m = put_u64 (ping_index m)"

definition deserialise_ping :: "Ping getter" where
  "deserialise_ping = gbind get_u64 (\<lambda>index. gret (Ping index))"

definition serialise_pong :: "Pong \<Rightarrow> bytes" where
  "serialise_pong m = put_u64 (pong_index m)"

definition deserialise_pong :: "Pong getter" where
  "deserialise_pong = gbind get_u64 (\<lambda>index. gret (Pong index))"

definition stm_size_hint :: "SizedThroughputMessage \<Rightarrow> nat" where
  "stm_size_hint m = length (stm_data m) + 4"

definition serialise_stm :: "SizedThroughputMessage \<Rightarrow> bytes" where
  "serialise_stm m = put_len (stm_data m) @ put_u8 (stm_aux m) @ stm_data m"

definition deserialise_stm :: "SizedThroughputMessage getter" where
  "deserialise_stm = gbind get_u32 (\<lambda>data_len. gbind get_u8 (\<lambda>aux. gbind (get_slice (unat data_len)) (\<lambda>data.
     gret \<lparr>stm_data = data, stm_aux = aux\<rparr>)))"

text \<open>A message from the network: its serialiser id and its bytes. \<open>match_deser!\<close> of one message type: a message of another
  type is the \<open>default\<close> case, which is \<open>unimplemented!()\<close>, and an \<open>Err\<close> of the deserialiser is logged.\<close>

type_synonym wire_message = "ser_id \<times> bytes"

definition match_deser :: "ser_id \<Rightarrow> 'a getter \<Rightarrow> wire_message \<Rightarrow> ('a \<Rightarrow> 'b rust) \<Rightarrow> 'b \<Rightarrow> 'b rust" where
  "match_deser i get = (\<lambda>(j, bs) handle unchanged.
     if j = i then (case get bs of
         Inr (x, rest) \<Rightarrow> handle x
       | Inl e \<Rightarrow> if e \<in> {Underflow, UnexpectedId} then Inl PanicCall else Inr unchanged)
     else Inl PanicCall)"

lemma match_deser_hit [simp]: "get bs = Inr (x, rest) \<Longrightarrow> match_deser i get (i, bs) handle unchanged = handle x"
  by (simp add: match_deser_def)

lemma match_deser_other [simp]: "j \<noteq> i \<Longrightarrow> match_deser i get (j, bs) handle unchanged = Inl PanicCall"
  by (simp add: match_deser_def)

interpretation ping_codec: exact_codec serialise_ping deserialise_ping "\<lambda>_. True"
proof
  show "deserialise_ping (serialise_ping x @ rest) = Inr (x, rest)" for x rest
    by (simp add: serialise_ping_def deserialise_ping_def codec_simps)
  show "frugal deserialise_ping"
    unfolding deserialise_ping_def by (intro frugal_intros)
  show "bs = serialise_ping x @ rest" if "deserialise_ping bs = Inr (x, rest)" for bs x rest
    using that by (auto simp: serialise_ping_def deserialise_ping_def gbind_eq_Inr dest: get_exacts)
qed simp

interpretation pong_codec: exact_codec serialise_pong deserialise_pong "\<lambda>_. True"
proof
  show "deserialise_pong (serialise_pong x @ rest) = Inr (x, rest)" for x rest
    by (simp add: serialise_pong_def deserialise_pong_def codec_simps)
  show "frugal deserialise_pong"
    unfolding deserialise_pong_def by (intro frugal_intros)
  show "bs = serialise_pong x @ rest" if "deserialise_pong bs = Inr (x, rest)" for bs x rest
    using that by (auto simp: serialise_pong_def deserialise_pong_def gbind_eq_Inr dest: get_exacts)
qed simp

interpretation static_ping_codec: exact_codec serialise_static_ping deserialise_static_ping "\<lambda>_. True"
proof
  show "deserialise_static_ping (serialise_static_ping x @ rest) = Inr (x, rest)" for x rest
    by (cases x) (simp add: serialise_static_ping_def deserialise_static_ping_def)
qed (auto simp: serialise_static_ping_def deserialise_static_ping_def frugal_gret)

interpretation static_pong_codec: exact_codec serialise_static_pong deserialise_static_pong "\<lambda>_. True"
proof
  show "deserialise_static_pong (serialise_static_pong x @ rest) = Inr (x, rest)" for x rest
    by (cases x) (simp add: serialise_static_pong_def deserialise_static_pong_def)
qed (auto simp: serialise_static_pong_def deserialise_static_pong_def frugal_gret)

interpretation stm_codec: exact_codec serialise_stm deserialise_stm "\<lambda>m. short (stm_data m)"
proof
  show "deserialise_stm (serialise_stm x @ rest) = Inr (x, rest)" if "short (stm_data x)" for x rest
    using that by (simp add: serialise_stm_def deserialise_stm_def codec_simps put_len_def)
  show "short (stm_data x)" if "deserialise_stm bs = Inr (x, rest)" for bs x rest
    using that by (auto simp: deserialise_stm_def gbind_eq_Inr dest!: get_slice_exact intro: unat_imp_short)
  show "frugal deserialise_stm"
    unfolding deserialise_stm_def by (intro frugal_intros)
  show "bs = serialise_stm x @ rest" if "deserialise_stm bs = Inr (x, rest)" for bs x rest
    using that by (auto simp: serialise_stm_def deserialise_stm_def gbind_eq_Inr put_len_unat dest!: get_exacts)
qed

text \<open>The size announced to the network layer is one byte short: it counts the length field but not \<open>aux\<close>.\<close>

lemma stm_size_hint_short: "length (serialise_stm m) = stm_size_hint m + 1"
  by (simp add: serialise_stm_def stm_size_hint_def put_len_def)

lemmas bench_codec_simps [codec_simps] =
  ping_codec.get_put [of _ "[]", simplified] pong_codec.get_put [of _ "[]", simplified]
  static_ping_codec.get_put [of _ "[]", simplified] static_pong_codec.get_put [of _ "[]", simplified]

end
