(* ===== verification/Pingers.thy ===== *)
theory Pingers
  imports Ping_Pong Bench_Messages
begin

text \<open>
  The pingers and pongers of the Kompact benchmarks: \<open>pingpong.rs\<close> and \<open>netpingpong.rs\<close>, which keep one ping under way, and
  \<open>throughput_pingpong.rs\<close> and \<open>net_throughput_pingpong.rs\<close>, which keep up to \<open>pipeline\<close> of them. The local versions come with
  actors and with ports; the networked ones exchange serialised messages. Every pair of them meets the contract \<open>pinger_contract\<close>.
\<close>

subsection \<open>Pairs with one ping under way\<close>

record Pinger =
  pi_count_down :: u64

definition Pinger_with :: "u64 \<Rightarrow> Pinger" where
  "Pinger_with count = \<lparr>pi_count_down = count\<rparr>"

type_synonym ('s, 'm) pinged = "('s, 'm pp_out) handled"

fun pinger_receive_local :: "StaticPong PingerMessage \<Rightarrow> Pinger \<Rightarrow> (Pinger, StaticPing) pinged" where
  "pinger_receive_local Run s = Inr (s, [TellPonger STATIC_PING])"
| "pinger_receive_local (PongMessage _) s =
    (if pi_count_down s > 0 then Inr (s\<lparr>pi_count_down := pi_count_down s - 1\<rparr>, [TellPonger STATIC_PING])
     else Inr (s, [LatchDecrement]))"

definition ponger_receive_local :: "StaticPing \<Rightarrow> StaticPong list rust" where
  "ponger_receive_local msg = Inr [STATIC_PONG]"

definition actor_pinger :: "(Pinger, StaticPing, StaticPong) pinger_api" where
  "actor_pinger = \<lparr>pg_run = pinger_receive_local Run, pg_pong = (\<lambda>p. pinger_receive_local (PongMessage p)),
     pg_reply = ponger_receive_local, pg_expects = True\<rparr>"

text \<open>The version with ports: the ping goes out when the component starts.\<close>

definition pinger_on_start :: "Pinger \<Rightarrow> (Pinger, StaticPing) pinged" where
  "pinger_on_start s = Inr (s, [TellPonger STATIC_PING])"

definition pinger_handle :: "StaticPong \<Rightarrow> Pinger \<Rightarrow> (Pinger, StaticPing) pinged" where
  "pinger_handle event s =
    (if pi_count_down s > 0 then Inr (s\<lparr>pi_count_down := pi_count_down s - 1\<rparr>, [TellPonger STATIC_PING])
     else Inr (s, [LatchDecrement]))"

definition ponger_handle :: "StaticPing \<Rightarrow> StaticPong list rust" where
  "ponger_handle event = Inr [STATIC_PONG]"

definition component_pinger :: "(Pinger, StaticPing, StaticPong) pinger_api" where
  "component_pinger = \<lparr>pg_run = pinger_on_start, pg_pong = pinger_handle, pg_reply = ponger_handle, pg_expects = True\<rparr>"

text \<open>The networked version counts down first.\<close>

definition tell_serialised :: "ser_id \<Rightarrow> bytes \<Rightarrow> wire_message pp_out" where
  "tell_serialised i bs = TellPonger (i, bs)"

definition net_pinger_run :: "Pinger \<Rightarrow> (Pinger, wire_message) pinged" where
  "net_pinger_run s = Inr (s, [tell_serialised STATIC_PING_ID (serialise_static_ping STATIC_PING)])"

definition net_pinger_receive_network :: "wire_message \<Rightarrow> Pinger \<Rightarrow> (Pinger, wire_message) pinged" where
  "net_pinger_receive_network msg s = match_deser STATIC_PONG_ID deserialise_static_pong msg (\<lambda>pong.
     let s' = s\<lparr>pi_count_down := pi_count_down s - 1\<rparr>
     in if pi_count_down s' > 0
        then Inr (s', [tell_serialised STATIC_PING_ID (serialise_static_ping STATIC_PING)])
        else Inr (s', [LatchDecrement])) (s, [])"

definition net_ponger_receive_network :: "wire_message \<Rightarrow> wire_message list rust" where
  "net_ponger_receive_network msg = match_deser STATIC_PING_ID deserialise_static_ping msg
     (\<lambda>ping. Inr [(STATIC_PONG_ID, serialise_static_pong STATIC_PONG)]) []"

definition net_pinger :: "(Pinger, wire_message, wire_message) pinger_api" where
  "net_pinger = \<lparr>pg_run = net_pinger_run, pg_pong = net_pinger_receive_network, pg_reply = net_ponger_receive_network,
     pg_expects = True\<rparr>"

subsection \<open>Pairs with a pipeline of pings\<close>

record ThroughputPinger =
  tp_count :: u64
  tp_pipeline :: u64
  tp_sent_count :: u64
  tp_recv_count :: u64

definition ThroughputPinger_with :: "u64 \<Rightarrow> u64 \<Rightarrow> ThroughputPinger" where
  "ThroughputPinger_with count pipeline =
     \<lparr>tp_count = count, tp_pipeline = pipeline, tp_sent_count = 0, tp_recv_count = 0\<rparr>"

lemma less_u64_Suc: "(a :: u64) < b \<Longrightarrow> unat (a + 1) = Suc (unat a)"
  by (rule unat_Suc_u64) (use unat_u64_less [of b] in \<open>simp add: word_less_nat_alt del: unat_u64_less\<close>)

text \<open>The \<open>while\<close> loop with which every pinger fills its pipeline; \<open>mk\<close> is the message sent for a \<open>sent_count\<close>.\<close>

function fill_pipeline :: "(u64 \<Rightarrow> 'm) \<Rightarrow> u64 \<Rightarrow> ThroughputPinger \<Rightarrow> ThroughputPinger \<times> 'm pp_out list" where
  "fill_pipeline mk pipelined s =
    (if pipelined < tp_pipeline s \<and> tp_sent_count s < tp_count s
     then let (s', out) = fill_pipeline mk (pipelined + 1) (s\<lparr>tp_sent_count := tp_sent_count s + 1\<rparr>)
          in (s', TellPonger (mk (tp_sent_count s)) # out)
     else (s, []))"
  by auto

termination
  by (relation "measure (\<lambda>(mk, pipelined, s). unat (tp_count s) - unat (tp_sent_count s))")
    (auto simp: less_u64_Suc word_less_nat_alt)

declare fill_pipeline.simps [simp del]

text \<open>The counting of a pong, the same in every pinger but for the message.\<close>

fun static_receive_local :: "StaticPong PingerMessage \<Rightarrow> ThroughputPinger \<Rightarrow> (ThroughputPinger, StaticPing) pinged" where
  "static_receive_local Run s = Inr (fill_pipeline (\<lambda>_. STATIC_PING) 0 s)"
| "static_receive_local (PongMessage _) s =
    (let s = s\<lparr>tp_recv_count := tp_recv_count s + 1\<rparr>
     in if tp_recv_count s < tp_count s then
          if tp_sent_count s < tp_count s
          then Inr (s\<lparr>tp_sent_count := tp_sent_count s + 1\<rparr>, [TellPonger STATIC_PING])
          else Inr (s, [])
        else Inr (s, [LatchDecrement]))"

definition static_ponger_receive_local :: "StaticPing \<Rightarrow> StaticPong list rust" where
  "static_ponger_receive_local msg = Inr [STATIC_PONG]"

definition actor_static_pinger :: "(ThroughputPinger, StaticPing, StaticPong) pinger_api" where
  "actor_static_pinger = \<lparr>pg_run = static_receive_local Run, pg_pong = (\<lambda>p. static_receive_local (PongMessage p)),
     pg_reply = static_ponger_receive_local, pg_expects = True\<rparr>"

fun indexed_receive_local :: "Pong PingerMessage \<Rightarrow> ThroughputPinger \<Rightarrow> (ThroughputPinger, Ping) pinged" where
  "indexed_receive_local Run s = Inr (fill_pipeline Ping 0 s)"
| "indexed_receive_local (PongMessage _) s =
    (let s = s\<lparr>tp_recv_count := tp_recv_count s + 1\<rparr>
     in if tp_recv_count s < tp_count s then
          if tp_sent_count s < tp_count s
          then Inr (s\<lparr>tp_sent_count := tp_sent_count s + 1\<rparr>, [TellPonger (Ping (tp_sent_count s))])
          else Inr (s, [])
        else Inr (s, [LatchDecrement]))"

definition indexed_ponger_receive_local :: "Ping \<Rightarrow> Pong list rust" where
  "indexed_ponger_receive_local msg = Inr [Pong (ping_index msg)]"

definition actor_indexed_pinger :: "(ThroughputPinger, Ping, Pong) pinger_api" where
  "actor_indexed_pinger = \<lparr>pg_run = indexed_receive_local Run, pg_pong = (\<lambda>p. indexed_receive_local (PongMessage p)),
     pg_reply = indexed_ponger_receive_local, pg_expects = True\<rparr>"

text \<open>The versions with ports.\<close>

definition static_on_start :: "ThroughputPinger \<Rightarrow> (ThroughputPinger, StaticPing) pinged" where
  "static_on_start s = Inr (fill_pipeline (\<lambda>_. STATIC_PING) 0 s)"

definition static_handle :: "StaticPong \<Rightarrow> ThroughputPinger \<Rightarrow> (ThroughputPinger, StaticPing) pinged" where
  "static_handle event s =
    (let s = s\<lparr>tp_recv_count := tp_recv_count s + 1\<rparr>
     in if tp_recv_count s < tp_count s then
          if tp_sent_count s < tp_count s
          then Inr (s\<lparr>tp_sent_count := tp_sent_count s + 1\<rparr>, [TellPonger STATIC_PING])
          else Inr (s, [])
        else Inr (s, [LatchDecrement]))"

definition static_ponger_handle :: "StaticPing \<Rightarrow> StaticPong list rust" where
  "static_ponger_handle event = Inr [STATIC_PONG]"

definition component_static_pinger :: "(ThroughputPinger, StaticPing, StaticPong) pinger_api" where
  "component_static_pinger = \<lparr>pg_run = static_on_start, pg_pong = static_handle, pg_reply = static_ponger_handle,
     pg_expects = True\<rparr>"

definition indexed_on_start :: "ThroughputPinger \<Rightarrow> (ThroughputPinger, Ping) pinged" where
  "indexed_on_start s = Inr (fill_pipeline Ping 0 s)"

definition indexed_handle :: "Pong \<Rightarrow> ThroughputPinger \<Rightarrow> (ThroughputPinger, Ping) pinged" where
  "indexed_handle event s =
    (let s = s\<lparr>tp_recv_count := tp_recv_count s + 1\<rparr>
     in if tp_recv_count s < tp_count s then
          if tp_sent_count s < tp_count s
          then Inr (s\<lparr>tp_sent_count := tp_sent_count s + 1\<rparr>, [TellPonger (Ping (tp_sent_count s))])
          else Inr (s, [])
        else Inr (s, [LatchDecrement]))"

definition indexed_ponger_handle :: "Ping \<Rightarrow> Pong list rust" where
  "indexed_ponger_handle event = Inr [Pong (ping_index event)]"

definition component_indexed_pinger :: "(ThroughputPinger, Ping, Pong) pinger_api" where
  "component_indexed_pinger = \<lparr>pg_run = indexed_on_start, pg_pong = indexed_handle, pg_reply = indexed_ponger_handle,
     pg_expects = True\<rparr>"

text \<open>The networked versions.\<close>

definition net_static_run :: "ThroughputPinger \<Rightarrow> (ThroughputPinger, wire_message) pinged" where
  "net_static_run s = Inr (fill_pipeline (\<lambda>_. (STATIC_PING_ID, serialise_static_ping STATIC_PING)) 0 s)"

definition net_static_receive_network :: "wire_message \<Rightarrow> ThroughputPinger \<Rightarrow> (ThroughputPinger, wire_message) pinged" where
  "net_static_receive_network msg s = match_deser STATIC_PONG_ID deserialise_static_pong msg (\<lambda>pong.
     let s = s\<lparr>tp_recv_count := tp_recv_count s + 1\<rparr>
     in if tp_recv_count s < tp_count s then
          if tp_sent_count s < tp_count s
          then Inr (s\<lparr>tp_sent_count := tp_sent_count s + 1\<rparr>,
            [tell_serialised STATIC_PING_ID (serialise_static_ping STATIC_PING)])
          else Inr (s, [])
        else Inr (s, [LatchDecrement])) (s, [])"

definition net_static_ponger_receive_network :: "wire_message \<Rightarrow> wire_message list rust" where
  "net_static_ponger_receive_network msg = match_deser STATIC_PING_ID deserialise_static_ping msg
     (\<lambda>ping. Inr [(STATIC_PONG_ID, serialise_static_pong STATIC_PONG)]) []"

definition net_static_pinger :: "(ThroughputPinger, wire_message, wire_message) pinger_api" where
  "net_static_pinger = \<lparr>pg_run = net_static_run, pg_pong = net_static_receive_network,
     pg_reply = net_static_ponger_receive_network, pg_expects = True\<rparr>"

definition net_indexed_run :: "ThroughputPinger \<Rightarrow> (ThroughputPinger, wire_message) pinged" where
  "net_indexed_run s = Inr (fill_pipeline (\<lambda>i. (PING_ID, serialise_ping (Ping i))) 0 s)"

definition net_indexed_receive_network :: "wire_message \<Rightarrow> ThroughputPinger \<Rightarrow> (ThroughputPinger, wire_message) pinged" where
  "net_indexed_receive_network msg s = match_deser PONG_ID deserialise_pong msg (\<lambda>pong.
     let s = s\<lparr>tp_recv_count := tp_recv_count s + 1\<rparr>
     in if tp_recv_count s < tp_count s then
          if tp_sent_count s < tp_count s
          then Inr (s\<lparr>tp_sent_count := tp_sent_count s + 1\<rparr>,
            [tell_serialised PING_ID (serialise_ping (Ping (tp_sent_count s)))])
          else Inr (s, [])
        else Inr (s, [LatchDecrement])) (s, [])"

definition net_indexed_ponger_receive_network :: "wire_message \<Rightarrow> wire_message list rust" where
  "net_indexed_ponger_receive_network msg = match_deser PING_ID deserialise_ping msg
     (\<lambda>ping. Inr [(PONG_ID, serialise_pong (Pong (ping_index ping)))]) []"

definition net_indexed_pinger :: "(ThroughputPinger, wire_message, wire_message) pinger_api" where
  "net_indexed_pinger = \<lparr>pg_run = net_indexed_run, pg_pong = net_indexed_receive_network,
     pg_reply = net_indexed_ponger_receive_network, pg_expects = True\<rparr>"

subsection \<open>What the pingers have in common\<close>

definition count_pong :: "(u64 \<Rightarrow> 'm) \<Rightarrow> ThroughputPinger \<Rightarrow> ThroughputPinger \<times> 'm pp_out list" where
  "count_pong mk s =
    (if tp_recv_count s + 1 < tp_count s then
       if tp_sent_count s < tp_count s
       then (s\<lparr>tp_recv_count := tp_recv_count s + 1, tp_sent_count := tp_sent_count s + 1\<rparr>, [TellPonger (mk (tp_sent_count s))])
       else (s\<lparr>tp_recv_count := tp_recv_count s + 1\<rparr>, [])
     else (s\<lparr>tp_recv_count := tp_recv_count s + 1\<rparr>, [LatchDecrement]))"

definition tp_reached :: "u64 \<Rightarrow> u64 \<Rightarrow> ThroughputPinger \<Rightarrow> nat \<Rightarrow> nat \<Rightarrow> bool" where
  "tp_reached count pipeline s x r \<longleftrightarrow> s = \<lparr>tp_count = count, tp_pipeline = pipeline, tp_sent_count = word_of_nat x,
     tp_recv_count = word_of_nat r\<rparr> \<and> x \<le> unat count \<and> r \<le> x"

lemma word_of_nat_less_u64: "x \<le> unat (c :: u64) \<Longrightarrow> (word_of_nat x :: u64) < c \<longleftrightarrow> x < unat c"
  using unat_u64_less [of c] by (simp add: word_less_nat_alt unat_of_nat take_bit_eq_mod del: unat_u64_less)

lemma fill_pipeline_sends:
  assumes "tp_reached count pipeline s x 0" "p \<le> unat pipeline"
  shows "\<exists>s'. fill_pipeline mk (word_of_nat p) s =
      (s', map (TellPonger \<circ> mk \<circ> word_of_nat) [x..<min (x + (unat pipeline - p)) (unat count)]) \<and>
    tp_reached count pipeline s' (min (x + (unat pipeline - p)) (unat count)) 0"
  using assms
proof (induction "unat count - x" arbitrary: s x p)
  case 0
  then have "x = unat count"
    by (simp add: tp_reached_def)
  then show ?case
    using 0 by (subst fill_pipeline.simps) (simp add: tp_reached_def)
next
  case (Suc n)
  then have x: "x < unat count" "(word_of_nat x :: u64) < count"
    by (auto simp: tp_reached_def word_of_nat_less_u64)
  have p: "(word_of_nat p :: u64) < pipeline \<longleftrightarrow> p < unat pipeline"
    using Suc.prems(2) by (rule word_of_nat_less_u64)
  show ?case
  proof (cases "p < unat pipeline")
    case True
    have n: "n = unat count - Suc x"
      using Suc.hyps(2) by simp
    define t where "t = s\<lparr>tp_sent_count := tp_sent_count s + 1\<rparr>"
    have "tp_reached count pipeline t (Suc x) 0"
      using Suc.prems(1) x(1) by (simp add: tp_reached_def t_def add.commute)
    then obtain s' where s': "fill_pipeline mk (word_of_nat (Suc p)) t =
        (s', map (TellPonger \<circ> mk \<circ> word_of_nat) [Suc x..<min (Suc x + (unat pipeline - Suc p)) (unat count)])"
      "tp_reached count pipeline s' (min (Suc x + (unat pipeline - Suc p)) (unat count)) 0"
      using Suc.hyps(1) [of "Suc x" t "Suc p"] n True by auto
    have m: "Suc x + (unat pipeline - Suc p) = x + (unat pipeline - p)"
      using True by simp
    note s' = s' [unfolded m]
    have "[x..<min (x + (unat pipeline - p)) (unat count)] = x # [Suc x..<min (x + (unat pipeline - p)) (unat count)]"
      using True x(1) by (intro upt_conv_Cons) simp
    moreover have "fill_pipeline mk (word_of_nat p) s =
        (s', TellPonger (mk (word_of_nat x)) # map (TellPonger \<circ> mk \<circ> word_of_nat) [Suc x..<min (x + (unat pipeline - p)) (unat count)])"
      using Suc.prems(1) x(2) p True s'(1)
      by (subst fill_pipeline.simps) (simp add: tp_reached_def t_def add.commute)
    ultimately show ?thesis
      using s'(2) by simp
  next
    case False
    then show ?thesis
      using Suc.prems x p by (subst fill_pipeline.simps) (auto simp: tp_reached_def)
  qed
qed

lemma count_pong_step:
  assumes "tp_reached count pipeline s x r" "r < x" "x \<le> unat count"
  shows "\<exists>s'. count_pong mk s = (s', if Suc r < unat count then map (TellPonger \<circ> mk \<circ> word_of_nat) [x..<min (Suc x) (unat count)]
      else [LatchDecrement]) \<and> tp_reached count pipeline s' (min (Suc x) (unat count)) (Suc r)"
proof -
  have "(word_of_nat r + 1 :: u64) < count \<longleftrightarrow> Suc r < unat count"
    using word_of_nat_less_u64 [of "Suc r" count] assms by (simp add: add.commute)
  moreover have "(word_of_nat x :: u64) < count \<longleftrightarrow> x < unat count"
    using assms(3) by (rule word_of_nat_less_u64)
  moreover have "min (Suc x) (unat count) = (if x < unat count then Suc x else x)"
    using assms(3) by simp
  ultimately show ?thesis
    using assms by (auto simp: count_pong_def tp_reached_def add.commute)
qed

text \<open>A pinger that keeps a pipeline of \<open>pipeline\<close> messages; its own state may hold more than the counters.\<close>

locale pipelined_pinger =
  fixes api :: "('s, 'm, 'r) pinger_api"
    and start :: 's
    and mk :: "u64 \<Rightarrow> 'm"
    and ans :: "u64 \<Rightarrow> 'r"
    and count :: u64
    and pipeline :: u64
    and started :: "'s \<Rightarrow> bool"
    and counters :: "'s \<Rightarrow> ThroughputPinger"
  assumes starts: "started start" "counters start = ThroughputPinger_with count pipeline"
    and runs: "started s \<Longrightarrow> \<exists>s' out. pg_run api s = Inr (s', out) \<and> started s' \<and> (counters s', out) = fill_pipeline mk 0 (counters s)"
    and pongs: "started s \<Longrightarrow>
      \<exists>s' out. pg_pong api (ans i) s = Inr (s', out) \<and> started s' \<and> (counters s', out) = count_pong mk (counters s)"
    and replies: "pg_reply api (mk i) = Inr [ans i]"
begin

sublocale pipe: pinger_contract api start "\<lambda>k. mk (word_of_nat k)" "\<lambda>k. ans (word_of_nat k)" "unat count" "unat pipeline"
  "\<lambda>s x r. started s \<and> tp_reached count pipeline (counters s) x r"
proof
  show "started start \<and> tp_reached count pipeline (counters start) 0 0"
    using starts by (simp add: tp_reached_def ThroughputPinger_with_def)
  show "\<exists>s'. pg_run api s = Inr (s', map (TellPonger \<circ> (\<lambda>k. mk (word_of_nat k))) [0..<min (unat pipeline) (unat count)]) \<and>
      started s' \<and> tp_reached count pipeline (counters s') (min (unat pipeline) (unat count)) 0"
    if "started s \<and> tp_reached count pipeline (counters s) 0 0" for s
    using that runs [of s] fill_pipeline_sends [of count pipeline "counters s" 0 0 mk] by (auto simp: comp_def)
  show "\<exists>s'. pg_pong api (ans (word_of_nat r)) s = Inr (s', if Suc r < unat count
        then map (TellPonger \<circ> (\<lambda>k. mk (word_of_nat k))) [x..<min (Suc x) (unat count)] else [LatchDecrement]) \<and>
      started s' \<and> tp_reached count pipeline (counters s') (min (Suc x) (unat count)) (Suc r)"
    if "started s \<and> tp_reached count pipeline (counters s) x r" "r < x" "x \<le> unat count" for s x r
    using that pongs [of s "word_of_nat r"] count_pong_step [of count pipeline "counters s" x r mk]
    by (auto simp: comp_def simp del: upt_Suc)
  show "pg_reply api (mk (word_of_nat k)) = Inr [ans (word_of_nat k)]" for k
    by (rule replies)
qed

end

text \<open>A pinger that counts down, with the same ping every time.\<close>

locale counting_pinger =
  fixes api :: "('s, 'm, 'r) pinger_api"
    and start :: 's
    and m :: 'm
    and a :: 'r
    and num :: u64
    and started :: "'s \<Rightarrow> bool"
    and counter :: "'s \<Rightarrow> u64"
  assumes starts: "started start" "counter start = num"
    and runs: "started s \<Longrightarrow> \<exists>s'. pg_run api s = Inr (s', [TellPonger m]) \<and> started s' \<and> counter s' = counter s"
    and pongs: "started s \<Longrightarrow> \<exists>s'. pg_pong api a s = Inr (s', [if counter s = 0 then LatchDecrement else TellPonger m]) \<and>
      started s' \<and> counter s' = (if counter s = 0 then 0 else counter s - 1)"
    and replies: "pg_reply api m = Inr [a]"
begin

definition co_reached :: "'s \<Rightarrow> nat \<Rightarrow> nat \<Rightarrow> bool" where
  "co_reached s x r \<longleftrightarrow> started s \<and> unat (counter s) = unat num - r \<and> (x = 0 \<and> r = 0 \<or> x = min (Suc r) (Suc (unat num)))"

sublocale one: pinger_contract api start "\<lambda>k. m" "\<lambda>k. a" "Suc (unat num)" 1 co_reached
proof
  show "co_reached start 0 0"
    using starts by (simp add: co_reached_def)
  show "\<exists>s'. pg_run api s = Inr (s', map (TellPonger \<circ> (\<lambda>k. m)) [0..<min 1 (Suc (unat num))]) \<and>
      co_reached s' (min 1 (Suc (unat num))) 0" if "co_reached s 0 0" for s
    using that runs [of s] by (auto simp: co_reached_def)
  show "\<exists>s'. pg_pong api a s = Inr (s', if Suc r < Suc (unat num)
        then map (TellPonger \<circ> (\<lambda>k. m)) [x..<min (Suc x) (Suc (unat num))] else [LatchDecrement]) \<and>
      co_reached s' (min (Suc x) (Suc (unat num))) (Suc r)" if "co_reached s x r" "r < x" "x \<le> Suc (unat num)" for s x r
  proof -
    have s: "started s" "unat (counter s) = unat num - r" "x = Suc r"
      using that by (auto simp: co_reached_def)
    have "counter s = 0 \<longleftrightarrow> \<not> r < unat num"
      using s(2) unat_eq_zero [of "counter s"] by auto
    moreover have "counter s \<noteq> 0 \<Longrightarrow> unat (counter s - 1) = unat num - Suc r"
      using s(2) by (simp add: unat_minus_one)
    ultimately show ?thesis
      using pongs [OF s(1)] s by (auto simp: co_reached_def)
  qed
qed (rule replies)

end

interpretation actor_pp: counting_pinger actor_pinger "Pinger_with num" STATIC_PING STATIC_PONG num "\<lambda>_. True" pi_count_down
  for num
  by unfold_locales (auto simp: actor_pinger_def Pinger_with_def ponger_receive_local_def word_neq_0_conv)

interpretation component_pp: counting_pinger component_pinger "Pinger_with num" STATIC_PING STATIC_PONG num "\<lambda>_. True" pi_count_down
  for num
  by unfold_locales
    (auto simp: component_pinger_def Pinger_with_def pinger_on_start_def pinger_handle_def ponger_handle_def word_neq_0_conv)

text \<open>The networked pinger subtracts before it compares, so that with 0 messages it counts through all of \<open>u64\<close>.\<close>

definition net_pings :: "u64 \<Rightarrow> nat" where
  "net_pings num = (if num = 0 then 2 ^ 64 else unat num)"

definition net_reached :: "u64 \<Rightarrow> Pinger \<Rightarrow> nat \<Rightarrow> nat \<Rightarrow> bool" where
  "net_reached num s x r \<longleftrightarrow> pi_count_down s = num - word_of_nat r \<and> (x = 0 \<and> r = 0 \<or> x = min (Suc r) (net_pings num))"

lemma net_pings_last: "Suc r \<le> net_pings num \<Longrightarrow> num - (word_of_nat r + 1) = 0 \<longleftrightarrow> Suc r = net_pings num"
proof -
  assume r: "Suc r \<le> net_pings num"
  have "num - (word_of_nat r + 1) = 0 \<longleftrightarrow> word_of_nat (Suc r) = num"
    by (auto simp: add.commute)
  also have "\<dots> \<longleftrightarrow> Suc r mod 2 ^ 64 = unat num"
    by (simp add: word_unat_eq_iff unat_of_nat take_bit_eq_mod del: of_nat_Suc)
  also have "\<dots> \<longleftrightarrow> Suc r = net_pings num"
    using r unat_u64_less [of num] by (auto simp: net_pings_def unat_eq_zero le_eq_less_or_eq mod_eq_0_iff_dvd dest: dvd_imp_le split: if_splits)
  finally show ?thesis .
qed

interpretation net_pp: pinger_contract net_pinger "Pinger_with num" "\<lambda>k. (STATIC_PING_ID, serialise_static_ping STATIC_PING)"
  "\<lambda>k. (STATIC_PONG_ID, serialise_static_pong STATIC_PONG)" "net_pings num" 1 "net_reached num" for num
proof
  have pos: "0 < net_pings num"
    by (simp add: net_pings_def unat_gt_0 word_neq_0_conv)
  show "net_reached num (Pinger_with num) 0 0"
    by (simp add: net_reached_def Pinger_with_def)
  show "\<exists>s'. pg_run net_pinger s = Inr (s', map (TellPonger \<circ> (\<lambda>k. (STATIC_PING_ID, serialise_static_ping STATIC_PING)))
        [0..<min 1 (net_pings num)]) \<and> net_reached num s' (min 1 (net_pings num)) 0" if "net_reached num s 0 0" for s
    using that pos by (auto simp: net_pinger_def net_pinger_run_def net_reached_def tell_serialised_def min_def Suc_le_eq)
  show "\<exists>s'. pg_pong net_pinger (STATIC_PONG_ID, serialise_static_pong STATIC_PONG) s = Inr (s', if Suc r < net_pings num
        then map (TellPonger \<circ> (\<lambda>k. (STATIC_PING_ID, serialise_static_ping STATIC_PING))) [x..<min (Suc x) (net_pings num)]
        else [LatchDecrement]) \<and> net_reached num s' (min (Suc x) (net_pings num)) (Suc r)"
    if "net_reached num s x r" "r < x" "x \<le> net_pings num" for s x r
  proof -
    have s: "pi_count_down s = num - word_of_nat r" "x = Suc r" "Suc r \<le> net_pings num"
      using that by (auto simp: net_reached_def)
    have "num - word_of_nat r - 1 = 0 \<longleftrightarrow> \<not> Suc r < net_pings num"
      using net_pings_last [OF s(3)] s(3) by (simp add: diff_diff_eq)
    then show ?thesis
      using s by (auto simp: net_pinger_def net_pinger_receive_network_def codec_simps net_reached_def tell_serialised_def
          word_neq_0_conv [symmetric] diff_diff_eq add.commute)
  qed
  show "pg_reply net_pinger (STATIC_PING_ID, serialise_static_ping STATIC_PING) = Inr [(STATIC_PONG_ID, serialise_static_pong STATIC_PONG)]"
    for k :: nat
    by (simp add: net_pinger_def net_ponger_receive_network_def codec_simps)
qed

text \<open>The six throughput pingers.\<close>

lemma ex_pair [simp]: "\<exists>a b. p = (a, b) \<and> (a, b) = p"
  by (cases p) simp

lemmas pipelined_simps = ThroughputPinger_with_def count_pong_def Let_def

interpretation actor_static: pipelined_pinger actor_static_pinger "ThroughputPinger_with count pipeline" "\<lambda>_. STATIC_PING"
  "\<lambda>_. STATIC_PONG" count pipeline "\<lambda>_. True" "\<lambda>s. s" for count pipeline
  by unfold_locales (auto simp: actor_static_pinger_def pipelined_simps static_ponger_receive_local_def split: prod.split)

interpretation actor_indexed: pipelined_pinger actor_indexed_pinger "ThroughputPinger_with count pipeline" Ping
  Pong count pipeline "\<lambda>_. True" "\<lambda>s. s" for count pipeline
  by unfold_locales (auto simp: actor_indexed_pinger_def pipelined_simps indexed_ponger_receive_local_def split: prod.split)

interpretation component_static: pipelined_pinger component_static_pinger "ThroughputPinger_with count pipeline" "\<lambda>_. STATIC_PING"
  "\<lambda>_. STATIC_PONG" count pipeline "\<lambda>_. True" "\<lambda>s. s" for count pipeline
  by unfold_locales (auto simp: component_static_pinger_def pipelined_simps static_on_start_def static_handle_def static_ponger_handle_def split: prod.split)

interpretation component_indexed: pipelined_pinger component_indexed_pinger "ThroughputPinger_with count pipeline" Ping
  Pong count pipeline "\<lambda>_. True" "\<lambda>s. s" for count pipeline
  by unfold_locales (auto simp: component_indexed_pinger_def pipelined_simps indexed_on_start_def indexed_handle_def indexed_ponger_handle_def split: prod.split)

interpretation net_static: pipelined_pinger net_static_pinger "ThroughputPinger_with count pipeline" "\<lambda>_. (STATIC_PING_ID, serialise_static_ping STATIC_PING)"
  "\<lambda>_. (STATIC_PONG_ID, serialise_static_pong STATIC_PONG)" count pipeline "\<lambda>_. True" "\<lambda>s. s" for count pipeline
  by unfold_locales (auto simp: net_static_pinger_def pipelined_simps net_static_run_def net_static_receive_network_def net_static_ponger_receive_network_def tell_serialised_def codec_simps split: prod.split)

interpretation net_indexed: pipelined_pinger net_indexed_pinger "ThroughputPinger_with count pipeline" "\<lambda>i. (PING_ID, serialise_ping (Ping i))"
  "\<lambda>i. (PONG_ID, serialise_pong (Pong i))" count pipeline "\<lambda>_. True" "\<lambda>s. s" for count pipeline
  by unfold_locales (auto simp: net_indexed_pinger_def pipelined_simps net_indexed_run_def net_indexed_receive_network_def net_indexed_ponger_receive_network_def tell_serialised_def codec_simps split: prod.split)

text \<open>An iteration of the ping-pong benchmark, with actors or with ports, sends one ping more than it was asked
  to, and its latch is released when the pong of the last one arrives.\<close>

theorem ping_pong_exchanges:
  "exchanges actor_pinger (Pinger_with num) n (replicate (Suc (unat num)) STATIC_PING) \<and>
   exchanges component_pinger (Pinger_with num) n (replicate (Suc (unat num)) STATIC_PING)"
  using actor_pp.one.iteration_ends [of num n] component_pp.one.iteration_ends [of num n]
  by (simp add: map_replicate_const del: replicate_Suc upt_Suc)

text \<open>The networked ping-pong benchmark sends exactly the pings it was asked to, except for 0, where it sends \<open>2\<^sup>6\<^sup>4\<close>.\<close>

theorem net_ping_pong_exchanges:
  "exchanges net_pinger (Pinger_with num) n (replicate (if num = 0 then 2 ^ 64 else unat num) (STATIC_PING_ID, []))"
proof -
  have "0 < net_pings num"
    by (simp add: net_pings_def unat_gt_0 word_neq_0_conv)
  then show ?thesis
    using net_pp.iteration_ends [of num n]
    by (simp add: map_replicate_const serialise_static_ping_def net_pings_def [symmetric])
qed

text \<open>C35: An iteration of the throughput benchmarks, in each of their six versions, sends \<open>count\<close> pings on every pair, numbered
  in order where they carry an index.\<close>

theorem throughput_exchanges:
  assumes "0 < count" "0 < pipeline"
  shows "exchanges actor_static_pinger (ThroughputPinger_with count pipeline) n (replicate (unat count) STATIC_PING) \<and>
    exchanges actor_indexed_pinger (ThroughputPinger_with count pipeline) n (map (Ping \<circ> word_of_nat) [0..<unat count]) \<and>
    exchanges component_static_pinger (ThroughputPinger_with count pipeline) n (replicate (unat count) STATIC_PING) \<and>
    exchanges component_indexed_pinger (ThroughputPinger_with count pipeline) n (map (Ping \<circ> word_of_nat) [0..<unat count]) \<and>
    exchanges net_static_pinger (ThroughputPinger_with count pipeline) n (replicate (unat count) (STATIC_PING_ID, [])) \<and>
    exchanges net_indexed_pinger (ThroughputPinger_with count pipeline) n
      (map (\<lambda>i. (PING_ID, put_u64 (word_of_nat i))) [0..<unat count])"
  using assms actor_static.pipe.iteration_ends [of pipeline count n] actor_indexed.pipe.iteration_ends [of pipeline count n]
    component_static.pipe.iteration_ends [of pipeline count n] component_indexed.pipe.iteration_ends [of pipeline count n]
    net_static.pipe.iteration_ends [of pipeline count n] net_indexed.pipe.iteration_ends [of pipeline count n]
  by (simp add: map_replicate_const unat_gt_0 word_neq_0_conv comp_def serialise_static_ping_def serialise_ping_def)

theorem throughput_exchanges_witness:
  "exchanges actor_indexed_pinger (ThroughputPinger_with 3 2) 2 [Ping 0, Ping 1, Ping 2] \<and>
   exchanges net_indexed_pinger (ThroughputPinger_with 3 2) 2
     [(PING_ID, put_u64 0), (PING_ID, put_u64 1), (PING_ID, put_u64 2)]"
  using throughput_exchanges [of 3 2 2] by (simp add: upt_rec comp_def)

text \<open>C36: With no messages or an empty pipeline an iteration of a throughput benchmark never ends.\<close>

theorem throughput_hangs:
  assumes "count = 0 \<or> pipeline = 0"
  shows "never_ends actor_static_pinger (ThroughputPinger_with count pipeline) n \<and>
    never_ends actor_indexed_pinger (ThroughputPinger_with count pipeline) n \<and>
    never_ends component_static_pinger (ThroughputPinger_with count pipeline) n \<and>
    never_ends component_indexed_pinger (ThroughputPinger_with count pipeline) n \<and>
    never_ends net_static_pinger (ThroughputPinger_with count pipeline) n \<and>
    never_ends net_indexed_pinger (ThroughputPinger_with count pipeline) n"
  using assms actor_static.pipe.iteration_stuck [of pipeline count n] actor_indexed.pipe.iteration_stuck [of pipeline count n]
    component_static.pipe.iteration_stuck [of pipeline count n] component_indexed.pipe.iteration_stuck [of pipeline count n]
    net_static.pipe.iteration_stuck [of pipeline count n] net_indexed.pipe.iteration_stuck [of pipeline count n]
  by auto

theorem throughput_hangs_witness:
  "never_ends actor_static_pinger (ThroughputPinger_with 5 0) 1 \<and> never_ends net_indexed_pinger (ThroughputPinger_with 5 0) 1"
  using throughput_hangs [of 5 0 1] by simp

end
