(* ===== verification/Ported_Pingers.thy ===== *)
theory Ported_Pingers
  imports Pingers
begin

text \<open>
  The ping-pong and throughput benchmarks on Actix and Riker. Here a ping carries the address of its pinger, and the result of the
  countdown is ignored. An Actix actor learns its address when it is started and unwraps it with every ping.
\<close>

type_synonym actor_address = nat

subsection \<open>Actix\<close>

record ActixPinger =
  ax_count_down :: u64
  ax_self_rec :: "actor_address option"

datatype ActixPing = ActixPing actor_address

datatype ActixPong = ActixPong

definition ActixPinger_with :: "u64 \<Rightarrow> ActixPinger" where
  "ActixPinger_with count = \<lparr>ax_count_down = count, ax_self_rec = None\<rparr>"

definition ax_started :: "actor_address \<Rightarrow> ActixPinger \<Rightarrow> ActixPinger" where
  "ax_started me s = s\<lparr>ax_self_rec := Some me\<rparr>"

definition ax_handle_start :: "ActixPinger \<Rightarrow> (ActixPinger, ActixPing) pinged" where
  "ax_handle_start s = rbind (runwrap (ax_self_rec s)) (\<lambda>self_rec. Inr (s, [TellPonger (ActixPing self_rec)]))"

definition ax_handle_pong :: "ActixPong \<Rightarrow> ActixPinger \<Rightarrow> (ActixPinger, ActixPing) pinged" where
  "ax_handle_pong msg s =
    (if ax_count_down s > 0 then rbind (runwrap (ax_self_rec s)) (\<lambda>self_rec.
       Inr (s\<lparr>ax_count_down := ax_count_down s - 1\<rparr>, [TellPonger (ActixPing self_rec)]))
     else Inr (s, [LatchDecrement]))"

definition ax_ponger_handle :: "ActixPing \<Rightarrow> ActixPong list rust" where
  "ax_ponger_handle msg = Inr [ActixPong]"

definition actix_pinger :: "(ActixPinger, ActixPing, ActixPong) pinger_api" where
  "actix_pinger = \<lparr>pg_run = ax_handle_start, pg_pong = ax_handle_pong, pg_reply = ax_ponger_handle, pg_expects = False\<rparr>"

record ActixThroughputPinger =
  ax_counters :: ThroughputPinger   \<comment> \<open>the fields \<open>count\<close>, \<open>pipeline\<close>, \<open>sent_count\<close> and \<open>recv_count\<close>\<close>
  ax_tp_self_rec :: "actor_address option"

definition ActixThroughputPinger_with :: "u64 \<Rightarrow> u64 \<Rightarrow> ActixThroughputPinger" where
  "ActixThroughputPinger_with count pipeline =
     \<lparr>ax_counters = \<lparr>tp_count = count, tp_pipeline = pipeline, tp_sent_count = 0, tp_recv_count = 0\<rparr>, ax_tp_self_rec = None\<rparr>"

definition ax_tp_started :: "actor_address \<Rightarrow> ActixThroughputPinger \<Rightarrow> ActixThroughputPinger" where
  "ax_tp_started me s = s\<lparr>ax_tp_self_rec := Some me\<rparr>"

text \<open>The \<open>while\<close> loop of the handlers of \<open>Start\<close>; \<open>mk\<close> is the message for a \<open>sent_count\<close> and an address.\<close>

function ax_fill_pipeline ::
  "(u64 \<Rightarrow> actor_address \<Rightarrow> 'm) \<Rightarrow> u64 \<Rightarrow> ActixThroughputPinger \<Rightarrow> (ActixThroughputPinger, 'm) pinged" where
  "ax_fill_pipeline mk pipelined s =
    (let c = ax_counters s
     in if pipelined < tp_pipeline c \<and> tp_sent_count c < tp_count c
        then rbind (runwrap (ax_tp_self_rec s)) (\<lambda>self_rec.
          rbind (ax_fill_pipeline mk (pipelined + 1) (s\<lparr>ax_counters := c\<lparr>tp_sent_count := tp_sent_count c + 1\<rparr>\<rparr>)) (\<lambda>(s', out).
          Inr (s', TellPonger (mk (tp_sent_count c) self_rec) # out)))
        else Inr (s, []))"
  by auto

termination
  by (relation "measure (\<lambda>(mk, pipelined, s). unat (tp_count (ax_counters s)) - unat (tp_sent_count (ax_counters s)))")
    (auto simp: less_u64_Suc word_less_nat_alt)

declare ax_fill_pipeline.simps [simp del]

datatype ActixStaticPing = ActixStaticPing actor_address

datatype ActixStaticPong = ActixStaticPong

datatype ActixIndexedPing = ActixIndexedPing (ax_index: u64) (ax_src: actor_address)

datatype ActixIndexedPong = ActixIndexedPong u64

definition ax_static_start :: "ActixThroughputPinger \<Rightarrow> (ActixThroughputPinger, ActixStaticPing) pinged" where
  "ax_static_start s = ax_fill_pipeline (\<lambda>_. ActixStaticPing) 0 s"

definition ax_static_pong ::
  "ActixStaticPong \<Rightarrow> ActixThroughputPinger \<Rightarrow> (ActixThroughputPinger, ActixStaticPing) pinged" where
  "ax_static_pong msg s =
    (let c = (ax_counters s)\<lparr>tp_recv_count := tp_recv_count (ax_counters s) + 1\<rparr>
     in if tp_recv_count c < tp_count c then
          if tp_sent_count c < tp_count c
          then rbind (runwrap (ax_tp_self_rec s)) (\<lambda>self_rec.
            Inr (s\<lparr>ax_counters := c\<lparr>tp_sent_count := tp_sent_count c + 1\<rparr>\<rparr>, [TellPonger (ActixStaticPing self_rec)]))
          else Inr (s\<lparr>ax_counters := c\<rparr>, [])
        else Inr (s\<lparr>ax_counters := c\<rparr>, [LatchDecrement]))"

definition ax_static_ponger :: "ActixStaticPing \<Rightarrow> ActixStaticPong list rust" where
  "ax_static_ponger msg = Inr [ActixStaticPong]"

definition actix_static_pinger :: "(ActixThroughputPinger, ActixStaticPing, ActixStaticPong) pinger_api" where
  "actix_static_pinger = \<lparr>pg_run = ax_static_start, pg_pong = ax_static_pong, pg_reply = ax_static_ponger,
     pg_expects = False\<rparr>"

definition ax_indexed_start :: "ActixThroughputPinger \<Rightarrow> (ActixThroughputPinger, ActixIndexedPing) pinged" where
  "ax_indexed_start s = ax_fill_pipeline ActixIndexedPing 0 s"

definition ax_indexed_pong ::
  "ActixIndexedPong \<Rightarrow> ActixThroughputPinger \<Rightarrow> (ActixThroughputPinger, ActixIndexedPing) pinged" where
  "ax_indexed_pong msg s =
    (let c = (ax_counters s)\<lparr>tp_recv_count := tp_recv_count (ax_counters s) + 1\<rparr>
     in if tp_recv_count c < tp_count c then
          if tp_sent_count c < tp_count c
          then rbind (runwrap (ax_tp_self_rec s)) (\<lambda>self_rec.
            Inr (s\<lparr>ax_counters := c\<lparr>tp_sent_count := tp_sent_count c + 1\<rparr>\<rparr>,
              [TellPonger (ActixIndexedPing (tp_sent_count c) self_rec)]))
          else Inr (s\<lparr>ax_counters := c\<rparr>, [])
        else Inr (s\<lparr>ax_counters := c\<rparr>, [LatchDecrement]))"

definition ax_indexed_ponger :: "ActixIndexedPing \<Rightarrow> ActixIndexedPong list rust" where
  "ax_indexed_ponger msg = Inr [ActixIndexedPong (ax_index msg)]"

definition actix_indexed_pinger :: "(ActixThroughputPinger, ActixIndexedPing, ActixIndexedPong) pinger_api" where
  "actix_indexed_pinger = \<lparr>pg_run = ax_indexed_start, pg_pong = ax_indexed_pong, pg_reply = ax_indexed_ponger,
     pg_expects = False\<rparr>"

subsection \<open>Riker\<close>

text \<open>Handlers of a Riker actor get their context, from which they read the address \<open>me\<close> of the actor.\<close>

datatype RikerPingerMsg = RikerStart | RikerPong

datatype RikerPing = RikerPing actor_address

definition RikerPinger_with :: "u64 \<Rightarrow> Pinger" where
  "RikerPinger_with count = \<lparr>pi_count_down = count\<rparr>"

fun riker_recv :: "actor_address \<Rightarrow> RikerPingerMsg \<Rightarrow> Pinger \<Rightarrow> (Pinger, RikerPing) pinged" where
  "riker_recv me RikerStart s = Inr (s, [TellPonger (RikerPing me)])"
| "riker_recv me RikerPong s =
    (if pi_count_down s > 0 then Inr (s\<lparr>pi_count_down := pi_count_down s - 1\<rparr>, [TellPonger (RikerPing me)])
     else Inr (s, [LatchDecrement]))"

definition riker_ponger_recv :: "RikerPing \<Rightarrow> RikerPingerMsg list rust" where
  "riker_ponger_recv msg = Inr [RikerPong]"

definition riker_pinger :: "actor_address \<Rightarrow> (Pinger, RikerPing, RikerPingerMsg) pinger_api" where
  "riker_pinger me = \<lparr>pg_run = riker_recv me RikerStart, pg_pong = riker_recv me, pg_reply = riker_ponger_recv,
     pg_expects = False\<rparr>"

datatype RikerStaticPingerMsg = RikerStaticStart | RikerStaticPong

datatype RikerStaticPing = RikerStaticPing actor_address

datatype RikerIndexedPingerMsg = RikerIndexedStart | RikerIndexedPong u64

datatype RikerIndexedPing = RikerIndexedPing (rk_index: u64) (rk_sender: actor_address)

definition RikerThroughputPinger_with :: "u64 \<Rightarrow> u64 \<Rightarrow> ThroughputPinger" where
  "RikerThroughputPinger_with count pipeline =
     \<lparr>tp_count = count, tp_pipeline = pipeline, tp_sent_count = 0, tp_recv_count = 0\<rparr>"

fun riker_static_recv ::
  "actor_address \<Rightarrow> RikerStaticPingerMsg \<Rightarrow> ThroughputPinger \<Rightarrow> (ThroughputPinger, RikerStaticPing) pinged" where
  "riker_static_recv me RikerStaticStart s = Inr (fill_pipeline (\<lambda>_. RikerStaticPing me) 0 s)"
| "riker_static_recv me RikerStaticPong s =
    (let s = s\<lparr>tp_recv_count := tp_recv_count s + 1\<rparr>
     in if tp_recv_count s < tp_count s then
          if tp_sent_count s < tp_count s
          then Inr (s\<lparr>tp_sent_count := tp_sent_count s + 1\<rparr>, [TellPonger (RikerStaticPing me)])
          else Inr (s, [])
        else Inr (s, [LatchDecrement]))"

definition riker_static_ponger_recv :: "RikerStaticPing \<Rightarrow> RikerStaticPingerMsg list rust" where
  "riker_static_ponger_recv msg = Inr [RikerStaticPong]"

definition riker_static_pinger :: "actor_address \<Rightarrow> (ThroughputPinger, RikerStaticPing, RikerStaticPingerMsg) pinger_api" where
  "riker_static_pinger me = \<lparr>pg_run = riker_static_recv me RikerStaticStart, pg_pong = riker_static_recv me,
     pg_reply = riker_static_ponger_recv, pg_expects = False\<rparr>"

fun riker_indexed_recv ::
  "actor_address \<Rightarrow> RikerIndexedPingerMsg \<Rightarrow> ThroughputPinger \<Rightarrow> (ThroughputPinger, RikerIndexedPing) pinged" where
  "riker_indexed_recv me RikerIndexedStart s = Inr (fill_pipeline (\<lambda>i. RikerIndexedPing i me) 0 s)"
| "riker_indexed_recv me (RikerIndexedPong _) s =
    (let s = s\<lparr>tp_recv_count := tp_recv_count s + 1\<rparr>
     in if tp_recv_count s < tp_count s then
          if tp_sent_count s < tp_count s
          then Inr (s\<lparr>tp_sent_count := tp_sent_count s + 1\<rparr>, [TellPonger (RikerIndexedPing (tp_sent_count s) me)])
          else Inr (s, [])
        else Inr (s, [LatchDecrement]))"

definition riker_indexed_ponger_recv :: "RikerIndexedPing \<Rightarrow> RikerIndexedPingerMsg list rust" where
  "riker_indexed_ponger_recv msg = Inr [RikerIndexedPong (rk_index msg)]"

definition riker_indexed_pinger :: "actor_address \<Rightarrow> (ThroughputPinger, RikerIndexedPing, RikerIndexedPingerMsg) pinger_api" where
  "riker_indexed_pinger me = \<lparr>pg_run = riker_indexed_recv me RikerIndexedStart, pg_pong = riker_indexed_recv me,
     pg_reply = riker_indexed_ponger_recv, pg_expects = False\<rparr>"

subsection \<open>The ports meet the same contracts\<close>

lemma ax_fill_pipeline_fill:
  "ax_tp_self_rec s = Some me \<Longrightarrow>
    ax_fill_pipeline mk pipelined s = (let (c, out) = fill_pipeline (\<lambda>i. mk i me) pipelined (ax_counters s)
      in Inr (s\<lparr>ax_counters := c\<rparr>, out))"
proof (induction mk pipelined s rule: ax_fill_pipeline.induct)
  case (1 mk pipelined s)
  show ?case
    using 1 by (subst ax_fill_pipeline.simps, subst fill_pipeline.simps) (auto simp: Let_def split: prod.split)
qed

interpretation actix_pp: counting_pinger actix_pinger "ax_started me (ActixPinger_with num)" "ActixPing me" ActixPong num
  "\<lambda>s. ax_self_rec s = Some me" ax_count_down for me num
  by unfold_locales
    (auto simp: actix_pinger_def ax_started_def ActixPinger_with_def ax_handle_start_def ax_handle_pong_def ax_ponger_handle_def
      word_neq_0_conv)

interpretation riker_pp: counting_pinger "riker_pinger me" "RikerPinger_with num" "RikerPing me" RikerPong num "\<lambda>_. True" pi_count_down
  for me num
  by unfold_locales (auto simp: riker_pinger_def RikerPinger_with_def riker_ponger_recv_def word_neq_0_conv)

interpretation actix_static: pipelined_pinger actix_static_pinger "ax_tp_started me (ActixThroughputPinger_with count pipeline)"
  "\<lambda>_. ActixStaticPing me" "\<lambda>_. ActixStaticPong" count pipeline "\<lambda>s. ax_tp_self_rec s = Some me" ax_counters
  for me count pipeline
  by unfold_locales
    (auto simp: actix_static_pinger_def ax_tp_started_def ActixThroughputPinger_with_def ax_static_start_def ax_static_pong_def
      ax_static_ponger_def ax_fill_pipeline_fill pipelined_simps split: prod.split)

interpretation actix_indexed: pipelined_pinger actix_indexed_pinger "ax_tp_started me (ActixThroughputPinger_with count pipeline)"
  "\<lambda>i. ActixIndexedPing i me" ActixIndexedPong count pipeline "\<lambda>s. ax_tp_self_rec s = Some me" ax_counters
  for me count pipeline
  by unfold_locales
    (auto simp: actix_indexed_pinger_def ax_tp_started_def ActixThroughputPinger_with_def ax_indexed_start_def ax_indexed_pong_def
      ax_indexed_ponger_def ax_fill_pipeline_fill pipelined_simps split: prod.split)

interpretation riker_static: pipelined_pinger "riker_static_pinger me" "RikerThroughputPinger_with count pipeline"
  "\<lambda>_. RikerStaticPing me" "\<lambda>_. RikerStaticPong" count pipeline "\<lambda>_. True" "\<lambda>s. s" for me count pipeline
  by unfold_locales
    (auto simp: riker_static_pinger_def RikerThroughputPinger_with_def riker_static_ponger_recv_def pipelined_simps split: prod.split)

interpretation riker_indexed: pipelined_pinger "riker_indexed_pinger me" "RikerThroughputPinger_with count pipeline"
  "\<lambda>i. RikerIndexedPing i me" RikerIndexedPong count pipeline "\<lambda>_. True" "\<lambda>s. s" for me count pipeline
  by unfold_locales
    (auto simp: riker_indexed_pinger_def RikerThroughputPinger_with_def riker_indexed_ponger_recv_def pipelined_simps split: prod.split)

text \<open>The ports of the ping-pong benchmark to Actix and Riker send as many pings as the original.\<close>

theorem ported_ping_pong_exchanges:
  "exchanges actix_pinger (ax_started me (ActixPinger_with num)) n (replicate (Suc (unat num)) (ActixPing me)) \<and>
   exchanges (riker_pinger me) (RikerPinger_with num) n (replicate (Suc (unat num)) (RikerPing me))"
  using actix_pp.one.iteration_ends [of num me n] riker_pp.one.iteration_ends [of num me n]
  by (simp add: map_replicate_const del: replicate_Suc upt_Suc)

text \<open>The ports of the throughput benchmark to Actix and Riker send \<open>count\<close> pings on every pair, each with the address of
  its own pinger.\<close>

theorem ported_throughput_exchanges:
  assumes "0 < count" "0 < pipeline"
  shows "exchanges actix_static_pinger (ax_tp_started me (ActixThroughputPinger_with count pipeline)) n
      (replicate (unat count) (ActixStaticPing me)) \<and>
    exchanges actix_indexed_pinger (ax_tp_started me (ActixThroughputPinger_with count pipeline)) n
      (map (\<lambda>i. ActixIndexedPing (word_of_nat i) me) [0..<unat count]) \<and>
    exchanges (riker_static_pinger me) (RikerThroughputPinger_with count pipeline) n (replicate (unat count) (RikerStaticPing me)) \<and>
    exchanges (riker_indexed_pinger me) (RikerThroughputPinger_with count pipeline) n
      (map (\<lambda>i. RikerIndexedPing (word_of_nat i) me) [0..<unat count])"
  using assms actix_static.pipe.iteration_ends [of pipeline count me n] actix_indexed.pipe.iteration_ends [of pipeline count me n]
    riker_static.pipe.iteration_ends [of pipeline count me n] riker_indexed.pipe.iteration_ends [of pipeline count me n]
  by (simp add: map_replicate_const unat_gt_0 word_neq_0_conv)

text \<open>An Actix pinger that has not been started panics on its first message.\<close>

lemma actix_needs_start: "ax_handle_start (ActixPinger_with num) = Inl UnwrapNone"
  by (simp add: ax_handle_start_def ActixPinger_with_def)

end
