(* ===== verification/Run_Statistics.thy ===== *)
theory Run_Statistics
  imports Float64
begin

text \<open>
  The statistics of the benchmark runner (\<open>measure\<close> and the trait \<open>Stats\<close> of \<open>shared_rust/src/benchmark_runner.rs\<close>), with the operations on
  \<open>f64\<close> they need: multiplication, division and square root are exact on the units of \<open>Float64\<close> and rounded once, with a flag
  for what was cut off.
\<close>

subsection \<open>More operations on \<open>f64\<close>\<close>

definition round_sticky :: "nat \<Rightarrow> bool \<Rightarrow> nat" where
  "round_sticky n sticky =
    (let k = round_shift n; q = n div 2 ^ k; r = n mod 2 ^ k
     in min (2047 * 2 ^ 52) ((k - 1) * 2 ^ 52 + (if 2 * r > 2 ^ k \<or> 2 * r = 2 ^ k \<and> (sticky \<or> odd q) then q + 1 else q)))"

definition fl_round_sticky :: "bool \<Rightarrow> nat \<Rightarrow> bool \<Rightarrow> f64" where
  "fl_round_sticky neg n sticky = word_of_nat ((if neg then 2 ^ 63 else 0) + round_sticky n sticky)"

definition fl_infinity :: "bool \<Rightarrow> f64" where
  "fl_infinity neg = word_of_nat ((if neg then 2 ^ 63 else 0) + 2047 * 2 ^ 52)"

definition fl_zero :: "bool \<Rightarrow> f64" where
  "fl_zero neg = (if neg then 2 ^ 63 else 0)"

definition f64_sub :: "f64 \<Rightarrow> f64 \<Rightarrow> f64" where
  "f64_sub a b = f64_add a (if fl_nan b then b else b + 2 ^ 63)"

definition f64_mul :: "f64 \<Rightarrow> f64 \<Rightarrow> f64" where
  "f64_mul a b =
    (let neg = fl_neg a \<noteq> fl_neg b; n = fl_mag a * fl_mag b
     in if fl_nan a \<or> fl_nan b then f64_nan
        else if fl_finite a \<and> fl_finite b then fl_round_sticky neg (n div f64_one) (n mod f64_one \<noteq> 0)
        else if fl_finite a \<and> fl_mag a = 0 \<or> fl_finite b \<and> fl_mag b = 0 then f64_nan
        else fl_infinity neg)"

definition f64_div :: "f64 \<Rightarrow> f64 \<Rightarrow> f64" where
  "f64_div a b =
    (let neg = fl_neg a \<noteq> fl_neg b; n = fl_mag a * f64_one
     in if fl_nan a \<or> fl_nan b then f64_nan
        else if \<not> fl_finite a then (if fl_finite b then fl_infinity neg else f64_nan)
        else if \<not> fl_finite b then fl_zero neg
        else if fl_mag b = 0 then (if fl_mag a = 0 then f64_nan else fl_infinity neg)
        else fl_round_sticky neg (n div fl_mag b) (n mod fl_mag b \<noteq> 0))"

fun isqrt :: "nat \<Rightarrow> nat" where
  "isqrt n = (if n = 0 then 0 else let r = 2 * isqrt (n div 4) in if (r + 1) * (r + 1) \<le> n then r + 1 else r)"

declare isqrt.simps [simp del]

definition f64_sqrt :: "f64 \<Rightarrow> f64" where
  "f64_sqrt a =
    (let n = fl_mag a * f64_one
     in if fl_nan a then f64_nan
        else if fl_finite a \<and> fl_mag a = 0 then a
        else if fl_neg a then f64_nan
        else if fl_finite a then fl_round_sticky False (isqrt n) (isqrt n * isqrt n \<noteq> n)
        else a)"

text \<open>The order of numbers that are not NaN is the order of their bits as sign and magnitude.\<close>

definition fl_key :: "f64 \<Rightarrow> int" where
  "fl_key a = (if fl_neg a then - int (unat a mod 2 ^ 63) else int (unat a mod 2 ^ 63))"

definition f64_gt :: "f64 \<Rightarrow> f64 \<Rightarrow> bool" where
  "f64_gt a b \<longleftrightarrow> \<not> fl_nan a \<and> \<not> fl_nan b \<and> fl_key a > fl_key b"

definition f64_of_u64 :: "u64 \<Rightarrow> f64" where
  "f64_of_u64 x = fl_round False (unat x * f64_one)"

lemma isqrt_correct: "isqrt n * isqrt n \<le> n \<and> n < (isqrt n + 1) * (isqrt n + 1)"
proof (induction n rule: isqrt.induct)
  case (1 n)
  show ?case
  proof (cases "n = 0")
    case False
    define r where "r = isqrt (n div 4)"
    have "r * r \<le> n div 4" "n div 4 < (r + 1) * (r + 1)"
      using 1 [OF False] by (simp_all add: r_def)
    then have "4 * (r * r) \<le> n" "n < 4 * ((r + 1) * (r + 1))"
      by linarith+
    then have "(2 * r) * (2 * r) \<le> n" "n < (2 * r + 2) * (2 * r + 2)"
      by (simp_all add: algebra_simps)
    moreover have "isqrt n = (if (2 * r + 1) * (2 * r + 1) \<le> n then 2 * r + 1 else 2 * r)"
      using False by (subst isqrt.simps) (simp add: r_def Let_def)
    ultimately show ?thesis
      by (auto simp: algebra_simps)
  qed (simp add: isqrt.simps)
qed

lemma isqrt_square: "isqrt (n * n) = n"
proof (rule antisym)
  have "isqrt (n * n) * isqrt (n * n) \<le> n * n" "n * n < (isqrt (n * n) + 1) * (isqrt (n * n) + 1)"
    using isqrt_correct [of "n * n"] by simp_all
  then show "isqrt (n * n) \<le> n" "n \<le> isqrt (n * n)"
    using mult_strict_mono' [of n "isqrt (n * n)" n "isqrt (n * n)"]
      mult_mono [of "isqrt (n * n) + 1" n "isqrt (n * n) + 1" n]
    by (meson not_le order.strict_trans2 zero_le, metis Suc_eq_plus1 leD not_less_eq_eq zero_le)
qed

subsection \<open>\<open>measure\<close> and \<open>Stats\<close>\<close>

text \<open>\<open>NS_TO_MS = 1.0 / (1000.0 * 1000.0)\<close>; the clock is read before and after the run.\<close>

definition NS_TO_MS :: f64 where
  "NS_TO_MS = f64_div (f64_of_u64 1) (f64_mul (f64_of_u64 1000) (f64_of_u64 1000))"

definition measure_ms :: "u64 \<times> u64 \<Rightarrow> f64" where
  "measure_ms = (\<lambda>(start, end). f64_mul (f64_of_u64 (end - start)) NS_TO_MS)"

definition sample_size :: "f64 list \<Rightarrow> f64" where
  "sample_size l = f64_of_u64 (word_of_nat (length l))"

definition sample_sum :: "f64 list \<Rightarrow> f64" where
  "sample_sum l = fold (\<lambda>v acc. f64_add acc v) l 0"

definition sample_mean :: "f64 list \<Rightarrow> f64" where
  "sample_mean l = f64_div (sample_sum l) (sample_size l)"

definition sample_variance :: "f64 list \<Rightarrow> f64" where
  "sample_variance l =
    (let mean = sample_mean l;
         sum = fold (\<lambda>sample acc. let err = f64_sub sample mean in f64_add acc (f64_mul err err)) l 0
     in f64_div sum (f64_sub (sample_size l) (f64_of_u64 1)))"

definition sample_standard_deviation :: "f64 list \<Rightarrow> f64" where
  "sample_standard_deviation l = f64_sqrt (sample_variance l)"

definition standard_error_mean :: "f64 list \<Rightarrow> f64" where
  "standard_error_mean l = f64_div (sample_standard_deviation l) (f64_sqrt (sample_size l))"

definition relative_error_mean :: "f64 list \<Rightarrow> f64" where
  "relative_error_mean l = f64_div (standard_error_mean l) (sample_mean l)"

definition rse :: "f64 list \<Rightarrow> f64" where
  "rse l = relative_error_mean l"

text \<open>\<open>RSE_TARGET = 0.1\<close>, the number nearest to one tenth.\<close>

definition RSE_TARGET :: f64 where
  "RSE_TARGET = 0x3fb999999999999a"

lemma f64_zero_parts [simp]:
  "fl_finite 0" "\<not> fl_nan 0" "\<not> fl_neg 0" "fl_mag 0 = 0" "fl_units 0 = 0"
  by (simp_all add: fl_finite_def fl_nan_def fl_neg_def fl_mag_def fl_units_def bits_mag_def)

lemma f64_add_zero [simp]: "f64_add 0 0 = 0"
  by (simp add: f64_add_def)

lemma round_sticky_zero [simp]: "round_sticky 0 False = 0"
  by (simp add: round_sticky_def round_shift_def floorlog_def Let_def)

lemma round_bits_zero [simp]: "round_bits 0 = 0"
  by (simp add: round_bits_def round_shift_def floorlog_def round_half_even_def Let_def)

lemma f64_of_u64_parts: "fl_finite (f64_of_u64 x) \<and> \<not> fl_neg (f64_of_u64 x) \<and>
    fl_mag (f64_of_u64 x) = round_half_even (unat x * f64_one) (round_shift (unat x * f64_one)) * 2 ^ round_shift (unat x * f64_one)"
proof -
  have "unat x * f64_one < 2 ^ 64 * 2 ^ 1075"
    using unat_u64_less [of x] unfolding f64_one_def by (intro mult_strict_right_mono) simp_all
  also have "\<dots> \<le> (2::nat) ^ 2098"
    by (simp flip: power_add)
  finally show ?thesis
    using fl_round_parts [of "unat x * f64_one" False] by (simp add: f64_of_u64_def)
qed

end
