(* ===== verification/Benchmark_Runner.thy ===== *)
theory Benchmark_Runner
  imports Run_Statistics
begin

text \<open>
  The local benchmark runner (\<open>shared_rust/src/benchmark_runner.rs\<close> and the local half of \<open>benchmark.rs\<close>): it sets an instance up, repeats prepare, run
  and clean up until the relative error of the run times is small enough, and returns the run times. The instance is a parameter,
  the two clock readings of every measurement are another.
\<close>

datatype NotImplementedError = FutureWork | NotImplementable | NotFound

text \<open>The texts of errors are represented by what they are made of.\<close>

datatype BenchmarkError =
    RSETargetNotMet f64 nat
  | PanicError
  | InvalidMessage string
  | RPCError
  | InvalidTest InvalidTestReason
  | NotImplementedErr NotImplementedError
  | InvalidDeployment string
  and InvalidTestReason = LocalTest string | ClientError BenchmarkError

definition MIN_RUNS :: nat where "MIN_RUNS = 30"
definition MAX_RUNS :: nat where "MAX_RUNS = 100"

record ('m, 'c, 's) Benchmark =
  bench_msg_to_conf :: "'m \<Rightarrow> BenchmarkError + 'c"
  bench_new_instance :: 's
  bench_setup :: "'c \<Rightarrow> 's \<Rightarrow> 's rust"
  bench_prepare_iteration :: "'s \<Rightarrow> 's rust"
  bench_run_iteration :: "'s \<Rightarrow> 's rust"
  bench_cleanup_iteration :: "bool \<Rightarrow> f64 \<Rightarrow> 's \<Rightarrow> 's rust"

record 's bench_run =
  br_bi :: 's
  br_results :: "f64 list"
  br_n_runs :: nat

type_synonym clock = "nat \<Rightarrow> u64 \<times> u64"   \<comment> \<open>the readings of the n-th measurement\<close>

definition last_result :: "f64 list \<Rightarrow> f64 rust" where
  "last_result results = (if results = [] then Inl UnwrapNone else Inr (last results))"

definition noisy :: "f64 list \<Rightarrow> bool" where
  "noisy results \<longleftrightarrow> f64_gt (rse results) RSE_TARGET"

definition run_measured :: "('m, 'c, 's) Benchmark \<Rightarrow> clock \<Rightarrow> 's bench_run \<Rightarrow> 's bench_run rust" where
  "run_measured b clock r =
    rbind (bench_prepare_iteration b (br_bi r)) (\<lambda>bi.
    rbind (bench_run_iteration b bi) (\<lambda>bi.
    Inr \<lparr>br_bi = bi, br_results = br_results r @ [measure_ms (clock (length (br_results r)))], br_n_runs = br_n_runs r + 1\<rparr>))"

definition run_again :: "('m, 'c, 's) Benchmark \<Rightarrow> clock \<Rightarrow> 's bench_run \<Rightarrow> 's bench_run rust" where
  "run_again b clock r =
    rbind (last_result (br_results r)) (\<lambda>t.
    rbind (bench_cleanup_iteration b False t (br_bi r)) (\<lambda>bi.
    run_measured b clock (r\<lparr>br_bi := bi\<rparr>)))"

lemma rbind_cong [fundef_cong]:
  "m = m' \<Longrightarrow> (\<And>x. m' = Inr x \<Longrightarrow> f x = g x) \<Longrightarrow> rbind m f = rbind m' g"
  by (cases m') simp_all

lemma run_again_counts: "run_again b clock r = Inr r' \<Longrightarrow> br_n_runs r' = br_n_runs r + 1"
  by (auto simp: run_again_def run_measured_def panic_simps)

text \<open>The two \<open>while\<close> loops of \<open>run\<close>.\<close>

function run_min :: "('m, 'c, 's) Benchmark \<Rightarrow> clock \<Rightarrow> 's bench_run \<Rightarrow> 's bench_run rust" where
  "run_min b clock r =
    (if br_n_runs r < MIN_RUNS then rbind (run_again b clock r) (run_min b clock) else Inr r)"
  by auto

termination
  by (relation "Wellfounded.measure (\<lambda>(b, clock, r). MIN_RUNS - br_n_runs r)") (auto dest: run_again_counts)

function run_precise :: "('m, 'c, 's) Benchmark \<Rightarrow> clock \<Rightarrow> 's bench_run \<Rightarrow> 's bench_run rust" where
  "run_precise b clock r =
    (if br_n_runs r < MAX_RUNS \<and> noisy (br_results r) then rbind (run_again b clock r) (run_precise b clock) else Inr r)"
  by auto

termination
  by (relation "Wellfounded.measure (\<lambda>(b, clock, r). MAX_RUNS - br_n_runs r)") (auto dest: run_again_counts)

declare run_min.simps [simp del] run_precise.simps [simp del]

definition run_benchmark :: "('m, 'c, 's) Benchmark \<Rightarrow> clock \<Rightarrow> 'c \<Rightarrow> ('s \<times> (BenchmarkError + f64 list)) rust" where
  "run_benchmark b clock c =
    rbind (bench_setup b c (bench_new_instance b)) (\<lambda>bi.
    rbind (run_measured b clock \<lparr>br_bi = bi, br_results = [], br_n_runs = 0\<rparr>) (\<lambda>r.
    rbind (run_min b clock r) (\<lambda>r.
    rbind (run_precise b clock r) (\<lambda>r.
    rbind (last_result (br_results r)) (\<lambda>t.
    rbind (bench_cleanup_iteration b True t (br_bi r)) (\<lambda>bi.
    Inr (bi, if f64_gt (rse (br_results r)) RSE_TARGET then Inl (RSETargetNotMet (rse (br_results r)) (br_n_runs r))
             else Inr (br_results r))))))))"

text \<open>\<open>BenchmarkObject::run\<close>, \<open>run_async\<close>, which turns a panic into an error, and the message made of a result.\<close>

definition benchmark_object_run :: "('m, 'c, 's) Benchmark \<Rightarrow> clock \<Rightarrow> 'm \<Rightarrow> (BenchmarkError + f64 list) rust" where
  "benchmark_object_run b clock msg =
    (case bench_msg_to_conf b msg of
       Inl e \<Rightarrow> Inr (Inl e)
     | Inr conf \<Rightarrow> rbind (run_benchmark b clock conf) (\<lambda>(bi, res). Inr res))"

datatype TestResult =
    TestSuccess u32 "f64 list"
  | TestFailure BenchmarkError   \<comment> \<open>its text\<close>
  | TestNotImplemented

definition test_result :: "BenchmarkError + f64 list \<Rightarrow> TestResult" where
  "test_result res = (case res of Inr data \<Rightarrow> TestSuccess (word_of_nat (length data)) data | Inl e \<Rightarrow> TestFailure e)"

definition not_implemented :: TestResult where
  "not_implemented = TestNotImplemented"

definition run_async :: "TestResult rust \<Rightarrow> BenchmarkError + TestResult" where
  "run_async f = (case f of Inr tm \<Rightarrow> Inr tm | Inl p \<Rightarrow> Inl PanicError)"

subsection \<open>What a run does\<close>

datatype 'c bench_call = CallSetup 'c | CallPrepare | CallRun | CallCleanup bool f64

fun perform :: "('m, 'c, 's) Benchmark \<Rightarrow> 'c bench_call \<Rightarrow> 's \<Rightarrow> 's rust" where
  "perform b (CallSetup c) s = bench_setup b c s"
| "perform b CallPrepare s = bench_prepare_iteration b s"
| "perform b CallRun s = bench_run_iteration b s"
| "perform b (CallCleanup final t) s = bench_cleanup_iteration b final t s"

fun performs :: "('m, 'c, 's) Benchmark \<Rightarrow> 'c bench_call list \<Rightarrow> 's \<Rightarrow> 's rust" where
  "performs b [] s = Inr s"
| "performs b (c # cs) s = rbind (perform b c s) (performs b cs)"

definition run_times :: "clock \<Rightarrow> nat \<Rightarrow> f64 list" where
  "run_times clock n = map (\<lambda>i. measure_ms (clock i)) [0..<n]"

text \<open>The number of runs: the first from \<open>MIN_RUNS\<close> on whose times are precise enough, \<open>MAX_RUNS\<close> at the latest.\<close>

definition runs_needed :: "clock \<Rightarrow> nat" where
  "runs_needed clock = hd (filter (\<lambda>n. n = MAX_RUNS \<or> \<not> noisy (run_times clock n)) [MIN_RUNS..<Suc MAX_RUNS])"

text \<open>The calls of a run whose times are \<open>ts\<close>: every iteration is prepared, run and cleaned up, and only the last one as the last.\<close>

definition iteration_calls :: "bool \<Rightarrow> f64 \<Rightarrow> 'c bench_call list" where
  "iteration_calls final t = [CallPrepare, CallRun, CallCleanup final t]"

definition bench_calls :: "'c \<Rightarrow> f64 list \<Rightarrow> 'c bench_call list" where
  "bench_calls c ts = CallSetup c # concat (map (iteration_calls False) (butlast ts)) @ iteration_calls True (last ts)"

lemma rbind_assoc: "rbind (rbind m f) g = rbind m (\<lambda>x. rbind (f x) g)"
  by (cases m) simp_all

lemma performs_append: "performs b (xs @ ys) s = rbind (performs b xs s) (performs b ys)"
proof (induction xs arbitrary: s)
  case (Cons c xs)
  then have "performs b (xs @ ys) = (\<lambda>s. rbind (performs b xs s) (performs b ys))"
    by (intro ext)
  then show ?case
    by (simp add: rbind_assoc)
qed simp

lemma run_times_simps [simp]: "length (run_times clock n) = n" "run_times clock 0 = []"
  "run_times clock (Suc n) = run_times clock n @ [measure_ms (clock n)]"
  by (simp_all add: run_times_def)

definition stop_candidates :: "clock \<Rightarrow> nat list" where
  "stop_candidates clock = filter (\<lambda>n. n = MAX_RUNS \<or> \<not> noisy (run_times clock n)) [MIN_RUNS..<Suc MAX_RUNS]"

lemma runs_needed_candidate: "runs_needed clock = hd (stop_candidates clock)" "runs_needed clock \<in> set (stop_candidates clock)"
proof -
  have "MIN_RUNS \<le> MAX_RUNS"
    by (simp add: MIN_RUNS_def MAX_RUNS_def)
  then have "MAX_RUNS \<in> set (stop_candidates clock)"
    by (simp add: stop_candidates_def del: upt_Suc)
  then have "stop_candidates clock \<noteq> []"
    by auto
  then have "hd (stop_candidates clock) \<in> set (stop_candidates clock)"
    by (rule hd_in_set)
  moreover show "runs_needed clock = hd (stop_candidates clock)"
    unfolding runs_needed_def stop_candidates_def by (rule refl)
  ultimately show "runs_needed clock \<in> set (stop_candidates clock)"
    by simp
qed

lemma runs_needed_bounds: "MIN_RUNS \<le> runs_needed clock" "runs_needed clock \<le> MAX_RUNS"
  and runs_needed_stop: "runs_needed clock = MAX_RUNS \<or> \<not> noisy (run_times clock (runs_needed clock))"
  using runs_needed_candidate(2) [of clock]
  by (simp_all only: stop_candidates_def set_filter mem_Collect_eq set_upt atLeastLessThan_iff less_Suc_eq_le simp_thms)

lemma filter_hd_first:
  assumes "n = hd (filter P [a..<b])" "n \<in> set (filter P [a..<b])" "a \<le> i" "i < n"
  shows "\<not> P i"
proof
  assume "P i"
  then have "i \<in> set (filter P [a..<b])"
    using assms(2-4) \<open>P i\<close> by auto
  moreover have "sorted (filter P [a..<b])"
    by (simp add: sorted_wrt_filter)
  ultimately have "n \<le> i"
    using assms(1,2) by (cases "filter P [a..<b]") auto
  then show False
    using assms(4) by simp
qed

lemma runs_needed_first:
  assumes "MIN_RUNS \<le> n" "n < runs_needed clock"
  shows "noisy (run_times clock n)" "n < MAX_RUNS"
proof -
  show "noisy (run_times clock n)"
    using filter_hd_first [OF runs_needed_candidate [unfolded stop_candidates_def] assms] by blast
  show "n < MAX_RUNS"
    using assms(2) runs_needed_bounds(2) [of clock] by simp
qed

text \<open>The state of the loops after \<open>n\<close> runs.\<close>

definition after_runs :: "clock \<Rightarrow> nat \<Rightarrow> 's \<Rightarrow> 's bench_run" where
  "after_runs clock n bi = \<lparr>br_bi = bi, br_results = run_times clock n, br_n_runs = n\<rparr>"

definition next_calls :: "clock \<Rightarrow> nat \<Rightarrow> 'c bench_call list" where
  "next_calls clock n = [CallCleanup False (measure_ms (clock (n - 1))), CallPrepare, CallRun]"

lemma run_again_calls:
  "0 < n \<Longrightarrow> run_again b clock (after_runs clock n bi) =
    rbind (performs b (next_calls clock n) bi) (\<lambda>bi. Inr (after_runs clock (Suc n) bi))"
  by (cases n) (auto simp: run_again_def run_measured_def after_runs_def last_result_def next_calls_def rbind_def split: sum.splits)

lemma run_min_calls:
  assumes "0 < n" "n \<le> MIN_RUNS"
  shows "run_min b clock (after_runs clock n bi) =
    rbind (performs b (concat (map (next_calls clock) [n..<MIN_RUNS])) bi) (\<lambda>bi. Inr (after_runs clock MIN_RUNS bi))"
  using assms
proof (induction "MIN_RUNS - n" arbitrary: n bi)
  case 0
  then show ?case
    by (subst run_min.simps) (simp add: after_runs_def)
next
  case (Suc k)
  have step: "n < MIN_RUNS" "k = MIN_RUNS - Suc n"
    using Suc.hyps(2) by simp_all
  have "[n..<MIN_RUNS] = n # [Suc n..<MIN_RUNS]"
    using step(1) by (rule upt_conv_Cons)
  moreover have "run_min b clock (after_runs clock n bi) =
      rbind (performs b (next_calls clock n) bi) (\<lambda>bi. run_min b clock (after_runs clock (Suc n) bi))"
    using step(1) Suc.prems(1) by (subst run_min.simps) (simp add: run_again_calls rbind_assoc, simp add: after_runs_def)
  ultimately show ?case
    using Suc.hyps(1) [of "Suc n"] step by (simp add: performs_append rbind_assoc)
qed

lemma run_precise_calls:
  assumes "MIN_RUNS \<le> n" "n \<le> runs_needed clock"
  shows "run_precise b clock (after_runs clock n bi) =
    rbind (performs b (concat (map (next_calls clock) [n..<runs_needed clock])) bi)
      (\<lambda>bi. Inr (after_runs clock (runs_needed clock) bi))"
  using assms
proof (induction "runs_needed clock - n" arbitrary: n bi)
  case 0
  then have "n = runs_needed clock"
    by simp
  then show ?case
    using runs_needed_stop [of clock] by (subst run_precise.simps) (auto simp: after_runs_def)
next
  case (Suc k)
  have step: "n < runs_needed clock" "k = runs_needed clock - Suc n" "0 < n"
    using Suc.hyps(2) Suc.prems(1) by (simp_all add: MIN_RUNS_def)
  have "[n..<runs_needed clock] = n # [Suc n..<runs_needed clock]"
    using step(1) by (rule upt_conv_Cons)
  moreover have "run_precise b clock (after_runs clock n bi) =
      rbind (performs b (next_calls clock n) bi) (\<lambda>bi. run_precise b clock (after_runs clock (Suc n) bi))"
    using runs_needed_first [OF Suc.prems(1) step(1)] step(3)
    by (subst run_precise.simps) (simp add: run_again_calls rbind_assoc, simp add: after_runs_def)
  ultimately show ?case
    using Suc.hyps(1) [of "Suc n"] step Suc.prems(1) by (simp add: performs_append rbind_assoc)
qed

lemma regroup_calls:
  "0 < n \<Longrightarrow> [CallPrepare, CallRun] @ concat (map (next_calls clock) [1..<n]) @ [CallCleanup False (measure_ms (clock (n - 1)))] =
    concat (map (iteration_calls False) (run_times clock n))"
proof (induction n rule: nat_induct_non_zero)
  case (Suc n)
  have "[1..<Suc n] = [1..<n] @ [n]"
    using Suc.hyps by simp
  then show ?case
    using Suc.IH by (simp add: iteration_calls_def next_calls_def del: upt_Suc)
qed (simp add: iteration_calls_def)

lemma regroup_calls_final:
  "0 < n \<Longrightarrow> [CallPrepare, CallRun] @ concat (map (next_calls clock) [1..<n]) @ [CallCleanup True (measure_ms (clock (n - 1)))] =
    concat (map (iteration_calls False) (butlast (run_times clock n))) @ iteration_calls True (last (run_times clock n))"
  using regroup_calls [of n clock] by (cases n) (auto simp: iteration_calls_def simp del: upt_Suc)

lemma all_calls:
  assumes "0 < m" "m \<le> n"
  shows "CallSetup c # [CallPrepare, CallRun] @ concat (map (next_calls clock) [1..<m]) @ concat (map (next_calls clock) [m..<n]) @
    [CallCleanup True (measure_ms (clock (n - 1)))] = bench_calls c (run_times clock n)"
proof -
  have "[1..<n] = [1..<m] @ [m..<n]"
    using upt_add_eq_append [of 1 m "n - m"] assms by simp
  then show ?thesis
    using regroup_calls_final [of n clock] assms by (simp add: bench_calls_def)
qed

text \<open>What the runner makes of the run times.\<close>

definition verdict :: "clock \<Rightarrow> BenchmarkError + f64 list" where
  "verdict clock = (let ts = run_times clock (runs_needed clock)
     in if noisy ts then Inl (RSETargetNotMet (rse ts) MAX_RUNS) else Inr ts)"

lemma run_benchmark_protocol:
  "run_benchmark b clock c = rbind (performs b (bench_calls c (run_times clock (runs_needed clock))) (bench_new_instance b))
     (\<lambda>bi. Inr (bi, verdict clock))"
proof -
  let ?n = "runs_needed clock"
  have n: "0 < MIN_RUNS" "MIN_RUNS \<le> ?n" "0 < ?n"
    using runs_needed_bounds(1) [of clock] by (simp_all add: MIN_RUNS_def)
  have measured: "run_measured b clock \<lparr>br_bi = bi, br_results = [], br_n_runs = 0\<rparr> =
      rbind (performs b [CallPrepare, CallRun] bi) (\<lambda>bi. Inr (after_runs clock 1 bi))" for bi
    by (auto simp: run_measured_def after_runs_def run_times_def rbind_def split: sum.splits)
  have last: "last_result (run_times clock ?n) = Inr (measure_ms (clock (?n - 1)))"
    using n(3) by (cases ?n) (auto simp: last_result_def)
  have "run_benchmark b clock c =
      rbind (performs b (CallSetup c # [CallPrepare, CallRun] @ concat (map (next_calls clock) [1..<MIN_RUNS]) @
          concat (map (next_calls clock) [MIN_RUNS..<?n]) @ [CallCleanup True (measure_ms (clock (?n - 1)))]) (bench_new_instance b)) (\<lambda>bi.
        Inr (bi, if noisy (run_times clock ?n) then Inl (RSETargetNotMet (rse (run_times clock ?n)) ?n) else Inr (run_times clock ?n)))"
    unfolding run_benchmark_def measured performs_append performs.simps perform.simps rbind_assoc rbind_Inr
      run_min_calls [of 1, OF zero_less_one n(1) [unfolded Suc_le_eq [symmetric] One_nat_def [symmetric]]]
      run_precise_calls [OF order.refl n(2)]
    by (simp add: after_runs_def last noisy_def)
  moreover have "(if noisy (run_times clock ?n) then Inl (RSETargetNotMet (rse (run_times clock ?n)) ?n) else Inr (run_times clock ?n)) =
      verdict clock"
    using runs_needed_stop [of clock] by (auto simp: verdict_def Let_def)
  ultimately show ?thesis
    unfolding all_calls [OF n(1,2)] by simp
qed

text \<open>C34: A local benchmark performs exactly the calls of its protocol: set up once, then between 30 and 100 iterations, each prepared,
  run and cleaned up, the last one as the last. The number of runs is the first at which the times are precise enough, and
  a panic of the instance is passed on at the call where it happens.\<close>

theorem local_run_protocol:
  "run_benchmark b clock c =
    rbind (performs b (bench_calls c (run_times clock (runs_needed clock))) (bench_new_instance b)) (\<lambda>bi. Inr (bi, verdict clock)) \<and>
   30 \<le> runs_needed clock \<and> runs_needed clock \<le> 100"
  using run_benchmark_protocol [of b clock c] runs_needed_bounds [of clock] by (simp add: MIN_RUNS_def MAX_RUNS_def)

subsection \<open>Instances that keep to the protocol\<close>

text \<open>What the runner relies on: an instance does not fail when it is called in the order of the protocol. Then a run returns, and the
  instance is left as its last clean-up leaves it.\<close>

locale cooperative_instance =
  fixes b :: "('m, 'c, 's) Benchmark"
    and c :: 'c
    and idle :: "'s \<Rightarrow> bool"
    and prepared :: "'s \<Rightarrow> bool"
    and ran :: "'s \<Rightarrow> bool"
    and finished :: "'s \<Rightarrow> bool"
  assumes sets_up: "\<exists>s. bench_setup b c (bench_new_instance b) = Inr s \<and> idle s"
    and prepare: "idle s \<Longrightarrow> \<exists>s'. bench_prepare_iteration b s = Inr s' \<and> prepared s'"
    and run: "prepared s \<Longrightarrow> \<exists>s'. bench_run_iteration b s = Inr s' \<and> ran s'"
    and cleanup: "ran s \<Longrightarrow> \<exists>s'. bench_cleanup_iteration b final t s = Inr s' \<and> (if final then finished s' else idle s')"
begin

lemma iteration: "idle s \<Longrightarrow> \<exists>s'. performs b (iteration_calls final t) s = Inr s' \<and> (if final then finished s' else idle s')"
proof -
  assume "idle s"
  then obtain s1 s2 where "bench_prepare_iteration b s = Inr s1" "bench_run_iteration b s1 = Inr s2" "ran s2"
    using prepare [of s] run by blast
  then show ?thesis
    using cleanup [of s2 final t] by (cases final) (auto simp: iteration_calls_def)
qed

lemma iterations: "idle s \<Longrightarrow> \<exists>s'. performs b (concat (map (iteration_calls False) ts)) s = Inr s' \<and> idle s'"
proof (induction ts arbitrary: s)
  case (Cons t ts)
  obtain s1 where "performs b (iteration_calls False t) s = Inr s1" "idle s1"
    using iteration [OF Cons.prems, of False t] by auto
  then show ?case
    using Cons.IH [of s1] by (simp add: performs_append)
qed simp

theorem protocol_completes: "\<exists>s. performs b (bench_calls c ts) (bench_new_instance b) = Inr s \<and> finished s"
proof -
  obtain s0 where s0: "bench_setup b c (bench_new_instance b) = Inr s0" "idle s0"
    using sets_up by blast
  obtain s1 where s1: "performs b (concat (map (iteration_calls False) (butlast ts))) s0 = Inr s1" "idle s1"
    using iterations [OF s0(2)] by blast
  then show ?thesis
    using iteration [OF s1(2), of True "last ts"] s0(1) by (auto simp: bench_calls_def performs_append)
qed

theorem run_completes: "\<exists>s. run_benchmark b clock c = Inr (s, verdict clock) \<and> finished s"
  using protocol_completes [of "run_times clock (runs_needed clock)"] by (auto simp: run_benchmark_protocol)

end

end
