(* ===== verification/Ping_Pong_Bench.thy ===== *)
theory Ping_Pong_Bench
  imports Ported_Pingers Benchmark_Runner
begin

text \<open>
  The local ping-pong and throughput benchmarks as instances of the benchmark runner: set-up, preparation, iteration and clean-up
  of \<open>pingpong.rs\<close> and \<open>throughput_pingpong.rs\<close> on Kompact, Actix and Riker. Starting and stopping actors succeeds; the messages of an
  iteration are delivered in an order chosen by a scheduler, an arbitrary function of the state of the actors.
\<close>

subsection \<open>Waiting for the latch\<close>

type_synonym ('s, 'm, 'r) scheduler = "('s, 'm, 'r) pp_sys \<Rightarrow> nat \<times> delivery"

definition first_allowed :: "('s, 'm, 'r) pp_sys \<Rightarrow> nat \<times> delivery" where
  "first_allowed s = hd (filter (\<lambda>i. pp_allowed i s) (List.product [0..<length (pp_pairs s)] [RunMsg, PingMsg, PongMsg]))"

definition next_delivery :: "('s, 'm, 'r) scheduler \<Rightarrow> ('s, 'm, 'r) pp_sys \<Rightarrow> nat \<times> delivery" where
  "next_delivery pick s = (if pp_allowed (pick s) s then pick s else first_allowed s)"

definition drain ::
  "('s, 'm, 'r) pinger_api \<Rightarrow> ('s, 'm, 'r) scheduler \<Rightarrow> ('s, 'm, 'r) pp_sys \<Rightarrow> ('s, 'm, 'r) pp_sys rust option" where
  "drain api pick = run_until quiet (pp_deliver api) (next_delivery pick)"

text \<open>\<open>latch.wait()\<close>: it does not return when the actors fall silent, or one of them panics, before the latch is at zero.\<close>

definition await_latch :: "('s, 'm, 'r) pinger_api \<Rightarrow> ('s, 'm, 'r) scheduler \<Rightarrow> ('s, 'm, 'r) pp_sys \<Rightarrow> unit rust" where
  "await_latch api pick s =
    (case drain api pick s of
       Some (Inr s') \<Rightarrow> if pp_latch s' = 0 then Inr () else Inl NoReturn
     | _ \<Rightarrow> Inl NoReturn)"

lemma next_delivery_allowed: "\<not> quiet s \<Longrightarrow> pp_allowed (next_delivery pick s) s"
proof -
  assume "\<not> quiet s"
  then obtain k d where kd: "pp_allowed (k, d) s"
    unfolding quiet_iff by force
  let ?l = "filter (\<lambda>i. pp_allowed i s) (List.product [0..<length (pp_pairs s)] [RunMsg, PingMsg, PongMsg])"
  have "(k, d) \<in> set ?l"
    using kd by (cases d) (auto simp: pp_allowed_def)
  then have "?l \<noteq> []"
    by (rule length_pos_if_in_set [THEN length_greater_0_conv [THEN iffD1]])
  then have "first_allowed s \<in> set ?l"
    unfolding first_allowed_def by (rule hd_in_set)
  then show ?thesis
    by (auto simp: next_delivery_def)
qed

lemma all_allowed_snoc:
  "all_allowed allowed step is s \<Longrightarrow> run_inputs step is s = Inr (s', out) \<Longrightarrow> allowed i s' \<Longrightarrow>
    all_allowed allowed step (is @ [i]) s"
proof (induction "is" arbitrary: s out)
  case Nil
  then show ?case
    by (auto simp: run_inputs_def split: sum.splits)
next
  case (Cons j js)
  obtain s1 o1 o2 where "step j s = Inr (s1, o1)" "run_inputs step js s1 = Inr (s', o2)"
    using Cons.prems(2) by (auto simp: run_inputs_def panic_simps)
  then show ?case
    using Cons.IH [of s1 o2] Cons.prems(1,3) by auto
qed

lemma drain_step:
  "drain api pick s =
    (if quiet s then Some (Inr s)
     else case pp_deliver api (next_delivery pick s) s of Inl p \<Rightarrow> Some (Inl p) | Inr (s', out) \<Rightarrow> drain api pick s')"
  unfolding drain_def by (subst run_until.simps) simp

lemma exchanges_drain:
  assumes "exchanges api start n pings" "all_allowed pp_allowed (pp_deliver api) is (pp_start n start)"
    "run_inputs (pp_deliver api) is (pp_start n start) = Inr (s, out)"
  shows "\<exists>s'. drain api pick s = Some (Inr s') \<and> pp_latch s' = 0"
  using assms(2,3)
proof (induction "n * (2 * length pings + 1) - length is" arbitrary: "is" s out rule: less_induct)
  case less
  show ?case
  proof (cases "quiet s")
    case True
    have "pp_latch s = 0"
      using assms(1) less.prems True unfolding exchanges_def quiet_iff by fastforce
    then show ?thesis
      using True by (simp add: drain_step)
  next
    case False
    define i where "i = next_delivery pick s"
    have allowed: "all_allowed pp_allowed (pp_deliver api) (is @ [i]) (pp_start n start)"
      using all_allowed_snoc [OF less.prems] next_delivery_allowed [OF False] i_def by blast
    then obtain s2 out2 where s2: "run_inputs (pp_deliver api) (is @ [i]) (pp_start n start) = Inr (s2, out2)"
      and bound: "length (is @ [i]) \<le> n * (2 * length pings + 1)"
      using assms(1) unfolding exchanges_def by blast
    obtain o1 where step: "pp_deliver api i s = Inr (s2, o1)"
      using s2 less.prems(2) by (auto simp: run_inputs_def for_each_append panic_simps)
    have "\<exists>s'. drain api pick s2 = Some (Inr s') \<and> pp_latch s' = 0"
      using less.hyps [OF _ allowed s2] bound by simp
    then show ?thesis
      using False step by (subst drain_step) (simp add: i_def [symmetric])
  qed
qed

lemma exchanges_await: "exchanges api start n pings \<Longrightarrow> await_latch api pick (pp_start n start) = Inr ()"
  using exchanges_drain [of api start n pings "[]" "pp_start n start" "[]" pick] by (auto simp: run_inputs_def await_latch_def)

subsection \<open>Requests\<close>

record ThroughputPingPongRequest =
  tr_messages_per_pair :: u64
  tr_pipeline_size :: u64
  tr_parallelism :: u32
  tr_static_only :: bool

record SizedThroughputRequest =
  sz_message_size :: u32
  sz_batch_size :: u32
  sz_number_of_batches :: u32
  sz_number_of_pairs :: u32

datatype bench_request =
    PingPongRequest u64
  | ThroughputRequest ThroughputPingPongRequest
  | FibonacciRequest u32
  | SizedRequest SizedThroughputRequest
  | OtherRequest string   \<comment> \<open>its name\<close>

definition ping_pong_conf :: "bench_request \<Rightarrow> BenchmarkError + u64" where
  "ping_pong_conf msg = (case msg of PingPongRequest num \<Rightarrow> Inr num | _ \<Rightarrow> Inl (InvalidMessage ''PingPongRequest''))"

definition throughput_conf :: "bench_request \<Rightarrow> BenchmarkError + ThroughputPingPongRequest" where
  "throughput_conf msg = (case msg of ThroughputRequest r \<Rightarrow> Inr r | _ \<Rightarrow> Inl (InvalidMessage ''ThroughputPingPongRequest''))"

subsection \<open>Ping-pong\<close>

record 'g PingPongI =
  ppi_num :: "u64 option"
  ppi_system :: "unit option"
  ppi_pinger :: "'g option"
  ppi_ponger :: "unit option"
  ppi_latch :: "nat option"

definition PingPongI_new :: "'g PingPongI" where
  "PingPongI_new = \<lparr>ppi_num = None, ppi_system = None, ppi_pinger = None, ppi_ponger = None, ppi_latch = None\<rparr>"

definition ppi_setup :: "u64 \<Rightarrow> 'g PingPongI \<Rightarrow> 'g PingPongI rust" where
  "ppi_setup c s = Inr (s\<lparr>ppi_num := Some c, ppi_system := Some ()\<rparr>)"

definition ppi_prepare_iteration :: "(u64 \<Rightarrow> 'g) \<Rightarrow> 'g PingPongI \<Rightarrow> 'g PingPongI rust" where
  "ppi_prepare_iteration pinger_with s =
    (case ppi_num s of
       Some num \<Rightarrow> (case ppi_system s of
           Some system \<Rightarrow> Inr (s\<lparr>ppi_ponger := Some (), ppi_pinger := Some (pinger_with num), ppi_latch := Some 1\<rparr>)
         | None \<Rightarrow> Inl PanicCall)
     | None \<Rightarrow> Inl PanicCall)"

definition one_pair :: "'g \<Rightarrow> nat \<Rightarrow> ('g, 'm, 'r) pp_sys" where
  "one_pair pinger latch =
     \<lparr>pp_pairs = [\<lparr>pp_pinger = pinger, pp_run_pending = True, pp_pings = [], pp_pongs = []\<rparr>], pp_latch = latch\<rparr>"

definition ppi_run_iteration ::
  "('g, 'm, 'r) pinger_api \<Rightarrow> ('g, 'm, 'r) scheduler \<Rightarrow> 'g PingPongI \<Rightarrow> 'g PingPongI rust" where
  "ppi_run_iteration api pick s =
    (case ppi_system s of
       Some system \<Rightarrow> (case ppi_pinger s of
           Some pinger \<Rightarrow>
             rbind (runwrap (ppi_latch s)) (\<lambda>latch.
             rbind (await_latch api pick (one_pair pinger latch)) (\<lambda>_.
             Inr (s\<lparr>ppi_latch := None\<rparr>)))
         | None \<Rightarrow> Inl PanicCall)
     | None \<Rightarrow> Inl PanicCall)"

text \<open>The ports do not look at the system.\<close>

definition ported_run_iteration ::
  "('g, 'm, 'r) pinger_api \<Rightarrow> ('g, 'm, 'r) scheduler \<Rightarrow> 'g PingPongI \<Rightarrow> 'g PingPongI rust" where
  "ported_run_iteration api pick s =
    (case ppi_pinger s of
       Some pinger \<Rightarrow>
         rbind (runwrap (ppi_latch s)) (\<lambda>latch.
         rbind (await_latch api pick (one_pair pinger latch)) (\<lambda>_.
         Inr (s\<lparr>ppi_latch := None\<rparr>)))
     | None \<Rightarrow> Inl PanicCall)"

definition ppi_cleanup_iteration :: "bool \<Rightarrow> f64 \<Rightarrow> 'g PingPongI \<Rightarrow> 'g PingPongI rust" where
  "ppi_cleanup_iteration last_iteration exec_time s =
    rbind (runwrap (ppi_system s)) (\<lambda>system.
    rbind (runwrap (ppi_pinger s)) (\<lambda>pinger.
    rbind (runwrap (ppi_ponger s)) (\<lambda>ponger.
    let s = s\<lparr>ppi_system := None, ppi_pinger := None, ppi_ponger := None\<rparr>
    in Inr (if last_iteration then s\<lparr>ppi_num := None\<rparr> else s\<lparr>ppi_system := Some system\<rparr>))))"

definition actor_ping_pong ::
  "(Pinger, StaticPing, StaticPong) scheduler \<Rightarrow> (bench_request, u64, Pinger PingPongI) Benchmark" where
  "actor_ping_pong pick = \<lparr>bench_msg_to_conf = ping_pong_conf, bench_new_instance = PingPongI_new, bench_setup = ppi_setup,
     bench_prepare_iteration = ppi_prepare_iteration Pinger_with, bench_run_iteration = ppi_run_iteration actor_pinger pick,
     bench_cleanup_iteration = ppi_cleanup_iteration\<rparr>"

definition component_ping_pong ::
  "(Pinger, StaticPing, StaticPong) scheduler \<Rightarrow> (bench_request, u64, Pinger PingPongI) Benchmark" where
  "component_ping_pong pick = \<lparr>bench_msg_to_conf = ping_pong_conf, bench_new_instance = PingPongI_new, bench_setup = ppi_setup,
     bench_prepare_iteration = ppi_prepare_iteration Pinger_with, bench_run_iteration = ppi_run_iteration component_pinger pick,
     bench_cleanup_iteration = ppi_cleanup_iteration\<rparr>"

definition actix_ping_pong ::
  "actor_address \<Rightarrow> (ActixPinger, ActixPing, ActixPong) scheduler \<Rightarrow> (bench_request, u64, ActixPinger PingPongI) Benchmark" where
  "actix_ping_pong me pick = \<lparr>bench_msg_to_conf = ping_pong_conf, bench_new_instance = PingPongI_new, bench_setup = ppi_setup,
     bench_prepare_iteration = ppi_prepare_iteration (\<lambda>num. ax_started me (ActixPinger_with num)),
     bench_run_iteration = ported_run_iteration actix_pinger pick, bench_cleanup_iteration = ppi_cleanup_iteration\<rparr>"

definition riker_ping_pong ::
  "actor_address \<Rightarrow> (Pinger, RikerPing, RikerPingerMsg) scheduler \<Rightarrow> (bench_request, u64, Pinger PingPongI) Benchmark" where
  "riker_ping_pong me pick = \<lparr>bench_msg_to_conf = ping_pong_conf, bench_new_instance = PingPongI_new, bench_setup = ppi_setup,
     bench_prepare_iteration = ppi_prepare_iteration RikerPinger_with,
     bench_run_iteration = ported_run_iteration (riker_pinger me) pick, bench_cleanup_iteration = ppi_cleanup_iteration\<rparr>"

definition ppi_idle :: "u64 \<Rightarrow> 'g PingPongI \<Rightarrow> bool" where
  "ppi_idle num s \<longleftrightarrow> s = PingPongI_new\<lparr>ppi_num := Some num, ppi_system := Some ()\<rparr>"

definition ppi_prepared :: "u64 \<Rightarrow> 'g \<Rightarrow> nat option \<Rightarrow> 'g PingPongI \<Rightarrow> bool" where
  "ppi_prepared num pinger latch s \<longleftrightarrow>
     s = \<lparr>ppi_num = Some num, ppi_system = Some (), ppi_pinger = Some pinger, ppi_ponger = Some (), ppi_latch = latch\<rparr>"

lemmas ppi_simps = ppi_idle_def ppi_prepared_def PingPongI_new_def ppi_setup_def ppi_prepare_iteration_def ppi_run_iteration_def
  ported_run_iteration_def ppi_cleanup_iteration_def

lemma await_one_pair: "exchanges api start 1 pings \<Longrightarrow> await_latch api pick (one_pair start (Suc 0)) = Inr ()"
  using exchanges_await [of api start 1 pings pick] by (simp add: pp_start_def one_pair_def)

lemmas ping_pong_awaits [simp] =
  await_one_pair [OF actor_pp.one.iteration_ends] await_one_pair [OF component_pp.one.iteration_ends]
  await_one_pair [OF actix_pp.one.iteration_ends] await_one_pair [OF riker_pp.one.iteration_ends]

interpretation actor_ppi: cooperative_instance "actor_ping_pong pick" num "ppi_idle num" "ppi_prepared num (Pinger_with num) (Some 1)"
  "ppi_prepared num (Pinger_with num) None" "\<lambda>s. s = PingPongI_new" for pick num
  by unfold_locales (auto simp: actor_ping_pong_def ppi_simps)

interpretation component_ppi: cooperative_instance "component_ping_pong pick" num "ppi_idle num"
  "ppi_prepared num (Pinger_with num) (Some 1)" "ppi_prepared num (Pinger_with num) None" "\<lambda>s. s = PingPongI_new" for pick num
  by unfold_locales (auto simp: component_ping_pong_def ppi_simps)

interpretation actix_ppi: cooperative_instance "actix_ping_pong me pick" num "ppi_idle num"
  "ppi_prepared num (ax_started me (ActixPinger_with num)) (Some 1)" "ppi_prepared num (ax_started me (ActixPinger_with num)) None"
  "\<lambda>s. s = PingPongI_new" for me pick num
  by unfold_locales (auto simp: actix_ping_pong_def ppi_simps)

interpretation riker_ppi: cooperative_instance "riker_ping_pong me pick" num "ppi_idle num"
  "ppi_prepared num (RikerPinger_with num) (Some 1)" "ppi_prepared num (RikerPinger_with num) None" "\<lambda>s. s = PingPongI_new"
  for me pick num
  by unfold_locales (auto simp: riker_ping_pong_def ppi_simps)

subsection \<open>Throughput\<close>

record Params =
  pa_num_msgs :: u64
  pa_num_pairs :: u32
  pa_pipeline :: u64
  pa_static_only :: bool

definition Params_from_req :: "ThroughputPingPongRequest \<Rightarrow> Params" where
  "Params_from_req r = \<lparr>pa_num_msgs = tr_messages_per_pair r, pa_num_pairs = tr_parallelism r, pa_pipeline = tr_pipeline_size r,
     pa_static_only = tr_static_only r\<rparr>"

datatype ('s, 'd) EitherComponents = StaticOnly "'s list" | NonStatic "'d list" | EmptyComponents

text \<open>\<open>start_all\<close> and \<open>kill_all\<close> fail only without components; their errors are expected away.\<close>

definition start_all :: "('s, 'd) EitherComponents \<Rightarrow> string + unit" where
  "start_all cs = (case cs of StaticOnly _ \<Rightarrow> Inr () | NonStatic _ \<Rightarrow> Inr () | EmptyComponents \<Rightarrow> Inl ''EMPTY!'')"

definition kill_all :: "('s, 'd) EitherComponents \<Rightarrow> string + unit" where
  "kill_all cs = (case cs of StaticOnly _ \<Rightarrow> Inr () | NonStatic _ \<Rightarrow> Inr () | EmptyComponents \<Rightarrow> Inl ''EMPTY!'')"

definition expect_result :: "'e + 'a \<Rightarrow> 'a rust" where
  "expect_result res = (case res of Inl e \<Rightarrow> Inl UnwrapNone | Inr x \<Rightarrow> Inr x)"

record 'g ThroughputI =
  ti_params :: "Params option"
  ti_system :: "unit option"
  ti_pingers :: "('g, 'g) EitherComponents"
  ti_pinger_refs :: "nat list"   \<comment> \<open>positions of the pingers told to run; only the version with actors on Kompact keeps them\<close>
  ti_pongers :: "(unit, unit) EitherComponents"
  ti_latch :: "nat option"

definition ThroughputI_new :: "'g ThroughputI" where
  "ThroughputI_new = \<lparr>ti_params = None, ti_system = None, ti_pingers = EmptyComponents, ti_pinger_refs = [],
     ti_pongers = EmptyComponents, ti_latch = None\<rparr>"

definition ti_setup :: "ThroughputPingPongRequest \<Rightarrow> 'g ThroughputI \<Rightarrow> 'g ThroughputI rust" where
  "ti_setup c s = Inr (s\<lparr>ti_params := Some (Params_from_req c), ti_system := Some ()\<rparr>)"

definition ti_prepare_iteration :: "bool \<Rightarrow> (u64 \<Rightarrow> u64 \<Rightarrow> 'g) \<Rightarrow> 'g ThroughputI \<Rightarrow> 'g ThroughputI rust" where
  "ti_prepare_iteration keeps_refs pinger_with s =
    (case ti_params s of
       Some params \<Rightarrow> (case ti_system s of
           Some system \<Rightarrow>
             let n = unat (pa_num_pairs params);
                 vpi = replicate n (pinger_with (pa_num_msgs params) (pa_pipeline params));
                 vpo = replicate n ()
             in Inr (s\<lparr>ti_pinger_refs := ti_pinger_refs s @ (if keeps_refs then [0..<n] else []),
                  ti_pongers := (if pa_static_only params then StaticOnly vpo else NonStatic vpo),
                  ti_pingers := (if pa_static_only params then StaticOnly vpi else NonStatic vpi),
                  ti_latch := Some n\<rparr>)
         | None \<Rightarrow> Inl PanicCall)
     | None \<Rightarrow> Inl PanicCall)"

text \<open>The pairs of an iteration of which those in \<open>refs\<close> are told to run.\<close>

definition told_pairs :: "(nat \<Rightarrow> bool) \<Rightarrow> 'g list \<Rightarrow> nat \<Rightarrow> ('g, 'm, 'r) pp_sys" where
  "told_pairs told gs latch = \<lparr>pp_pairs = map (\<lambda>(k, g). \<lparr>pp_pinger = g, pp_run_pending = told k, pp_pings = [], pp_pongs = []\<rparr>)
     (enumerate 0 gs), pp_latch = latch\<rparr>"

definition await_either ::
  "('g, 'm, 'r) pinger_api \<Rightarrow> ('g, 'n, 'q) pinger_api \<Rightarrow> ('g, 'm, 'r) scheduler \<Rightarrow> ('g, 'n, 'q) scheduler \<Rightarrow> (nat \<Rightarrow> bool) \<Rightarrow>
    ('g, 'g) EitherComponents \<Rightarrow> nat \<Rightarrow> unit rust" where
  "await_either static_api indexed_api pick1 pick2 told cs latch =
    (case cs of
       StaticOnly gs \<Rightarrow> await_latch static_api pick1 (told_pairs told gs latch)
     | NonStatic gs \<Rightarrow> await_latch indexed_api pick2 (told_pairs told gs latch)
     | EmptyComponents \<Rightarrow> if latch = 0 then Inr () else Inl NoReturn)"

text \<open>The version with actors tells the kept references to run.\<close>

definition ti_run_by_refs ::
  "('g, 'm, 'r) pinger_api \<Rightarrow> ('g, 'n, 'q) pinger_api \<Rightarrow> ('g, 'm, 'r) scheduler \<Rightarrow> ('g, 'n, 'q) scheduler \<Rightarrow>
    'g ThroughputI \<Rightarrow> 'g ThroughputI rust" where
  "ti_run_by_refs static_api indexed_api pick1 pick2 s =
    rbind (rassert (ti_system s \<noteq> None)) (\<lambda>_.
    rbind (runwrap (ti_latch s)) (\<lambda>latch.
    rbind (await_either static_api indexed_api pick1 pick2 (\<lambda>k. k \<in> set (ti_pinger_refs s)) (ti_pingers s) latch) (\<lambda>_.
    Inr (s\<lparr>ti_latch := None\<rparr>))))"

text \<open>The version with ports starts all pingers.\<close>

definition ti_run_by_start ::
  "('g, 'm, 'r) pinger_api \<Rightarrow> ('g, 'n, 'q) pinger_api \<Rightarrow> ('g, 'm, 'r) scheduler \<Rightarrow> ('g, 'n, 'q) scheduler \<Rightarrow>
    'g ThroughputI \<Rightarrow> 'g ThroughputI rust" where
  "ti_run_by_start static_api indexed_api pick1 pick2 s =
    (case ti_system s of
       Some system \<Rightarrow>
         rbind (runwrap (ti_latch s)) (\<lambda>latch.
         rbind (expect_result (start_all (ti_pingers s))) (\<lambda>_.
         rbind (await_either static_api indexed_api pick1 pick2 (\<lambda>_. True) (ti_pingers s) latch) (\<lambda>_.
         Inr (s\<lparr>ti_latch := None\<rparr>))))
     | None \<Rightarrow> Inl PanicCall)"

text \<open>The ports to Actix and Riker do so without a look at the system.\<close>

definition ti_run_ported ::
  "('g, 'm, 'r) pinger_api \<Rightarrow> ('g, 'n, 'q) pinger_api \<Rightarrow> ('g, 'm, 'r) scheduler \<Rightarrow> ('g, 'n, 'q) scheduler \<Rightarrow>
    'g ThroughputI \<Rightarrow> 'g ThroughputI rust" where
  "ti_run_ported static_api indexed_api pick1 pick2 s =
    rbind (runwrap (ti_latch s)) (\<lambda>latch.
    rbind (expect_result (start_all (ti_pingers s))) (\<lambda>_.
    rbind (await_either static_api indexed_api pick1 pick2 (\<lambda>_. True) (ti_pingers s) latch) (\<lambda>_.
    Inr (s\<lparr>ti_latch := None\<rparr>))))"

definition ti_cleanup_iteration :: "bool \<Rightarrow> f64 \<Rightarrow> 'g ThroughputI \<Rightarrow> 'g ThroughputI rust" where
  "ti_cleanup_iteration last_iteration exec_time s =
    rbind (runwrap (ti_system s)) (\<lambda>system.
    rbind (expect_result (kill_all (ti_pingers s))) (\<lambda>_.
    rbind (expect_result (kill_all (ti_pongers s))) (\<lambda>_.
    let s = s\<lparr>ti_system := None, ti_pinger_refs := [], ti_pingers := EmptyComponents, ti_pongers := EmptyComponents\<rparr>
    in Inr (if last_iteration then s\<lparr>ti_params := None\<rparr> else s\<lparr>ti_system := Some system\<rparr>))))"

definition actor_throughput ::
  "(ThroughputPinger, StaticPing, StaticPong) scheduler \<Rightarrow> (ThroughputPinger, Ping, Pong) scheduler \<Rightarrow>
    (bench_request, ThroughputPingPongRequest, ThroughputPinger ThroughputI) Benchmark" where
  "actor_throughput pick1 pick2 = \<lparr>bench_msg_to_conf = throughput_conf, bench_new_instance = ThroughputI_new, bench_setup = ti_setup,
     bench_prepare_iteration = ti_prepare_iteration True ThroughputPinger_with,
     bench_run_iteration = ti_run_by_refs actor_static_pinger actor_indexed_pinger pick1 pick2,
     bench_cleanup_iteration = ti_cleanup_iteration\<rparr>"

definition component_throughput ::
  "(ThroughputPinger, StaticPing, StaticPong) scheduler \<Rightarrow> (ThroughputPinger, Ping, Pong) scheduler \<Rightarrow>
    (bench_request, ThroughputPingPongRequest, ThroughputPinger ThroughputI) Benchmark" where
  "component_throughput pick1 pick2 = \<lparr>bench_msg_to_conf = throughput_conf, bench_new_instance = ThroughputI_new, bench_setup = ti_setup,
     bench_prepare_iteration = ti_prepare_iteration False ThroughputPinger_with,
     bench_run_iteration = ti_run_by_start component_static_pinger component_indexed_pinger pick1 pick2,
     bench_cleanup_iteration = ti_cleanup_iteration\<rparr>"

definition actix_throughput ::
  "actor_address \<Rightarrow> (ActixThroughputPinger, ActixStaticPing, ActixStaticPong) scheduler \<Rightarrow>
    (ActixThroughputPinger, ActixIndexedPing, ActixIndexedPong) scheduler \<Rightarrow>
    (bench_request, ThroughputPingPongRequest, ActixThroughputPinger ThroughputI) Benchmark" where
  "actix_throughput me pick1 pick2 = \<lparr>bench_msg_to_conf = throughput_conf, bench_new_instance = ThroughputI_new, bench_setup = ti_setup,
     bench_prepare_iteration = ti_prepare_iteration False (\<lambda>count pipeline. ax_tp_started me (ActixThroughputPinger_with count pipeline)),
     bench_run_iteration = ti_run_ported actix_static_pinger actix_indexed_pinger pick1 pick2,
     bench_cleanup_iteration = ti_cleanup_iteration\<rparr>"

definition riker_throughput ::
  "actor_address \<Rightarrow> (ThroughputPinger, RikerStaticPing, RikerStaticPingerMsg) scheduler \<Rightarrow>
    (ThroughputPinger, RikerIndexedPing, RikerIndexedPingerMsg) scheduler \<Rightarrow>
    (bench_request, ThroughputPingPongRequest, ThroughputPinger ThroughputI) Benchmark" where
  "riker_throughput me pick1 pick2 = \<lparr>bench_msg_to_conf = throughput_conf, bench_new_instance = ThroughputI_new, bench_setup = ti_setup,
     bench_prepare_iteration = ti_prepare_iteration False RikerThroughputPinger_with,
     bench_run_iteration = ti_run_ported (riker_static_pinger me) (riker_indexed_pinger me) pick1 pick2,
     bench_cleanup_iteration = ti_cleanup_iteration\<rparr>"

text \<open>The states between the calls.\<close>

definition ti_idle :: "ThroughputPingPongRequest \<Rightarrow> 'g ThroughputI \<Rightarrow> bool" where
  "ti_idle c s \<longleftrightarrow> s = ThroughputI_new\<lparr>ti_params := Some (Params_from_req c), ti_system := Some ()\<rparr>"

definition ti_prepared :: "bool \<Rightarrow> ThroughputPingPongRequest \<Rightarrow> 'g \<Rightarrow> nat option \<Rightarrow> 'g ThroughputI \<Rightarrow> bool" where
  "ti_prepared keeps_refs c start latch s \<longleftrightarrow>
    (let n = unat (tr_parallelism c)
     in s = \<lparr>ti_params = Some (Params_from_req c), ti_system = Some (),
       ti_pingers = (if tr_static_only c then StaticOnly (replicate n start) else NonStatic (replicate n start)),
       ti_pinger_refs = (if keeps_refs then [0..<n] else []),
       ti_pongers = (if tr_static_only c then StaticOnly (replicate n ()) else NonStatic (replicate n ())), ti_latch = latch\<rparr>)"

lemma told_pairs_start: "(\<And>k. k < n \<Longrightarrow> told k) \<Longrightarrow> told_pairs told (replicate n start) n = pp_start n start"
  by (simp add: told_pairs_def pp_start_def) (rule nth_equalityI; simp add: nth_enumerate_eq)

text \<open>A benchmark whose pingers, static and indexed, release the latch.\<close>

lemma await_either_pingers:
  assumes "exchanges static_api start n pings" "exchanges indexed_api start n indexed_pings" "\<And>k. k < n \<Longrightarrow> told k"
  shows "await_either static_api indexed_api pick1 pick2 told
    (if static_only then StaticOnly (replicate n start) else NonStatic (replicate n start)) n = Inr ()"
  using assms exchanges_await [OF assms(1), of pick1] exchanges_await [OF assms(2), of pick2]
  by (simp add: await_either_def told_pairs_start)

lemmas ti_simps = ti_idle_def ti_prepared_def ThroughputI_new_def Params_from_req_def ti_setup_def ti_prepare_iteration_def
  ti_run_by_refs_def ti_run_by_start_def ti_run_ported_def ti_cleanup_iteration_def expect_result_def start_all_def kill_all_def Let_def
  rassert_def

lemma ti_prepares:
  "ti_idle c s \<Longrightarrow> \<exists>s'. ti_prepare_iteration keeps_refs pinger_with s = Inr s' \<and>
    ti_prepared keeps_refs c (pinger_with (tr_messages_per_pair c) (tr_pipeline_size c)) (Some (unat (tr_parallelism c))) s'"
  by (simp add: ti_simps)

lemma ti_cleans:
  "ti_prepared keeps_refs c start None s \<Longrightarrow> \<exists>s'. ti_cleanup_iteration final t s = Inr s' \<and>
    (if final then s' = ThroughputI_new else ti_idle c s')"
  by (cases "tr_static_only c") (auto simp: ti_simps)

lemma ti_runs_by_refs:
  assumes "\<exists>ps. exchanges static_api start (unat (tr_parallelism c)) ps" "\<exists>ps. exchanges indexed_api start (unat (tr_parallelism c)) ps"
    "ti_prepared True c start (Some (unat (tr_parallelism c))) s"
  shows "\<exists>s'. ti_run_by_refs static_api indexed_api pick1 pick2 s = Inr s' \<and> ti_prepared True c start None s'"
proof -
  have "await_either static_api indexed_api pick1 pick2 (\<lambda>k. k \<in> set [0..<unat (tr_parallelism c)])
      (if tr_static_only c then StaticOnly (replicate (unat (tr_parallelism c)) start)
       else NonStatic (replicate (unat (tr_parallelism c)) start)) (unat (tr_parallelism c)) = Inr ()"
    using assms(1,2) by (elim exE) (rule await_either_pingers; simp)
  then show ?thesis
    using assms(3) by (simp add: ti_simps)
qed

lemma awaits_all_told:
  assumes "\<exists>ps. exchanges static_api start n ps" "\<exists>ps. exchanges indexed_api start n ps"
  shows "await_either static_api indexed_api pick1 pick2 (\<lambda>_. True) (StaticOnly (replicate n start)) n = Inr ()"
    "await_either static_api indexed_api pick1 pick2 (\<lambda>_. True) (NonStatic (replicate n start)) n = Inr ()"
  using assms await_either_pingers [where told = "\<lambda>_. True" and static_only = True]
    await_either_pingers [where told = "\<lambda>_. True" and static_only = False] by fastforce+

lemma ti_runs_by_start:
  assumes "\<exists>ps. exchanges static_api start (unat (tr_parallelism c)) ps" "\<exists>ps. exchanges indexed_api start (unat (tr_parallelism c)) ps"
    "ti_prepared False c start (Some (unat (tr_parallelism c))) s"
  shows "\<exists>s'. ti_run_by_start static_api indexed_api pick1 pick2 s = Inr s' \<and> ti_prepared False c start None s'"
  using assms(3) by (cases "tr_static_only c") (simp_all add: ti_simps awaits_all_told [OF assms(1,2)])

lemma ti_runs_ported:
  assumes "\<exists>ps. exchanges static_api start (unat (tr_parallelism c)) ps" "\<exists>ps. exchanges indexed_api start (unat (tr_parallelism c)) ps"
    "ti_prepared False c start (Some (unat (tr_parallelism c))) s"
  shows "\<exists>s'. ti_run_ported static_api indexed_api pick1 pick2 s = Inr s' \<and> ti_prepared False c start None s'"
  using assms(3) by (cases "tr_static_only c") (simp_all add: ti_simps awaits_all_told [OF assms(1,2)])

lemma ti_sets_up: "\<exists>s. ti_setup c ThroughputI_new = Inr s \<and> ti_idle c s"
  by (simp add: ti_simps)


lemma exchanging_pingers:
  assumes "0 < tr_messages_per_pair c" "0 < tr_pipeline_size c"
  defines "count \<equiv> tr_messages_per_pair c" and "pipeline \<equiv> tr_pipeline_size c"
  shows "\<exists>ps. exchanges actor_static_pinger (ThroughputPinger_with count pipeline) n ps"
    "\<exists>ps. exchanges actor_indexed_pinger (ThroughputPinger_with count pipeline) n ps"
    "\<exists>ps. exchanges component_static_pinger (ThroughputPinger_with count pipeline) n ps"
    "\<exists>ps. exchanges component_indexed_pinger (ThroughputPinger_with count pipeline) n ps"
    "\<exists>ps. exchanges actix_static_pinger (ax_tp_started me (ActixThroughputPinger_with count pipeline)) n ps"
    "\<exists>ps. exchanges actix_indexed_pinger (ax_tp_started me (ActixThroughputPinger_with count pipeline)) n ps"
    "\<exists>ps. exchanges (riker_static_pinger me) (RikerThroughputPinger_with count pipeline) n ps"
    "\<exists>ps. exchanges (riker_indexed_pinger me) (RikerThroughputPinger_with count pipeline) n ps"
proof -
  have "0 < unat pipeline" "0 < unat count"
    using assms by (simp_all add: unat_gt_0 word_neq_0_conv)
  note ends = this
  show "\<exists>ps. exchanges actor_static_pinger (ThroughputPinger_with count pipeline) n ps"
    using actor_static.pipe.iteration_ends [OF ends] by blast
  show "\<exists>ps. exchanges actor_indexed_pinger (ThroughputPinger_with count pipeline) n ps"
    using actor_indexed.pipe.iteration_ends [OF ends] by blast
  show "\<exists>ps. exchanges component_static_pinger (ThroughputPinger_with count pipeline) n ps"
    using component_static.pipe.iteration_ends [OF ends] by blast
  show "\<exists>ps. exchanges component_indexed_pinger (ThroughputPinger_with count pipeline) n ps"
    using component_indexed.pipe.iteration_ends [OF ends] by blast
  show "\<exists>ps. exchanges actix_static_pinger (ax_tp_started me (ActixThroughputPinger_with count pipeline)) n ps"
    using actix_static.pipe.iteration_ends [OF ends] by blast
  show "\<exists>ps. exchanges actix_indexed_pinger (ax_tp_started me (ActixThroughputPinger_with count pipeline)) n ps"
    using actix_indexed.pipe.iteration_ends [OF ends] by blast
  show "\<exists>ps. exchanges (riker_static_pinger me) (RikerThroughputPinger_with count pipeline) n ps"
    using riker_static.pipe.iteration_ends [OF ends] by blast
  show "\<exists>ps. exchanges (riker_indexed_pinger me) (RikerThroughputPinger_with count pipeline) n ps"
    using riker_indexed.pipe.iteration_ends [OF ends] by blast
qed

lemma throughput_completes:
  assumes "bench_new_instance b = ThroughputI_new" "bench_setup b = ti_setup"
    "bench_prepare_iteration b = ti_prepare_iteration keeps_refs pinger_with" "bench_cleanup_iteration b = ti_cleanup_iteration"
    and "\<And>s. ti_prepared keeps_refs c (pinger_with (tr_messages_per_pair c) (tr_pipeline_size c)) (Some (unat (tr_parallelism c))) s \<Longrightarrow>
      \<exists>s'. bench_run_iteration b s = Inr s' \<and> ti_prepared keeps_refs c (pinger_with (tr_messages_per_pair c) (tr_pipeline_size c)) None s'"
  shows "run_benchmark b clock c = Inr (ThroughputI_new, verdict clock)"
proof -
  let ?start = "pinger_with (tr_messages_per_pair c) (tr_pipeline_size c)"
  have "cooperative_instance b c (ti_idle c) (ti_prepared keeps_refs c ?start (Some (unat (tr_parallelism c))))
      (ti_prepared keeps_refs c ?start None) (\<lambda>s. s = ThroughputI_new)"
    by unfold_locales (simp_all add: assms ti_sets_up ti_prepares ti_cleans)
  then show ?thesis
    using cooperative_instance.run_completes by fastforce
qed



text \<open>The same for the ping-pong benchmark, for any number of messages.\<close>

theorem ping_pong_benchmarks_complete:
  "run_benchmark (actor_ping_pong pick1) clock num = Inr (PingPongI_new, verdict clock) \<and>
   run_benchmark (component_ping_pong pick2) clock num = Inr (PingPongI_new, verdict clock) \<and>
   run_benchmark (actix_ping_pong me pick3) clock num = Inr (PingPongI_new, verdict clock) \<and>
   run_benchmark (riker_ping_pong me pick4) clock num = Inr (PingPongI_new, verdict clock)"
  using actor_ppi.run_completes [of pick1 clock num] component_ppi.run_completes [of pick2 clock num]
    actix_ppi.run_completes [of me pick3 clock num] riker_ppi.run_completes [of me pick4 clock num] by auto

end
