(* ===== verification/Benchmark_Deployment.thy ===== *)
theory Benchmark_Deployment
  imports Benchmark_Runner
begin

text \<open>
  The distributed half of the benchmark harness: the objects that hide the types of a distributed benchmark
  (\<open>shared_rust/src/benchmark.rs\<close>), the client with its state machine (\<open>benchmark_client.rs\<close>), \<open>DistributedIteration\<close>
  (\<open>benchmark_runner.rs\<close>) and the master (\<open>benchmark_master.rs\<close>), which drives the clients by remote calls.
\<close>

subsection \<open>Distributed benchmarks and their objects\<close>

record ('m, 'mc, 'cc, 'cd, 'ms, 'k) DistributedBenchmark =
  db_label :: string
  db_msg_to_master_conf :: "'m \<Rightarrow> BenchmarkError + 'mc"
  db_str_to_client_conf :: "string \<Rightarrow> BenchmarkError + 'cc"
  db_str_to_client_data :: "string \<Rightarrow> BenchmarkError + 'cd"
  db_client_conf_to_str :: "'cc \<Rightarrow> string"
  db_client_data_to_str :: "'cd \<Rightarrow> string"
  db_new_master :: 'ms
  db_master_setup :: "'mc \<Rightarrow> u32 \<Rightarrow> 'ms \<Rightarrow> (BenchmarkError + 'ms \<times> 'cc) rust"
  db_master_prepare :: "'cd list \<Rightarrow> 'ms \<Rightarrow> 'ms rust"
  db_master_run :: "'ms \<Rightarrow> 'ms rust"
  db_master_cleanup :: "bool \<Rightarrow> f64 \<Rightarrow> 'ms \<Rightarrow> 'ms rust"
  db_new_client :: 'k
  db_client_setup :: "'cc \<Rightarrow> 'k \<Rightarrow> ('k \<times> 'cd) rust"
  db_client_prepare :: "'k \<Rightarrow> 'k rust"
  db_client_cleanup :: "bool \<Rightarrow> 'k \<Rightarrow> 'k rust"

record ('m, 'ms, 'k) AbstractDistributedBenchmark =
  ab_label :: string
  ab_new_master :: 'ms
  ab_master_setup :: "'m \<Rightarrow> u32 \<Rightarrow> 'ms \<Rightarrow> (BenchmarkError + 'ms \<times> string) rust"
  ab_master_prepare :: "string list \<Rightarrow> 'ms \<Rightarrow> (BenchmarkError + 'ms) rust"
  ab_master_run :: "'ms \<Rightarrow> 'ms rust"
  ab_master_cleanup :: "bool \<Rightarrow> f64 \<Rightarrow> 'ms \<Rightarrow> 'ms rust"
  ab_new_client :: 'k
  ab_client_setup :: "string \<Rightarrow> 'k \<Rightarrow> (BenchmarkError + 'k \<times> string) rust"
  ab_client_prepare :: "'k \<Rightarrow> 'k rust"
  ab_client_cleanup :: "bool \<Rightarrow> 'k \<Rightarrow> 'k rust"

definition master_object_setup ::
  "('m, 'mc, 'cc, 'cd, 'ms, 'k) DistributedBenchmark \<Rightarrow> 'm \<Rightarrow> u32 \<Rightarrow> 'ms \<Rightarrow> (BenchmarkError + 'ms \<times> string) rust" where
  "master_object_setup b msg meta bm =
    (case db_msg_to_master_conf b msg of
       Inl e \<Rightarrow> Inr (Inl e)
     | Inr c \<Rightarrow> rbind (db_master_setup b c meta bm) (\<lambda>res. case res of
         Inl e \<Rightarrow> Inr (Inl e)
       | Inr (bm, cconf) \<Rightarrow> Inr (Inr (bm, db_client_conf_to_str b cconf))))"

text \<open>Collecting results into a \<open>Result\<close> of a vector stops at the first error.\<close>

fun collect_results :: "('e + 'a) list \<Rightarrow> 'e + 'a list" where
  "collect_results [] = Inr []"
| "collect_results (Inl e # rs) = Inl e"
| "collect_results (Inr x # rs) = rbind (collect_results rs) (\<lambda>xs. Inr (x # xs))"

definition master_object_prepare ::
  "('m, 'mc, 'cc, 'cd, 'ms, 'k) DistributedBenchmark \<Rightarrow> string list \<Rightarrow> 'ms \<Rightarrow> (BenchmarkError + 'ms) rust" where
  "master_object_prepare b d bm =
    (case collect_results (map (db_str_to_client_data b) d) of
       Inl e \<Rightarrow> Inr (Inl e)
     | Inr d_deser \<Rightarrow> rbind (db_master_prepare b d_deser bm) (\<lambda>bm. Inr (Inr bm)))"

definition client_object_setup ::
  "('m, 'mc, 'cc, 'cd, 'ms, 'k) DistributedBenchmark \<Rightarrow> string \<Rightarrow> 'k \<Rightarrow> (BenchmarkError + 'k \<times> string) rust" where
  "client_object_setup b c bc =
    (case db_str_to_client_conf b c of
       Inl e \<Rightarrow> Inr (Inl e)
     | Inr cconf \<Rightarrow> rbind (db_client_setup b cconf bc) (\<lambda>(bc, cdata). Inr (Inr (bc, db_client_data_to_str b cdata))))"

definition distributed_object ::
  "('m, 'mc, 'cc, 'cd, 'ms, 'k) DistributedBenchmark \<Rightarrow> ('m, 'ms, 'k) AbstractDistributedBenchmark" where
  "distributed_object b = \<lparr>ab_label = db_label b, ab_new_master = db_new_master b,
     ab_master_setup = master_object_setup b, ab_master_prepare = master_object_prepare b,
     ab_master_run = db_master_run b, ab_master_cleanup = db_master_cleanup b,
     ab_new_client = db_new_client b, ab_client_setup = client_object_setup b,
     ab_client_prepare = db_client_prepare b, ab_client_cleanup = db_client_cleanup b\<rparr>"

datatype 'b AbstractBench = LocalBench | DistributedBench 'b

subsection \<open>The client\<close>

definition MAX_ATTEMPTS :: nat where "MAX_ATTEMPTS = 5"

datatype ('b, 'k) ClientState =
    CheckingIn
  | ClientReady
  | Running 'b 'k   \<comment> \<open>\<open>ActiveBench\<close>: the benchmark and its instance\<close>
  | ClientStopped

datatype ClientCommand = SetupCommand string string | CleanupCommand bool | ShutdownCommand

datatype ClientResponse = SetupDone string | SetupFailed BenchmarkError | CleanupDone | ShutdownAck

type_synonym ('m, 'ms, 'k) bench_factory =
  "string \<Rightarrow> NotImplementedError + ('m, 'ms, 'k) AbstractDistributedBenchmark AbstractBench"

type_synonym ('m, 'ms, 'k) client_state = "(('m, 'ms, 'k) AbstractDistributedBenchmark, 'k) ClientState"

text \<open>The loop of check-ins, given the outcomes of the attempts: \<open>None\<close> while it still waits, \<open>Some False\<close> when the process
  exits.\<close>

fun checkin_loop :: "nat \<Rightarrow> bool list \<Rightarrow> bool option" where
  "checkin_loop attempts [] = None"
| "checkin_loop attempts (ok # oks) =
    (if ok then Some True
     else if attempts + 1 < MAX_ATTEMPTS then checkin_loop (attempts + 1) oks
     else Some False)"

fun client_command ::
  "('m, 'ms, 'k) bench_factory \<Rightarrow> ClientCommand \<Rightarrow> ('m, 'ms, 'k) client_state \<Rightarrow> (('m, 'ms, 'k) client_state \<times> ClientResponse) rust"
where
  "client_command by_label (SetupCommand label data) st =
    (case by_label label of
       Inl e \<Rightarrow> Inr (ClientReady, SetupFailed (NotImplementedErr e))
     | Inr LocalBench \<Rightarrow> Inr (ClientReady, SetupFailed (InvalidTest (LocalTest label)))
     | Inr (DistributedBench b) \<Rightarrow>
         rbind (ab_client_setup b data (ab_new_client b)) (\<lambda>res. case res of
           Inl e \<Rightarrow> Inr (ClientReady, SetupFailed e)
         | Inr (k, client_data) \<Rightarrow>
             rbind (ab_client_prepare b k) (\<lambda>k. Inr (Running b k, SetupDone client_data))))"
| "client_command by_label (CleanupCommand final) st =
    (case st of
       Running b k \<Rightarrow>
         rbind (ab_client_cleanup b final k) (\<lambda>k.
         if final then Inr (ClientReady, CleanupDone)
         else rbind (ab_client_prepare b k) (\<lambda>k. Inr (Running b k, CleanupDone)))
     | _ \<Rightarrow> Inl PanicCall)"
| "client_command by_label ShutdownCommand st = Inr (ClientStopped, ShutdownAck)"

text \<open>A client process as the master sees it. A process that has ended, by a panic or by a shutdown, answers no call.\<close>

datatype 's process = Alive 's | Crashed

definition remote_call ::
  "('m, 'ms, 'k) bench_factory \<Rightarrow> ClientCommand \<Rightarrow> ('m, 'ms, 'k) client_state process \<Rightarrow>
    ('m, 'ms, 'k) client_state process \<times> ClientResponse option" where
  "remote_call by_label cmd p =
    (case p of
       Crashed \<Rightarrow> (Crashed, None)
     | Alive st \<Rightarrow>
         if (case st of ClientStopped \<Rightarrow> True | _ \<Rightarrow> False) then (p, None)
         else (case client_command by_label cmd st of
             Inl e \<Rightarrow> (Crashed, None)
           | Inr (st', r) \<Rightarrow> (Alive st', Some r)))"

subsection \<open>The iterations on the master\<close>

record 'ms DistributedIteration =
  di_master :: 'ms
  di_client_data :: "string list"
  di_n_runs :: nat
  di_results :: "f64 list"

definition DistributedIteration_new :: "'ms \<Rightarrow> string list \<Rightarrow> 'ms DistributedIteration" where
  "DistributedIteration_new master client_data =
     \<lparr>di_master = master, di_client_data = client_data, di_n_runs = 0, di_results = []\<rparr>"

definition iteration_prepare ::
  "('m, 'ms, 'k) AbstractDistributedBenchmark \<Rightarrow> 'ms DistributedIteration \<Rightarrow> 'ms DistributedIteration rust" where
  "iteration_prepare b it =
    rbind (ab_master_prepare b (di_client_data it) (di_master it)) (\<lambda>res. case res of
      Inl e \<Rightarrow> Inl UnwrapNone
    | Inr master \<Rightarrow> Inr (it\<lparr>di_master := master\<rparr>))"

definition iteration_run ::
  "('m, 'ms, 'k) AbstractDistributedBenchmark \<Rightarrow> clock \<Rightarrow> 'ms DistributedIteration \<Rightarrow> 'ms DistributedIteration rust" where
  "iteration_run b clock it =
    rbind (ab_master_run b (di_master it)) (\<lambda>master.
    Inr (it\<lparr>di_master := master, di_results := di_results it @ [measure_ms (clock (length (di_results it)))],
      di_n_runs := di_n_runs it + 1\<rparr>))"

text \<open>The master side of \<open>cleanup\<close> and its decision; the calls to the clients are made by the loop below.\<close>

definition iteration_cleanup ::
  "('m, 'ms, 'k) AbstractDistributedBenchmark \<Rightarrow> 'ms DistributedIteration \<Rightarrow> ('ms DistributedIteration \<times> bool) rust" where
  "iteration_cleanup b it =
    (let is_final = \<not> (di_n_runs it < MIN_RUNS \<or> di_n_runs it < MAX_RUNS \<and> f64_gt (rse (di_results it)) RSE_TARGET)
     in rbind (last_result (di_results it)) (\<lambda>t.
        rbind (ab_master_cleanup b is_final t (di_master it)) (\<lambda>master.
        Inr (it\<lparr>di_master := master\<rparr>, is_final))))"

subsection \<open>The master\<close>

datatype State = INIT | READY | SETUP | RUN | CLEANUP | FINISHED | STOPPED

definition cas :: "State \<Rightarrow> State \<Rightarrow> State \<Rightarrow> State rust" where
  "cas old_value new_value state = (if state = old_value then Inr new_value else Inl UnwrapNone)"

record ('m, 'ms, 'k) BenchmarkMaster =
  ma_wait_for :: nat
  ma_clients :: "('m, 'ms, 'k) client_state process list"   \<comment> \<open>the processes behind the stubs\<close>
  ma_state :: State
  ma_number_of_clients :: u32   \<comment> \<open>\<open>meta\<close>\<close>

type_synonym ('m, 'ms, 'k) master_step = "(('m, 'ms, 'k) BenchmarkMaster \<times> (BenchmarkError + TestResult)) rust"

definition BenchmarkMaster_new :: "nat \<Rightarrow> ('m, 'ms, 'k) BenchmarkMaster" where
  "BenchmarkMaster_new wait_for = \<lparr>ma_wait_for = wait_for, ma_clients = [], ma_state = INIT, ma_number_of_clients = 0\<rparr>"

definition check_in_handler ::
  "('m, 'ms, 'k) client_state process \<Rightarrow> ('m, 'ms, 'k) BenchmarkMaster \<Rightarrow> ('m, 'ms, 'k) BenchmarkMaster rust" where
  "check_in_handler client m =
    (if ma_state m = INIT then
       let m = m\<lparr>ma_clients := ma_clients m @ [client]\<rparr>
       in if length (ma_clients m) = ma_wait_for m
          then rbind (cas INIT READY (ma_state m)) (\<lambda>state. Inr (m\<lparr>ma_state := state\<rparr>))
          else Inr m
     else Inr m)"

text \<open>The first loop of \<open>start\<close> over the queue of check-ins, and the metadata set after it.\<close>

fun check_in_loop ::
  "('m, 'ms, 'k) client_state process list \<Rightarrow> ('m, 'ms, 'k) BenchmarkMaster \<Rightarrow> ('m, 'ms, 'k) BenchmarkMaster rust" where
  "check_in_loop [] m = Inr m"
| "check_in_loop (c # cs) m = (if ma_state m = INIT then rbind (check_in_handler c m) (check_in_loop cs) else Inr m)"

definition finish_check_in :: "('m, 'ms, 'k) BenchmarkMaster \<Rightarrow> ('m, 'ms, 'k) BenchmarkMaster rust" where
  "finish_check_in m =
    (if length (ma_clients m) < 2 ^ 32 then Inr (m\<lparr>ma_number_of_clients := word_of_nat (length (ma_clients m))\<rparr>)
     else Inl UnwrapNone)"

definition run_local_benchmark ::
  "('m, 'c, 's) Benchmark \<Rightarrow> clock \<Rightarrow> 'm \<Rightarrow> ('m, 'ms, 'k) BenchmarkMaster \<Rightarrow> ('m, 'ms, 'k) master_step" where
  "run_local_benchmark b clock msg m =
    rbind (cas READY RUN (ma_state m)) (\<lambda>state.
    let res = run_async (rbind (benchmark_object_run b clock msg) (\<lambda>res. Inr (test_result res)))
    in Inr (m\<lparr>ma_state := READY\<rparr>, res))"

text \<open>A call to all clients: \<open>future::join_all\<close> of the responses, whose error is the first.\<close>

definition call_all ::
  "('m, 'ms, 'k) bench_factory \<Rightarrow> ClientCommand \<Rightarrow> ('m, 'ms, 'k) client_state process list \<Rightarrow>
    ('m, 'ms, 'k) client_state process list \<times> ClientResponse option list" where
  "call_all by_label cmd clients = (let rs = map (remote_call by_label cmd) clients in (map fst rs, map snd rs))"

definition setup_response :: "ClientResponse option \<Rightarrow> BenchmarkError + string" where
  "setup_response r = (case r of Some (SetupDone data) \<Rightarrow> Inr data | Some (SetupFailed e) \<Rightarrow> Inl (InvalidTest (ClientError e)) | _ \<Rightarrow> Inl RPCError)"

definition cleanup_response :: "ClientResponse option \<Rightarrow> BenchmarkError + unit" where
  "cleanup_response r = (case r of Some CleanupDone \<Rightarrow> Inr () | _ \<Rightarrow> Inl RPCError)"

lemma iteration_continues:
  assumes "iteration_prepare b it = Inr it1" "iteration_run b clock it1 = Inr it2" "iteration_cleanup b it2 = Inr (it3, False)"
  shows "MAX_RUNS - di_n_runs it3 < MAX_RUNS - di_n_runs it"
proof -
  have "di_n_runs it1 = di_n_runs it"
    using assms(1) by (auto simp: iteration_prepare_def rbind_def split: sum.splits)
  moreover have "di_n_runs it2 = di_n_runs it1 + 1"
    using assms(2) by (auto simp: iteration_run_def panic_simps)
  moreover have "di_n_runs it3 = di_n_runs it2" "di_n_runs it2 < MAX_RUNS"
    using assms(3) by (auto simp: iteration_cleanup_def panic_simps Let_def MIN_RUNS_def MAX_RUNS_def)
  ultimately show ?thesis
    by linarith
qed

function iterate_distributed ::
  "('m, 'ms, 'k) bench_factory \<Rightarrow> ('m, 'ms, 'k) AbstractDistributedBenchmark \<Rightarrow> clock \<Rightarrow> 'ms DistributedIteration \<Rightarrow>
    ('m, 'ms, 'k) BenchmarkMaster \<Rightarrow> ('m, 'ms, 'k) master_step" where
  "iterate_distributed by_label b clock it m =
    rbind (iteration_prepare b it) (\<lambda>it1.
    rbind (iteration_run b clock it1) (\<lambda>it2.
    rbind (cas RUN CLEANUP (ma_state m)) (\<lambda>state.
    rbind (iteration_cleanup b it2) (\<lambda>(it3, is_final).
    let (clients, responses) = call_all by_label (CleanupCommand is_final) (ma_clients m);
        m = m\<lparr>ma_state := state, ma_clients := clients\<rparr>
    in (case collect_results (map cleanup_response responses) of
          Inl e \<Rightarrow> Inr (m, Inl e)
        | Inr _ \<Rightarrow>
            if is_final then rbind (cas CLEANUP FINISHED (ma_state m)) (\<lambda>state.
              Inr (m\<lparr>ma_state := state\<rparr>, Inr (test_result (Inr (di_results it3)))))
            else rbind (cas CLEANUP RUN (ma_state m)) (\<lambda>state.
              iterate_distributed by_label b clock it3 (m\<lparr>ma_state := state\<rparr>)))))))"
  by pat_completeness auto

termination
  by (relation "Wellfounded.measure (\<lambda>(by_label, b, clock, it, m). MAX_RUNS - di_n_runs it)")
    (auto intro: iteration_continues)

declare iterate_distributed.simps [simp del]

definition run_distributed_benchmark ::
  "('m, 'ms, 'k) bench_factory \<Rightarrow> ('m, 'ms, 'k) AbstractDistributedBenchmark \<Rightarrow> clock \<Rightarrow> 'm \<Rightarrow>
    ('m, 'ms, 'k) BenchmarkMaster \<Rightarrow> ('m, 'ms, 'k) master_step" where
  "run_distributed_benchmark by_label b clock msg m =
    rbind (cas READY SETUP (ma_state m)) (\<lambda>state.
    rbind (ab_master_setup b msg (ma_number_of_clients m) (ab_new_master b)) (\<lambda>res.
    rbind (case res of
        Inl e \<Rightarrow> Inr (m, Inl e)
      | Inr (master, client_conf) \<Rightarrow>
          let (clients, responses) = call_all by_label (SetupCommand (ab_label b) client_conf) (ma_clients m);
              m = m\<lparr>ma_state := state, ma_clients := clients\<rparr>
          in (case collect_results (map setup_response responses) of
                Inl e \<Rightarrow> Inr (m, Inl e)
              | Inr client_data \<Rightarrow>
                  rbind (cas SETUP RUN (ma_state m)) (\<lambda>state.
                  iterate_distributed by_label b clock (DistributedIteration_new master client_data) (m\<lparr>ma_state := state\<rparr>))))
      (\<lambda>(m, res). Inr (m\<lparr>ma_state := READY\<rparr>, res))))"

definition shutdown_clients :: "('m, 'ms, 'k) bench_factory \<Rightarrow> ('m, 'ms, 'k) BenchmarkMaster \<Rightarrow>
    ('m, 'ms, 'k) BenchmarkMaster \<times> ('m, 'ms, 'k) client_state process list" where
  "shutdown_clients by_label m =
    (m\<lparr>ma_clients := [], ma_state := STOPPED\<rparr>, fst (call_all by_label ShutdownCommand (ma_clients m)))"

definition master_ready :: "('m, 'ms, 'k) BenchmarkMaster \<Rightarrow> bool" where
  "master_ready m \<longleftrightarrow> ma_state m = READY"

subsection \<open>Check-in\<close>

lemma check_in_loop_from:
  assumes "ma_state m = INIT" "ma_wait_for m = 0 \<or> length (ma_clients m) < ma_wait_for m"
  shows "check_in_loop cs m = Inr (let missing = ma_wait_for m - length (ma_clients m) in
    if 0 < ma_wait_for m \<and> missing \<le> length cs then m\<lparr>ma_clients := ma_clients m @ take missing cs, ma_state := READY\<rparr>
    else m\<lparr>ma_clients := ma_clients m @ cs\<rparr>)"
  using assms
proof (induction cs arbitrary: m)
  case Nil
  then show ?case
    by (auto simp: Let_def)
next
  case (Cons c cs)
  define m1 where "m1 = m\<lparr>ma_clients := ma_clients m @ [c]\<rparr>"
  show ?case
  proof (cases "Suc (length (ma_clients m)) = ma_wait_for m")
    case True
    then have "check_in_handler c m = Inr (m1\<lparr>ma_state := READY\<rparr>)"
      using Cons.prems(1) by (simp add: check_in_handler_def cas_def m1_def)
    moreover have "check_in_loop cs (m1\<lparr>ma_state := READY\<rparr>) = Inr (m1\<lparr>ma_state := READY\<rparr>)"
      by (cases cs) simp_all
    moreover have "ma_wait_for m - length (ma_clients m) = 1"
      using True by simp
    ultimately show ?thesis
      using Cons.prems(1) True by (simp add: m1_def)
  next
    case False
    then have "check_in_handler c m = Inr m1"
      using Cons.prems(1) by (simp add: check_in_handler_def m1_def)
    moreover have "ma_wait_for m1 = 0 \<or> length (ma_clients m1) < ma_wait_for m1" "ma_state m1 = INIT"
      using Cons.prems False by (auto simp: m1_def)
    moreover have "0 < ma_wait_for m \<Longrightarrow> ma_wait_for m - length (ma_clients m) = Suc (ma_wait_for m - Suc (length (ma_clients m)))"
      using Cons.prems(2) by auto
    ultimately show ?thesis
      using Cons.prems(1) Cons.IH [of m1] by (auto simp: m1_def Let_def)
  qed
qed

text \<open>C40: The master is ready after exactly \<open>wait_for\<close> check-ins, with the clients that checked in first; later ones are ignored. A
  master that waits for no client never becomes ready.\<close>

theorem master_waits_for_clients:
  "check_in_loop cs (BenchmarkMaster_new w) = Inr (
    if 0 < w \<and> w \<le> length cs then (BenchmarkMaster_new w)\<lparr>ma_clients := take w cs, ma_state := READY\<rparr>
    else (BenchmarkMaster_new w)\<lparr>ma_clients := cs\<rparr>)"
  using check_in_loop_from [of "BenchmarkMaster_new w" cs] by (auto simp: BenchmarkMaster_new_def)

text \<open>A client gives up after five failed attempts.\<close>

lemma checkin_loop_from:
  "attempts < MAX_ATTEMPTS \<Longrightarrow> checkin_loop attempts oks =
    (if True \<in> set (take (MAX_ATTEMPTS - attempts) oks) then Some True
     else if MAX_ATTEMPTS - attempts \<le> length oks then Some False else None)"
proof (induction oks arbitrary: attempts)
  case (Cons ok oks)
  define k where "k = MAX_ATTEMPTS - Suc attempts"
  have k: "MAX_ATTEMPTS - attempts = Suc k" "k = 0 \<longleftrightarrow> \<not> Suc attempts < MAX_ATTEMPTS"
    using Cons.prems by (auto simp: k_def)
  show ?case
    using Cons.IH [of "Suc attempts"] k by (cases "Suc attempts < MAX_ATTEMPTS") (auto simp: k_def [symmetric])
qed simp

subsection \<open>A distributed run\<close>

lemma collect_results_Inr: "collect_results (map Inr xs) = Inr xs"
  by (induction xs) simp_all

lemma collect_results_Inl: "Inl e \<in> set rs \<Longrightarrow> \<forall>r\<in>set rs. \<forall>e'. r = Inl e' \<longrightarrow> e' = e \<Longrightarrow> collect_results rs = Inl e"
proof (induction rs)
  case (Cons r rs)
  show ?case
  proof (cases r)
    case (Inr x)
    have "Inl e \<in> set rs"
      using Cons.prems(1) Inr by simp
    moreover have "\<forall>r\<in>set rs. \<forall>e'. r = Inl e' \<longrightarrow> e' = e"
      using Cons.prems(2) by (meson list.set_intros(2))
    ultimately have "collect_results rs = Inl e"
      by (rule Cons.IH)
    then show ?thesis
      using Inr by simp
  next
    case (Inl e')
    then show ?thesis
      using Cons.prems(2) by (metis collect_results.simps(2) list.set_intros(1))
  qed
qed simp

text \<open>What the harness relies on: the master accepts its configuration and the data of its clients, and neither side fails when it is
  called in the order of the protocol.\<close>

locale cooperative_bench =
  fixes by_label :: "('m, 'ms, 'k) bench_factory"
    and b :: "('m, 'ms, 'k) AbstractDistributedBenchmark"
    and msg :: 'm
    and n :: u32
    and idle :: "'ms \<Rightarrow> bool"
    and prepared :: "'ms \<Rightarrow> bool"
    and ran :: "'ms \<Rightarrow> bool"
    and good_conf :: "string \<Rightarrow> bool"
    and good_data :: "string \<Rightarrow> bool"
    and client_set_up :: "'k \<Rightarrow> bool"
    and client_prepared :: "'k \<Rightarrow> bool"
  assumes known: "by_label (ab_label b) = Inr (DistributedBench b)"
    and master_setup: "\<exists>ms conf. ab_master_setup b msg n (ab_new_master b) = Inr (Inr (ms, conf)) \<and> idle ms \<and> good_conf conf"
    and master_prepare: "idle ms \<Longrightarrow> ds \<noteq> [] \<Longrightarrow> \<forall>d\<in>set ds. good_data d \<Longrightarrow>
      \<exists>ms'. ab_master_prepare b ds ms = Inr (Inr ms') \<and> prepared ms'"
    and master_run: "prepared ms \<Longrightarrow> \<exists>ms'. ab_master_run b ms = Inr ms' \<and> ran ms'"
    and master_cleanup: "ran ms \<Longrightarrow> \<exists>ms'. ab_master_cleanup b final t ms = Inr ms' \<and> (\<not> final \<longrightarrow> idle ms')"
    and client_setup: "good_conf conf \<Longrightarrow>
      \<exists>k d. ab_client_setup b conf (ab_new_client b) = Inr (Inr (k, d)) \<and> client_set_up k \<and> good_data d"
    and client_prepare: "client_set_up k \<Longrightarrow> \<exists>k'. ab_client_prepare b k = Inr k' \<and> client_prepared k'"
    and client_cleanup: "client_prepared k \<Longrightarrow> \<exists>k'. ab_client_cleanup b final k = Inr k' \<and> (\<not> final \<longrightarrow> client_set_up k')"
begin

definition waiting_client :: "('m, 'ms, 'k) client_state process \<Rightarrow> bool" where
  "waiting_client p \<longleftrightarrow> (\<exists>st. p = Alive st \<and> st \<noteq> ClientStopped)"

definition running_client :: "('m, 'ms, 'k) client_state process \<Rightarrow> bool" where
  "running_client p \<longleftrightarrow> (\<exists>k. p = Alive (Running b k) \<and> client_prepared k)"

lemma call_setup_one:
  assumes "good_conf conf" "waiting_client p"
  shows "\<exists>p' d. remote_call by_label (SetupCommand (ab_label b) conf) p = (p', Some (SetupDone d)) \<and> running_client p' \<and> good_data d"
proof -
  obtain st where p: "p = Alive st" "st \<noteq> ClientStopped"
    using assms(2) by (auto simp: waiting_client_def)
  obtain k d where k: "ab_client_setup b conf (ab_new_client b) = Inr (Inr (k, d))" "client_set_up k" "good_data d"
    using client_setup [OF assms(1)] by blast
  obtain k' where k': "ab_client_prepare b k = Inr k'" "client_prepared k'"
    using client_prepare [OF k(2)] by blast
  have "client_command by_label (SetupCommand (ab_label b) conf) st = Inr (Running b k', SetupDone d)"
    using known k(1) k'(1) by simp
  then have "remote_call by_label (SetupCommand (ab_label b) conf) p = (Alive (Running b k'), Some (SetupDone d))"
    using p by (cases st) (simp_all add: remote_call_def)
  then show ?thesis
    using k(3) k'(2) by (auto simp: running_client_def)
qed

lemma call_cleanup_one:
  assumes "running_client p"
  shows "\<exists>p'. remote_call by_label (CleanupCommand final) p = (p', Some CleanupDone) \<and>
    (if final then p' = Alive ClientReady else running_client p')"
proof -
  obtain k where p: "p = Alive (Running b k)" "client_prepared k"
    using assms by (auto simp: running_client_def)
  obtain k' where k': "ab_client_cleanup b final k = Inr k'" "\<not> final \<longrightarrow> client_set_up k'"
    using client_cleanup [OF p(2)] by blast
  show ?thesis
    using p k' client_prepare [of k'] by (cases final) (auto simp: remote_call_def running_client_def)
qed

lemma call_setup:
  "good_conf conf \<Longrightarrow> \<forall>p\<in>set cs. waiting_client p \<Longrightarrow>
    \<exists>cs' ds. call_all by_label (SetupCommand (ab_label b) conf) cs = (cs', map (\<lambda>d. Some (SetupDone d)) ds) \<and>
      length cs' = length cs \<and> length ds = length cs \<and> (\<forall>p\<in>set cs'. running_client p) \<and> (\<forall>d\<in>set ds. good_data d)"
proof (induction cs)
  case (Cons p cs)
  obtain cs' ds where 1: "call_all by_label (SetupCommand (ab_label b) conf) cs = (cs', map (\<lambda>d. Some (SetupDone d)) ds)"
    "length cs' = length cs" "length ds = length cs" "\<forall>p\<in>set cs'. running_client p" "\<forall>d\<in>set ds. good_data d"
    using Cons by auto
  obtain p' d where 2: "remote_call by_label (SetupCommand (ab_label b) conf) p = (p', Some (SetupDone d))" "running_client p'" "good_data d"
    using call_setup_one [OF Cons.prems(1), of p] Cons.prems(2) by auto
  show ?case
    using 1 2 by (intro exI [of _ "p' # cs'"] exI [of _ "d # ds"]) (simp add: call_all_def Let_def)
qed (simp add: call_all_def)

lemma call_cleanup:
  "\<forall>p\<in>set cs. running_client p \<Longrightarrow>
    \<exists>cs'. call_all by_label (CleanupCommand final) cs = (cs', map (\<lambda>_. Some CleanupDone) cs) \<and> length cs' = length cs \<and>
      (if final then cs' = replicate (length cs) (Alive ClientReady) else \<forall>p\<in>set cs'. running_client p)"
proof (induction cs)
  case (Cons p cs)
  obtain cs' where 1: "call_all by_label (CleanupCommand final) cs = (cs', map (\<lambda>_. Some CleanupDone) cs)" "length cs' = length cs"
    "if final then cs' = replicate (length cs) (Alive ClientReady) else \<forall>p\<in>set cs'. running_client p"
    using Cons by auto
  obtain p' where 2: "remote_call by_label (CleanupCommand final) p = (p', Some CleanupDone)"
    "if final then p' = Alive ClientReady else running_client p'"
    using call_cleanup_one Cons.prems by (metis list.set_intros(1))
  show ?case
    using 1 2 by (intro exI [of _ "p' # cs'"]) (auto simp: call_all_def Let_def)
qed (simp add: call_all_def)

definition ready_to_iterate :: "nat \<Rightarrow> clock \<Rightarrow> 'ms DistributedIteration \<Rightarrow> ('m, 'ms, 'k) BenchmarkMaster \<Rightarrow> bool" where
  "ready_to_iterate j clock it m \<longleftrightarrow> di_n_runs it = j \<and> di_results it = run_times clock j \<and> idle (di_master it) \<and>
     di_client_data it \<noteq> [] \<and> (\<forall>d\<in>set (di_client_data it). good_data d) \<and> ma_state m = RUN \<and> (\<forall>p\<in>set (ma_clients m). running_client p)"

end

lemma final_iff:
  assumes "j < runs_needed clock"
  shows "Suc j < MIN_RUNS \<or> Suc j < MAX_RUNS \<and> f64_gt (rse (run_times clock (Suc j))) RSE_TARGET \<longleftrightarrow> Suc j \<noteq> runs_needed clock"
proof (cases "Suc j = runs_needed clock")
  case True
  then show ?thesis
    using runs_needed_bounds [of clock] runs_needed_stop [of clock] by (auto simp: noisy_def)
next
  case False
  then have "Suc j < runs_needed clock"
    using assms by simp
  then show ?thesis
    using False runs_needed_first [of "Suc j" clock]
    by (cases "MIN_RUNS \<le> Suc j") (simp_all add: noisy_def del: run_times_simps)
qed

context cooperative_bench
begin

lemma iterate_step:
  assumes "ready_to_iterate j clock it m" "j < runs_needed clock"
  shows "\<exists>it' cs. length cs = length (ma_clients m) \<and>
    (if Suc j = runs_needed clock
     then cs = replicate (length (ma_clients m)) (Alive ClientReady) \<and> iterate_distributed by_label b clock it m =
       Inr (m\<lparr>ma_clients := cs, ma_state := FINISHED\<rparr>, Inr (test_result (Inr (run_times clock (Suc j)))))
     else ready_to_iterate (Suc j) clock it' (m\<lparr>ma_clients := cs, ma_state := RUN\<rparr>) \<and> iterate_distributed by_label b clock it m =
       iterate_distributed by_label b clock it' (m\<lparr>ma_clients := cs, ma_state := RUN\<rparr>))"
proof -
  let ?final = "Suc j = runs_needed clock"
  have it: "di_n_runs it = j" "di_results it = run_times clock j" "idle (di_master it)" "di_client_data it \<noteq> []"
    "\<forall>d\<in>set (di_client_data it). good_data d" "ma_state m = RUN" "\<forall>p\<in>set (ma_clients m). running_client p"
    using assms(1) by (simp_all add: ready_to_iterate_def)
  obtain m1 where m1: "ab_master_prepare b (di_client_data it) (di_master it) = Inr (Inr m1)" "prepared m1"
    using master_prepare [OF it(3-5)] by blast
  obtain m2 where m2: "ab_master_run b m1 = Inr m2" "ran m2"
    using master_run [OF m1(2)] by blast
  obtain m3 where m3: "ab_master_cleanup b ?final (measure_ms (clock j)) m2 = Inr m3" "\<not> ?final \<longrightarrow> idle m3"
    using master_cleanup [OF m2(2)] by blast
  obtain cs where cs: "call_all by_label (CleanupCommand ?final) (ma_clients m) = (cs, map (\<lambda>_. Some CleanupDone) (ma_clients m))"
    "length cs = length (ma_clients m)"
    "if ?final then cs = replicate (length (ma_clients m)) (Alive ClientReady) else \<forall>p\<in>set cs. running_client p"
    using call_cleanup [OF it(7), of ?final] by blast
  define it2 where "it2 = it\<lparr>di_master := m2, di_results := run_times clock (Suc j), di_n_runs := Suc j\<rparr>"
  define it3 where "it3 = it2\<lparr>di_master := m3\<rparr>"
  have p: "iteration_prepare b it = Inr (it\<lparr>di_master := m1\<rparr>)"
    by (simp add: iteration_prepare_def m1(1))
  have q: "iteration_run b clock (it\<lparr>di_master := m1\<rparr>) = Inr it2"
    using it(1,2) by (simp add: iteration_run_def m2(1) it2_def)
  have l: "last_result (run_times clock (Suc j)) = Inr (measure_ms (clock j))"
    by (simp add: last_result_def)
  have "iteration_cleanup b it2 = Inr (it3, ?final)"
    using final_iff [OF assms(2)] l m3(1) by (simp add: iteration_cleanup_def it2_def it3_def Let_def)
  moreover have "collect_results (map cleanup_response (map (\<lambda>_. Some CleanupDone) (ma_clients m))) = Inr (map (\<lambda>_. ()) (ma_clients m))"
    using collect_results_Inr [of "map (\<lambda>_. ()) (ma_clients m)"] by (simp add: comp_def cleanup_response_def)
  ultimately have "iterate_distributed by_label b clock it m =
      (if ?final then Inr (m\<lparr>ma_clients := cs, ma_state := FINISHED\<rparr>, Inr (test_result (Inr (run_times clock (Suc j)))))
       else iterate_distributed by_label b clock it3 (m\<lparr>ma_clients := cs, ma_state := RUN\<rparr>))"
    using cs(1) it(6) p q
    by (subst iterate_distributed.simps) (simp add: cas_def Let_def it3_def it2_def del: run_times_simps)
  moreover have "\<not> ?final \<longrightarrow> ready_to_iterate (Suc j) clock it3 (m\<lparr>ma_clients := cs, ma_state := RUN\<rparr>)"
    using it(4,5) m3(2) cs(3) by (auto simp: ready_to_iterate_def it3_def it2_def)
  ultimately show ?thesis
    using cs(2,3) by (intro exI [of _ it3] exI [of _ cs]) auto
qed

lemma iterate_ends:
  assumes "ready_to_iterate j clock it m" "j < runs_needed clock"
  shows "iterate_distributed by_label b clock it m =
    Inr (m\<lparr>ma_clients := replicate (length (ma_clients m)) (Alive ClientReady), ma_state := FINISHED\<rparr>,
      Inr (test_result (Inr (run_times clock (runs_needed clock)))))"
  using assms
proof (induction "runs_needed clock - j" arbitrary: j it m)
  case (Suc k)
  obtain it' cs where 1: "length cs = length (ma_clients m)"
    "if Suc j = runs_needed clock
     then cs = replicate (length (ma_clients m)) (Alive ClientReady) \<and> iterate_distributed by_label b clock it m =
       Inr (m\<lparr>ma_clients := cs, ma_state := FINISHED\<rparr>, Inr (test_result (Inr (run_times clock (Suc j)))))
     else ready_to_iterate (Suc j) clock it' (m\<lparr>ma_clients := cs, ma_state := RUN\<rparr>) \<and> iterate_distributed by_label b clock it m =
       iterate_distributed by_label b clock it' (m\<lparr>ma_clients := cs, ma_state := RUN\<rparr>)"
    using iterate_step [OF Suc.prems] by blast
  show ?case
  proof (cases "Suc j = runs_needed clock")
    case False
    have "k = runs_needed clock - Suc j" "Suc j < runs_needed clock"
      using Suc.hyps(2) Suc.prems(2) False by simp_all
    then show ?thesis
      using Suc.hyps(1) [of "Suc j" it' "m\<lparr>ma_clients := cs, ma_state := RUN\<rparr>"] 1 False by simp
  qed (use 1 in simp)
qed simp

theorem distributed_run:
  assumes "ma_state m = READY" "ma_number_of_clients m = n" "ma_clients m \<noteq> []" "\<forall>p\<in>set (ma_clients m). waiting_client p"
  shows "run_distributed_benchmark by_label b clock msg m =
    Inr (m\<lparr>ma_clients := replicate (length (ma_clients m)) (Alive ClientReady)\<rparr>,
      Inr (test_result (Inr (run_times clock (runs_needed clock)))))"
proof -
  obtain ms conf where ms: "ab_master_setup b msg n (ab_new_master b) = Inr (Inr (ms, conf))" "idle ms" "good_conf conf"
    using master_setup by blast
  obtain cs ds where cs: "call_all by_label (SetupCommand (ab_label b) conf) (ma_clients m) = (cs, map (\<lambda>d. Some (SetupDone d)) ds)"
    "length cs = length (ma_clients m)" "length ds = length (ma_clients m)" "\<forall>p\<in>set cs. running_client p" "\<forall>d\<in>set ds. good_data d"
    using call_setup [OF ms(3) assms(4)] by blast
  have "collect_results (map setup_response (map (\<lambda>d. Some (SetupDone d)) ds)) = Inr ds"
    using collect_results_Inr [of ds] by (simp add: comp_def setup_response_def)
  moreover have "ready_to_iterate 0 clock (DistributedIteration_new ms ds) (m\<lparr>ma_clients := cs, ma_state := RUN\<rparr>)"
    using ms(2) cs(3-5) assms(3) by (auto simp: ready_to_iterate_def DistributedIteration_new_def)
  moreover have "0 < runs_needed clock"
    using runs_needed_bounds(1) [of clock] by (simp add: MIN_RUNS_def)
  ultimately show ?thesis
    using assms(1,2) ms(1) cs(1,2)
    by (cases m) (simp add: run_distributed_benchmark_def cas_def Let_def iterate_ends)
qed

text \<open>When one client does not answer, the others are left running.\<close>

theorem failed_setup:
  assumes "ma_state m = READY" "ma_number_of_clients m = n" "Crashed \<in> set (ma_clients m)"
    "\<forall>p\<in>set (ma_clients m). p = Crashed \<or> waiting_client p"
  shows "\<exists>m'. run_distributed_benchmark by_label b clock msg m = Inr (m', Inl RPCError) \<and> ma_state m' = READY \<and>
    length (ma_clients m') = length (ma_clients m) \<and> (\<forall>p\<in>set (ma_clients m'). p = Crashed \<or> running_client p)"
proof -
  obtain ms conf where ms: "ab_master_setup b msg n (ab_new_master b) = Inr (Inr (ms, conf))" "idle ms" "good_conf conf"
    using master_setup by blast
  let ?cmd = "SetupCommand (ab_label b) conf"
  have crashed: "remote_call by_label ?cmd Crashed = (Crashed, None)"
    by (simp add: remote_call_def)
  have one: "fst (remote_call by_label ?cmd p) = Crashed \<or> running_client (fst (remote_call by_label ?cmd p))"
    "e \<noteq> RPCError \<Longrightarrow> setup_response (snd (remote_call by_label ?cmd p)) \<noteq> Inl e"
    if p: "p \<in> set (ma_clients m)" for p e
  proof -
    consider "p = Crashed" | p' d where "remote_call by_label ?cmd p = (p', Some (SetupDone d))" "running_client p'"
      using call_setup_one [OF ms(3), of p] assms(4) p by blast
    then show "fst (remote_call by_label ?cmd p) = Crashed \<or> running_client (fst (remote_call by_label ?cmd p))"
      "e \<noteq> RPCError \<Longrightarrow> setup_response (snd (remote_call by_label ?cmd p)) \<noteq> Inl e"
      using crashed by (cases; simp add: setup_response_def)+
  qed
  have "collect_results (map setup_response (snd (call_all by_label ?cmd (ma_clients m)))) = Inl RPCError"
  proof (rule collect_results_Inl)
    show "Inl RPCError \<in> set (map setup_response (snd (call_all by_label ?cmd (ma_clients m))))"
      using assms(3) crashed by (force simp: call_all_def Let_def setup_response_def)
    show "\<forall>r\<in>set (map setup_response (snd (call_all by_label ?cmd (ma_clients m)))). \<forall>e. r = Inl e \<longrightarrow> e = RPCError"
      using one(2) by (auto simp: call_all_def Let_def)
  qed
  then have "run_distributed_benchmark by_label b clock msg m =
      Inr (m\<lparr>ma_clients := fst (call_all by_label ?cmd (ma_clients m)), ma_state := READY\<rparr>, Inl RPCError)"
    using assms(1,2) ms(1) by (cases m) (simp add: run_distributed_benchmark_def cas_def split_beta Let_def)
  then show ?thesis
    using one(1) by (auto simp: call_all_def Let_def)
qed

end

end
