(* ===== verification/Net_Ping_Pong_Bench.thy ===== *)
theory Net_Ping_Pong_Bench
  imports Ping_Pong_Bench Benchmark_Deployment
begin

text \<open>
  The networked ping-pong and throughput benchmarks (\<open>netpingpong.rs\<close>, \<open>net_throughput_pingpong.rs\<close>) as distributed benchmarks: configuration
  and data of a client as strings, the master with its pingers and the client with its pongers. Actor paths and their text
  are those of the actor library and a parameter here.
\<close>

subsection \<open>Numbers, truth values and lists as text\<close>

definition digit_char :: "nat \<Rightarrow> char" where
  "digit_char d = char_of (48 + d)"

fun dec_digits :: "nat \<Rightarrow> string" where
  "dec_digits n = (if n < 10 then [digit_char n] else dec_digits (n div 10) @ [digit_char (n mod 10)])"

declare dec_digits.simps [simp del]

definition show_bool :: "bool \<Rightarrow> string" where
  "show_bool b = (if b then ''true'' else ''false'')"

text \<open>\<open>u32::from_str\<close> takes a sign, needs a digit and fails on overflow.\<close>

definition digit_of :: "char \<Rightarrow> nat option" where
  "digit_of c = (let n = of_char c in if 48 \<le> n \<and> n < 58 then Some (n - 48) else None)"

fun parse_digits :: "nat \<Rightarrow> string \<Rightarrow> nat option" where
  "parse_digits acc [] = Some acc"
| "parse_digits acc (c # cs) =
    (case digit_of c of
       None \<Rightarrow> None
     | Some d \<Rightarrow> if acc * 10 + d < 2 ^ 32 then parse_digits (acc * 10 + d) cs else None)"

definition parse_u32 :: "string \<Rightarrow> u32 option" where
  "parse_u32 str =
    (let ds = (case str of c # cs \<Rightarrow> if c = CHR ''+'' then cs else str | [] \<Rightarrow> [])
     in if ds = [] then None else map_option word_of_nat (parse_digits 0 ds))"

definition parse_bool :: "string \<Rightarrow> bool option" where
  "parse_bool str = (if str = ''true'' then Some True else if str = ''false'' then Some False else None)"

fun split_on :: "char \<Rightarrow> string \<Rightarrow> string list" where
  "split_on sep [] = [[]]"
| "split_on sep (c # cs) =
    (if c = sep then [] # split_on sep cs
     else case split_on sep cs of [] \<Rightarrow> [[c]] | w # ws \<Rightarrow> (c # w) # ws)"

fun join_with :: "char \<Rightarrow> string list \<Rightarrow> string" where
  "join_with sep [] = []"
| "join_with sep [w] = w"
| "join_with sep (w # ws) = w @ sep # join_with sep ws"

lemma split_on_no_sep: "sep \<notin> set w \<Longrightarrow> split_on sep w = [w]"
  by (induction w) auto

lemma split_on_append: "sep \<notin> set w \<Longrightarrow> split_on sep (w @ sep # rest) = w # split_on sep rest"
  by (induction w) auto

lemma split_join: "ws \<noteq> [] \<Longrightarrow> \<forall>w\<in>set ws. sep \<notin> set w \<Longrightarrow> split_on sep (join_with sep ws) = ws"
  by (induction sep ws rule: join_with.induct) (auto simp: split_on_no_sep split_on_append)

lemma digit_of_digit_char [simp]: "d < 10 \<Longrightarrow> digit_of (digit_char d) = Some d"
  by (simp add: digit_of_def digit_char_def Let_def)

lemma parse_digits_append:
  "parse_digits acc (xs @ ys) = (case parse_digits acc xs of None \<Rightarrow> None | Some acc' \<Rightarrow> parse_digits acc' ys)"
  by (induction xs arbitrary: acc) (auto split: option.split)

lemma parse_dec_digits: "n < 2 ^ 32 \<Longrightarrow> parse_digits 0 (dec_digits n) = Some n"
proof (induction n rule: dec_digits.induct)
  case (1 n)
  show ?case
  proof (cases "n < 10")
    case False
    then have "parse_digits 0 (dec_digits (n div 10)) = Some (n div 10)"
      using 1 by simp
    then show ?thesis
      using False 1(2) by (subst dec_digits.simps) (simp add: parse_digits_append)
  qed (use 1(2) in \<open>simp add: dec_digits.simps\<close>)
qed

lemma dec_digits_chars: "c \<in> set (dec_digits n) \<Longrightarrow> \<exists>d<10. c = digit_char d"
proof (induction n rule: dec_digits.induct)
  case (1 n)
  show ?case
  proof (cases "n < 10")
    case False
    then have "c \<in> set (dec_digits (n div 10)) \<or> c = digit_char (n mod 10)"
      using 1(2) by (subst (asm) dec_digits.simps) auto
    then show ?thesis
      using 1(1) [OF False] by (auto intro: exI [of _ "n mod 10"])
  qed (use 1(2) in \<open>auto simp: dec_digits.simps\<close>)
qed

lemma digit_char_neq [simp]: "d < 10 \<Longrightarrow> digit_char d \<noteq> CHR '',''" "d < 10 \<Longrightarrow> digit_char d \<noteq> CHR ''+''"
  by (auto simp: digit_char_def dest!: arg_cong [where f = "of_char :: char \<Rightarrow> nat"])

lemma dec_digits_nonempty: "dec_digits n \<noteq> []"
  by (subst dec_digits.simps) simp

lemma parse_show_u32: "parse_u32 (dec_digits (unat w)) = Some w"
proof -
  obtain c cs where c: "dec_digits (unat w) = c # cs"
    using dec_digits_nonempty by (cases "dec_digits (unat w)") auto
  then have "c \<noteq> CHR ''+''"
    using dec_digits_chars [of c "unat w"] by auto
  then show ?thesis
    using parse_dec_digits [of "unat w"] c by (simp add: parse_u32_def)
qed

lemma parse_show_bool [simp]: "parse_bool (show_bool b) = Some b"
  by (simp add: parse_bool_def show_bool_def)

subsection \<open>Networked ping-pong\<close>

record ('p, 'g) PingPongMaster =
  pm_num :: "u64 option"
  pm_system :: "unit option"
  pm_pinger :: "'g option"
  pm_ponger :: "'p option"
  pm_latch :: "nat option"

definition PingPongMaster_new :: "('p, Pinger) PingPongMaster" where
  "PingPongMaster_new = \<lparr>pm_num = None, pm_system = None, pm_pinger = None, pm_ponger = None, pm_latch = None\<rparr>"

definition pm_setup :: "u64 \<Rightarrow> u32 \<Rightarrow> ('p, Pinger) PingPongMaster \<Rightarrow> (BenchmarkError + ('p, Pinger) PingPongMaster \<times> unit) rust" where
  "pm_setup c meta m = Inr (Inr (m\<lparr>pm_num := Some c, pm_system := Some ()\<rparr>, ()))"

definition pm_prepare_iteration :: "'p list \<Rightarrow> ('p, Pinger) PingPongMaster \<Rightarrow> ('p, Pinger) PingPongMaster rust" where
  "pm_prepare_iteration d m =
    rbind (case pm_ponger m of Some p \<Rightarrow> Inr m | None \<Rightarrow> rbind (rget d 0) (\<lambda>p. Inr (m\<lparr>pm_ponger := Some p\<rparr>))) (\<lambda>m.
    case pm_num m of
      Some num \<Rightarrow> (case pm_system m of
          Some system \<Rightarrow> Inr (m\<lparr>pm_pinger := Some (Pinger_with num), pm_latch := Some 1\<rparr>)
        | None \<Rightarrow> Inl PanicCall)
    | None \<Rightarrow> Inl PanicCall)"

definition pm_run_iteration ::
  "(Pinger, wire_message, wire_message) scheduler \<Rightarrow> ('p, Pinger) PingPongMaster \<Rightarrow> ('p, Pinger) PingPongMaster rust" where
  "pm_run_iteration pick m =
    (case pm_system m of
       Some system \<Rightarrow>
         rbind (runwrap (pm_latch m)) (\<lambda>latch.
         case pm_pinger m of
           Some pngr \<Rightarrow> rbind (await_latch net_pinger pick (one_pair pngr latch)) (\<lambda>_. Inr (m\<lparr>pm_latch := None\<rparr>))
         | None \<Rightarrow> Inl PanicCall)
     | None \<Rightarrow> Inl PanicCall)"

definition pm_cleanup_iteration :: "bool \<Rightarrow> f64 \<Rightarrow> ('p, Pinger) PingPongMaster \<Rightarrow> ('p, Pinger) PingPongMaster rust" where
  "pm_cleanup_iteration last_iteration exec_time m =
    rbind (runwrap (pm_system m)) (\<lambda>system.
    rbind (runwrap (pm_pinger m)) (\<lambda>pinger.
    let m = m\<lparr>pm_system := None, pm_pinger := None\<rparr>
    in Inr (if last_iteration then m\<lparr>pm_num := None\<rparr> else m\<lparr>pm_system := Some system\<rparr>)))"

record PingPongClient =
  pk_system :: "unit option"
  pk_ponger :: "unit option"

definition PingPongClient_new :: PingPongClient where
  "PingPongClient_new = \<lparr>pk_system = None, pk_ponger = None\<rparr>"

text \<open>\<open>named_path\<close> is the path under which the client registers its ponger.\<close>

definition pk_setup :: "'p \<Rightarrow> unit \<Rightarrow> PingPongClient \<Rightarrow> (PingPongClient \<times> 'p) rust" where
  "pk_setup named_path c k = Inr (k\<lparr>pk_system := Some (), pk_ponger := Some ()\<rparr>, named_path)"

definition pk_prepare_iteration :: "PingPongClient \<Rightarrow> PingPongClient rust" where
  "pk_prepare_iteration k = Inr k"

definition pk_cleanup_iteration :: "bool \<Rightarrow> PingPongClient \<Rightarrow> PingPongClient rust" where
  "pk_cleanup_iteration last_iteration k =
    (if last_iteration then
       rbind (runwrap (pk_system k)) (\<lambda>system.
       rbind (runwrap (pk_ponger k)) (\<lambda>ponger.
       Inr (k\<lparr>pk_system := None, pk_ponger := None\<rparr>)))
     else Inr k)"

text \<open>The text of an actor path, and a path read from a text.\<close>

record 'p path_api =
  path_to_string :: "'p \<Rightarrow> string"
  path_from_str :: "string \<Rightarrow> 'p option"

definition path_to_data :: "'p path_api \<Rightarrow> string \<Rightarrow> BenchmarkError + 'p" where
  "path_to_data paths str = (case path_from_str paths str of Some p \<Rightarrow> Inr p | None \<Rightarrow> Inl (InvalidMessage str))"

definition net_ping_pong ::
  "'p path_api \<Rightarrow> 'p \<Rightarrow> (Pinger, wire_message, wire_message) scheduler \<Rightarrow>
    (bench_request, u64, unit, 'p, ('p, Pinger) PingPongMaster, PingPongClient) DistributedBenchmark" where
  "net_ping_pong paths named_path pick = \<lparr>db_label = ''NetPingPong'', db_msg_to_master_conf = ping_pong_conf,
     db_str_to_client_conf = (\<lambda>str. Inr ()), db_str_to_client_data = path_to_data paths,
     db_client_conf_to_str = (\<lambda>c. []), db_client_data_to_str = path_to_string paths,
     db_new_master = PingPongMaster_new, db_master_setup = pm_setup, db_master_prepare = pm_prepare_iteration,
     db_master_run = pm_run_iteration pick, db_master_cleanup = pm_cleanup_iteration,
     db_new_client = PingPongClient_new, db_client_setup = pk_setup named_path, db_client_prepare = pk_prepare_iteration,
     db_client_cleanup = pk_cleanup_iteration\<rparr>"

subsection \<open>Networked throughput\<close>

record ClientParams =
  cp_num_pongers :: u32
  cp_static_only :: bool

definition client_conf_to_str :: "ClientParams \<Rightarrow> string" where
  "client_conf_to_str c = dec_digits (unat (cp_num_pongers c)) @ '','' @ show_bool (cp_static_only c)"

definition str_to_client_conf :: "string \<Rightarrow> BenchmarkError + ClientParams" where
  "str_to_client_conf str =
    (let ws = split_on (CHR '','') str
     in if length ws \<noteq> 2 then Inl (InvalidMessage str)
        else case parse_u32 (ws ! 0) of
            None \<Rightarrow> Inl (InvalidMessage str)
          | Some num \<Rightarrow> (case parse_bool (ws ! 1) of
                None \<Rightarrow> Inl (InvalidMessage str)
              | Some static_only \<Rightarrow> Inr \<lparr>cp_num_pongers = num, cp_static_only = static_only\<rparr>))"

definition client_data_to_str :: "'p path_api \<Rightarrow> 'p list \<Rightarrow> string" where
  "client_data_to_str paths d = join_with (CHR '','') (map (path_to_string paths) d)"

definition str_to_client_data :: "'p path_api \<Rightarrow> string \<Rightarrow> BenchmarkError + 'p list" where
  "str_to_client_data paths str = collect_results (map (path_to_data paths) (split_on (CHR '','') str))"

record ('p, 'g) ThroughputMaster =
  tm_params :: "Params option"
  tm_system :: "unit option"
  tm_pingers :: "('g, 'g) EitherComponents"
  tm_pinger_refs :: "nat list"
  tm_pongers :: "'p list"
  tm_latch :: "nat option"

definition ThroughputMaster_new :: "('p, ThroughputPinger) ThroughputMaster" where
  "ThroughputMaster_new = \<lparr>tm_params = None, tm_system = None, tm_pingers = EmptyComponents, tm_pinger_refs = [], tm_pongers = [],
     tm_latch = None\<rparr>"

definition tm_setup ::
  "ThroughputPingPongRequest \<Rightarrow> u32 \<Rightarrow> ('p, ThroughputPinger) ThroughputMaster \<Rightarrow>
    (BenchmarkError + ('p, ThroughputPinger) ThroughputMaster \<times> ClientParams) rust" where
  "tm_setup c meta m =
    (let params = Params_from_req c
     in Inr (Inr (m\<lparr>tm_system := Some (), tm_params := Some params\<rparr>,
          \<lparr>cp_num_pongers = pa_num_pairs params, cp_static_only = pa_static_only params\<rparr>)))"

definition tm_prepare_iteration ::
  "'p list list \<Rightarrow> ('p, ThroughputPinger) ThroughputMaster \<Rightarrow> ('p, ThroughputPinger) ThroughputMaster rust" where
  "tm_prepare_iteration d m =
    rbind (rget d 0) (\<lambda>pongers.
    let m = m\<lparr>tm_pongers := pongers\<rparr>
    in case tm_params m of
         Some params \<Rightarrow> (case tm_system m of
             Some system \<Rightarrow>
               rbind (rassert (length (tm_pongers m) = unat (pa_num_pairs params))) (\<lambda>_.
               let vpi = map (\<lambda>ponger_ref. ThroughputPinger_with (pa_num_msgs params) (pa_pipeline params)) (tm_pongers m);
                   pingers = (if pa_static_only params then StaticOnly vpi else NonStatic vpi)
               in rbind (expect_result (start_all pingers)) (\<lambda>_.
                  Inr (m\<lparr>tm_pinger_refs := tm_pinger_refs m @ [0..<length (tm_pongers m)], tm_pingers := pingers,
                    tm_latch := Some (unat (pa_num_pairs params))\<rparr>)))
           | None \<Rightarrow> Inl PanicCall)
       | None \<Rightarrow> Inl PanicCall)"

definition tm_run_iteration ::
  "(ThroughputPinger, wire_message, wire_message) scheduler \<Rightarrow> ('p, ThroughputPinger) ThroughputMaster \<Rightarrow>
    ('p, ThroughputPinger) ThroughputMaster rust" where
  "tm_run_iteration pick m =
    (case tm_system m of
       Some system \<Rightarrow>
         rbind (runwrap (tm_latch m)) (\<lambda>latch.
         rbind (await_either net_static_pinger net_indexed_pinger pick pick (\<lambda>k. k \<in> set (tm_pinger_refs m)) (tm_pingers m) latch) (\<lambda>_.
         Inr (m\<lparr>tm_latch := None\<rparr>)))
     | None \<Rightarrow> Inl PanicCall)"

definition tm_cleanup_iteration ::
  "bool \<Rightarrow> f64 \<Rightarrow> ('p, ThroughputPinger) ThroughputMaster \<Rightarrow> ('p, ThroughputPinger) ThroughputMaster rust" where
  "tm_cleanup_iteration last_iteration exec_time m =
    rbind (runwrap (tm_system m)) (\<lambda>system.
    rbind (expect_result (kill_all (tm_pingers m))) (\<lambda>_.
    let m = m\<lparr>tm_system := None, tm_pinger_refs := [], tm_pingers := EmptyComponents\<rparr>
    in Inr (if last_iteration then m\<lparr>tm_params := None\<rparr> else m\<lparr>tm_system := Some system\<rparr>)))"

record ThroughputClient =
  tk_system :: "unit option"
  tk_pongers :: "(unit, unit) EitherComponents"

definition ThroughputClient_new :: ThroughputClient where
  "ThroughputClient_new = \<lparr>tk_system = None, tk_pongers = EmptyComponents\<rparr>"

text \<open>\<open>new_path\<close> gives the path of the k-th ponger.\<close>

definition tk_setup :: "(nat \<Rightarrow> 'p) \<Rightarrow> ClientParams \<Rightarrow> ThroughputClient \<Rightarrow> (ThroughputClient \<times> 'p list) rust" where
  "tk_setup new_path c k =
    (let n = unat (cp_num_pongers c);
         pongers = (if cp_static_only c then StaticOnly (replicate n ()) else NonStatic (replicate n ()))
     in rbind (expect_result (start_all pongers)) (\<lambda>_.
        Inr (k\<lparr>tk_system := Some (), tk_pongers := pongers\<rparr>, map new_path [0..<n])))"

definition tk_prepare_iteration :: "ThroughputClient \<Rightarrow> ThroughputClient rust" where
  "tk_prepare_iteration k = Inr k"

definition tk_cleanup_iteration :: "bool \<Rightarrow> ThroughputClient \<Rightarrow> ThroughputClient rust" where
  "tk_cleanup_iteration last_iteration k =
    (if last_iteration then
       rbind (runwrap (tk_system k)) (\<lambda>system.
       rbind (expect_result (kill_all (tk_pongers k))) (\<lambda>_.
       Inr (k\<lparr>tk_system := None, tk_pongers := EmptyComponents\<rparr>)))
     else Inr k)"

definition net_throughput ::
  "'p path_api \<Rightarrow> (nat \<Rightarrow> 'p) \<Rightarrow> (ThroughputPinger, wire_message, wire_message) scheduler \<Rightarrow>
    (bench_request, ThroughputPingPongRequest, ClientParams, 'p list, ('p, ThroughputPinger) ThroughputMaster, ThroughputClient)
      DistributedBenchmark" where
  "net_throughput paths new_path pick = \<lparr>db_label = ''NetThroughputPingPong'', db_msg_to_master_conf = throughput_conf,
     db_str_to_client_conf = str_to_client_conf, db_str_to_client_data = str_to_client_data paths,
     db_client_conf_to_str = client_conf_to_str, db_client_data_to_str = client_data_to_str paths,
     db_new_master = ThroughputMaster_new, db_master_setup = tm_setup, db_master_prepare = tm_prepare_iteration,
     db_master_run = tm_run_iteration pick, db_master_cleanup = tm_cleanup_iteration,
     db_new_client = ThroughputClient_new, db_client_setup = tk_setup new_path, db_client_prepare = tk_prepare_iteration,
     db_client_cleanup = tk_cleanup_iteration\<rparr>"

text \<open>A factory that knows one benchmark.\<close>

definition single_factory :: "('m, 'ms, 'k) AbstractDistributedBenchmark \<Rightarrow> ('m, 'ms, 'k) bench_factory" where
  "single_factory b label = (if label = ab_label b then Inr (DistributedBench b) else Inl NotFound)"

subsection \<open>Texts\<close>

lemma client_conf_roundtrip: "str_to_client_conf (client_conf_to_str c) = Inr c"
proof -
  have "CHR '','' \<notin> set (dec_digits (unat (cp_num_pongers c)))"
    using dec_digits_chars digit_char_neq(1) by metis
  moreover have "CHR '','' \<notin> set (show_bool (cp_static_only c))"
    by (simp add: show_bool_def)
  ultimately have "split_on (CHR '','') (client_conf_to_str c) = [dec_digits (unat (cp_num_pongers c)), show_bool (cp_static_only c)]"
    by (simp add: client_conf_to_str_def split_on_append split_on_no_sep)
  then show ?thesis
    by (simp add: str_to_client_conf_def parse_show_u32)
qed

text \<open>What the benchmarks rely on of the text of an actor path.\<close>

locale actor_paths =
  fixes paths :: "'p path_api"
  assumes reads_back: "path_from_str paths (path_to_string paths p) = Some p"
    and no_comma: "CHR '','' \<notin> set (path_to_string paths p)"
begin

lemma path_roundtrip: "path_to_data paths (path_to_string paths p) = Inr p"
  by (simp add: path_to_data_def reads_back)

lemma client_data_roundtrip: "d \<noteq> [] \<Longrightarrow> str_to_client_data paths (client_data_to_str paths d) = Inr d"
  using collect_results_Inr [of d]
  by (simp add: str_to_client_data_def client_data_to_str_def split_join no_comma comp_def path_roundtrip)

end

subsection \<open>The benchmarks keep to the protocol\<close>

definition pm_idle :: "u64 \<Rightarrow> ('p, Pinger) PingPongMaster \<Rightarrow> bool" where
  "pm_idle num m \<longleftrightarrow> pm_num m = Some num \<and> pm_system m = Some ()"

definition pm_prepared :: "u64 \<Rightarrow> nat option \<Rightarrow> ('p, Pinger) PingPongMaster \<Rightarrow> bool" where
  "pm_prepared num latch m \<longleftrightarrow>
     pm_num m = Some num \<and> pm_system m = Some () \<and> pm_pinger m = Some (Pinger_with num) \<and> pm_latch m = latch"

lemma await_net_pair: "await_latch net_pinger pick (one_pair (Pinger_with num) (Suc 0)) = Inr ()"
proof (rule await_one_pair)
  have "0 < net_pings num"
    by (simp add: net_pings_def unat_gt_0 word_neq_0_conv)
  then show "exchanges net_pinger (Pinger_with num) 1
      (map (\<lambda>k. (STATIC_PING_ID, serialise_static_ping STATIC_PING)) [0..<net_pings num])"
    using net_pp.iteration_ends [of num 1] by simp
qed

lemma collect_paths:
  "\<forall>d\<in>set ds. \<exists>p. f d = Inr p \<Longrightarrow> \<exists>ps. collect_results (map f ds) = Inr ps \<and> length ps = length ds \<and> (\<forall>p\<in>set ps. \<exists>d\<in>set ds. f d = Inr p)"
proof (induction ds)
  case (Cons d ds)
  then obtain p ps where "f d = Inr p" "collect_results (map f ds) = Inr ps" "length ps = length ds" "\<forall>p\<in>set ps. \<exists>d\<in>set ds. f d = Inr p"
    by auto
  then show ?case
    by (intro exI [of _ "p # ps"]) auto
qed simp

lemmas pm_simps = distributed_object_def net_ping_pong_def master_object_setup_def master_object_prepare_def client_object_setup_def
  pm_setup_def pm_prepare_iteration_def pm_run_iteration_def pm_cleanup_iteration_def pk_setup_def pk_prepare_iteration_def
  pk_cleanup_iteration_def pm_idle_def pm_prepared_def ping_pong_conf_def PingPongMaster_new_def PingPongClient_new_def

context actor_paths
begin

sublocale net_pp_bench: cooperative_bench "single_factory (distributed_object (net_ping_pong paths named_path pick))"
  "distributed_object (net_ping_pong paths named_path pick)" "PingPongRequest num" n "pm_idle num" "pm_prepared num (Some 1)"
  "pm_prepared num None" "\<lambda>_. True" "\<lambda>d. \<exists>p. d = path_to_string paths p" "\<lambda>k. k = \<lparr>pk_system = Some (), pk_ponger = Some ()\<rparr>"
  "\<lambda>k. k = \<lparr>pk_system = Some (), pk_ponger = Some ()\<rparr>" for named_path pick num n
proof
  let ?b = "distributed_object (net_ping_pong paths named_path pick)"
  show "single_factory ?b (ab_label ?b) = Inr (DistributedBench ?b)"
    by (simp add: single_factory_def)
  show "\<exists>ms'. ab_master_prepare ?b ds ms = Inr (Inr ms') \<and> pm_prepared num (Some 1) ms'"
    if ms: "pm_idle num ms" and ds: "ds \<noteq> []" "\<forall>d\<in>set ds. \<exists>p. d = path_to_string paths p" for ms ds
  proof -
    obtain ps where "collect_results (map (path_to_data paths) ds) = Inr ps" "length ps = length ds"
      using collect_paths [of ds "path_to_data paths"] ds(2) path_roundtrip by fastforce
    then show ?thesis
      using ms ds(1) by (auto simp: pm_simps rget_def split: option.split)
  qed
qed (auto simp: pm_simps Let_def await_net_pair)

lemmas net_ping_pong_cooperates = net_pp_bench.cooperative_bench_axioms

end

definition tm_idle :: "ThroughputPingPongRequest \<Rightarrow> ('p, ThroughputPinger) ThroughputMaster \<Rightarrow> bool" where
  "tm_idle c m \<longleftrightarrow> tm_params m = Some (Params_from_req c) \<and> tm_system m = Some () \<and> tm_pinger_refs m = []"

definition tm_prepared :: "ThroughputPingPongRequest \<Rightarrow> nat option \<Rightarrow> ('p, ThroughputPinger) ThroughputMaster \<Rightarrow> bool" where
  "tm_prepared c latch m \<longleftrightarrow>
    (let n = unat (tr_parallelism c);
         vpi = replicate n (ThroughputPinger_with (tr_messages_per_pair c) (tr_pipeline_size c))
     in tm_params m = Some (Params_from_req c) \<and> tm_system m = Some () \<and> tm_pinger_refs m = [0..<n] \<and>
       tm_pingers m = (if tr_static_only c then StaticOnly vpi else NonStatic vpi) \<and> tm_latch m = latch)"

definition tk_ready :: "ThroughputPingPongRequest \<Rightarrow> ThroughputClient \<Rightarrow> bool" where
  "tk_ready c k \<longleftrightarrow> tk_system k = Some () \<and> tk_pongers k \<noteq> EmptyComponents"

lemmas tm_simps = distributed_object_def net_throughput_def master_object_setup_def master_object_prepare_def client_object_setup_def
  tm_setup_def tm_run_iteration_def tm_cleanup_iteration_def tk_setup_def tk_prepare_iteration_def
  tk_cleanup_iteration_def tm_idle_def tm_prepared_def throughput_conf_def ThroughputMaster_new_def ThroughputClient_new_def
  tk_ready_def expect_result_def start_all_def kill_all_def Let_def

lemma tm_prepares:
  assumes "tm_idle c m" "ds \<noteq> []" "length (hd ds) = unat (tr_parallelism c)"
  shows "\<exists>m'. tm_prepare_iteration ds m = Inr m' \<and> tm_prepared c (Some (unat (tr_parallelism c))) m'"
  using assms
  by (cases ds) (auto simp: tm_prepare_iteration_def tm_idle_def tm_prepared_def rget_def rassert_def expect_result_def start_all_def
      Let_def Params_from_req_def map_replicate_const)

lemma tm_runs:
  assumes "0 < tr_messages_per_pair c" "0 < tr_pipeline_size c" "tm_prepared c (Some (unat (tr_parallelism c))) m"
  shows "\<exists>m'. tm_run_iteration pick m = Inr m' \<and> tm_prepared c None m'"
proof -
  let ?n = "unat (tr_parallelism c)"
  let ?start = "ThroughputPinger_with (tr_messages_per_pair c) (tr_pipeline_size c)"
  have pos: "0 < unat (tr_pipeline_size c)" "0 < unat (tr_messages_per_pair c)"
    using assms(1,2) by (simp_all add: unat_gt_0 word_neq_0_conv)
  have "await_either net_static_pinger net_indexed_pinger pick pick (\<lambda>k. k \<in> set [0..<?n])
      (if tr_static_only c then StaticOnly (replicate ?n ?start) else NonStatic (replicate ?n ?start)) ?n = Inr ()"
    by (rule await_either_pingers [OF net_static.pipe.iteration_ends [OF pos] net_indexed.pipe.iteration_ends [OF pos]]) simp
  then show ?thesis
    using assms(3) by (simp add: tm_simps)
qed

context actor_paths
begin

lemma net_throughput_cooperates:
  fixes new_path :: "nat \<Rightarrow> 'p" and pick :: "(ThroughputPinger, wire_message, wire_message) scheduler" and c :: ThroughputPingPongRequest
  assumes c: "0 < tr_messages_per_pair c" "0 < tr_pipeline_size c" "0 < tr_parallelism c"
  defines "b \<equiv> distributed_object (net_throughput paths new_path pick)"
  shows "cooperative_bench (single_factory b) b (ThroughputRequest c) n (tm_idle c) (tm_prepared c (Some (unat (tr_parallelism c))))
    (tm_prepared c None)
    (\<lambda>conf. conf = client_conf_to_str \<lparr>cp_num_pongers = tr_parallelism c, cp_static_only = tr_static_only c\<rparr>)
    (\<lambda>d. d = client_data_to_str paths (map new_path [0..<unat (tr_parallelism c)])) (tk_ready c) (tk_ready c)"
proof
  show "single_factory b (ab_label b) = Inr (DistributedBench b)"
    by (simp add: single_factory_def)
  have n: "0 < unat (tr_parallelism c)"
    using c(3) by (simp add: unat_gt_0 word_neq_0_conv)
  show "\<exists>ms'. ab_master_prepare b ds ms = Inr (Inr ms') \<and> tm_prepared c (Some (unat (tr_parallelism c))) ms'"
    if ms: "tm_idle c ms" and ds: "ds \<noteq> []" "\<forall>d\<in>set ds. d = client_data_to_str paths (map new_path [0..<unat (tr_parallelism c)])"
    for ms ds
  proof -
    have "str_to_client_data paths (client_data_to_str paths (map new_path [0..<unat (tr_parallelism c)])) =
        Inr (map new_path [0..<unat (tr_parallelism c)])"
      using n by (intro client_data_roundtrip) simp
    then obtain ps where ps: "collect_results (map (str_to_client_data paths) ds) = Inr ps" "length ps = length ds"
      "\<forall>p\<in>set ps. p = map new_path [0..<unat (tr_parallelism c)]"
      using collect_paths [of ds "str_to_client_data paths"] ds(2) by fastforce
    then have "ps \<noteq> []" "length (hd ps) = unat (tr_parallelism c)"
      using ds(1) by (cases ps; simp)+
    then show ?thesis
      using tm_prepares [OF ms, of ps] ps(1) by (auto simp: b_def distributed_object_def net_throughput_def master_object_prepare_def)
  qed
  show "\<exists>ms'. ab_master_run b ms = Inr ms' \<and> tm_prepared c None ms'" if "tm_prepared c (Some (unat (tr_parallelism c))) ms" for ms
    using tm_runs [OF c(1,2) that] by (simp add: b_def distributed_object_def net_throughput_def)
  show "\<exists>ms'. ab_master_cleanup b final t ms = Inr ms' \<and> (\<not> final \<longrightarrow> tm_idle c ms')" if "tm_prepared c None ms" for final t ms
    using that by (cases "tr_static_only c") (simp_all add: b_def tm_simps)
qed (use client_conf_roundtrip in \<open>auto simp: b_def tm_simps Params_from_req_def split: EitherComponents.split\<close>)

end

text \<open>Paths in which the client is numbered, read and written as decimal numbers, have the properties used.\<close>

interpretation decimal_paths: actor_paths "\<lparr>path_to_string = (\<lambda>w. dec_digits (unat w)), path_from_str = parse_u32\<rparr>"
proof
  fix p :: u32
  show "path_from_str \<lparr>path_to_string = (\<lambda>w. dec_digits (unat w)), path_from_str = parse_u32\<rparr>
      (path_to_string \<lparr>path_to_string = (\<lambda>w. dec_digits (unat w)), path_from_str = parse_u32\<rparr> p) = Some p"
    by (simp add: parse_show_u32)
  show "CHR '','' \<notin> set (path_to_string \<lparr>path_to_string = (\<lambda>w. dec_digits (unat w)), path_from_str = parse_u32\<rparr> p)"
    using dec_digits_chars digit_char_neq(1) by fastforce
qed

definition decimal_api :: "u32 path_api" where
  "decimal_api = \<lparr>path_to_string = (\<lambda>w. dec_digits (unat w)), path_from_str = parse_u32\<rparr>"

lemmas decimal_reads = decimal_paths.reads_back [folded decimal_api_def] decimal_paths.no_comma [folded decimal_api_def]

text \<open>The configuration of a client of the networked throughput benchmark survives its way through a string.\<close>

theorem net_throughput_conf_roundtrip: "str_to_client_conf (client_conf_to_str c) = Inr c"
  by (rule client_conf_roundtrip)



text \<open>The networked ping-pong benchmark does so for every number of messages, and also when the times are too noisy for the local
  runner to accept them.\<close>

theorem net_ping_pong_completes:
  fixes paths :: "'p path_api" and named_path :: 'p and pick :: "(Pinger, wire_message, wire_message) scheduler"
  assumes "\<And>p. path_from_str paths (path_to_string paths p) = Some p" "\<And>p. CHR '','' \<notin> set (path_to_string paths p)"
    and "ma_state m = READY" "ma_clients m \<noteq> []" "\<forall>p\<in>set (ma_clients m). \<exists>st. p = Alive st \<and> st \<noteq> ClientStopped"
  defines "b \<equiv> distributed_object (net_ping_pong paths named_path pick)"
  shows "run_distributed_benchmark (single_factory b) b clock (PingPongRequest num) m =
    Inr (m\<lparr>ma_clients := replicate (length (ma_clients m)) (Alive ClientReady)\<rparr>,
      Inr (TestSuccess (word_of_nat (runs_needed clock)) (run_times clock (runs_needed clock))))"
proof -
  have paths: "actor_paths paths"
    using assms(1,2) by unfold_locales
  note coop = actor_paths.net_ping_pong_cooperates [OF paths, of named_path pick num "ma_number_of_clients m", folded b_def]
  show ?thesis
    using cooperative_bench.distributed_run [OF coop assms(3) refl assms(4), of clock] assms(5)
    by (simp add: cooperative_bench.waiting_client_def [OF coop] test_result_def)
qed



end
