(* ===== verification/Spec2Isabelle.thy ===== *)
theory Spec2Isabelle
  imports Sequence_Transfer Graphs Register_System Broadcast_Client Raft_Comp Apsp_Run Streaming_Run Mixed_Chameneos Net_Ping_Pong_Bench
begin

text \<open>
  \<^bold>\<open>A verification of the Kompact benchmarks.\<close>

  The repository compares message-passing systems on a set of benchmarks; its Rust part (\<open>src/kompact\<close>,
  \<open>src/shared_rust\<close>, \<open>src/actix\<close>, \<open>src/riker\<close>) implements them on the actor and component library Kompact, some also on Actix and Riker. This development models the
  implementations that carry protocol or algorithmic logic and proves what makes them correct.

  \<^bold>\<open>The parts and how they interact.\<close>
  An \<^emph>\<open>atomic broadcast\<close> replicates a log: a client keeps a window of proposals in flight and sends them to the leader;
  a supervisor per node (\<open>PaxosComp\<close>) owns one replica and one leader election component per configuration, routes
  messages through a communicator, and on a reconfiguration hands the final sequence to the nodes that join, in segments
  pulled from the continued nodes. For Raft, a supervisor (\<open>RaftComp\<close>) owns a replica whose log is kept in files by a disk storage. An \<^emph>\<open>atomic register\<close> is run by one
  actor per node under a partitioning actor that opens the barriers of an iteration and collects the histories, which
  a checker tests for linearisability. The \<^emph>\<open>all-pairs shortest path\<close> benchmark breaks a graph into blocks, one actor per block,
  that exchange the results of each phase of the blocked Floyd-Warshall algorithm. The \<^emph>\<open>streaming windows\<close> benchmark has a source
  that sends events as far as its credit goes, a windower that returns credit and sends the median of each window, and a sink
  that counts windows until the iteration is over. The \<^emph>\<open>ping-pong\<close> and \<^emph>\<open>throughput\<close> benchmarks exchange messages between pairs of
  actors, on one node or over the network, and exist for the libraries Actix and Riker as well. All benchmarks are driven by a
  \<^emph>\<open>runner\<close> that repeats iterations until the run times are precise enough; a networked benchmark is driven by a master that
  has clients on other nodes set up and clean up their side.

  \<^bold>\<open>Conventions.\<close> Machine integers are words, so that arithmetic wraps where the code's does. A handler is a function from
  a message and a state to a new state with the list of its outputs, or to the panic it ends in
  (\<open>handled\<close> in \<open>Rust_Prelude\<close>); sending a message, setting a timer, counting down a latch or answering an ask is an output.
  Hash maps whose order or size matters are association lists with distinct keys, others are
  partial functions. Third-party code (the Paxos and Raft state machines, protobuf, actor paths, random numbers) is an argument
  of the definitions that call it, and what they rely on is a named hypothesis.

  \<^bold>\<open>Theories.\<close>
  \<^item> \<open>Rust_Prelude\<close>, \<open>Byte_Buffer\<close>, \<open>Reachability\<close>, \<open>File_Memory\<close>: panics and binds, machine words, big-endian buffers with the
    contract of a serialiser and its deserialiser (locales \<open>codec\<close>, \<open>exact_codec\<close>), runs of a component under an
    environment (inductive \<open>reach\<close>, locale \<open>safe_component\<close>), files and memory maps.
  \<^item> \<open>Ballots\<close>, \<open>Paxos_Messages\<close>, \<open>Reconfig_Messages\<close>, \<open>Broadcast_Messages\<close> model the wire formats of
    \<open>atomic_broadcast/messages.rs\<close> and \<open>leaderpaxos\<close>' ballots: every message decodes from its own bytes, most formats are
    exact; a proposed reconfiguration to no nodes is lost on the wire.
  \<^item> \<open>Quorums\<close>, \<open>Stop_Protocol\<close>: majorities, and the contract by which components answer a stop request once all their
    peers have stopped (locales, interpreted by the leader election and by the Paxos and Raft replicas).
  \<^item> \<open>Ballot_Leader_Election\<close> models \<open>BallotLeaderComp\<close> of \<open>paxos.rs\<close>: indicated ballots strictly increase along every run,
    a heartbeat round elects the maximal vote of a majority.
  \<^item> \<open>Memory_Storage\<close>, \<open>Communicator\<close>, \<open>Paxos_Replica\<close>, \<open>Paxos_Comp\<close>, \<open>Sequence_Transfer\<close> model \<open>storage.rs\<close> (module
    \<open>paxos\<close>), \<open>communicator.rs\<close> and the replica and supervisor of \<open>paxos.rs\<close>. Shown are the stop protocol of the replica, what is
    sent for decided entries, that pulling the final sequence reassembles the blocks that are requested
    whatever their order, exactly when nothing is missing, and four ways in which the transfer goes wrong.
  \<^item> \<open>Broadcast_Client\<close> models \<open>client.rs\<close>: the window invariant along every run, no panic under an allowed environment, the finished
    latch counted down exactly once, every id proposed once and in order, and the assertion that a repeated announcement
    of a dropped proposal violates.
  \<^item> \<open>Disk_Storage\<close> models \<open>DiskStorageCore\<close> of \<open>storage.rs\<close>: it refines an abstract log (locale \<open>log_store\<close>), with overwriting
    of tails, the errors of the readers and the behaviour beyond the memory map; the vote of the hard state is never
    written.
  \<^item> \<open>Raft_Replica\<close>, \<open>Raft_Run\<close>, \<open>Raft_Comp\<close> model \<open>raft.rs\<close>: the replica that drives a node of the \<open>raft\<close> crate, a parameter, and its
    supervisor. Shown are the log that is on disk after a run, the account of proposals, what is told of leaders, that a replica
    reconfigures once and is silent when removed, the stop protocol, and the way of a proposal to the leader.
  \<^item> \<open>Linearizability\<close> models the checker of \<open>kompact/src/lib.rs\<close>: it decides linearisability of complete histories.
  \<^item> \<open>Partitioning_Actor\<close>, \<open>Atomic_Register\<close>, \<open>Register_System\<close> model \<open>partitioning_actor.rs\<close> and the actor of
    \<open>atomicregister.rs\<close>: exactness of the wire format, the barriers of an iteration, tags that never decrease, what a majority of
    values leads to; and three runs of the composed system whose histories the checker rejects.
  \<^item> \<open>Graphs\<close> models \<open>helpers/graphs.rs\<close>: the loops compute shortest distances, the blocked algorithm agrees with them.
  \<^item> \<open>Apsp_Actors\<close>, \<open>Apsp_Run\<close> model the actors of \<open>all_pairs_shortest_path.rs\<close> and their runs, with the messages in flight as a multiset:
    for every order of deliveries the result is that of the monolithic algorithm, and the computation can always be completed.
  \<^item> \<open>Float64\<close>, \<open>Streaming_Windows\<close>, \<open>Window_Median\<close> model the source, windower and sink of \<open>streaming_windows.rs\<close> with the
    arithmetic of \<open>f64\<close> that the median uses: exact wire formats, and the precision of the median for every amplification.
    \<open>Streaming_System\<close>, \<open>Streaming_Run\<close> compose them with the iterations of the master: the flow control bounds the events in
    flight and never starves, the windows that are sent are those of the stream, and no handler panics.
  \<^item> \<open>Chameneos\<close>, \<open>Mixed_Chameneos\<close> model both versions of \<open>chameneos.rs\<close>, with the parcels in flight as a multiset: every run is
    finite, with an explicit bound, and ends with the requested number of meetings and an open latch; with actors the reports
    add up to two per meeting, with ports they may not.
  \<^item> \<open>Run_Statistics\<close>, \<open>Benchmark_Runner\<close> model \<open>shared_rust/src/benchmark_runner.rs\<close> and the local part of \<open>benchmark.rs\<close>: the \<open>f64\<close>
    operations of the relative standard error, and the loops of \<open>run\<close>, which refine a protocol of set-up, prepared, run and cleaned up
    iterations, whose number is the first at which the times are precise enough. What an instance has to keep to is the
    locale \<open>cooperative_instance\<close>.
  \<^item> \<open>Benchmark_Deployment\<close> models the distributed part of \<open>benchmark.rs\<close>, \<open>DistributedIteration\<close>, the client of \<open>benchmark_client.rs\<close> and the
    master of \<open>benchmark_master.rs\<close>: the check-in of clients, and, for benchmarks in the locale \<open>cooperative_bench\<close>, a complete
    distributed run over all clients and the failure of one.
  \<^item> \<open>Ping_Pong\<close> has pairs of actors with their messages in flight and the contract of a pinger (locale \<open>pinger_contract\<close>): in every
    order of deliveries the latch opens after the expected pings. \<open>Bench_Messages\<close> models \<open>messages.rs\<close>, \<open>Pingers\<close> the pingers and
    pongers of \<open>pingpong.rs\<close>, \<open>netpingpong.rs\<close>, \<open>throughput_pingpong.rs\<close> and \<open>net_throughput_pingpong.rs\<close>, \<open>Ported_Pingers\<close> those of the
    same name for Actix and Riker; all are interpretations of the contract.
  \<^item> \<open>Ping_Pong_Bench\<close>, \<open>Net_Ping_Pong_Bench\<close> model the benchmarks around them, with panics for actors that are missing or a latch that is
    never released, and compose them with the runner, and with master and clients.

  \<^bold>\<open>Bounds.\<close> Loops are structural recursions over the lists they iterate; the loop of a block actor is a partial function whose value
  \<open>None\<close> is a loop that does not return, and it is shown to return in every reachable state. Schedules of the composed register
  system are lists of deliveries. The sizes in hypotheses (proposals plus window below \<open>2\<^sup>6\<^sup>4 - 1\<close>, log within the memory map, timestamps of an iteration within 64 bits)
  are those for which the code's counters and offsets do not overflow.

  A scheduler in \<open>Ping_Pong_Bench\<close> is any function from the state to a delivery; draining the messages is a partial function with
  the value \<open>None\<close> for a wait that does not end, and it is shown to end.

  \<^bold>\<open>Not modelled.\<close> The generated protobuf and gRPC stubs, and the services, queues and threads that call the runner, the master and the
  client; command line, configuration and the set-up of actor systems, which a benchmark only holds as a handle; the set-up of the
  atomic broadcast, register and streaming benchmarks; the sized throughput benchmark (except for its message) and the Fibonacci
  benchmark; the ports of the other benchmarks to Actix and Riker; the component version of the register and of the shortest-path
  benchmark.
\<close>

end
